(* ===== verification/Prelude.thy ===== *)
theory Prelude
  imports Main "HOL-Library.Word"
begin

text \<open>
  The vocabulary the component theories share: machine words and byte strings, the outcome of a
  Rust function (a value, an \<open>Err\<close>, or a panic), slice and index operations that panic out of
  range, and big-endian integers with the casts of lengths to \<open>usize\<close>. UTF-8 is in \<open>Utf8\<close>, the rest of
  the standard library in \<open>Rust_Std\<close>, \<open>Rust_Str\<close> and \<open>Chars\<close>.
\<close>

named_theorems outcome_simps "how the outcome combinators reduce and invert"
named_theorems bytes_simps "lengths and inversions of the byte-level operations"

section \<open>Types\<close>

type_synonym u8 = "8 word"
type_synonym u16 = "16 word"
type_synonym u32 = "32 word"
type_synonym u64 = "64 word"

text \<open>A signed integer is the same word, read with \<^term>\<open>sint\<close>.\<close>

type_synonym i16 = "16 word"
type_synonym i32 = "32 word"
type_synonym i64 = "64 word"

type_synonym bytes = "u8 list"

text \<open>A Rust \<open>String\<close> or \<open>&str\<close> is its UTF-8 bytes; \<open>utf8_valid\<close> below says which byte lists
  are strings.\<close>

type_synonym rstring = bytes

text \<open>The bytes of an ASCII literal of the source, e.g. \<open>b"COMMIT"\<close>.\<close>

definition lit :: "string \<Rightarrow> bytes" where
  "lit s = map of_char s"

text \<open>The largest value of a \<open>usize\<close> plus one, on the 64-bit targets the program is built for.\<close>

abbreviation usize_limit :: nat where "usize_limit \<equiv> 18446744073709551616"

section \<open>Outcomes\<close>

text \<open>
  What a Rust call can do: return \<open>Ok\<close>, return \<open>Err\<close>, or panic. A function that returns no
  \<open>Result\<close> but can panic uses the same type and never returns \<open>Err\<close>.
\<close>

datatype ('e, 'a) res = Ok 'a | Err 'e | Panic

fun and_then :: "('e, 'a) res \<Rightarrow> ('a \<Rightarrow> ('e, 'b) res) \<Rightarrow> ('e, 'b) res" where
  "and_then (Ok a) f = f a"
| "and_then (Err e) f = Err e"
| "and_then Panic f = Panic"

fun map_err :: "('e \<Rightarrow> 'f) \<Rightarrow> ('e, 'a) res \<Rightarrow> ('f, 'a) res" where
  "map_err g (Ok a) = Ok a"
| "map_err g (Err e) = Err (g e)"
| "map_err g Panic = Panic"

fun is_ok :: "('e, 'a) res \<Rightarrow> bool" where
  "is_ok (Ok _) = True"
| "is_ok _ = False"

lemma and_then_cong [fundef_cong]:
  assumes "r = r'" and "\<And>a. r' = Ok a \<Longrightarrow> f a = g a"
  shows "and_then r f = and_then r' g"
  using assms by (cases r') auto

lemma and_then_eq_Ok [outcome_simps]:
  "and_then r f = Ok b \<longleftrightarrow> (\<exists>a. r = Ok a \<and> f a = Ok b)"
  by (cases r) auto

lemma and_then_eq_Err [outcome_simps]:
  "and_then r f = Err e \<longleftrightarrow> r = Err e \<or> (\<exists>a. r = Ok a \<and> f a = Err e)"
  by (cases r) auto

lemma and_then_eq_Panic [outcome_simps]:
  "and_then r f = Panic \<longleftrightarrow> r = Panic \<or> (\<exists>a. r = Ok a \<and> f a = Panic)"
  by (cases r) auto

lemma map_err_eq_Ok [outcome_simps]: "map_err g r = Ok a \<longleftrightarrow> r = Ok a"
  by (cases r) auto

lemma map_err_eq_Panic [outcome_simps]: "map_err g r = Panic \<longleftrightarrow> r = Panic"
  by (cases r) auto

lemma and_then_no_panic:
  assumes "r \<noteq> Panic" and "\<And>a. r = Ok a \<Longrightarrow> f a \<noteq> Panic"
  shows "and_then r f \<noteq> Panic"
  using assms by (cases r) auto

text \<open>A loop that stops at the first \<open>Err\<close> or panic, as \<open>?\<close> inside a \<open>for\<close> does.\<close>

fun traverse :: "('a \<Rightarrow> ('e, 'b) res) \<Rightarrow> 'a list \<Rightarrow> ('e, 'b list) res" where
  "traverse f [] = Ok []"
| "traverse f (x # xs) =
     and_then (f x) (\<lambda>y. and_then (traverse f xs) (\<lambda>ys. Ok (y # ys)))"

lemma traverse_eq_Ok: "traverse f xs = Ok ys \<longleftrightarrow> list_all2 (\<lambda>x y. f x = Ok y) xs ys"
  by (induction xs arbitrary: ys) (auto simp: outcome_simps list_all2_Cons1)

lemma traverse_no_panic: "\<forall>x \<in> set xs. f x \<noteq> Panic \<Longrightarrow> traverse f xs \<noteq> Panic"
  by (induction xs) (auto simp: outcome_simps)

lemma traverse_no_err: "\<forall>x \<in> set xs. \<forall>e. f x \<noteq> Err e \<Longrightarrow> traverse f xs \<noteq> Err e"
  by (induction xs) (auto simp: outcome_simps)

lemma traverse_map_Ok: "\<forall>x \<in> set xs. f x = Ok (g x) \<Longrightarrow> traverse f xs = Ok (map g xs)"
  by (induction xs) auto

section \<open>Indexing and slicing\<close>

text \<open>\<open>xs[i]\<close> and \<open>&xs[i..j]\<close>: a panic where Rust panics.\<close>

definition idx :: "'a list \<Rightarrow> nat \<Rightarrow> ('e, 'a) res" where
  "idx xs i = (if i < length xs then Ok (xs ! i) else Panic)"

definition slice :: "'a list \<Rightarrow> nat \<Rightarrow> nat \<Rightarrow> ('e, 'a list) res" where
  "slice xs i j = (if i \<le> j \<and> j \<le> length xs then Ok (take (j - i) (drop i xs)) else Panic)"

definition slice_from :: "'a list \<Rightarrow> nat \<Rightarrow> ('e, 'a list) res" where
  "slice_from xs i = (if i \<le> length xs then Ok (drop i xs) else Panic)"

lemma idx_eq_Ok [outcome_simps]: "idx xs i = Ok x \<longleftrightarrow> i < length xs \<and> x = xs ! i"
  by (auto simp: idx_def)

lemma idx_eq_Err [outcome_simps]: "idx xs i \<noteq> Err e"
  by (simp add: idx_def)

lemma idx_eq_Panic [outcome_simps]: "idx xs i = Panic \<longleftrightarrow> length xs \<le> i"
  by (auto simp: idx_def)

lemma slice_eq_Ok [outcome_simps]:
  "slice xs i j = Ok ys \<longleftrightarrow> i \<le> j \<and> j \<le> length xs \<and> ys = take (j - i) (drop i xs)"
  by (auto simp: slice_def)

lemma slice_eq_Err [outcome_simps]: "slice xs i j \<noteq> Err e"
  by (simp add: slice_def)

lemma slice_eq_Panic [outcome_simps]: "slice xs i j = Panic \<longleftrightarrow> \<not> (i \<le> j \<and> j \<le> length xs)"
  by (auto simp: slice_def)

lemma slice_from_eq_Ok [outcome_simps]:
  "slice_from xs i = Ok ys \<longleftrightarrow> i \<le> length xs \<and> ys = drop i xs"
  by (auto simp: slice_from_def)

lemma slice_from_eq_Err [outcome_simps]: "slice_from xs i \<noteq> Err e"
  by (simp add: slice_from_def)

lemma slice_from_eq_Panic [outcome_simps]: "slice_from xs i = Panic \<longleftrightarrow> length xs < i"
  by (auto simp: slice_from_def)

lemma slice_append [simp]:
  "j \<le> length xs \<Longrightarrow> slice (xs @ ys) i j = slice xs i j"
  by (auto simp: slice_def)

section \<open>Big-endian integers\<close>

text \<open>\<open>be_bytes k n\<close>: the low \<open>k\<close> bytes of \<open>n\<close>, most significant first. \<open>of_be\<close> reads them back.\<close>

fun be_bytes :: "nat \<Rightarrow> nat \<Rightarrow> bytes" where
  "be_bytes 0 n = []"
| "be_bytes (Suc k) n = be_bytes k (n div 256) @ [word_of_nat n]"

definition of_be :: "bytes \<Rightarrow> nat" where
  "of_be bs = foldl (\<lambda>a b. a * 256 + unat b) 0 bs"

lemma length_be_bytes [simp, bytes_simps]: "length (be_bytes k n) = k"
  by (induction k arbitrary: n) auto

lemma of_be_Nil [simp]: "of_be [] = 0"
  by (simp add: of_be_def)

lemma of_be_snoc: "of_be (bs @ [b]) = of_be bs * 256 + unat b"
  by (simp add: of_be_def)

lemma of_be_be_bytes: "of_be (be_bytes k n) = n mod 256 ^ k"
proof (induction k arbitrary: n)
  case 0
  then show ?case by simp
next
  case (Suc k)
  have "of_be (be_bytes (Suc k) n) = (n div 256) mod 256 ^ k * 256 + n mod 256"
    by (simp add: of_be_snoc Suc.IH unat_of_nat)
  also have "\<dots> = n mod (256 * 256 ^ k)"
    by (simp add: mod_mult2_eq ac_simps)
  finally show ?case by simp
qed

lemma of_be_less: "of_be bs < 256 ^ length bs"
proof (induction bs rule: rev_induct)
  case Nil
  then show ?case by simp
next
  case (snoc b bs)
  have "unat b < 256"
    using unsigned_less [of b, where ?'a = nat] by simp
  with snoc have "of_be bs * 256 + unat b < (of_be bs + 1) * 256"
    by simp
  also have "\<dots> \<le> 256 ^ length bs * 256"
    using snoc by (intro mult_le_mono) auto
  finally show ?case by (simp add: of_be_snoc mult.commute)
qed

lemma be_bytes_of_be: "be_bytes (length bs) (of_be bs) = bs"
proof (induction bs rule: rev_induct)
  case Nil
  then show ?case by simp
next
  case (snoc b bs)
  have b: "unat b < 256"
    using unsigned_less [of b, where ?'a = nat] by simp
  have "unat (word_of_nat (of_be bs * 256 + unat b) :: u8) = unat b"
    using b by (simp only: unat_of_nat) simp
  then have "(word_of_nat (of_be bs * 256 + unat b) :: u8) = b"
    by (rule unsigned_word_eqI)
  with snoc b show ?case by (simp add: of_be_snoc)
qed

definition be16 :: "16 word \<Rightarrow> bytes" where "be16 w = be_bytes 2 (unat w)"
definition be32 :: "32 word \<Rightarrow> bytes" where "be32 w = be_bytes 4 (unat w)"
definition be64 :: "64 word \<Rightarrow> bytes" where "be64 w = be_bytes 8 (unat w)"

definition from_be16 :: "bytes \<Rightarrow> 16 word" where "from_be16 bs = word_of_nat (of_be bs)"
definition from_be32 :: "bytes \<Rightarrow> 32 word" where "from_be32 bs = word_of_nat (of_be bs)"
definition from_be64 :: "bytes \<Rightarrow> 64 word" where "from_be64 bs = word_of_nat (of_be bs)"

lemma length_be [simp, bytes_simps]:
  "length (be16 w) = 2" "length (be32 x) = 4" "length (be64 y) = 8"
  by (simp_all add: be16_def be32_def be64_def)

lemma from_be16_be16 [simp]: "from_be16 (be16 w) = w"
  using unsigned_less [of w, where ?'a = nat] by (simp add: from_be16_def be16_def of_be_be_bytes)

lemma from_be32_be32 [simp]: "from_be32 (be32 w) = w"
  using unsigned_less [of w, where ?'a = nat] by (simp add: from_be32_def be32_def of_be_be_bytes)

lemma from_be64_be64 [simp]: "from_be64 (be64 w) = w"
  using unsigned_less [of w, where ?'a = nat] by (simp add: from_be64_def be64_def of_be_be_bytes)

lemma be32_from_be32: "length bs = 4 \<Longrightarrow> be32 (from_be32 bs) = bs"
  using of_be_less [of bs] be_bytes_of_be [of bs]
  by (simp add: be32_def from_be32_def unat_of_nat)

lemma be64_from_be64: "length bs = 8 \<Longrightarrow> be64 (from_be64 bs) = bs"
  using of_be_less [of bs] be_bytes_of_be [of bs]
  by (simp add: be64_def from_be64_def unat_of_nat)

lemma be16_from_be16: "length bs = 2 \<Longrightarrow> be16 (from_be16 bs) = bs"
  using of_be_less [of bs] be_bytes_of_be [of bs]
  by (simp add: be16_def from_be16_def unat_of_nat)

text \<open>\<open>iN::from_be_bytes([b[off], b[off+1], ...])\<close>: a panic when a byte is out of range.\<close>

definition be16_at :: "bytes \<Rightarrow> nat \<Rightarrow> ('e, 16 word) res" where
  "be16_at bs off = and_then (slice bs off (off + 2)) (\<lambda>w. Ok (from_be16 w))"

definition be32_at :: "bytes \<Rightarrow> nat \<Rightarrow> ('e, 32 word) res" where
  "be32_at bs off = and_then (slice bs off (off + 4)) (\<lambda>w. Ok (from_be32 w))"

lemma be16_at_eq_Ok [outcome_simps]:
  "be16_at bs off = Ok w \<longleftrightarrow> off + 2 \<le> length bs \<and> w = from_be16 (take 2 (drop off bs))"
  by (auto simp: be16_at_def outcome_simps)

lemma be16_at_eq_Panic [outcome_simps]: "be16_at bs off = Panic \<longleftrightarrow> length bs < off + 2"
  by (auto simp: be16_at_def outcome_simps)

lemma be16_at_eq_Err [outcome_simps]: "be16_at bs off \<noteq> Err e"
  by (simp add: be16_at_def outcome_simps)

lemma be32_at_eq_Ok [outcome_simps]:
  "be32_at bs off = Ok w \<longleftrightarrow> off + 4 \<le> length bs \<and> w = from_be32 (take 4 (drop off bs))"
  by (auto simp: be32_at_def outcome_simps)

lemma be32_at_eq_Panic [outcome_simps]: "be32_at bs off = Panic \<longleftrightarrow> length bs < off + 4"
  by (auto simp: be32_at_def outcome_simps)

lemma be32_at_eq_Err [outcome_simps]: "be32_at bs off \<noteq> Err e"
  by (simp add: be32_at_def outcome_simps)

text \<open>A 32-bit or 16-bit integer written at the read position is read back.\<close>

lemma be32_at_append [simp]:
  "length pre = off \<Longrightarrow> be32_at (pre @ be32 w @ post) off = Ok w"
  by (simp add: outcome_simps)

lemma be16_at_append [simp]:
  "length pre = off \<Longrightarrow> be16_at (pre @ be16 w @ post) off = Ok w"
  by (simp add: outcome_simps)

text \<open>\<open>x as usize\<close> of an \<open>i32\<close> or \<open>i16\<close>: sign-extended to 64 bits, then read as unsigned.\<close>

definition usize_of_i32 :: "i32 \<Rightarrow> nat" where
  "usize_of_i32 w = nat (sint w mod 2 ^ 64)"

definition usize_of_i16 :: "i16 \<Rightarrow> nat" where
  "usize_of_i16 w = nat (sint w mod 2 ^ 64)"

lemma sint_i32_range: "- (2 ^ 31) \<le> sint (w :: i32) \<and> sint w < 2 ^ 31"
  using sint_greater_eq [of w] sint_less [of w] by simp

lemma sint_i16_range: "- (2 ^ 15) \<le> sint (w :: i16) \<and> sint w < 2 ^ 15"
  using sint_greater_eq [of w] sint_less [of w] by simp

lemma usize_of_i32_nonneg: "0 \<le> sint w \<Longrightarrow> usize_of_i32 w = nat (sint w)"
  using sint_i32_range [of w] by (simp add: usize_of_i32_def)

lemma usize_of_i16_nonneg: "0 \<le> sint w \<Longrightarrow> usize_of_i16 w = nat (sint w)"
  using sint_i16_range [of w] by (simp add: usize_of_i16_def)

text \<open>\<open>n as i32\<close> of a \<open>usize\<close> keeps the low 32 bits; below \<open>2^31\<close> it is the number itself.\<close>

lemma sint_of_nat_i32: "n < 2 ^ 31 \<Longrightarrow> sint (word_of_nat n :: i32) = int n"
  by (simp add: signed_of_nat signed_take_bit_int_eq_self)

lemma sint_of_nat_i16: "n < 2 ^ 15 \<Longrightarrow> sint (word_of_nat n :: i16) = int n"
  by (simp add: signed_of_nat signed_take_bit_int_eq_self)

end
