(* ===== verification/Pool.thy ===== *)
theory Pool
  imports Prelude
begin

text \<open>
  \<open>pg-pool/src/pool.rs\<close>: the connection pool. Callers, spawned returns, the maintenance task and a
  drain interleave, so each of them is a task standing at a program point, and one action lets one task
  go on to its next point (or lets the environment act: a timeout, a cancelled future, a dropped guard,
  a connection going bad). A step is the code between two awaits, cut further where a counter or flag is
  read and acted on later. Connections are numbers; \<open>connect\<close> and \<open>reset\<close> succeed or fail as the action
  says. The theorems: the counters count what they claim, no connection is ever in two hands, the
  capacity is never exceeded, waiters are served in their order.
\<close>

section \<open>State\<close>

record pool_config =
  pc_min_idle :: nat
  pc_max_size :: nat
  pc_test_on_checkout :: bool

datatype pool_error = Connect | Draining | Timeout | Closed | AtCapacity

datatype hook = OnCreate nat | BeforeAcquire | OnCheckout nat | OnCheckin nat | AfterRelease | OnDestroy

text \<open>Why a connection is created: for the caller of \<open>get\<close>, for a parked waiter after one was destroyed,
  or for the idle list by the maintenance task, with how many are to follow.\<close>

datatype purpose = ForGet | ForWaiter | ForIdle nat

text \<open>Where a task stands. A task with a connection number holds that connection.\<close>

datatype task =
    TryIdle
  | CheckCapacity
  | Reserve purpose
  | BackOut purpose
  | Connecting purpose
  | Obtained nat
  | Queueing
  | Waiting nat
  | Cleanup
  | Held nat
  | Returning nat
  | Resetting nat
  | CheckDraining nat
  | Handing nat
  | Parking nat
  | Provision
  | ProvisionHand nat
  | ProvisionPark nat
  | Released
  | Evict
  | Refill
  | MaintenancePark nat nat
  | WarmUp nat
  | WarmPark nat nat nat
  | DrainIdle
  | DrainWaiters
  | DrainCheck
  | DrainWait
  | Failed pool_error
  | Finished

text \<open>The pool. \<open>pl_sent\<close> are the connections in oneshot channels whose receiver has not taken them;
  \<open>pl_pending\<close> the connections that report pending data; \<open>pl_lost\<close> counts, for the proofs only, the
  slots of \<open>pl_total\<close> whose connection was dropped with a cancelled \<open>get\<close>.\<close>

record pool =
  pl_idle :: "(nat \<times> nat) list"
  pl_waiters :: "nat list"
  pl_total :: nat
  pl_in_use :: nat
  pl_waiter_count :: nat
  pl_checkouts :: nat
  pl_created :: nat
  pl_destroyed :: nat
  pl_timeouts :: nat
  pl_draining :: bool
  pl_notify :: bool
  pl_tasks :: "task list"
  pl_sent :: "(nat \<times> nat) list"
  pl_pending :: "nat set"
  pl_now :: nat
  pl_next :: nat
  pl_next_waiter :: nat
  pl_hooks :: "hook list"
  pl_lost :: nat

text \<open>\<open>fetch_sub\<close> on an \<open>AtomicUsize\<close> wraps. The counters are bounded by the number of tasks and
  connections, so \<open>fetch_add\<close> is taken not to.\<close>

definition fetch_sub :: "nat \<Rightarrow> nat \<Rightarrow> nat" where
  "fetch_sub a b = (if b \<le> a then a - b else a + usize_limit - b)"

definition call_hook :: "hook \<Rightarrow> pool \<Rightarrow> pool" where
  "call_hook h s = s\<lparr>pl_hooks := pl_hooks s @ [h]\<rparr>"

definition become :: "nat \<Rightarrow> task \<Rightarrow> pool \<Rightarrow> pool" where
  "become i t s = s\<lparr>pl_tasks := (pl_tasks s)[i := t]\<rparr>"

definition spawn :: "task \<Rightarrow> pool \<Rightarrow> pool" where
  "spawn t s = s\<lparr>pl_tasks := pl_tasks s @ [t]\<rparr>"

section \<open>Operations\<close>

definition destroy_conn_stats :: "pool \<Rightarrow> pool" where
  "destroy_conn_stats s = s\<lparr>pl_total := fetch_sub (pl_total s) 1, pl_destroyed := pl_destroyed s + 1\<rparr>"

definition maybe_notify_drain :: "pool \<Rightarrow> pool" where
  "maybe_notify_drain s = (if pl_draining s \<and> pl_total s = 0 then s\<lparr>pl_notify := True\<rparr> else s)"

text \<open>\<open>try_get_idle\<close>, under the lock: destroys entries from the front until one is usable.\<close>

fun try_get_idle_from :: "bool \<Rightarrow> (nat \<times> nat) list \<Rightarrow> pool \<Rightarrow> nat option \<times> pool" where
  "try_get_idle_from test [] s = (None, s\<lparr>pl_idle := []\<rparr>)"
| "try_get_idle_from test ((c, expires_at) # rest) s =
     (if pl_now s \<ge> expires_at \<or> (test \<and> c \<in> pl_pending s)
      then try_get_idle_from test rest (call_hook OnDestroy (destroy_conn_stats s))
      else (Some c, s\<lparr>pl_idle := rest\<rparr>))"

definition try_get_idle :: "pool_config \<Rightarrow> pool \<Rightarrow> nat option \<times> pool" where
  "try_get_idle cfg s = try_get_idle_from (pc_test_on_checkout cfg) (pl_idle s) s"

text \<open>\<open>create_connection\<close> once the handshake is done.\<close>

definition create_connection :: "pool \<Rightarrow> nat \<times> pool" where
  "create_connection s =
     (let c = pl_next s
      in (c, call_hook (OnCreate c) (s\<lparr>pl_next := Suc c, pl_created := pl_created s + 1\<rparr>)))"

text \<open>A checkout is counted and the caller has its guard.\<close>

definition check_out :: "nat \<Rightarrow> nat \<Rightarrow> pool \<Rightarrow> pool" where
  "check_out i c s =
     become i (Held c)
       (call_hook (OnCheckout c) (s\<lparr>pl_in_use := pl_in_use s + 1, pl_checkouts := pl_checkouts s + 1\<rparr>))"

text \<open>The loop over the waiters: \<open>send\<close> fails when the receiver is gone. Its first part gives the waiter
  that takes the connection, and the waiters left.\<close>

fun first_live :: "(nat \<Rightarrow> bool) \<Rightarrow> nat list \<Rightarrow> nat option \<times> nat list" where
  "first_live live [] = (None, [])"
| "first_live live (w # ws) = (if live w then (Some w, ws) else first_live live ws)"

definition live_waiter :: "pool \<Rightarrow> nat \<Rightarrow> bool" where
  "live_waiter s w \<longleftrightarrow> Waiting w \<in> set (pl_tasks s)"

definition hand_over :: "nat \<Rightarrow> pool \<Rightarrow> bool \<times> pool" where
  "hand_over c s =
     (case first_live (live_waiter s) (pl_waiters s) of
        (Some w, ws) \<Rightarrow> (True, s\<lparr>pl_waiters := ws, pl_sent := (w, c) # pl_sent s\<rparr>)
      | (None, ws) \<Rightarrow> (False, s\<lparr>pl_waiters := ws\<rparr>))"

definition park :: "nat \<Rightarrow> nat \<Rightarrow> pool \<Rightarrow> pool" where
  "park c life s = s\<lparr>pl_idle := pl_idle s @ [(c, pl_now s + life)]\<rparr>"

text \<open>After \<open>create_and_track\<close>: with the connection, or with its error.\<close>

fun after_create :: "purpose \<Rightarrow> nat \<Rightarrow> task" where
  "after_create ForGet c = Obtained c"
| "after_create ForWaiter c = ProvisionHand c"
| "after_create (ForIdle n) c = MaintenancePark c n"

fun after_failure :: "purpose \<Rightarrow> task" where
  "after_failure ForGet = Queueing"
| "after_failure ForWaiter = Released"
| "after_failure (ForIdle n) = Finished"

text \<open>\<open>get\<close>, between its awaits. \<open>Cleanup\<close> is the arm of the elapsed timeout.\<close>

definition get_step :: "pool_config \<Rightarrow> nat \<Rightarrow> pool \<Rightarrow> pool option" where
  "get_step cfg i s =
     (case pl_tasks s ! i of
        TryIdle \<Rightarrow>
          (case try_get_idle cfg s of
             (Some c, s) \<Rightarrow> Some (become i (Obtained c) s)
           | (None, s) \<Rightarrow> Some (become i CheckCapacity s))
      | Obtained c \<Rightarrow> Some (check_out i c s)
      | CheckCapacity \<Rightarrow>
          Some (become i (if pl_total s < pc_max_size cfg then Reserve ForGet else Queueing) s)
      | Queueing \<Rightarrow>
          Some (become i (Waiting (pl_next_waiter s))
            (s\<lparr>pl_waiters := pl_waiters s @ [pl_next_waiter s], pl_next_waiter := Suc (pl_next_waiter s),
               pl_waiter_count := pl_waiter_count s + 1\<rparr>))
      | Waiting w \<Rightarrow>
          (case map_of (pl_sent s) w of
             Some c \<Rightarrow>
               Some (check_out i c
                 (s\<lparr>pl_sent := filter (\<lambda>e. fst e \<noteq> w) (pl_sent s),
                    pl_waiter_count := fetch_sub (pl_waiter_count s) 1\<rparr>))
           | None \<Rightarrow>
               if w \<notin> set (pl_waiters s)
               then Some (become i (Failed Closed)
                      (s\<lparr>pl_waiter_count := fetch_sub (pl_waiter_count s) 1\<rparr>))
               else None)
      | Cleanup \<Rightarrow>
          Some (become i (Failed Timeout)
            (s\<lparr>pl_waiters := filter (live_waiter s) (pl_waiters s),
               pl_waiter_count := fetch_sub (pl_waiter_count s) 1\<rparr>))
      | _ \<Rightarrow> None)"

text \<open>\<open>create_and_track\<close>: counts the slot first and gives it back when the pool is full or the connect fails.\<close>

definition create_step :: "pool_config \<Rightarrow> nat \<Rightarrow> bool \<Rightarrow> pool \<Rightarrow> pool option" where
  "create_step cfg i ok s =
     (case pl_tasks s ! i of
        Reserve p \<Rightarrow>
          Some (become i (if pl_total s \<ge> pc_max_size cfg then BackOut p else Connecting p)
            (s\<lparr>pl_total := pl_total s + 1\<rparr>))
      | BackOut p \<Rightarrow> Some (become i (after_failure p) (s\<lparr>pl_total := fetch_sub (pl_total s) 1\<rparr>))
      | Connecting p \<Rightarrow>
          if ok then (case create_connection s of (c, s) \<Rightarrow> Some (become i (after_create p c) s))
          else Some (become i (after_failure p) (s\<lparr>pl_total := fetch_sub (pl_total s) 1\<rparr>))
      | _ \<Rightarrow> None)"

text \<open>\<open>return_conn_async\<close>: a connection that is bad or cannot be reset is destroyed, any other goes to a
  waiter or to the idle list.\<close>

definition return_step :: "nat \<Rightarrow> bool \<Rightarrow> nat \<Rightarrow> pool \<Rightarrow> pool option" where
  "return_step i ok life s =
     (case pl_tasks s ! i of
        Returning c \<Rightarrow>
          (let s = s\<lparr>pl_in_use := fetch_sub (pl_in_use s) 1\<rparr>
           in if c \<in> pl_pending s
              then Some (become i Provision (call_hook OnDestroy (destroy_conn_stats s)))
              else Some (become i (Resetting c) s))
      | Resetting c \<Rightarrow>
          if ok then Some (become i (CheckDraining c) (call_hook (OnCheckin c) s))
          else Some (become i Provision (call_hook OnDestroy (destroy_conn_stats s)))
      | CheckDraining c \<Rightarrow>
          if pl_draining s
          then Some (become i Released (call_hook OnDestroy (destroy_conn_stats s)))
          else Some (become i (Handing c) s)
      | Handing c \<Rightarrow>
          (case hand_over c s of
             (True, s) \<Rightarrow> Some (become i Finished (call_hook AfterRelease s))
           | (False, s) \<Rightarrow> Some (become i (Parking c) s))
      | Parking c \<Rightarrow> Some (become i Finished (call_hook AfterRelease (park c life s)))
      | Released \<Rightarrow> Some (become i Finished (maybe_notify_drain (call_hook AfterRelease s)))
      | _ \<Rightarrow> None)"

text \<open>\<open>try_provision_for_waiter\<close>.\<close>

definition provision_step :: "nat \<Rightarrow> nat \<Rightarrow> pool \<Rightarrow> pool option" where
  "provision_step i life s =
     (case pl_tasks s ! i of
        Provision \<Rightarrow>
          Some (become i (if pl_draining s \<or> pl_waiters s = [] then Released else Reserve ForWaiter) s)
      | ProvisionHand c \<Rightarrow>
          (case hand_over c s of
             (True, s) \<Rightarrow> Some (become i Released s)
           | (False, s) \<Rightarrow> Some (become i (ProvisionPark c) s))
      | ProvisionPark c \<Rightarrow> Some (become i Released (park c life s))
      | _ \<Rightarrow> None)"

text \<open>A round of \<open>maintenance_task\<close>: evict what expired, then refill up to \<open>min_idle\<close>.\<close>

definition maintenance_step :: "pool_config \<Rightarrow> nat \<Rightarrow> nat \<Rightarrow> pool \<Rightarrow> pool option" where
  "maintenance_step cfg i life s =
     (case pl_tasks s ! i of
        Evict \<Rightarrow>
          if pl_draining s then Some (become i Finished s)
          else
            (let kept = filter (\<lambda>(c, expires_at). pl_now s < expires_at) (pl_idle s);
                 evicted = length (pl_idle s) - length kept
             in Some (become i Refill
                  (s\<lparr>pl_idle := kept, pl_total := fetch_sub (pl_total s) evicted,
                     pl_destroyed := pl_destroyed s + evicted\<rparr>)))
      | Refill \<Rightarrow>
          (let current_idle = pl_total s - pl_in_use s
           in if current_idle < pc_min_idle cfg \<and> pl_total s < pc_max_size cfg
              then Some (become i (Reserve (ForIdle
                     (min (pc_min_idle cfg - current_idle) (pc_max_size cfg - pl_total s) - 1))) s)
              else Some (become i Finished s))
      | MaintenancePark c n \<Rightarrow>
          Some (become i (if n = 0 then Finished else Reserve (ForIdle (n - 1))) (park c life s))
      | _ \<Rightarrow> None)"

text \<open>\<open>warm_up\<close>, with the number of connections still to create.\<close>

definition warm_up_step :: "nat \<Rightarrow> bool \<Rightarrow> nat \<Rightarrow> pool \<Rightarrow> pool option" where
  "warm_up_step i ok life s =
     (case pl_tasks s ! i of
        WarmUp n \<Rightarrow>
          if n = 0 \<or> \<not> ok then Some (become i Finished s)
          else (case create_connection s of
                  (c, s) \<Rightarrow> Some (become i (WarmPark c (pl_now s + life) (n - 1)) s))
      | WarmPark c expires_at n \<Rightarrow>
          Some (become i (WarmUp n)
            (s\<lparr>pl_idle := pl_idle s @ [(c, expires_at)], pl_total := pl_total s + 1\<rparr>))
      | _ \<Rightarrow> None)"

text \<open>\<open>drain\<close>: the idle list, the waiters, then waiting for the rest.\<close>

definition drain_step :: "nat \<Rightarrow> pool \<Rightarrow> pool option" where
  "drain_step i s =
     (case pl_tasks s ! i of
        DrainIdle \<Rightarrow>
          (let n = length (pl_idle s)
           in Some (become i DrainWaiters
                (s\<lparr>pl_idle := [], pl_total := fetch_sub (pl_total s) n,
                   pl_destroyed := pl_destroyed s + n, pl_hooks := pl_hooks s @ replicate n OnDestroy\<rparr>)))
      | DrainWaiters \<Rightarrow>
          Some (become i DrainCheck
            (s\<lparr>pl_waiters := [], pl_waiter_count := fetch_sub (pl_waiter_count s) (length (pl_waiters s))\<rparr>))
      | DrainCheck \<Rightarrow> Some (become i (if pl_total s = 0 then Finished else DrainWait) s)
      | DrainWait \<Rightarrow>
          if pl_notify s then Some (become i DrainCheck (s\<lparr>pl_notify := False\<rparr>)) else None
      | _ \<Rightarrow> None)"

text \<open>One step of task \<open>i\<close>. The outcome of the connect or reset it waits for is \<open>ok\<close>, the lifetime drawn
  is \<open>life\<close>; a task that must wait has no step.\<close>

definition run_task :: "pool_config \<Rightarrow> nat \<Rightarrow> bool \<Rightarrow> nat \<Rightarrow> pool \<Rightarrow> pool option" where
  "run_task cfg i ok life s =
     (case pl_tasks s ! i of
        TryIdle \<Rightarrow> get_step cfg i s
      | Obtained c \<Rightarrow> get_step cfg i s
      | CheckCapacity \<Rightarrow> get_step cfg i s
      | Queueing \<Rightarrow> get_step cfg i s
      | Waiting w \<Rightarrow> get_step cfg i s
      | Cleanup \<Rightarrow> get_step cfg i s
      | Reserve p \<Rightarrow> create_step cfg i ok s
      | BackOut p \<Rightarrow> create_step cfg i ok s
      | Connecting p \<Rightarrow> create_step cfg i ok s
      | Returning c \<Rightarrow> return_step i ok life s
      | Resetting c \<Rightarrow> return_step i ok life s
      | CheckDraining c \<Rightarrow> return_step i ok life s
      | Handing c \<Rightarrow> return_step i ok life s
      | Parking c \<Rightarrow> return_step i ok life s
      | Released \<Rightarrow> return_step i ok life s
      | Provision \<Rightarrow> provision_step i life s
      | ProvisionHand c \<Rightarrow> provision_step i life s
      | ProvisionPark c \<Rightarrow> provision_step i life s
      | Evict \<Rightarrow> maintenance_step cfg i life s
      | Refill \<Rightarrow> maintenance_step cfg i life s
      | MaintenancePark c n \<Rightarrow> maintenance_step cfg i life s
      | WarmUp n \<Rightarrow> warm_up_step i ok life s
      | WarmPark c expires_at n \<Rightarrow> warm_up_step i ok life s
      | DrainIdle \<Rightarrow> drain_step i s
      | DrainWaiters \<Rightarrow> drain_step i s
      | DrainCheck \<Rightarrow> drain_step i s
      | DrainWait \<Rightarrow> drain_step i s
      | _ \<Rightarrow> None)"

lemmas run_defs =
  run_task_def get_step_def create_step_def return_step_def provision_step_def maintenance_step_def
  warm_up_step_def drain_step_def

text \<open>What can happen: a call, a tick of the maintenance interval, a step of a task, the checkout timeout,
  a caller dropping its \<open>get\<close> future, a guard dropped or taken, a connection going bad, time passing.\<close>

datatype pool_action =
    CallGet
  | CallDrain
  | CallWarmUp nat
  | MaintenanceTick
  | Run nat bool nat
  | TimeUp nat
  | Cancel nat
  | DropGuard nat
  | TakeGuard nat
  | MarkPending nat
  | Elapse nat

text \<open>A future can only be dropped where it waits: for the idle lock, the connect, the waiter lock or the
  oneshot. \<open>WaiterCountGuard\<close> then takes the waiter out of the count.\<close>

definition cancel_get :: "nat \<Rightarrow> pool \<Rightarrow> pool option" where
  "cancel_get i s =
     (case pl_tasks s ! i of
        TryIdle \<Rightarrow> Some (become i Finished s)
      | Connecting ForGet \<Rightarrow> Some (become i Finished (s\<lparr>pl_lost := pl_lost s + 1\<rparr>))
      | Queueing \<Rightarrow> Some (become i Finished s)
      | Waiting w \<Rightarrow>
          Some (become i Finished
            (case map_of (pl_sent s) w of
               Some c \<Rightarrow>
                 s\<lparr>pl_sent := filter (\<lambda>e. fst e \<noteq> w) (pl_sent s), pl_lost := pl_lost s + 1,
                   pl_waiter_count := fetch_sub (pl_waiter_count s) 1\<rparr>
             | None \<Rightarrow> s\<lparr>pl_waiter_count := fetch_sub (pl_waiter_count s) 1\<rparr>))
      | Cleanup \<Rightarrow>
          Some (become i Finished (s\<lparr>pl_waiter_count := fetch_sub (pl_waiter_count s) 1\<rparr>))
      | _ \<Rightarrow> None)"

text \<open>\<open>PoolGuard::take\<close>: the connection leaves the pool.\<close>

definition guard_take :: "nat \<Rightarrow> pool \<Rightarrow> pool" where
  "guard_take i s =
     become i Finished
       (s\<lparr>pl_in_use := fetch_sub (pl_in_use s) 1, pl_total := fetch_sub (pl_total s) 1\<rparr>)"

text \<open>\<open>total_count\<close> and \<open>in_use\<close> of \<open>metrics\<close>, and what it derives from them.\<close>

definition metrics_idle :: "pool \<Rightarrow> nat" where
  "metrics_idle s = pl_total s - pl_in_use s"

definition warm_up_count :: "pool_config \<Rightarrow> nat \<Rightarrow> pool \<Rightarrow> nat" where
  "warm_up_count cfg target s = min (target - pl_total s) (fetch_sub (pc_max_size cfg) (pl_total s))"

definition pool_step :: "pool_config \<Rightarrow> pool_action \<Rightarrow> pool \<Rightarrow> pool option" where
  "pool_step cfg a s =
     (case a of
        CallGet \<Rightarrow>
          Some (if pl_draining s then spawn (Failed Draining) s else spawn TryIdle (call_hook BeforeAcquire s))
      | CallDrain \<Rightarrow> Some (spawn DrainIdle (s\<lparr>pl_draining := True\<rparr>))
      | CallWarmUp target \<Rightarrow> Some (spawn (WarmUp (warm_up_count cfg target s)) s)
      | MaintenanceTick \<Rightarrow> Some (spawn Evict s)
      | Run i ok life \<Rightarrow> if i < length (pl_tasks s) then run_task cfg i ok life s else None
      | TimeUp i \<Rightarrow>
          if i < length (pl_tasks s)
          then (case pl_tasks s ! i of
                  Waiting w \<Rightarrow>
                    if w \<in> set (pl_waiters s)
                    then Some (become i Cleanup (s\<lparr>pl_timeouts := pl_timeouts s + 1\<rparr>)) else None
                | _ \<Rightarrow> None)
          else None
      | Cancel i \<Rightarrow> if i < length (pl_tasks s) then cancel_get i s else None
      | DropGuard i \<Rightarrow>
          if i < length (pl_tasks s)
          then (case pl_tasks s ! i of Held c \<Rightarrow> Some (become i (Returning c) s) | _ \<Rightarrow> None) else None
      | TakeGuard i \<Rightarrow>
          if i < length (pl_tasks s)
          then (case pl_tasks s ! i of Held c \<Rightarrow> Some (guard_take i s) | _ \<Rightarrow> None) else None
      | MarkPending c \<Rightarrow> Some (s\<lparr>pl_pending := insert c (pl_pending s)\<rparr>)
      | Elapse n \<Rightarrow> Some (s\<lparr>pl_now := pl_now s + n\<rparr>))"

text \<open>\<open>ConnPool::new\<close>: \<open>min_idle\<close> connects, whose outcomes are given; a failed one is only logged.\<close>

definition pool_empty :: pool where
  "pool_empty =
     \<lparr>pl_idle = [], pl_waiters = [], pl_total = 0, pl_in_use = 0, pl_waiter_count = 0, pl_checkouts = 0,
      pl_created = 0, pl_destroyed = 0, pl_timeouts = 0, pl_draining = False, pl_notify = False,
      pl_tasks = [], pl_sent = [], pl_pending = {}, pl_now = 0, pl_next = 0, pl_next_waiter = 0,
      pl_hooks = [], pl_lost = 0\<rparr>"

fun prefill :: "(bool \<times> nat) list \<Rightarrow> pool \<Rightarrow> pool" where
  "prefill [] s = s"
| "prefill ((ok, life) # rest) s =
     prefill rest
       (if ok
        then (case create_connection s of
                (c, s) \<Rightarrow> (park c life s)\<lparr>pl_total := pl_total s + 1\<rparr>)
        else s)"

definition pool_new :: "pool_config \<Rightarrow> (nat \<Rightarrow> bool \<times> nat) \<Rightarrow> pool" where
  "pool_new cfg connects = prefill (map connects [0..<pc_min_idle cfg]) pool_empty"

text \<open>The runs of a pool; \<open>warm\<close> says whether \<open>warm_up\<close> may be called.\<close>

fun allowed :: "bool \<Rightarrow> pool_action \<Rightarrow> bool" where
  "allowed warm (CallWarmUp n) \<longleftrightarrow> warm"
| "allowed warm a \<longleftrightarrow> True"

inductive pool_runs :: "pool_config \<Rightarrow> bool \<Rightarrow> pool \<Rightarrow> bool" for cfg warm where
  start: "pool_runs cfg warm (pool_new cfg connects)"
| act: "pool_runs cfg warm s \<Longrightarrow> allowed warm a \<Longrightarrow> pool_step cfg a s = Some s' \<Longrightarrow> pool_runs cfg warm s'"

fun run_actions :: "pool_config \<Rightarrow> pool_action list \<Rightarrow> pool \<Rightarrow> pool option" where
  "run_actions cfg [] s = Some s"
| "run_actions cfg (a # as) s =
     (case pool_step cfg a s of None \<Rightarrow> None | Some s' \<Rightarrow> run_actions cfg as s')"


section \<open>Counting\<close>

text \<open>What a task holds: a slot of \<open>pl_total\<close>, a unit of \<open>pl_in_use\<close>, a connection. \<open>warm_up\<close> counts its
  connection only once it is parked; \<open>create_and_track\<close> that loses the race for the last slot holds a
  slot until it backs out.\<close>

fun conns_of :: "task \<Rightarrow> nat list" where
  "conns_of (Obtained c) = [c]"
| "conns_of (Held c) = [c]"
| "conns_of (Returning c) = [c]"
| "conns_of (Resetting c) = [c]"
| "conns_of (CheckDraining c) = [c]"
| "conns_of (Handing c) = [c]"
| "conns_of (Parking c) = [c]"
| "conns_of (ProvisionHand c) = [c]"
| "conns_of (ProvisionPark c) = [c]"
| "conns_of (MaintenancePark c n) = [c]"
| "conns_of (WarmPark c e n) = [c]"
| "conns_of _ = []"

fun real_slots :: "task \<Rightarrow> nat" where
  "real_slots (Connecting p) = 1"
| "real_slots (WarmPark c e n) = 0"
| "real_slots t = length (conns_of t)"

fun slots :: "task \<Rightarrow> nat" where
  "slots (BackOut p) = 1"
| "slots t = real_slots t"

fun uses :: "task \<Rightarrow> nat" where
  "uses (Held c) = 1"
| "uses (Returning c) = 1"
| "uses _ = 0"

fun queued :: "task \<Rightarrow> nat" where
  "queued (Waiting w) = 1"
| "queued Cleanup = 1"
| "queued _ = 0"

definition tally :: "(task \<Rightarrow> nat) \<Rightarrow> pool \<Rightarrow> nat" where
  "tally f s = sum_list (map f (pl_tasks s))"

definition places :: "nat \<Rightarrow> pool \<Rightarrow> nat" where
  "places c s = count_list (map fst (pl_idle s)) c + count_list (map snd (pl_sent s)) c
     + tally (\<lambda>t. count_list (conns_of t) c) s"

lemma tally_become:
  assumes "i < length (pl_tasks s)"
  shows "tally f (become i t s) + f (pl_tasks s ! i) = tally f s + f t"
proof -
  have "map f (pl_tasks s) ! i \<le> sum_list (map f (pl_tasks s))"
    using assms by (intro elem_le_sum_list) simp
  then show ?thesis
    using assms by (simp add: tally_def become_def map_update sum_list_update)
qed

lemma tally_pos:
  assumes "i < length (pl_tasks s)"
  shows "f (pl_tasks s ! i) \<le> tally f s"
  using elem_le_sum_list [of i "map f (pl_tasks s)"] assms by (simp add: tally_def)

lemma tally_spawn [simp]: "tally f (spawn t s) = tally f s + f t"
  by (simp add: tally_def spawn_def)

lemma tally_cong [simp]:
  "tally f (call_hook h s) = tally f s"
  "tally f (s\<lparr>pl_idle := a\<rparr>) = tally f s"
  "tally f (s\<lparr>pl_waiters := b\<rparr>) = tally f s"
  "tally f (s\<lparr>pl_total := n\<rparr>) = tally f s"
  "tally f (s\<lparr>pl_in_use := n\<rparr>) = tally f s"
  "tally f (s\<lparr>pl_waiter_count := n\<rparr>) = tally f s"
  "tally f (s\<lparr>pl_checkouts := n\<rparr>) = tally f s"
  "tally f (s\<lparr>pl_created := n\<rparr>) = tally f s"
  "tally f (s\<lparr>pl_destroyed := n\<rparr>) = tally f s"
  "tally f (s\<lparr>pl_timeouts := n\<rparr>) = tally f s"
  "tally f (s\<lparr>pl_draining := p\<rparr>) = tally f s"
  "tally f (s\<lparr>pl_notify := p\<rparr>) = tally f s"
  "tally f (s\<lparr>pl_sent := e\<rparr>) = tally f s"
  "tally f (s\<lparr>pl_pending := x\<rparr>) = tally f s"
  "tally f (s\<lparr>pl_now := n\<rparr>) = tally f s"
  "tally f (s\<lparr>pl_next := n\<rparr>) = tally f s"
  "tally f (s\<lparr>pl_next_waiter := n\<rparr>) = tally f s"
  "tally f (s\<lparr>pl_hooks := hs\<rparr>) = tally f s"
  "tally f (s\<lparr>pl_lost := n\<rparr>) = tally f s"
  by (simp_all add: tally_def call_hook_def)

lemma become_fields [simp]:
  "pl_idle (become i t s) = pl_idle s"
  "pl_waiters (become i t s) = pl_waiters s"
  "pl_total (become i t s) = pl_total s"
  "pl_in_use (become i t s) = pl_in_use s"
  "pl_waiter_count (become i t s) = pl_waiter_count s"
  "pl_draining (become i t s) = pl_draining s"
  "pl_sent (become i t s) = pl_sent s"
  "pl_next (become i t s) = pl_next s"
  "pl_next_waiter (become i t s) = pl_next_waiter s"
  "pl_lost (become i t s) = pl_lost s"
  "pl_pending (become i t s) = pl_pending s"
  "pl_now (become i t s) = pl_now s"
  "pl_tasks (become i t s) = (pl_tasks s)[i := t]"
  by (simp_all add: become_def)

lemma call_hook_fields [simp]:
  "pl_idle (call_hook h s) = pl_idle s"
  "pl_waiters (call_hook h s) = pl_waiters s"
  "pl_total (call_hook h s) = pl_total s"
  "pl_in_use (call_hook h s) = pl_in_use s"
  "pl_waiter_count (call_hook h s) = pl_waiter_count s"
  "pl_draining (call_hook h s) = pl_draining s"
  "pl_sent (call_hook h s) = pl_sent s"
  "pl_next (call_hook h s) = pl_next s"
  "pl_next_waiter (call_hook h s) = pl_next_waiter s"
  "pl_lost (call_hook h s) = pl_lost s"
  "pl_pending (call_hook h s) = pl_pending s"
  "pl_now (call_hook h s) = pl_now s"
  "pl_tasks (call_hook h s) = pl_tasks s"
  by (simp_all add: call_hook_def)

lemma spawn_fields [simp]:
  "pl_idle (spawn t s) = pl_idle s"
  "pl_waiters (spawn t s) = pl_waiters s"
  "pl_total (spawn t s) = pl_total s"
  "pl_in_use (spawn t s) = pl_in_use s"
  "pl_waiter_count (spawn t s) = pl_waiter_count s"
  "pl_draining (spawn t s) = pl_draining s"
  "pl_sent (spawn t s) = pl_sent s"
  "pl_next (spawn t s) = pl_next s"
  "pl_next_waiter (spawn t s) = pl_next_waiter s"
  "pl_lost (spawn t s) = pl_lost s"
  "pl_tasks (spawn t s) = pl_tasks s @ [t]"
  by (simp_all add: spawn_def)

lemma fetch_sub_le [simp]: "b \<le> a \<Longrightarrow> fetch_sub a b = a - b"
  by (simp add: fetch_sub_def)


lemma tally_become_minus [simp]:
  "i < length (pl_tasks s) \<Longrightarrow> tally f (become i t s) = tally f s + f t - f (pl_tasks s ! i)"
  using tally_become [of i s f t] by simp

text \<open>\<open>try_get_idle\<close> and \<open>hand_over\<close>: what they move.\<close>

lemma try_get_idle_from_total:
  "try_get_idle_from test xs s = (r, s') \<Longrightarrow> length xs \<le> pl_total s
    \<Longrightarrow> pl_total s' + length xs = pl_total s + length (pl_idle s') + (if r = None then 0 else 1)
      \<and> length (pl_idle s') \<le> length xs"
proof (induction test xs s rule: try_get_idle_from.induct)
  case (2 test c e rest s)
  then have "length rest \<le> pl_total s - 1"
    by simp
  then show ?case
    using 2 by (cases "pl_now s \<ge> e \<or> (test \<and> c \<in> pl_pending s)") (auto simp: destroy_conn_stats_def)
qed auto

lemma try_get_idle_from_frame:
  "try_get_idle_from test xs s = (r, s')
    \<Longrightarrow> pl_tasks s' = pl_tasks s \<and> pl_waiters s' = pl_waiters s \<and> pl_in_use s' = pl_in_use s
      \<and> pl_waiter_count s' = pl_waiter_count s \<and> pl_sent s' = pl_sent s \<and> pl_lost s' = pl_lost s
      \<and> pl_next s' = pl_next s \<and> pl_next_waiter s' = pl_next_waiter s \<and> pl_draining s' = pl_draining s"
  by (induction test xs s rule: try_get_idle_from.induct)
     (auto simp: destroy_conn_stats_def split: if_splits)

lemma try_get_idle_from_length:
  "try_get_idle_from test xs s = (r, s')
    \<Longrightarrow> length (pl_idle s') + (if r = None then 0 else 1) \<le> length xs"
  by (induction test xs s rule: try_get_idle_from.induct) (auto split: if_splits)

lemma try_get_idle_from_conns:
  "try_get_idle_from test xs s = (r, s')
    \<Longrightarrow> count_list (map fst (pl_idle s')) c + (if r = Some c then 1 else 0) \<le> count_list (map fst xs) c"
proof (induction test xs s rule: try_get_idle_from.induct)
  case (2 test d e rest s)
  show ?case
    using 2 by (cases "pl_now s \<ge> e \<or> (test \<and> d \<in> pl_pending s)") (auto split: if_splits)
qed auto

lemma first_live_some:
  "first_live live ws = (Some w, rest)
    \<Longrightarrow> \<exists>dead. ws = dead @ w # rest \<and> live w \<and> (\<forall>d \<in> set dead. \<not> live d)"
proof (induction live ws rule: first_live.induct)
  case (2 live v ws)
  show ?case
  proof (cases "live v")
    case False
    then obtain dead where "ws = dead @ w # rest \<and> live w \<and> (\<forall>d \<in> set dead. \<not> live d)"
      using 2 by auto
    then show ?thesis
      using False by (intro exI [of _ "v # dead"]) simp
  qed (use 2 in auto)
qed simp

lemma first_live_none: "first_live live ws = (None, rest) \<Longrightarrow> rest = [] \<and> (\<forall>w \<in> set ws. \<not> live w)"
  by (induction live ws rule: first_live.induct) (auto split: if_splits)

lemma hand_over_true:
  assumes "hand_over c s = (True, s')"
  obtains w dead rest where "pl_waiters s = dead @ w # rest" "live_waiter s w"
    "\<forall>d \<in> set dead. \<not> live_waiter s d"
    "s' = s\<lparr>pl_waiters := rest, pl_sent := (w, c) # pl_sent s\<rparr>"
proof -
  obtain w rest where f: "first_live (live_waiter s) (pl_waiters s) = (Some w, rest)"
    and s': "s' = s\<lparr>pl_waiters := rest, pl_sent := (w, c) # pl_sent s\<rparr>"
    using assms by (auto simp: hand_over_def split: prod.splits option.splits)
  show thesis
    using first_live_some [OF f] s' that by blast
qed

lemma hand_over_false:
  assumes "hand_over c s = (False, s')"
  shows "s' = s\<lparr>pl_waiters := []\<rparr> \<and> (\<forall>w \<in> set (pl_waiters s). \<not> live_waiter s w)"
  using assms first_live_none
  by (fastforce simp: hand_over_def split: prod.splits option.splits)

text \<open>Tickets: the queue is in the order of arrival, and no ticket is both queued and served.\<close>

definition tickets_ok :: "pool \<Rightarrow> bool" where
  "tickets_ok s \<longleftrightarrow> sorted_wrt (<) (pl_waiters s) \<and> distinct (pl_waiters s @ map fst (pl_sent s))
     \<and> (\<forall>w \<in> set (pl_waiters s) \<union> fst ` set (pl_sent s). w < pl_next_waiter s)"

lemma filter_absent: "w \<notin> fst ` set xs \<Longrightarrow> filter (\<lambda>e. fst e \<noteq> w) xs = xs"
  by (auto simp: filter_id_conv)

lemma sent_taken_length:
  "distinct (map fst xs) \<Longrightarrow> map_of xs w = Some c \<Longrightarrow> length (filter (\<lambda>e. fst e \<noteq> w) xs) + 1 = length xs"
  by (induction xs) (auto simp: filter_absent split: if_splits)

lemma sent_taken_conns:
  "distinct (map fst xs) \<Longrightarrow> map_of xs w = Some c
    \<Longrightarrow> count_list (map snd (filter (\<lambda>e. fst e \<noteq> w) xs)) d + (if d = c then 1 else 0)
      = count_list (map snd xs) d"
  by (induction xs) (auto simp: filter_absent split: if_splits)

lemma tickets_try_get_idle:
  "try_get_idle cfg s = (r, s') \<Longrightarrow> tickets_ok s' = tickets_ok s"
  using try_get_idle_from_frame [of "pc_test_on_checkout cfg" "pl_idle s" s r s']
  by (simp add: try_get_idle_def tickets_ok_def)

lemma tickets_hand_over:
  assumes "hand_over c s = (b, t)" and "tickets_ok s"
  shows "tickets_ok t"
proof (cases b)
  case True
  then obtain w dead rest where "pl_waiters s = dead @ w # rest"
    and "t = s\<lparr>pl_waiters := rest, pl_sent := (w, c) # pl_sent s\<rparr>"
    using assms(1) by (auto elim!: hand_over_true)
  then show ?thesis
    using assms(2) by (simp add: tickets_ok_def sorted_wrt_append)
next
  case False
  then show ?thesis
    using assms hand_over_false [of c s t] by (auto simp: tickets_ok_def)
qed

lemma tickets_cong [simp]:
  "tickets_ok (become i t s) = tickets_ok s"
  "tickets_ok (spawn t s) = tickets_ok s"
  "tickets_ok (call_hook h s) = tickets_ok s"
  "tickets_ok (s\<lparr>pl_idle := a\<rparr>) = tickets_ok s"
  "tickets_ok (s\<lparr>pl_total := n\<rparr>) = tickets_ok s"
  "tickets_ok (s\<lparr>pl_in_use := n\<rparr>) = tickets_ok s"
  "tickets_ok (s\<lparr>pl_waiter_count := n\<rparr>) = tickets_ok s"
  "tickets_ok (s\<lparr>pl_checkouts := n\<rparr>) = tickets_ok s"
  "tickets_ok (s\<lparr>pl_created := n\<rparr>) = tickets_ok s"
  "tickets_ok (s\<lparr>pl_destroyed := n\<rparr>) = tickets_ok s"
  "tickets_ok (s\<lparr>pl_timeouts := n\<rparr>) = tickets_ok s"
  "tickets_ok (s\<lparr>pl_draining := p\<rparr>) = tickets_ok s"
  "tickets_ok (s\<lparr>pl_notify := p\<rparr>) = tickets_ok s"
  "tickets_ok (s\<lparr>pl_pending := x\<rparr>) = tickets_ok s"
  "tickets_ok (s\<lparr>pl_now := n\<rparr>) = tickets_ok s"
  "tickets_ok (s\<lparr>pl_next := n\<rparr>) = tickets_ok s"
  "tickets_ok (s\<lparr>pl_hooks := hs\<rparr>) = tickets_ok s"
  "tickets_ok (s\<lparr>pl_lost := n\<rparr>) = tickets_ok s"
  by (simp_all add: tickets_ok_def)

lemma tickets_sent_filter:
  "tickets_ok s \<Longrightarrow> tickets_ok (s\<lparr>pl_sent := filter P (pl_sent s)\<rparr>)"
  by (auto simp: tickets_ok_def distinct_map_filter)

lemma tickets_waiters_filter:
  "tickets_ok s \<Longrightarrow> tickets_ok (s\<lparr>pl_waiters := filter P (pl_waiters s)\<rparr>)"
  by (auto simp: tickets_ok_def sorted_wrt_filter)

lemma tickets_waiters_empty: "tickets_ok s \<Longrightarrow> tickets_ok (s\<lparr>pl_waiters := []\<rparr>)"
  by (auto simp: tickets_ok_def)

lemma tickets_enqueue:
  "tickets_ok s
    \<Longrightarrow> tickets_ok (s\<lparr>pl_waiters := pl_waiters s @ [pl_next_waiter s], pl_next_waiter := Suc (pl_next_waiter s)\<rparr>)"
  by (auto simp: tickets_ok_def sorted_wrt_append less_Suc_eq)


lemmas tickets_intros =
  tickets_sent_filter tickets_waiters_filter tickets_waiters_empty tickets_enqueue

lemmas step_defs =
  check_out_def create_connection_def destroy_conn_stats_def maybe_notify_drain_def park_def

lemma run_task_tickets:
  assumes "run_task cfg i ok life s = Some s'" and "tickets_ok s"
  shows "tickets_ok s'"
proof (cases "pl_tasks s ! i")
  case TryIdle
  then show ?thesis
    using assms tickets_try_get_idle [of cfg s]
    by (auto simp: run_defs split: prod.splits option.splits)
next
  case (Handing c)
  then show ?thesis
    using assms tickets_hand_over [of c s]
    by (auto simp: run_defs split: prod.splits bool.splits)
next
  case (ProvisionHand c)
  then show ?thesis
    using assms tickets_hand_over [of c s]
    by (auto simp: run_defs split: prod.splits bool.splits)
qed (use assms in \<open>auto simp: run_defs step_defs Let_def intro!: tickets_intros
       split: if_splits option.splits\<close>)

lemma cancel_tickets:
  "cancel_get i s = Some s' \<Longrightarrow> tickets_ok s \<Longrightarrow> tickets_ok s'"
  by (cases "pl_tasks s ! i")
     (auto simp: cancel_get_def Let_def intro!: tickets_intros split: option.splits purpose.splits)

lemma tickets_step:
  assumes "pool_step cfg a s = Some s'" and "tickets_ok s"
  shows "tickets_ok s'"
  using assms run_task_tickets cancel_tickets
  by (cases a) (auto simp: pool_step_def guard_take_def split: if_splits task.splits)


section \<open>The counters\<close>

definition total_ok :: "pool \<Rightarrow> bool" where
  "total_ok s \<longleftrightarrow> pl_total s = length (pl_idle s) + tally slots s + length (pl_sent s) + pl_lost s"

definition in_use_ok :: "pool \<Rightarrow> bool" where
  "in_use_ok s \<longleftrightarrow> pl_in_use s = tally uses s"

lemma try_get_idle_frame:
  "try_get_idle cfg s = (r, t)
    \<Longrightarrow> pl_tasks t = pl_tasks s \<and> pl_in_use t = pl_in_use s \<and> pl_waiter_count t = pl_waiter_count s
      \<and> pl_sent t = pl_sent s \<and> pl_lost t = pl_lost s \<and> pl_next t = pl_next s
      \<and> pl_draining t = pl_draining s"
  using try_get_idle_from_frame unfolding try_get_idle_def by blast

lemma hand_over_frame:
  "hand_over c s = (b, t)
    \<Longrightarrow> pl_tasks t = pl_tasks s \<and> pl_in_use t = pl_in_use s \<and> pl_waiter_count t = pl_waiter_count s
      \<and> pl_idle t = pl_idle s \<and> pl_total t = pl_total s \<and> pl_lost t = pl_lost s \<and> pl_next t = pl_next s
      \<and> pl_draining t = pl_draining s
      \<and> map snd (pl_sent t) = (if b then [c] else []) @ map snd (pl_sent s)"
  by (cases b) (auto elim!: hand_over_true dest!: hand_over_false)

lemma tally_tasks: "pl_tasks t = pl_tasks s \<Longrightarrow> tally f t = tally f s"
  by (simp add: tally_def)

lemma after_failure_holds [simp]:
  "conns_of (after_failure p) = []" "real_slots (after_failure p) = 0" "slots (after_failure p) = 0"
  "uses (after_failure p) = 0" "queued (after_failure p) = 0"
  by (cases p; simp)+

lemma after_create_holds [simp]:
  "conns_of (after_create p c) = [c]" "real_slots (after_create p c) = 1" "slots (after_create p c) = 1"
  "uses (after_create p c) = 0" "queued (after_create p c) = 0"
  by (cases p; simp)+

lemma run_task_in_use:
  assumes "run_task cfg i ok life s = Some s'" and i: "i < length (pl_tasks s)" and "in_use_ok s"
  shows "in_use_ok s'"
proof (cases "pl_tasks s ! i")
  case TryIdle
  obtain r t where g: "try_get_idle cfg s = (r, t)" by fastforce
  show ?thesis
    using assms TryIdle g try_get_idle_frame [OF g]
    by (auto simp: run_defs in_use_ok_def tally_tasks [of t s] split: option.splits)
next
  case (Handing c)
  obtain b t where g: "hand_over c s = (b, t)" by fastforce
  show ?thesis
    using assms Handing g hand_over_frame [OF g]
    by (auto simp: run_defs in_use_ok_def tally_tasks [of t s] split: bool.splits)
next
  case (ProvisionHand c)
  obtain b t where g: "hand_over c s = (b, t)" by fastforce
  show ?thesis
    using assms ProvisionHand g hand_over_frame [OF g]
    by (auto simp: run_defs in_use_ok_def tally_tasks [of t s] split: bool.splits)
qed (use assms tally_pos [OF i, of uses] in \<open>auto simp: run_defs step_defs Let_def in_use_ok_def
       split: if_splits option.splits purpose.splits\<close>)


lemma try_get_idle_total:
  assumes "try_get_idle cfg s = (r, t)" and "length (pl_idle s) \<le> pl_total s"
  shows "pl_total t + length (pl_idle s) = pl_total s + length (pl_idle t) + (if r = None then 0 else 1)"
    and "length (pl_idle t) \<le> length (pl_idle s)"
  using assms try_get_idle_from_total unfolding try_get_idle_def by blast+

lemma hand_over_total:
  assumes "hand_over c s = (b, t)"
  shows "length (pl_sent t) = length (pl_sent s) + (if b then 1 else 0)"
proof -
  have "length (map snd (pl_sent t)) = length ((if b then [c] else []) @ map snd (pl_sent s))"
    using hand_over_frame [OF assms] by presburger
  then show ?thesis
    by simp
qed

lemma run_task_total:
  assumes "run_task cfg i ok life s = Some s'" and i: "i < length (pl_tasks s)"
    and "total_ok s" and "tickets_ok s"
  shows "total_ok s'"
proof (cases "pl_tasks s ! i")
  case TryIdle
  obtain r t where g: "try_get_idle cfg s = (r, t)" by fastforce
  have le: "length (pl_idle s) \<le> pl_total s"
    using assms(3) by (simp add: total_ok_def)
  show ?thesis
    using assms TryIdle g try_get_idle_frame [OF g] try_get_idle_total [OF g le]
    by (auto simp: run_defs total_ok_def check_out_def tally_tasks [of t s] split: option.splits)
next
  case (Handing c)
  obtain b t where g: "hand_over c s = (b, t)" by fastforce
  show ?thesis
    using assms Handing g hand_over_frame [OF g] hand_over_total [OF g] tally_pos [OF i, of slots]
    by (auto simp: run_defs total_ok_def tally_tasks [of t s] split: bool.splits)
next
  case (ProvisionHand c)
  obtain b t where g: "hand_over c s = (b, t)" by fastforce
  show ?thesis
    using assms ProvisionHand g hand_over_frame [OF g] hand_over_total [OF g] tally_pos [OF i, of slots]
    by (auto simp: run_defs total_ok_def tally_tasks [of t s] split: bool.splits)
next
  case (Waiting w)
  have "distinct (map fst (pl_sent s))"
    using assms(4) by (simp add: tickets_ok_def)
  then show ?thesis
    using assms(1-3) Waiting sent_taken_length [of "pl_sent s" w]
    by (fastforce simp: run_defs total_ok_def check_out_def split: option.splits if_splits)
next
  case Evict
  have "length (filter (\<lambda>(c, expires_at). pl_now s < expires_at) (pl_idle s)) \<le> length (pl_idle s)"
    by simp
  then show ?thesis
    using assms(1-3) Evict
    by (auto simp: run_defs total_ok_def Let_def split: if_splits)
qed (use assms tally_pos [OF i, of slots] in \<open>auto simp: run_defs step_defs Let_def total_ok_def
       split: if_splits option.splits purpose.splits\<close>)

lemma cancel_counts:
  assumes "cancel_get i s = Some s'" and i: "i < length (pl_tasks s)" and "tickets_ok s"
  shows "total_ok s \<Longrightarrow> total_ok s'" and "in_use_ok s \<Longrightarrow> in_use_ok s'"
proof -
  have "distinct (map fst (pl_sent s))"
    using assms(3) by (simp add: tickets_ok_def)
  note len = sent_taken_length [OF this]
  show "total_ok s'" if "total_ok s"
    using assms(1) i that tally_pos [OF i, of slots]
    by (cases "pl_tasks s ! i")
       (fastforce simp: cancel_get_def total_ok_def dest: len split: option.splits purpose.splits)+
  show "in_use_ok s'" if "in_use_ok s"
    using assms(1) i that
    by (cases "pl_tasks s ! i")
       (auto simp: cancel_get_def in_use_ok_def split: option.splits purpose.splits)
qed

lemma counts_step:
  assumes "pool_step cfg a s = Some s'" and "tickets_ok s" and "total_ok s" and "in_use_ok s"
  shows "total_ok s' \<and> in_use_ok s'"
proof (cases a)
  case (Run i ok life)
  then show ?thesis
    using assms run_task_total run_task_in_use by (auto simp: pool_step_def split: if_splits)
next
  case (Cancel i)
  then show ?thesis
    using assms cancel_counts by (auto simp: pool_step_def split: if_splits)
next
  case (TakeGuard i)
  then have i: "i < length (pl_tasks s)"
    using assms(1) by (simp add: pool_step_def split: if_splits)
  show ?thesis
    using assms TakeGuard i tally_pos [OF i, of slots] tally_pos [OF i, of uses]
    by (auto simp: pool_step_def guard_take_def total_ok_def in_use_ok_def split: task.splits)
next
  case (DropGuard i)
  then have i: "i < length (pl_tasks s)"
    using assms(1) by (simp add: pool_step_def split: if_splits)
  show ?thesis
    using assms DropGuard i tally_pos [OF i, of slots] tally_pos [OF i, of uses]
    by (auto simp: pool_step_def total_ok_def in_use_ok_def split: task.splits)
qed (use assms in \<open>auto simp: pool_step_def total_ok_def in_use_ok_def split: if_splits task.splits\<close>)


lemma tally_park [simp]: "tally f (park c life s) = tally f s"
  by (simp add: park_def)

text \<open>\<open>new\<close> starts no task.\<close>

lemma prefill_counts:
  "total_ok s \<Longrightarrow> in_use_ok s \<Longrightarrow> tickets_ok s
    \<Longrightarrow> total_ok (prefill xs s) \<and> in_use_ok (prefill xs s) \<and> tickets_ok (prefill xs s)
      \<and> pl_tasks (prefill xs s) = pl_tasks s \<and> pl_sent (prefill xs s) = pl_sent s
      \<and> pl_lost (prefill xs s) = pl_lost s \<and> pl_waiter_count (prefill xs s) = pl_waiter_count s
      \<and> pl_draining (prefill xs s) = pl_draining s \<and> pl_total (prefill xs s) \<le> pl_total s + length xs"
proof (induction xs s rule: prefill.induct)
  case (2 ok life rest s)
  define t where "t = (if ok then (case create_connection s of
      (c, s) \<Rightarrow> (park c life s)\<lparr>pl_total := pl_total s + 1\<rparr>) else s)"
  have "total_ok t" "in_use_ok t" "tickets_ok t" "pl_tasks t = pl_tasks s" "pl_sent t = pl_sent s"
    "pl_lost t = pl_lost s" "pl_waiter_count t = pl_waiter_count s" "pl_draining t = pl_draining s"
    "pl_total t \<le> Suc (pl_total s)"
    using 2(2-4) by (auto simp: t_def total_ok_def in_use_ok_def create_connection_def park_def Let_def)
  moreover from this have "total_ok (prefill rest t) \<and> in_use_ok (prefill rest t) \<and> tickets_ok (prefill rest t)
      \<and> pl_tasks (prefill rest t) = pl_tasks t \<and> pl_sent (prefill rest t) = pl_sent t
      \<and> pl_lost (prefill rest t) = pl_lost t \<and> pl_waiter_count (prefill rest t) = pl_waiter_count t
      \<and> pl_draining (prefill rest t) = pl_draining t
      \<and> pl_total (prefill rest t) \<le> pl_total t + length rest"
    unfolding t_def by (intro 2(1))
  ultimately show ?case
    by (simp add: t_def [symmetric])
qed simp

lemma pool_empty_counts: "total_ok pool_empty" "in_use_ok pool_empty" "tickets_ok pool_empty"
  by (simp_all add: pool_empty_def total_ok_def in_use_ok_def tickets_ok_def tally_def)

lemma pool_new_counts:
  "total_ok (pool_new cfg connects)" "in_use_ok (pool_new cfg connects)" "tickets_ok (pool_new cfg connects)"
  "pl_tasks (pool_new cfg connects) = []" "pl_sent (pool_new cfg connects) = []"
  "pl_lost (pool_new cfg connects) = 0" "pl_waiter_count (pool_new cfg connects) = 0"
  "\<not> pl_draining (pool_new cfg connects)" "pl_total (pool_new cfg connects) \<le> pc_min_idle cfg"
  using prefill_counts [OF pool_empty_counts, of "map connects [0..<pc_min_idle cfg]"]
  by (simp_all add: pool_new_def) (simp_all add: pool_empty_def)

lemma runs_counts: "pool_runs cfg warm s \<Longrightarrow> tickets_ok s \<and> total_ok s \<and> in_use_ok s"
proof (induction rule: pool_runs.induct)
  case (start connects)
  then show ?case
    using pool_new_counts by blast
next
  case (act s a s')
  then show ?case
    using tickets_step counts_step by blast
qed

section \<open>No connection in two hands\<close>

lemma count_filter_le: "count_list (map f (filter P xs)) c \<le> count_list (map f xs) c"
  by (induction xs) auto

lemma count_snd_filter_le: "count_list (map snd (filter P xs)) c \<le> count_list (map snd xs) c"
  by (rule count_filter_le)

lemma places_spawn [simp]: "places c (spawn t s) = places c s + count_list (conns_of t) c"
  by (simp add: places_def)

lemma places_become [simp]:
  "i < length (pl_tasks s)
    \<Longrightarrow> places c (become i t s)
      = places c s + count_list (conns_of t) c - count_list (conns_of (pl_tasks s ! i)) c"
  using tally_pos [of i s "\<lambda>t. count_list (conns_of t) c"] by (simp add: places_def)

lemma places_cong [simp]:
  "places c (call_hook h s) = places c s"
  "places c (s\<lparr>pl_waiters := b\<rparr>) = places c s"
  "places c (s\<lparr>pl_total := n\<rparr>) = places c s"
  "places c (s\<lparr>pl_in_use := n\<rparr>) = places c s"
  "places c (s\<lparr>pl_waiter_count := n\<rparr>) = places c s"
  "places c (s\<lparr>pl_checkouts := n\<rparr>) = places c s"
  "places c (s\<lparr>pl_created := n\<rparr>) = places c s"
  "places c (s\<lparr>pl_destroyed := n\<rparr>) = places c s"
  "places c (s\<lparr>pl_timeouts := n\<rparr>) = places c s"
  "places c (s\<lparr>pl_draining := p\<rparr>) = places c s"
  "places c (s\<lparr>pl_notify := p\<rparr>) = places c s"
  "places c (s\<lparr>pl_pending := x\<rparr>) = places c s"
  "places c (s\<lparr>pl_now := n\<rparr>) = places c s"
  "places c (s\<lparr>pl_next := n\<rparr>) = places c s"
  "places c (s\<lparr>pl_next_waiter := n\<rparr>) = places c s"
  "places c (s\<lparr>pl_lost := n\<rparr>) = places c s"
  by (simp_all add: places_def)

lemma places_push [simp]:
  "places c (s\<lparr>pl_idle := pl_idle s @ [(d, e)]\<rparr>) = places c s + (if d = c then 1 else 0)"
  by (simp add: places_def)

abbreviation fresh :: "nat \<Rightarrow> pool \<Rightarrow> pool \<Rightarrow> nat" where
  "fresh c s s' \<equiv> (if pl_next s \<le> c \<and> c < pl_next s' then 1 else 0)"

lemma try_get_idle_places:
  assumes "try_get_idle cfg s = (r, t)"
  shows "places c t + (if r = Some c then 1 else 0) \<le> places c s"
proof -
  have "count_list (map fst (pl_idle t)) c + (if r = Some c then 1 else 0)
      \<le> count_list (map fst (pl_idle s)) c"
    using assms unfolding try_get_idle_def by (rule try_get_idle_from_conns)
  then show ?thesis
    using try_get_idle_frame [OF assms] tally_tasks [of t s] by (simp add: places_def)
qed

lemma hand_over_places:
  assumes "hand_over d s = (b, t)"
  shows "places c t = places c s + (if b \<and> d = c then 1 else 0)"
  using hand_over_frame [OF assms] tally_tasks [of t s] by (simp add: places_def)

lemma places_pos:
  "i < length (pl_tasks s) \<Longrightarrow> count_list (conns_of (pl_tasks s ! i)) c \<le> places c s"
  using tally_pos [of i s "\<lambda>t. count_list (conns_of t) c"] by (simp add: places_def)

lemma run_task_places:
  assumes "run_task cfg i ok life s = Some s'" and i: "i < length (pl_tasks s)" and "tickets_ok s"
  shows "places c s' \<le> places c s + fresh c s s' \<and> pl_next s \<le> pl_next s'"
proof (cases "pl_tasks s ! i")
  case TryIdle
  obtain r t where g: "try_get_idle cfg s = (r, t)" by fastforce
  show ?thesis
    using assms(1) i TryIdle g try_get_idle_frame [OF g] try_get_idle_places [OF g, of c]
    by (cases r) (auto simp: run_defs split: if_splits)
next
  case (Handing d)
  obtain b t where g: "hand_over d s = (b, t)" by fastforce
  show ?thesis
    using assms(1) i Handing g hand_over_frame [OF g] hand_over_places [OF g, of c] places_pos [OF i, of c]
    by (cases b) (auto simp: run_defs)
next
  case (ProvisionHand d)
  obtain b t where g: "hand_over d s = (b, t)" by fastforce
  show ?thesis
    using assms(1) i ProvisionHand g hand_over_frame [OF g] hand_over_places [OF g, of c] places_pos [OF i, of c]
    by (cases b) (auto simp: run_defs)
next
  case (Waiting w)
  have "distinct (map fst (pl_sent s))"
    using assms(3) by (simp add: tickets_ok_def)
  note taken = sent_taken_conns [OF this, of w _ c]
  show ?thesis
  proof (cases "map_of (pl_sent s) w")
    case None
    then show ?thesis
      using assms(1,2) Waiting by (auto simp: run_defs split: if_splits)
  next
    case (Some d)
    then show ?thesis
      using assms(1,2) Waiting taken [OF Some]
      by (auto simp: run_defs places_def check_out_def)
  qed
next
  case Evict
  then show ?thesis
    using assms(1,2) count_filter_le [of fst "\<lambda>(c, expires_at). pl_now s < expires_at" "pl_idle s" c]
    by (auto simp: run_defs places_def Let_def split: if_splits)
next
  case (Connecting p)
  show ?thesis
    using assms(1) i Connecting
    by (simp add: run_defs create_connection_def Let_def split: if_splits) auto
next
  case (WarmUp n)
  show ?thesis
    using assms(1) i WarmUp
    by (simp add: run_defs create_connection_def Let_def split: if_splits) auto
next
  case DrainIdle
  show ?thesis
    using assms(1) i DrainIdle by (simp add: run_defs Let_def places_def) auto
qed (use assms(1) i in
      \<open>auto simp: run_defs step_defs Let_def split: if_splits option.splits\<close>)

lemma places_step:
  assumes "pool_step cfg a s = Some s'" and "tickets_ok s"
  shows "places c s' \<le> places c s + fresh c s s' \<and> pl_next s \<le> pl_next s'"
proof (cases a)
  case (Run i ok life)
  then show ?thesis
    using assms run_task_places [of cfg i ok life s s' c] by (simp add: pool_step_def split: if_splits)
next
  case (Cancel i)
  then have i: "i < length (pl_tasks s)" and g: "cancel_get i s = Some s'"
    using assms(1) by (simp_all add: pool_step_def split: if_splits)
  show ?thesis
    using g i count_snd_filter_le [of _ "pl_sent s" c]
    by (cases "pl_tasks s ! i")
       (auto simp: cancel_get_def places_def split: option.splits purpose.splits)
next
  case (TakeGuard i)
  then have i: "i < length (pl_tasks s)"
    using assms(1) by (simp add: pool_step_def split: if_splits)
  show ?thesis
    using assms TakeGuard i by (auto simp: pool_step_def guard_take_def places_def split: task.splits)
next
  case (DropGuard i)
  then have i: "i < length (pl_tasks s)"
    using assms(1) by (simp add: pool_step_def split: if_splits)
  show ?thesis
    using assms DropGuard i tally_pos [OF i, of "\<lambda>t. count_list (conns_of t) c"]
    by (auto simp: pool_step_def places_def split: task.splits)
qed (use assms in \<open>auto simp: pool_step_def places_def split: if_splits task.splits\<close>)


definition exclusive :: "pool \<Rightarrow> bool" where
  "exclusive s \<longleftrightarrow> (\<forall>c. places c s \<le> (if c < pl_next s then 1 else 0))"

lemma exclusive_le:
  assumes "exclusive s"
  shows "places c s \<le> 1"
proof -
  have "places c s \<le> (if c < pl_next s then 1 else 0)"
    using assms unfolding exclusive_def by blast
  also have "\<dots> \<le> 1"
    by simp
  finally show ?thesis .
qed

lemma exclusive_step:
  assumes "pool_step cfg a s = Some s'" and "tickets_ok s" and "exclusive s"
  shows "exclusive s'"
proof (unfold exclusive_def, rule allI)
  fix c
  have "places c s' \<le> places c s + fresh c s s'" "pl_next s \<le> pl_next s'"
    using places_step [OF assms(1,2)] by blast+
  moreover have "places c s \<le> (if c < pl_next s then 1 else 0)"
    using assms(3) by (simp add: exclusive_def)
  ultimately show "places c s' \<le> (if c < pl_next s' then 1 else 0)"
    by (auto split: if_splits)
qed

lemma prefill_exclusive: "exclusive s \<Longrightarrow> exclusive (prefill xs s)"
proof (induction xs s rule: prefill.induct)
  case (2 ok life rest s)
  have "exclusive (if ok then (case create_connection s of
      (c, s) \<Rightarrow> (park c life s)\<lparr>pl_total := pl_total s + 1\<rparr>) else s)"
  proof (cases ok)
    case True
    have "places (pl_next s) s = 0"
      using 2(2) by (simp add: exclusive_def split: if_splits) (metis less_irrefl)
    then show ?thesis
      using 2(2) True
      by (auto simp: exclusive_def create_connection_def park_def Let_def places_def less_Suc_eq
        split: if_splits)
  qed (use 2(2) in simp)
  then show ?case
    using 2(1) by simp
qed simp

lemma runs_exclusive: "pool_runs cfg warm s \<Longrightarrow> exclusive s"
proof (induction rule: pool_runs.induct)
  case (start connects)
  have "exclusive pool_empty"
    by (simp add: exclusive_def places_def tally_def pool_empty_def)
  then show ?case
    by (simp add: pool_new_def prefill_exclusive)
next
  case (act s a s')
  then show ?case
    using exclusive_step runs_counts by blast
qed

text \<open>Two holders of one connection would be two places of it.\<close>

lemma places_two_tasks:
  assumes "i < length (pl_tasks s)" and "j < length (pl_tasks s)" and "i \<noteq> j"
  shows "count_list (conns_of (pl_tasks s ! i)) c + count_list (conns_of (pl_tasks s ! j)) c
    \<le> tally (\<lambda>t. count_list (conns_of t) c) s"
proof -
  let ?f = "\<lambda>t. count_list (conns_of t) c"
  have "?f (pl_tasks s ! j) \<le> tally ?f (become i Finished s)"
    using tally_pos [of j "become i Finished s" ?f] assms by simp
  then show ?thesis
    using tally_become [of i s ?f Finished] assms(1) by simp
qed

section \<open>Capacity\<close>

definition room_ok :: "pool_config \<Rightarrow> pool \<Rightarrow> bool" where
  "room_ok cfg s \<longleftrightarrow>
     length (pl_idle s) + tally real_slots s + length (pl_sent s) + pl_lost s \<le> pc_max_size cfg"

fun warming :: "task \<Rightarrow> nat" where
  "warming (WarmUp n) = 1"
| "warming (WarmPark c e n) = 1"
| "warming _ = 0"

lemma warming_after [simp]: "warming (after_create p c) = 0" "warming (after_failure p) = 0"
  by (cases p; simp)+

lemma tally_mono: "(\<And>t. f t \<le> g t) \<Longrightarrow> tally f s \<le> tally g s"
  by (simp add: tally_def sum_list_mono)

lemma real_slots_le: "tally real_slots s \<le> tally slots s"
proof (rule tally_mono)
  show "real_slots t \<le> slots t" for t
    by (cases t) auto
qed

lemma run_task_room:
  assumes "run_task cfg i ok life s = Some s'" and i: "i < length (pl_tasks s)"
    and "total_ok s" and "tickets_ok s" and "room_ok cfg s" and "tally warming s = 0"
  shows "room_ok cfg s'"
proof -
  have cold: "warming (pl_tasks s ! i) = 0"
    using tally_pos [OF i, of warming] assms(6) by simp
  have pos: "real_slots (pl_tasks s ! i) \<le> tally real_slots s"
    by (rule tally_pos [OF i])
  show ?thesis
  proof (cases "pl_tasks s ! i")
    case TryIdle
    obtain r t where g: "try_get_idle cfg s = (r, t)" by fastforce
    have "length (pl_idle t) + (if r = None then 0 else 1) \<le> length (pl_idle s)"
      using g unfolding try_get_idle_def by (rule try_get_idle_from_length)
    then show ?thesis
      using assms(1,5) i TryIdle g try_get_idle_frame [OF g] tally_tasks [of t s]
      by (cases r) (auto simp: run_defs room_ok_def)
  next
    case (Handing c)
    obtain b t where g: "hand_over c s = (b, t)" by fastforce
    show ?thesis
      using assms(1,5) i Handing g hand_over_frame [OF g] hand_over_total [OF g] pos tally_tasks [of t s]
      by (cases b) (auto simp: run_defs room_ok_def)
  next
    case (ProvisionHand c)
    obtain b t where g: "hand_over c s = (b, t)" by fastforce
    show ?thesis
      using assms(1,5) i ProvisionHand g hand_over_frame [OF g] hand_over_total [OF g] pos
        tally_tasks [of t s]
      by (cases b) (auto simp: run_defs room_ok_def)
  next
    case (Waiting w)
    have "distinct (map fst (pl_sent s))"
      using assms(4) by (simp add: tickets_ok_def)
    note len = sent_taken_length [OF this, of w]
    show ?thesis
      using assms(1,5) i Waiting len
      by (cases "map_of (pl_sent s) w") (auto simp: run_defs room_ok_def check_out_def split: if_splits)
  next
    case (Reserve p)
    then show ?thesis
      using assms(1,3,5) i real_slots_le [of s]
      by (auto simp: run_defs room_ok_def total_ok_def)
  next
    case Evict
    show ?thesis
      using assms(1,5) i Evict
      by (auto simp: run_defs room_ok_def Let_def split: if_splits)
         (use length_filter_le [of "\<lambda>(c, e). pl_now s < e" "pl_idle s"] in linarith)
  next
    case (WarmUp n)
    then show ?thesis using cold by simp
  next
    case (WarmPark c e n)
    then show ?thesis using cold by simp
  qed (use assms(1,5) i pos in \<open>auto simp: run_defs step_defs Let_def room_ok_def split: if_splits\<close>)
qed


lemma run_task_cold:
  assumes "run_task cfg i ok life s = Some s'" and i: "i < length (pl_tasks s)" and "tally warming s = 0"
  shows "tally warming s' = 0"
proof -
  have cold: "warming (pl_tasks s ! i) = 0"
    using tally_pos [OF i, of warming] assms(3) by simp
  show ?thesis
  proof (cases "pl_tasks s ! i")
    case TryIdle
    obtain r t where g: "try_get_idle cfg s = (r, t)" by fastforce
    show ?thesis
      using assms i TryIdle g try_get_idle_frame [OF g] tally_tasks [of t s]
      by (cases r) (auto simp: run_defs)
  next
    case (Handing c)
    obtain b t where g: "hand_over c s = (b, t)" by fastforce
    show ?thesis
      using assms i Handing g hand_over_frame [OF g] tally_tasks [of t s]
      by (cases b) (auto simp: run_defs)
  next
    case (ProvisionHand c)
    obtain b t where g: "hand_over c s = (b, t)" by fastforce
    show ?thesis
      using assms i ProvisionHand g hand_over_frame [OF g] tally_tasks [of t s]
      by (cases b) (auto simp: run_defs)
  qed (use assms(1,3) i cold in \<open>auto simp: run_defs step_defs Let_def split: if_splits option.splits\<close>)
qed

lemma cancel_room:
  assumes "cancel_get i s = Some s'" and i: "i < length (pl_tasks s)" and "tickets_ok s"
    and "room_ok cfg s" and "tally warming s = 0"
  shows "room_ok cfg s' \<and> tally warming s' = 0"
proof -
  have "distinct (map fst (pl_sent s))"
    using assms(3) by (simp add: tickets_ok_def)
  note len = sent_taken_length [OF this]
  show ?thesis
  proof (cases "pl_tasks s ! i")
    case (Waiting w)
    then show ?thesis
    proof (cases "map_of (pl_sent s) w")
      case (Some c)
      then show ?thesis
        using assms(1,4,5) i Waiting len [OF Some] by (auto simp: cancel_get_def room_ok_def)
    qed (use assms(1,4,5) i Waiting in \<open>auto simp: cancel_get_def room_ok_def\<close>)
  next
    case (Connecting p)
    then show ?thesis
      using assms i tally_pos [OF i, of real_slots]
      by (cases p) (auto simp: cancel_get_def room_ok_def)
  qed (use assms i in \<open>auto simp: cancel_get_def room_ok_def\<close>)
qed

lemma room_step:
  assumes "pool_step cfg a s = Some s'" and "allowed False a" and "tickets_ok s" and "total_ok s"
    and "room_ok cfg s" and "tally warming s = 0"
  shows "room_ok cfg s' \<and> tally warming s' = 0"
proof (cases a)
  case (Run i ok life)
  then show ?thesis
    using assms run_task_room [of cfg i ok life s s'] run_task_cold [of cfg i ok life s s']
    by (simp add: pool_step_def split: if_splits)
next
  case (Cancel i)
  then show ?thesis
    using assms cancel_room [of i s s'] by (simp add: pool_step_def split: if_splits)
next
  case (TakeGuard i)
  then have i: "i < length (pl_tasks s)"
    using assms(1) by (simp add: pool_step_def split: if_splits)
  show ?thesis
    using assms TakeGuard i by (auto simp: pool_step_def guard_take_def room_ok_def split: task.splits)
next
  case (DropGuard i)
  then have i: "i < length (pl_tasks s)"
    using assms(1) by (simp add: pool_step_def split: if_splits)
  show ?thesis
    using assms DropGuard i tally_pos [OF i, of real_slots]
    by (auto simp: pool_step_def room_ok_def split: task.splits)
qed (use assms in \<open>auto simp: pool_step_def room_ok_def split: if_splits task.splits\<close>)

lemma runs_room:
  assumes "pool_runs cfg warm s" and "\<not> warm" and "pc_min_idle cfg \<le> pc_max_size cfg"
  shows "room_ok cfg s \<and> tally warming s = 0"
  using assms
proof (induction rule: pool_runs.induct)
  case (start connects)
  have "pl_total (pool_new cfg connects) = length (pl_idle (pool_new cfg connects))"
    using pool_new_counts(1,4-6) [of cfg connects] by (simp add: total_ok_def tally_def)
  then show ?case
    using start pool_new_counts(4-6,9) [of cfg connects] by (simp add: room_ok_def tally_def)
next
  case (act s a s')
  then show ?case
    using room_step [of cfg a s s'] runs_counts [of cfg warm s] by simp
qed

section \<open>The waiter count\<close>

fun clearing :: "task \<Rightarrow> nat" where
  "clearing DrainIdle = 1"
| "clearing DrainWaiters = 1"
| "clearing _ = 0"

lemma clearing_after [simp]: "clearing (after_create p c) = 0" "clearing (after_failure p) = 0"
  by (cases p; simp)+

text \<open>Until a drain starts the waiter count is the number of callers that wait.\<close>

definition waiting_ok :: "pool \<Rightarrow> bool" where
  "waiting_ok s \<longleftrightarrow>
     (\<not> pl_draining s \<longrightarrow> pl_waiter_count s = tally queued s \<and> tally clearing s = 0)"

lemma run_task_waiting:
  assumes "run_task cfg i ok life s = Some s'" and i: "i < length (pl_tasks s)" and "waiting_ok s"
  shows "waiting_ok s'"
proof (cases "pl_tasks s ! i")
  case TryIdle
  obtain r t where g: "try_get_idle cfg s = (r, t)" by fastforce
  show ?thesis
    using assms i TryIdle g try_get_idle_frame [OF g] tally_tasks [of t s]
    by (cases r) (auto simp: run_defs waiting_ok_def)
next
  case (Handing c)
  obtain b t where g: "hand_over c s = (b, t)" by fastforce
  show ?thesis
    using assms i Handing g hand_over_frame [OF g] tally_tasks [of t s]
    by (cases b) (auto simp: run_defs waiting_ok_def)
next
  case (ProvisionHand c)
  obtain b t where g: "hand_over c s = (b, t)" by fastforce
  show ?thesis
    using assms i ProvisionHand g hand_over_frame [OF g] tally_tasks [of t s]
    by (cases b) (auto simp: run_defs waiting_ok_def)
next
  case (Waiting w)
  then show ?thesis
    using assms i tally_pos [OF i, of queued]
    by (cases "map_of (pl_sent s) w") (auto simp: run_defs check_out_def waiting_ok_def split: if_splits)
next
  case DrainWaiters
  then show ?thesis
    using assms i tally_pos [OF i, of clearing] by (auto simp: run_defs waiting_ok_def)
qed (use assms(1,3) i tally_pos [OF i, of queued] in
      \<open>auto simp: run_defs step_defs Let_def waiting_ok_def split: if_splits\<close>)

lemma waiting_step:
  assumes "pool_step cfg a s = Some s'" and "waiting_ok s"
  shows "waiting_ok s'"
proof (cases a)
  case (Run i ok life)
  then show ?thesis
    using assms run_task_waiting [of cfg i ok life s s'] by (simp add: pool_step_def split: if_splits)
next
  case (Cancel i)
  then have i: "i < length (pl_tasks s)" and g: "cancel_get i s = Some s'"
    using assms(1) by (simp_all add: pool_step_def split: if_splits)
  show ?thesis
    using g i assms(2) tally_pos [OF i, of queued]
    by (cases "pl_tasks s ! i")
       (auto simp: cancel_get_def waiting_ok_def split: option.splits purpose.splits)
next
  case (TimeUp i)
  then have i: "i < length (pl_tasks s)"
    using assms(1) by (simp add: pool_step_def split: if_splits)
  show ?thesis
    using assms TimeUp i tally_pos [OF i, of queued]
    by (auto simp: pool_step_def waiting_ok_def split: task.splits if_splits)
next
  case (TakeGuard i)
  then have i: "i < length (pl_tasks s)"
    using assms(1) by (simp add: pool_step_def split: if_splits)
  show ?thesis
    using assms TakeGuard i by (auto simp: pool_step_def guard_take_def waiting_ok_def split: task.splits)
next
  case (DropGuard i)
  then have i: "i < length (pl_tasks s)"
    using assms(1) by (simp add: pool_step_def split: if_splits)
  show ?thesis
    using assms DropGuard i by (auto simp: pool_step_def waiting_ok_def split: task.splits)
qed (use assms in \<open>auto simp: pool_step_def waiting_ok_def split: if_splits\<close>)

lemma runs_waiting: "pool_runs cfg warm s \<Longrightarrow> waiting_ok s"
proof (induction rule: pool_runs.induct)
  case (start connects)
  then show ?case
    using pool_new_counts(4,7) [of cfg connects] by (simp add: waiting_ok_def tally_def)
next
  case (act s a s')
  then show ?case
    using waiting_step by blast
qed


section \<open>Lifetimes\<close>

text \<open>\<open>fastrand_u64\<close>: the next state of the generator, which is also its output.\<close>

definition xorshift :: "u64 \<Rightarrow> u64" where
  "xorshift x =
     (let x = xor x (push_bit 13 x);
          x = xor x (drop_bit 7 x);
          x = xor x (push_bit 17 x)
      in if x = 0 then 1 else x)"

text \<open>\<open>jittered_duration\<close> in nanoseconds, with the generator's state. \<open>as_millis\<close> drops what is below a
  millisecond; the sum \<open>jitter_ms * 2 + 1\<close> wraps in a release build.\<close>

definition jittered_duration :: "nat \<Rightarrow> nat \<Rightarrow> u64 \<Rightarrow> nat \<times> u64" where
  "jittered_duration base jitter rng =
     (if jitter = 0 then (base, rng)
      else
        let jitter_ms = word_of_nat (jitter div 1000000) :: u64;
            x = xorshift rng;
            offset = x mod (jitter_ms * 2 + 1);
            jittered = int (base div 1000000) + uint offset - uint jitter_ms
        in (nat (max jittered 1) mod 2 ^ 64 * 1000000, x))"

section \<open>Properties\<close>

lemma tally_count:
  assumes "\<And>t. f t = (if P t then 1 else 0)"
  shows "tally f s = length (filter P (pl_tasks s))"
proof -
  have "sum_list (map f ts) = length (filter P ts)" for ts
    by (induction ts) (auto simp: assms)
  then show ?thesis by (simp add: tally_def)
qed

definition holds_guard :: "task \<Rightarrow> bool" where
  "holds_guard t \<longleftrightarrow> (case t of Held c \<Rightarrow> True | Returning c \<Rightarrow> True | _ \<Rightarrow> False)"

definition parked :: "task \<Rightarrow> bool" where
  "parked t \<longleftrightarrow> (case t of Waiting w \<Rightarrow> True | Cleanup \<Rightarrow> True | _ \<Rightarrow> False)"

lemma uses_count: "tally uses s = length (filter holds_guard (pl_tasks s))"
proof (rule tally_count)
  show "uses t = (if holds_guard t then 1 else 0)" for t
    by (cases t) (auto simp: holds_guard_def)
qed

lemma queued_count: "tally queued s = length (filter parked (pl_tasks s))"
proof (rule tally_count)
  show "queued t = (if parked t then 1 else 0)" for t
    by (cases t) (auto simp: parked_def)
qed

lemma uses_le_slots: "tally uses s \<le> tally slots s"
proof (rule tally_mono)
  show "uses t \<le> slots t" for t
    by (cases t) auto
qed

lemma run_actions_runs:
  "pool_runs cfg warm s \<Longrightarrow> list_all (allowed warm) as \<Longrightarrow> run_actions cfg as s = Some s'
    \<Longrightarrow> pool_runs cfg warm s'"
proof (induction as arbitrary: s)
  case (Cons a as)
  then obtain t where "pool_step cfg a s = Some t" and "run_actions cfg as t = Some s'"
    by (auto split: option.splits)
  then show ?case
    using Cons pool_runs.act by fastforce
qed simp

text \<open>A pool of one connection at most: the first caller creates it, the second waits.\<close>

definition one_cfg :: pool_config where
  "one_cfg = \<lparr>pc_min_idle = 0, pc_max_size = 1, pc_test_on_checkout = True\<rparr>"

definition one_new :: pool where
  "one_new = pool_new one_cfg (\<lambda>i. (True, 10))"

definition get_created :: "nat \<Rightarrow> pool_action list" where
  "get_created i = [CallGet, Run i True 0, Run i True 0, Run i True 0, Run i True 0, Run i True 0]"

definition get_queued :: "nat \<Rightarrow> pool_action list" where
  "get_queued i = [CallGet, Run i True 0, Run i True 0, Run i True 0]"

definition ran :: "pool_action list \<Rightarrow> pool" where
  "ran as = (case run_actions one_cfg as one_new of Some s \<Rightarrow> s | None \<Rightarrow> pool_empty)"

lemma ran_runs:
  assumes "run_actions one_cfg as one_new \<noteq> None" and "list_all (allowed False) as"
  shows "pool_runs one_cfg False (ran as)"
proof -
  have "pool_runs one_cfg False one_new"
    unfolding one_new_def by (rule start)
  then show ?thesis
    using assms run_actions_runs by (auto simp: ran_def)
qed

definition busy :: pool where
  "busy = ran (get_created 0 @ get_queued 1)"

lemma busy_runs: "pool_runs one_cfg False busy"
  unfolding busy_def by (rule ran_runs) code_simp+



text \<open>C8: no connection is ever in two hands. In every reachable state two tasks never hold the same
  connection, and one that a task holds is neither idle nor on its way to a waiter.\<close>

theorem pool_exclusive:
  assumes "pool_runs cfg warm s" and "i < length (pl_tasks s)" and "c \<in> set (conns_of (pl_tasks s ! i))"
  shows "(\<forall>j < length (pl_tasks s). j \<noteq> i \<longrightarrow> c \<notin> set (conns_of (pl_tasks s ! j)))
    \<and> c \<notin> fst ` set (pl_idle s) \<and> c \<notin> snd ` set (pl_sent s)"
proof -
  let ?n = "\<lambda>t. count_list (conns_of t) c"
  have one: "places c s \<le> 1"
    using runs_exclusive [OF assms(1)] by (rule exclusive_le)
  have mem: "x \<in> set xs \<longleftrightarrow> 0 < count_list xs x" for x :: nat and xs
    by (induction xs) auto
  have i: "0 < ?n (pl_tasks s ! i)"
    using assms(3) mem by blast
  have "?n (pl_tasks s ! i) \<le> tally ?n s"
    by (rule tally_pos [OF assms(2)])
  then have "count_list (map fst (pl_idle s)) c = 0" "count_list (map snd (pl_sent s)) c = 0"
    using one i by (simp_all add: places_def)
  moreover have "?n (pl_tasks s ! j) = 0" if "j < length (pl_tasks s)" "j \<noteq> i" for j
    using places_two_tasks [OF assms(2) that(1), of c] that(2) one i by (simp add: places_def)
  ultimately show ?thesis
    using mem by (metis less_irrefl set_map)
qed

theorem pool_exclusive_witness:
  "pl_tasks busy = [Held 0, Waiting 0] \<and> (0::nat) \<notin> fst ` set (pl_idle busy)"
proof -
  have tasks: "pl_tasks busy = [Held 0, Waiting 0]"
    by code_simp
  show ?thesis
    using pool_exclusive [OF busy_runs, of 0 0] tasks by simp
qed




text \<open>Returned connections go to the waiters in the order they came. A return that reaches the queue
  hands its connection to the live waiter with the lowest ticket, skipping those that gave up, and parks
  it only when no live waiter is left.\<close>

theorem pool_fifo:
  assumes "pool_runs cfg warm s" and "i < length (pl_tasks s)" and "pl_tasks s ! i = Handing c"
    and "pool_step cfg (Run i ok life) s = Some s'"
  shows "if \<exists>w \<in> set (pl_waiters s). live_waiter s w
    then \<exists>w. w \<in> set (pl_waiters s) \<and> live_waiter s w
       \<and> (\<forall>v \<in> set (pl_waiters s). live_waiter s v \<longrightarrow> w \<le> v)
       \<and> pl_sent s' = (w, c) # pl_sent s \<and> (\<forall>v \<in> set (pl_waiters s'). w < v) \<and> pl_tasks s' ! i = Finished
    else pl_sent s' = pl_sent s \<and> pl_waiters s' = [] \<and> pl_tasks s' ! i = Parking c"
proof -
  have run: "run_task cfg i ok life s = Some s'" and sorted: "sorted_wrt (<) (pl_waiters s)"
    using assms(2,4) runs_counts [OF assms(1)] by (simp_all add: pool_step_def tickets_ok_def)
  obtain b t where g: "hand_over c s = (b, t)" by fastforce
  show ?thesis
  proof (cases b)
    case True
    then obtain w dead rest where "pl_waiters s = dead @ w # rest" "live_waiter s w"
      "\<forall>d \<in> set dead. \<not> live_waiter s d" "t = s\<lparr>pl_waiters := rest, pl_sent := (w, c) # pl_sent s\<rparr>"
      using g by (auto elim!: hand_over_true)
    then show ?thesis
      using run assms(2,3) g True sorted
      by (auto simp: run_defs sorted_wrt_append) (metis less_imp_le)
  next
    case False
    then show ?thesis
      using run assms(2,3) g hand_over_false [of c s t] by (auto simp: run_defs)
  qed
qed

definition handing :: pool where
  "handing = ran (get_created 0 @ get_queued 1 @ [DropGuard 0, Run 0 True 0, Run 0 True 0, Run 0 True 0])"

lemma handing_runs: "pool_runs one_cfg False handing"
  unfolding handing_def by (rule ran_runs) code_simp+

theorem pool_fifo_witness:
  "\<exists>s'. pool_step one_cfg (Run 0 True 0) handing = Some s' \<and> pl_sent s' = [(0, 0)]"
proof -
  have h: "length (pl_tasks handing) = 2" "pl_tasks handing ! 0 = Handing 0" "pl_waiters handing = [0]"
    "live_waiter handing 0" "pl_sent handing = []"
    by code_simp+
  have "pool_step one_cfg (Run 0 True 0) handing \<noteq> None"
    by code_simp
  then obtain s' where s': "pool_step one_cfg (Run 0 True 0) handing = Some s'"
    by blast
  show ?thesis
    using pool_fifo [OF handing_runs _ h(2) s'] h s' by auto
qed

text \<open>\<open>drain\<close> returns only when every connection is gone: when its task finishes, the idle list is
  empty, nothing is on its way to a waiter, and no caller or return holds a connection.\<close>

theorem drain_completes:
  assumes "pool_runs cfg False s" and "pc_min_idle cfg \<le> pc_max_size cfg"
    and "i < length (pl_tasks s)" and "pl_tasks s ! i = DrainCheck"
    and "pool_step cfg (Run i ok life) s = Some s'" and "pl_tasks s' ! i = Finished"
  shows "pl_idle s' = [] \<and> pl_sent s' = [] \<and> (\<forall>t \<in> set (pl_tasks s'). conns_of t = [])"
proof -
  have "pl_total s = 0" and s': "s' = become i Finished s"
    using assms(3-6) by (auto simp: pool_step_def run_defs split: if_splits)
  then have zero: "pl_idle s = []" "tally slots s = 0" "pl_sent s = []"
    using runs_counts [OF assms(1)] by (simp_all add: total_ok_def)
  have warm: "tally warming s = 0"
    using runs_room [OF assms(1) _ assms(2)] by blast
  have "conns_of t = []" if t: "t \<in> set (pl_tasks s)" for t
  proof -
    obtain j where "j < length (pl_tasks s)" "t = pl_tasks s ! j"
      using t by (auto simp: in_set_conv_nth)
    then have "slots t = 0" "warming t = 0"
      using tally_pos [of j s slots] tally_pos [of j s warming] zero(2) warm by simp_all
    then show ?thesis
      by (cases t) auto
  qed
  then show ?thesis
    using zero(1,3) s' assms(3) by (auto dest!: set_update_subset_insert [THEN subsetD])
qed

definition drained :: pool where
  "drained = ran (get_created 0 @ [CallDrain, Run 1 True 0, Run 1 True 0, Run 1 True 0, DropGuard 0,
     Run 0 True 0, Run 0 True 0, Run 0 True 0, Run 0 True 0, Run 1 True 0])"

lemma drained_runs: "pool_runs one_cfg False drained"
  unfolding drained_def by (rule ran_runs) code_simp+

theorem drain_completes_witness:
  "\<exists>s'. pool_step one_cfg (Run 1 True 0) drained = Some s' \<and> pl_idle s' = [] \<and> pl_total drained = 0"
proof -
  have h: "length (pl_tasks drained) = 2" "pl_tasks drained ! 1 = DrainCheck" "pl_total drained = 0"
    by code_simp+
  have "\<exists>s'. pool_step one_cfg (Run 1 True 0) drained = Some s' \<and> pl_tasks s' ! 1 = Finished"
    using h by (simp add: pool_step_def run_defs)
  then show ?thesis
    using drain_completes [OF drained_runs _ _ h(2)] h by (auto simp: one_cfg_def)
qed

text \<open>Until a drain starts, \<open>waiter_count\<close> is exactly the number of callers that wait or that clean up
  after their timeout: no exit of \<open>get\<close>, not even a dropped future, leaves the gauge wrong.\<close>

theorem waiters_counted:
  assumes "pool_runs cfg warm s" and "\<not> pl_draining s"
  shows "pl_waiter_count s = length (filter parked (pl_tasks s))"
  using runs_waiting [OF assms(1)] assms(2) by (simp add: waiting_ok_def queued_count)

theorem waiters_counted_witness: "pl_waiter_count busy = 1 \<and> \<not> pl_draining busy"
proof -
  have "\<not> pl_draining busy" "length (filter parked (pl_tasks busy)) = 1"
    by code_simp+
  then show ?thesis
    using waiters_counted [OF busy_runs] by simp
qed

text \<open>C40: the jittered lifetime of a connection lies within the jitter around the configured lifetime and is
  never below one millisecond, for any state of the generator.\<close>

theorem jittered_duration_bounds:
  assumes "0 < jitter" and "jitter div 1000000 < 2 ^ 62" and "base div 1000000 < 2 ^ 62"
    and "jittered_duration base jitter rng = (d, rng')"
  shows "max (int (base div 1000000) - int (jitter div 1000000)) 1 \<le> int (d div 1000000)
    \<and> int (d div 1000000) \<le> max (int (base div 1000000) + int (jitter div 1000000)) 1"
proof -
  define j where "j = (word_of_nat (jitter div 1000000) :: u64)"
  define r where "r = xorshift rng mod (j * 2 + 1)"
  have j: "uint j = int (jitter div 1000000)"
    using assms(2) by (simp add: j_def uint_nat unat_of_nat)
  have n: "uint (j * 2 + 1) = 2 * uint j + 1"
    using j assms(2) by (simp add: uint_word_ariths)
  have pos: "0 < uint (j * 2 + 1)"
    using n j by simp
  have "uint r < uint (j * 2 + 1)"
    unfolding r_def uint_mod by (rule pos_mod_bound [OF pos])
  then have r_le: "0 \<le> uint r" "uint r \<le> 2 * uint j"
    using n by simp_all
  define m where "m = nat (max (int (base div 1000000) + uint r - uint j) 1)"
  have "int (base div 1000000) < 2 ^ 62" "int (jitter div 1000000) < 2 ^ 62"
    using assms(2,3) by (simp_all only: of_nat_less_numeral_power_cancel_iff)
  then have "m < 2 ^ 64"
    unfolding m_def using r_le j by (auto simp: max_def nat_less_iff)
  then have "d = m * 1000000"
    using assms(1,4) by (auto simp: jittered_duration_def Let_def m_def r_def j_def)
  then have "d div 1000000 = m"
    by simp
  moreover have "int m = max (int (base div 1000000) + uint r - uint j) 1"
    unfolding m_def by (rule nat_0_le) simp
  ultimately show ?thesis
    by (auto simp: max_def) (use r_le j in linarith)+
qed

theorem jittered_duration_bounds_witness:
  "\<exists>d rng. jittered_duration 1800000000000 60000000000 1 = (d, rng)
    \<and> 1740000 \<le> d div 1000000 \<and> d div 1000000 \<le> 1860000"
proof -
  obtain d rng where g: "jittered_duration 1800000000000 60000000000 1 = (d, rng)"
    by fastforce
  show ?thesis
    using jittered_duration_bounds [OF _ _ _ g] g by auto
qed

section \<open>What goes wrong\<close>

text \<open>\<open>drain\<close> takes the waiters it drops out of \<open>waiter_count\<close>, and so does the guard of each waiter: the
  gauge wraps.\<close>

lemma drain_wraps_waiter_count:
  "pl_waiter_count (ran (get_created 0 @ get_queued 1 @ [CallDrain, Run 2 True 0, Run 2 True 0, Run 1 True 0]))
    = usize_limit - 1"
proof -
  define s where "s = ran (get_created 0 @ get_queued 1 @ [CallDrain, Run 2 True 0, Run 2 True 0])"
  have s: "pl_tasks s = [Held 0, Waiting 0, DrainCheck]" "pl_waiter_count s = 0" "pl_waiters s = []"
    "pl_sent s = []"
    unfolding s_def by code_simp+
  have "run_actions one_cfg (get_created 0 @ get_queued 1 @ [CallDrain, Run 2 True 0, Run 2 True 0]) one_new
      \<noteq> None"
    by code_simp
  moreover have "run_actions cfg (as @ bs) t
      = (case run_actions cfg as t of None \<Rightarrow> None | Some t \<Rightarrow> run_actions cfg bs t)" for cfg as bs t
    by (induction as arbitrary: t) (auto split: option.splits)
  ultimately have "run_actions one_cfg (get_created 0 @ get_queued 1 @
      [CallDrain, Run 2 True 0, Run 2 True 0] @ [Run 1 True 0]) one_new = pool_step one_cfg (Run 1 True 0) s"
    by (auto simp: s_def ran_def simp flip: append_assoc split: option.splits)
  then show ?thesis
    using s by (simp add: ran_def pool_step_def run_defs fetch_sub_def)
qed

text \<open>A return that passed the check of \<open>draining\<close> before the drain began parks its connection afterwards;
  the drain then waits for a notification that nothing will send.\<close>

lemma drain_misses_late_return:
  "let s = ran (get_created 0 @ [DropGuard 0, Run 0 True 0, Run 0 True 0, Run 0 True 0, CallDrain,
       Run 1 True 0, Run 1 True 0, Run 1 True 0, Run 0 True 0, Run 0 True 5])
   in pl_tasks s = [Finished, DrainWait] \<and> \<not> pl_notify s \<and> map fst (pl_idle s) = [0] \<and> pl_total s = 1"
  by code_simp

text \<open>So does a guard whose connection is taken out during a drain: \<open>take\<close> does not notify.\<close>

lemma take_does_not_notify:
  "let s = ran (get_created 0 @ [CallDrain, Run 1 True 0, Run 1 True 0, Run 1 True 0, TakeGuard 0])
   in pl_tasks s = [Finished, DrainWait] \<and> \<not> pl_notify s \<and> pl_total s = 0"
  by code_simp

text \<open>A caller dropped while it connects has counted its slot and never gives it back: here the pool is full
  for good without any connection.\<close>

lemma cancelled_connect_leaks_slot:
  "let s = ran ([CallGet, Run 0 True 0, Run 0 True 0, Run 0 True 0, Cancel 0] @ get_queued 1)
   in pl_tasks s = [Finished, Waiting 0] \<and> pl_total s = 1 \<and> pl_lost s = 1 \<and> pl_idle s = []"
  by code_simp

text \<open>\<open>warm_up\<close> counts its connections only after they are made, so a caller meanwhile takes the slot too.\<close>

lemma warm_up_exceeds_max_size:
  "let s = ran ([CallWarmUp 1, Run 0 True 0] @ get_created 1 @ [Run 0 True 0])
   in pl_total s = 2 \<and> pc_max_size one_cfg = 1"
  by code_simp

end
