(* ===== verification/Utf8.thy ===== *)
theory Utf8
  imports Prelude
begin

text \<open>
  The part of Rust's UTF-8 support the program relies on. \<open>utf8_seq\<close> scans one sequence the way
  \<open>core::str::lossy::Utf8Chunks\<close> does: the number of bytes it takes and whether they are a scalar
  value. \<open>String::from_utf8\<close> accepts a byte list all of whose sequences are good;
  \<open>String::from_utf8_lossy\<close> replaces every bad one by U+FFFD. These are the standard library's
  algorithms, so no definition here is mapped to a file of the repository.
\<close>

definition is_cont :: "u8 \<Rightarrow> bool" where
  "is_cont b \<longleftrightarrow> 0x80 \<le> b \<and> b \<le> 0xBF"

text \<open>The second byte of a three- or four-byte sequence, given its first.\<close>

definition second3 :: "u8 \<Rightarrow> u8 \<Rightarrow> bool" where
  "second3 b c \<longleftrightarrow>
     (if b = 0xE0 then 0xA0 \<le> c \<and> c \<le> 0xBF
      else if b = 0xED then 0x80 \<le> c \<and> c \<le> 0x9F
      else is_cont c)"

definition second4 :: "u8 \<Rightarrow> u8 \<Rightarrow> bool" where
  "second4 b c \<longleftrightarrow>
     (if b = 0xF0 then 0x90 \<le> c \<and> c \<le> 0xBF
      else if b = 0xF4 then 0x80 \<le> c \<and> c \<le> 0x8F
      else is_cont c)"

text \<open>How many of the first \<open>n\<close> bytes are continuation bytes, up to the first that is not.\<close>

fun conts :: "nat \<Rightarrow> bytes \<Rightarrow> nat" where
  "conts (Suc n) (b # bs) = (if is_cont b then Suc (conts n bs) else 0)"
| "conts _ _ = 0"

definition utf8_tail :: "(u8 \<Rightarrow> bool) \<Rightarrow> nat \<Rightarrow> bytes \<Rightarrow> nat \<times> bool" where
  "utf8_tail second more bs =
     (case bs of [] \<Rightarrow> (1, False)
      | c # rest \<Rightarrow>
          if second c then (2 + conts more rest, conts more rest = more) else (1, False))"

fun utf8_seq :: "bytes \<Rightarrow> nat \<times> bool" where
  "utf8_seq [] = (0, False)"
| "utf8_seq (b # bs) =
     (if b < 0x80 then (1, True)
      else if 0xC2 \<le> b \<and> b \<le> 0xDF then utf8_tail is_cont 0 bs
      else if 0xE0 \<le> b \<and> b \<le> 0xEF then utf8_tail (second3 b) 1 bs
      else if 0xF0 \<le> b \<and> b \<le> 0xF4 then utf8_tail (second4 b) 2 bs
      else (1, False))"

lemma conts_le [simp]: "conts n bs \<le> length bs"
  by (induction n bs rule: conts.induct) auto

lemma conts_append: "conts n xs = n \<Longrightarrow> conts n (xs @ ys) = n"
  by (induction n xs rule: conts.induct) (auto split: if_splits)

lemma conts_take: "conts n xs = n \<Longrightarrow> conts n (take n xs) = n"
  by (induction n xs rule: conts.induct) (auto split: if_splits)

lemma utf8_tail_pos [simp]: "0 < fst (utf8_tail p n bs)"
  by (simp add: utf8_tail_def split: list.splits)

lemma utf8_tail_le [simp]: "fst (utf8_tail p n bs) \<le> Suc (length bs)"
  by (simp add: utf8_tail_def split: list.splits)

lemma utf8_tail_append: "snd (utf8_tail p n xs) \<Longrightarrow> utf8_tail p n (xs @ ys) = utf8_tail p n xs"
  by (auto simp: utf8_tail_def conts_append split: list.splits if_splits)

lemma utf8_seq_pos: "bs \<noteq> [] \<Longrightarrow> 0 < fst (utf8_seq bs)"
  by (cases bs) simp_all

lemma utf8_seq_le: "fst (utf8_seq bs) \<le> length bs"
  by (cases bs) simp_all

lemma utf8_seq_drop_less: "bs \<noteq> [] \<Longrightarrow> length (drop (fst (utf8_seq bs)) bs) < length bs"
  using utf8_seq_pos [of bs] by (cases bs) auto

lemma utf8_seq_append: "snd (utf8_seq xs) \<Longrightarrow> utf8_seq (xs @ ys) = utf8_seq xs"
  by (cases xs) (auto simp: utf8_tail_append split: if_splits)

function utf8_valid :: "bytes \<Rightarrow> bool" where
  "utf8_valid bs =
     (if bs = [] then True
      else if snd (utf8_seq bs) then utf8_valid (drop (fst (utf8_seq bs)) bs)
      else False)"
  by pat_completeness auto
termination
  by (relation "measure length") (auto simp del: length_drop intro!: utf8_seq_drop_less)

function utf8_lossy :: "bytes \<Rightarrow> bytes" where
  "utf8_lossy bs =
     (if bs = [] then []
      else (if snd (utf8_seq bs) then take (fst (utf8_seq bs)) bs else [0xEF, 0xBF, 0xBD])
           @ utf8_lossy (drop (fst (utf8_seq bs)) bs))"
  by pat_completeness auto
termination
  by (relation "measure length") (auto simp del: length_drop intro!: utf8_seq_drop_less)

declare utf8_valid.simps [simp del] utf8_lossy.simps [simp del]

text \<open>\<open>String::from_utf8\<close> (and \<open>std::str::from_utf8\<close>): the bytes themselves, or an error.\<close>

definition from_utf8 :: "bytes \<Rightarrow> rstring option" where
  "from_utf8 bs = (if utf8_valid bs then Some bs else None)"

lemma utf8_valid_Nil [simp]: "utf8_valid []"
  by (simp add: utf8_valid.simps)

lemma utf8_lossy_Nil [simp]: "utf8_lossy [] = []"
  by (simp add: utf8_lossy.simps)

lemma from_utf8_valid: "from_utf8 bs = Some s \<Longrightarrow> utf8_valid s"
  by (auto simp: from_utf8_def split: if_splits)

lemma utf8_valid_append: "utf8_valid xs \<Longrightarrow> utf8_valid (xs @ ys) = utf8_valid ys"
proof (induction xs rule: utf8_valid.induct)
  case (1 xs)
  show ?case
  proof (cases "xs = []")
    case False
    let ?n = "fst (utf8_seq xs)"
    from False "1.prems" have ok: "snd (utf8_seq xs)" and rest: "utf8_valid (drop ?n xs)"
      by (simp_all add: utf8_valid.simps [of xs] split: if_splits)
    have n: "?n \<le> length xs"
      by (rule utf8_seq_le)
    have "utf8_valid (xs @ ys) = utf8_valid (drop ?n xs @ ys)"
      using False ok n by (simp add: utf8_valid.simps [of "xs @ ys"] utf8_seq_append)
    with 1 False ok rest show ?thesis by simp
  qed simp
qed

lemma utf8_valid_ascii: "\<forall>b \<in> set bs. b < 0x80 \<Longrightarrow> utf8_valid bs"
  by (induction bs) (auto simp: utf8_valid.simps [of "_ # _"])

lemma utf8_tail_take:
  "snd (utf8_tail p n cs) \<Longrightarrow> utf8_tail p n (take (fst (utf8_tail p n cs) - Suc 0) cs) = utf8_tail p n cs"
  by (auto simp: utf8_tail_def conts_take split: list.splits if_splits)

lemma take_Suc_tail:
  "take (fst (utf8_tail p n cs)) (b # cs) = b # take (fst (utf8_tail p n cs) - Suc 0) cs"
  using utf8_tail_pos [of p n cs] by (cases "fst (utf8_tail p n cs)") auto

lemma utf8_seq_take:
  assumes "snd (utf8_seq bs)"
  shows "utf8_seq (take (fst (utf8_seq bs)) bs) = utf8_seq bs"
proof (cases bs)
  case (Cons b cs)
  have "(\<forall>x. utf8_seq (b # x) = (1, True)) \<or> (\<exists>p n. \<forall>x. utf8_seq (b # x) = utf8_tail p n x)"
    using assms Cons by (simp split: if_splits) blast+
  then show ?thesis
  proof (elim disjE exE)
    assume "\<forall>x. utf8_seq (b # x) = (1, True)"
    then show ?thesis using Cons by simp
  next
    fix p n
    assume "\<forall>x. utf8_seq (b # x) = utf8_tail p n x"
    then show ?thesis
      using assms Cons by (simp add: take_Suc_tail utf8_tail_take del: utf8_seq.simps)
  qed
qed (use assms in simp)

lemma utf8_valid_take_seq: "snd (utf8_seq bs) \<Longrightarrow> utf8_valid (take (fst (utf8_seq bs)) bs)"
  using utf8_seq_le [of bs]
  by (simp add: utf8_valid.simps [of "take _ bs"] utf8_seq_take)

text \<open>The lossy conversion always yields a string, and leaves a string unchanged.\<close>

lemma utf8_valid_replacement: "utf8_valid [0xEF, 0xBF, 0xBD]"
  by (simp add: utf8_valid.simps [of "[_, _, _]"] utf8_tail_def second3_def is_cont_def)

lemma utf8_valid_lossy: "utf8_valid (utf8_lossy bs)"
proof (induction bs rule: utf8_lossy.induct)
  case (1 bs)
  then show ?case
    by (auto simp: utf8_lossy.simps [of bs] utf8_valid_append utf8_valid_take_seq
        utf8_valid_replacement)
qed

lemma utf8_lossy_valid: "utf8_valid bs \<Longrightarrow> utf8_lossy bs = bs"
proof (induction bs rule: utf8_lossy.induct)
  case (1 bs)
  then show ?case
    by (auto simp: utf8_lossy.simps [of bs] utf8_valid.simps [of bs])
qed

end
