(* ===== verification/Rust_Std.thy ===== *)
theory Rust_Std
  imports Utf8
begin

text \<open>
  String functions of the Rust standard library the program calls: \<open>split\<close>, \<open>strip_prefix\<close>,
  \<open>starts_with\<close>, \<open>str::parse\<close> for integers and decimal formatting, each over the bytes of the string.
  They are library code, so none is mapped to a file of the repository.
\<close>

section \<open>Splitting and prefixes\<close>

text \<open>\<open>s.split(c)\<close> for an ASCII character: never empty.\<close>

fun split_on :: "u8 \<Rightarrow> bytes \<Rightarrow> bytes list" where
  "split_on c [] = [[]]"
| "split_on c (b # bs) =
     (if b = c then [] # split_on c bs
      else case split_on c bs of [] \<Rightarrow> [[b]] | p # ps \<Rightarrow> (b # p) # ps)"

lemma split_on_not_Nil [simp]: "split_on c bs \<noteq> []"
  by (induction bs) (auto split: list.splits)

lemma split_on_single: "c \<notin> set bs \<Longrightarrow> split_on c bs = [bs]"
  by (induction bs) auto

lemma split_on_append: "c \<notin> set xs \<Longrightarrow> split_on c (xs @ c # ys) = xs # split_on c ys"
  by (induction xs) auto

definition starts_with :: "bytes \<Rightarrow> bytes \<Rightarrow> bool" where
  "starts_with p s \<longleftrightarrow> take (length p) s = p"

definition strip_prefix :: "bytes \<Rightarrow> bytes \<Rightarrow> bytes option" where
  "strip_prefix p s = (if starts_with p s then Some (drop (length p) s) else None)"

lemma starts_with_append [simp]: "starts_with p (p @ s)"
  by (simp add: starts_with_def)

lemma strip_prefix_append [simp]: "strip_prefix p (p @ s) = Some s"
  by (simp add: strip_prefix_def)

lemma starts_with_iff: "starts_with p s \<longleftrightarrow> (\<exists>r. s = p @ r)"
  unfolding starts_with_def by (metis append_eq_conv_conj append_take_drop_id)

section \<open>Decimal numbers\<close>

definition is_digit :: "u8 \<Rightarrow> bool" where "is_digit c \<longleftrightarrow> 0x30 \<le> c \<and> c \<le> 0x39"

definition digit_val :: "u8 \<Rightarrow> nat" where "digit_val c = unat c - 48"

definition digits_val :: "bytes \<Rightarrow> nat" where
  "digits_val ds = foldl (\<lambda>a c. a * 10 + digit_val c) 0 ds"

text \<open>\<open>s.parse::<uN>()\<close> where \<open>lim\<close> is the first number that does not fit.\<close>

definition parse_unsigned :: "nat \<Rightarrow> bytes \<Rightarrow> nat option" where
  "parse_unsigned lim s =
     (let d = (case s of c # cs \<Rightarrow> if c = 0x2B \<and> cs \<noteq> [] then cs else s | [] \<Rightarrow> s)
      in if d \<noteq> [] \<and> list_all is_digit d \<and> digits_val d < lim then Some (digits_val d) else None)"

text \<open>\<open>{n}\<close> of an unsigned integer.\<close>

fun decimal :: "nat \<Rightarrow> bytes" where
  "decimal n = (if n < 10 then [word_of_nat (48 + n)]
                else decimal (n div 10) @ [word_of_nat (48 + n mod 10)])"

declare decimal.simps [simp del]

lemma digit_byte: "k < 10 \<Longrightarrow> is_digit (word_of_nat (48 + k)) \<and> digit_val (word_of_nat (48 + k)) = k"
proof -
  assume "k < 10"
  then have "k \<in> {0, 1, 2, 3, 4, 5, 6, 7, 8, 9}" by auto
  then show ?thesis by (auto simp: is_digit_def digit_val_def)
qed

lemma decimal_not_Nil [simp]: "decimal n \<noteq> []"
  by (subst decimal.simps) simp

lemma decimal_digits: "list_all is_digit (decimal n)"
  by (induction n rule: decimal.induct) (subst decimal.simps, auto simp: digit_byte simp del: of_nat_add)

lemma digits_val_snoc: "digits_val (ds @ [c]) = digits_val ds * 10 + digit_val c"
  by (simp add: digits_val_def)

lemma digits_val_decimal [simp]: "digits_val (decimal n) = n"
proof (induction n rule: decimal.induct)
  case (1 n)
  show ?case
  proof (cases "n < 10")
    case True
    then show ?thesis by (subst decimal.simps) (simp add: digits_val_def digit_byte del: of_nat_add)
  next
    case False
    with 1 show ?thesis
      by (subst decimal.simps) (simp add: digits_val_snoc digit_byte del: of_nat_add)
  qed
qed

lemma length_decimal: "n < 10 ^ Suc k \<Longrightarrow> length (decimal n) \<le> Suc k"
proof (induction k arbitrary: n)
  case (Suc k)
  then have "n div 10 < 10 ^ Suc k" by (simp add: less_mult_imp_div_less mult.commute)
  with Suc.IH [of "n div 10"] show ?case by (subst decimal.simps) simp
qed (simp add: decimal.simps)

lemma hd_decimal: "is_digit (hd (decimal n))"
  using decimal_digits [of n] by (cases "decimal n") (use decimal_not_Nil in auto)

lemma parse_unsigned_decimal [simp]: "n < lim \<Longrightarrow> parse_unsigned lim (decimal n) = Some n"
proof -
  assume "n < lim"
  moreover have "hd (decimal n) \<noteq> 0x2B"
    using hd_decimal [of n] by (auto simp: is_digit_def)
  moreover have "(case decimal n of c # cs \<Rightarrow> if c = 0x2B \<and> cs \<noteq> [] then cs else decimal n
      | [] \<Rightarrow> decimal n) = decimal n"
    using calculation(2) by (cases "decimal n") auto
  ultimately show ?thesis
    using decimal_digits [of n] by (simp add: parse_unsigned_def Let_def)
qed

lemma decimal_inject [simp]: "decimal m = decimal n \<longleftrightarrow> m = n"
  by (metis digits_val_decimal)

lemma decimal_utf8: "utf8_valid (decimal n)"
proof (intro utf8_valid_ascii ballI)
  fix b
  assume "b \<in> set (decimal n)"
  then have "b \<le> 0x39" using decimal_digits [of n] by (auto simp: list_all_iff is_digit_def)
  then show "b < 0x80" by (rule le_less_trans) simp
qed

end
