(* ===== verification/Rust_Str.thy ===== *)
theory Rust_Str
  imports Rust_Std
begin

text \<open>
  More of Rust's \<open>str\<close> and integer parsing: slices at character boundaries (any other index panics),
  \<open>split_once\<close>, \<open>trim\<close> over Unicode white space, \<open>parse\<close> and formatting of signed integers. Library code:
  none is mapped to a file of the repository.
\<close>

section \<open>Slices of a string\<close>

definition char_boundary :: "rstring \<Rightarrow> nat \<Rightarrow> bool" where
  "char_boundary s i \<longleftrightarrow> i = length s \<or> (i < length s \<and> \<not> is_cont (s ! i))"

definition str_slice :: "rstring \<Rightarrow> nat \<Rightarrow> nat \<Rightarrow> ('e, rstring) res" where
  "str_slice s i j =
     (if i \<le> j \<and> j \<le> length s \<and> char_boundary s i \<and> char_boundary s j
      then Ok (take (j - i) (drop i s)) else Panic)"

lemma str_slice_eq_Ok [outcome_simps]:
  "str_slice s i j = Ok t \<longleftrightarrow> i \<le> j \<and> j \<le> length s \<and> char_boundary s i \<and> char_boundary s j
    \<and> t = take (j - i) (drop i s)"
  by (auto simp: str_slice_def)

lemma str_slice_not_Err [outcome_simps]: "str_slice s i j \<noteq> Err e"
  by (simp add: str_slice_def)

text \<open>\<open>split_once\<close> and \<open>rsplit_once\<close> at an ASCII character.\<close>

definition split_once :: "u8 \<Rightarrow> rstring \<Rightarrow> (rstring \<times> rstring) option" where
  "split_once c s =
     (if c \<in> set s then Some (takeWhile (\<lambda>b. b \<noteq> c) s, tl (dropWhile (\<lambda>b. b \<noteq> c) s)) else None)"

definition rsplit_once :: "u8 \<Rightarrow> rstring \<Rightarrow> (rstring \<times> rstring) option" where
  "rsplit_once c s = map_option (\<lambda>(a, b). (rev b, rev a)) (split_once c (rev s))"

lemma split_once_append: "c \<notin> set xs \<Longrightarrow> split_once c (xs @ c # ys) = Some (xs, ys)"
  by (induction xs) (auto simp: split_once_def)

lemma split_once_Some: "split_once c s = Some (x, y) \<Longrightarrow> s = x @ c # y \<and> c \<notin> set x"
proof -
  assume a: "split_once c s = Some (x, y)"
  then have x: "x = takeWhile (\<lambda>b. b \<noteq> c) s" and y: "y = tl (dropWhile (\<lambda>b. b \<noteq> c) s)" and c: "c \<in> set s"
    by (auto simp: split_once_def split: if_splits)
  have "dropWhile (\<lambda>b. b \<noteq> c) s \<noteq> []"
    using c by auto
  then have "dropWhile (\<lambda>b. b \<noteq> c) s = c # y"
    using hd_dropWhile [of "\<lambda>b. b \<noteq> c" s] y by (cases "dropWhile (\<lambda>b. b \<noteq> c) s") auto
  then show ?thesis
    using takeWhile_dropWhile_id [of "\<lambda>b. b \<noteq> c" s] x by (auto dest: set_takeWhileD)
qed

section \<open>Trimming\<close>

text \<open>The characters of \<open>char::is_whitespace\<close> in UTF-8.\<close>

definition white_space :: "bytes list" where
  "white_space =
     [[0x09], [0x0A], [0x0B], [0x0C], [0x0D], [0x20], [0xC2, 0x85], [0xC2, 0xA0], [0xE1, 0x9A, 0x80],
      [0xE2, 0x80, 0x80], [0xE2, 0x80, 0x81], [0xE2, 0x80, 0x82], [0xE2, 0x80, 0x83], [0xE2, 0x80, 0x84],
      [0xE2, 0x80, 0x85], [0xE2, 0x80, 0x86], [0xE2, 0x80, 0x87], [0xE2, 0x80, 0x88], [0xE2, 0x80, 0x89],
      [0xE2, 0x80, 0x8A], [0xE2, 0x80, 0xA8], [0xE2, 0x80, 0xA9], [0xE2, 0x80, 0xAF], [0xE2, 0x81, 0x9F],
      [0xE3, 0x80, 0x80]]"

definition ends_with :: "bytes \<Rightarrow> bytes \<Rightarrow> bool" where
  "ends_with p s \<longleftrightarrow> starts_with (rev p) (rev s)"

definition space_at_start :: "bytes \<Rightarrow> nat" where
  "space_at_start s = (case find (\<lambda>w. starts_with w s) white_space of None \<Rightarrow> 0 | Some w \<Rightarrow> length w)"

definition space_at_end :: "bytes \<Rightarrow> nat" where
  "space_at_end s = (case find (\<lambda>w. ends_with w s) white_space of None \<Rightarrow> 0 | Some w \<Rightarrow> length w)"

lemma white_space_not_Nil: "w \<in> set white_space \<Longrightarrow> w \<noteq> []"
  by (auto simp: white_space_def)

lemma space_at_start_Nil [simp]: "space_at_start [] = 0"
  by (simp add: space_at_start_def white_space_def starts_with_def)

lemma space_at_end_Nil [simp]: "space_at_end [] = 0"
  by (simp add: space_at_end_def ends_with_def white_space_def starts_with_def)

function trim_start :: "bytes \<Rightarrow> bytes" where
  "trim_start s = (if space_at_start s = 0 then s else trim_start (drop (space_at_start s) s))"
  by auto
termination
proof (relation "measure length")
  fix s :: bytes
  assume "space_at_start s \<noteq> 0"
  moreover from this have "s \<noteq> []" by auto
  ultimately show "(drop (space_at_start s) s, s) \<in> measure length" by simp
qed simp

function trim_end :: "bytes \<Rightarrow> bytes" where
  "trim_end s = (if space_at_end s = 0 then s else trim_end (take (length s - space_at_end s) s))"
  by auto
termination
proof (relation "measure length")
  fix s :: bytes
  assume "space_at_end s \<noteq> 0"
  moreover from this have "s \<noteq> []" by auto
  ultimately show "(take (length s - space_at_end s) s, s) \<in> measure length" by simp
qed simp

declare trim_start.simps [simp del] trim_end.simps [simp del]

definition trim :: "bytes \<Rightarrow> bytes" where "trim s = trim_end (trim_start s)"

text \<open>A string between two graphic ASCII characters has nothing to trim.\<close>

lemma white_space_hd:
  assumes "w \<in> set white_space"
  shows "hd w \<in> {0x09, 0x0A, 0x0B, 0x0C, 0x0D, 0x20} \<or> 0x80 \<le> hd w"
  using assms by (auto simp: white_space_def)

lemma white_space_last:
  assumes "w \<in> set white_space"
  shows "last w \<in> {0x09, 0x0A, 0x0B, 0x0C, 0x0D, 0x20} \<or> 0x80 \<le> last w"
  using assms by (auto simp: white_space_def)

definition graphic :: "u8 \<Rightarrow> bool" where "graphic b \<longleftrightarrow> 0x20 < b \<and> b < 0x80"

lemma starts_with_hd: "starts_with w s \<Longrightarrow> w \<noteq> [] \<Longrightarrow> s \<noteq> [] \<and> hd s = hd w"
  by (auto simp: starts_with_iff)

lemma space_at_start_graphic:
  assumes "graphic (hd s)"
  shows "space_at_start s = 0"
proof -
  have "\<not> starts_with w s" if "w \<in> set white_space" for w
  proof
    assume "starts_with w s"
    then have "hd s = hd w"
      using starts_with_hd white_space_not_Nil [OF that] by blast
    then show False
      using white_space_hd [OF that] assms by (auto simp: graphic_def)
  qed
  then have "find (\<lambda>w. starts_with w s) white_space = None"
    by (simp add: find_None_iff)
  then show ?thesis by (simp add: space_at_start_def)
qed

lemma space_at_end_graphic:
  assumes "graphic (last s)" and "s \<noteq> []"
  shows "space_at_end s = 0"
proof -
  have "\<not> ends_with w s" if "w \<in> set white_space" for w
  proof
    assume "ends_with w s"
    then have "hd (rev s) = hd (rev w)"
      using starts_with_hd [of "rev w" "rev s"] white_space_not_Nil [OF that] by (auto simp: ends_with_def)
    then have "last s = last w"
      using assms(2) white_space_not_Nil [OF that] by (simp add: hd_rev)
    then show False
      using white_space_last [OF that] assms by (auto simp: graphic_def)
  qed
  then have "find (\<lambda>w. ends_with w s) white_space = None"
    by (simp add: find_None_iff)
  then show ?thesis by (simp add: space_at_end_def)
qed

lemma trim_Nil [simp]: "trim [] = []"
  by (simp add: trim_def trim_start.simps trim_end.simps)

lemma trim_graphic: "s \<noteq> [] \<Longrightarrow> graphic (hd s) \<Longrightarrow> graphic (last s) \<Longrightarrow> trim s = s"
  by (simp add: trim_def trim_start.simps [of s] trim_end.simps [of s] space_at_start_graphic space_at_end_graphic)

section \<open>Signed integers\<close>

text \<open>\<open>s.parse\<close> of a signed integer of \<open>k\<close> bits.\<close>

definition parse_signed :: "nat \<Rightarrow> bytes \<Rightarrow> int option" where
  "parse_signed k s =
     (case s of
        c # d \<Rightarrow>
          if c = 0x2D then
            (if d \<noteq> [] \<and> list_all is_digit d \<and> digits_val d \<le> 2 ^ (k - 1)
             then Some (- int (digits_val d)) else None)
          else map_option int (parse_unsigned (2 ^ (k - 1)) s)
      | [] \<Rightarrow> None)"

definition decimal_int :: "int \<Rightarrow> bytes" where
  "decimal_int n = (if n < 0 then 0x2D # decimal (nat (- n)) else decimal (nat n))"

lemma decimal_int_not_Nil [simp]: "decimal_int n \<noteq> []"
  by (simp add: decimal_int_def)

lemma parse_signed_decimal:
  assumes "- (2 ^ (k - 1)) \<le> n" and "n < 2 ^ (k - 1)"
  shows "parse_signed k (decimal_int n) = Some n"
proof (cases "n < 0")
  case True
  have "nat (- n) \<le> 2 ^ (k - 1)"
    using assms(1) by (simp add: nat_le_iff)
  then show ?thesis
    using True decimal_digits [of "nat (- n)"] by (simp add: decimal_int_def parse_signed_def)
next
  case False
  have "nat n < 2 ^ (k - 1)"
    using assms(2) False by (simp add: nat_less_iff)
  moreover obtain c d where "decimal (nat n) = c # d"
    using decimal_not_Nil [of "nat n"] by (cases "decimal (nat n)") auto
  moreover from this have "c \<noteq> 0x2D"
    using hd_decimal [of "nat n"] by (auto simp: is_digit_def)
  ultimately show ?thesis
    using False parse_unsigned_decimal [of "nat n" "2 ^ (k - 1)"]
    by (simp add: decimal_int_def parse_signed_def)
qed

lemma parse_signed_range:
  "parse_signed k s = Some n \<Longrightarrow> - (2 ^ (k - 1)) \<le> n \<and> n < 2 ^ (k - 1)"
proof -
  assume p: "parse_signed k s = Some n"
  have up: "int a < 2 ^ (k - 1)" if "parse_unsigned (2 ^ (k - 1)) s = Some a" for a
  proof -
    have "a < 2 ^ (k - 1)"
      using that by (auto simp: parse_unsigned_def Let_def split: if_splits)
    then show ?thesis by simp
  qed
  have "- (2 ^ (k - 1)) \<le> (0 :: int)" "(0 :: int) < 2 ^ (k - 1)"
    by simp_all
  then have "- int a < 2 ^ (k - 1)" "- (2 ^ (k - 1)) \<le> int a" for a
    by (metis neg_le_0_iff_le of_nat_0_le_iff le_less_trans, metis of_nat_0_le_iff order_trans)
  then show ?thesis
    using p up
    by (auto simp: parse_signed_def split: list.splits if_splits)
qed

text \<open>\<open>{d:04}\<close> of an \<open>i16\<close>.\<close>

definition pad4 :: "int \<Rightarrow> bytes" where
  "pad4 d =
     (let sign = (if d < 0 then [0x2D] else []); ds = decimal (nat \<bar>d\<bar>)
      in sign @ replicate (4 - length sign - length ds) 0x30 @ ds)"

section \<open>Quoting\<close>

text \<open>\<open>replace\<close> of one byte by two, and the reading of SQL text up to the closing quote, where two quotes
  stand for one.\<close>

definition double_byte :: "u8 \<Rightarrow> bytes \<Rightarrow> bytes" where
  "double_byte c s = concat (map (\<lambda>b. if b = c then [c, c] else [b]) s)"

fun quoted_read :: "u8 \<Rightarrow> bytes \<Rightarrow> (bytes \<times> bytes) option" where
  "quoted_read q [] = None"
| "quoted_read q (b # cs) =
     (if b \<noteq> q then map_option (\<lambda>(v, r). (b # v, r)) (quoted_read q cs)
      else case cs of
             c # cs' \<Rightarrow> if c = q then map_option (\<lambda>(v, r). (q # v, r)) (quoted_read q cs') else Some ([], cs)
           | [] \<Rightarrow> Some ([], []))"

lemma double_byte_simps [simp]:
  "double_byte c [] = []"
  "double_byte c (b # s) = (if b = c then [c, c] else [b]) @ double_byte c s"
  by (simp_all add: double_byte_def)

lemma quoted_read_double:
  "(rest = [] \<or> hd rest \<noteq> q) \<Longrightarrow> quoted_read q (double_byte q s @ q # rest) = Some (s, rest)"
  by (induction s) (auto split: list.splits)

end
