(* ===== verification/Wire_Types.thy ===== *)
theory Wire_Types
  imports Utf8
begin

text \<open>
  The message types of \<open>pg-wired/src/protocol/types.rs\<close>: frontend and backend messages, format
  codes, row and field descriptions, and \<open>RawRow\<close> with its inline or heap cell table. The
  accessors of \<open>RawRow\<close> index and slice, so their outcome can be a panic; \<open>row_wf\<close> is the contract
  under which they do not, and the lemmas show that every constructor keeps to it.
\<close>

type_synonym oid = u32

datatype format_code = Text | Binary

text \<open>\<open>fmt as i16\<close>.\<close>

fun fmt_i16 :: "format_code \<Rightarrow> i16" where
  "fmt_i16 Text = 0"
| "fmt_i16 Binary = 1"

datatype frontend_msg =
    Parse bytes bytes "oid list"
  | Bind bytes bytes "format_code list" "bytes option list" "format_code list"
  | Execute bytes i32
  | Sync
  | Query bytes
  | Describe u8 bytes
  | Close u8 bytes
  | Flush
  | SASLInitialResponse bytes bytes
  | SASLResponse bytes
  | CopyData bytes
  | CopyDone
  | CopyFail bytes
  | Terminate

record pg_error =
  pg_severity :: rstring
  pg_code :: rstring
  pg_message :: rstring
  pg_detail :: "rstring option"
  pg_hint :: "rstring option"
  pg_position :: "rstring option"

text \<open>\<open>PgError::default()\<close>.\<close>

definition pg_error_default :: pg_error where
  "pg_error_default = \<lparr>pg_severity = [], pg_code = [], pg_message = [],
     pg_detail = None, pg_hint = None, pg_position = None\<rparr>"

record field_description =
  fd_name :: rstring
  fd_table_oid :: oid
  fd_column_id :: i16
  fd_type_oid :: oid
  fd_type_size :: i16
  fd_type_modifier :: i32
  fd_format :: format_code

section \<open>Rows\<close>

definition CELL_INLINE_CAP :: nat where "CELL_INLINE_CAP = 12"

text \<open>A cell is an offset into the body and a length, \<open>-1\<close> for NULL. The inline table is an array
  of \<open>CELL_INLINE_CAP\<close> slots of which the first \<open>len\<close> are used.\<close>

type_synonym cell_entry = "u32 \<times> i32"

datatype cells = Inline "cell_entry list" nat | Heap "cell_entry list"

record raw_row =
  row_body :: bytes
  row_cells :: cells

definition raw_row_empty :: raw_row where
  "raw_row_empty = \<lparr>row_body = [], row_cells = Inline (replicate CELL_INLINE_CAP (0, 0)) 0\<rparr>"

text \<open>\<open>RawRow::from_inline_unchecked\<close>; the \<open>debug_assert!\<close> on \<open>len\<close> is a panic in a debug build.\<close>

definition from_inline_unchecked ::
  "bytes \<Rightarrow> cell_entry list \<Rightarrow> nat \<Rightarrow> ('e, raw_row) res" where
  "from_inline_unchecked b data len =
     (if len \<le> CELL_INLINE_CAP then Ok \<lparr>row_body = b, row_cells = Inline data len\<rparr> else Panic)"

definition from_entries :: "bytes \<Rightarrow> cell_entry list \<Rightarrow> raw_row" where
  "from_entries b es =
     \<lparr>row_body = b,
      row_cells =
        (if length es \<le> CELL_INLINE_CAP
         then Inline (es @ drop (length es) (replicate CELL_INLINE_CAP (0, 0))) (length es)
         else Heap es)\<rparr>"

definition from_full_body :: "bytes \<Rightarrow> raw_row" where
  "from_full_body b =
     \<lparr>row_body = b,
      row_cells =
        Inline ((replicate CELL_INLINE_CAP (0, 0))[0 := (0, word_of_nat (length b))]) 1\<rparr>"

definition entries :: "raw_row \<Rightarrow> ('e, cell_entry list) res" where
  "entries r = (case row_cells r of Inline data len \<Rightarrow> slice data 0 len | Heap es \<Rightarrow> Ok es)"

definition row_len :: "raw_row \<Rightarrow> ('e, nat) res" where
  "row_len r = and_then (entries r) (\<lambda>es. Ok (length es))"

text \<open>The bytes of one cell entry: \<open>None\<close> for a negative length, else \<open>&body[start..end]\<close>.\<close>

definition cell_bytes :: "bytes \<Rightarrow> cell_entry \<Rightarrow> ('e, bytes option) res" where
  "cell_bytes b e =
     (let start = unat (fst e); len = snd e
      in if sint len < 0 then Ok None
         else and_then (slice b start (start + usize_of_i32 len)) (\<lambda>x. Ok (Some x)))"

text \<open>\<open>cell\<close> gives \<open>None\<close> for NULL and out of range, \<open>try_cell\<close> tells them apart.\<close>

definition cell :: "raw_row \<Rightarrow> nat \<Rightarrow> ('e, bytes option) res" where
  "cell r i = and_then (entries r) (\<lambda>es.
     if i < length es then cell_bytes (row_body r) (es ! i) else Ok None)"

definition try_cell :: "raw_row \<Rightarrow> nat \<Rightarrow> ('e, bytes option option) res" where
  "try_cell r i = and_then (entries r) (\<lambda>es.
     if i < length es
     then and_then (cell_bytes (row_body r) (es ! i)) (\<lambda>c. Ok (Some c))
     else Ok None)"

definition iter_cells :: "raw_row \<Rightarrow> ('e, bytes option list) res" where
  "iter_cells r = and_then (entries r) (traverse (cell_bytes (row_body r)))"

subsection \<open>The contract of a row\<close>

definition entry_in_bounds :: "nat \<Rightarrow> cell_entry \<Rightarrow> bool" where
  "entry_in_bounds n e \<longleftrightarrow> sint (snd e) < 0 \<or> unat (fst e) + nat (sint (snd e)) \<le> n"

definition row_wf :: "raw_row \<Rightarrow> bool" where
  "row_wf r \<longleftrightarrow>
     (case entries r :: (unit, cell_entry list) res of
        Ok es \<Rightarrow> \<forall>e \<in> set es. entry_in_bounds (length (row_body r)) e
      | _ \<Rightarrow> False)"

lemma cell_bytes_no_panic: "entry_in_bounds (length b) e \<Longrightarrow> cell_bytes b e \<noteq> Panic"
  by (auto simp: cell_bytes_def entry_in_bounds_def Let_def outcome_simps usize_of_i32_nonneg)

lemma cell_bytes_no_err: "cell_bytes b e \<noteq> Err x"
  by (simp add: cell_bytes_def Let_def outcome_simps)

lemma entries_poly:
  "entries r = (Ok es :: ('f, cell_entry list) res) \<Longrightarrow> entries r = (Ok es :: ('e, cell_entry list) res)"
  by (auto simp: entries_def outcome_simps split: cells.splits)

lemma row_wf_entries:
  assumes "row_wf r"
  obtains es where "entries r = (Ok es :: ('e, cell_entry list) res)"
    and "\<forall>e \<in> set es. entry_in_bounds (length (row_body r)) e"
proof -
  from assms obtain es where es: "entries r = (Ok es :: (unit, cell_entry list) res)"
    and b: "\<forall>e \<in> set es. entry_in_bounds (length (row_body r)) e"
    by (auto simp: row_wf_def split: res.splits)
  from es have "entries r = (Ok es :: ('e, cell_entry list) res)"
    by (rule entries_poly)
  with b show ?thesis using that by blast
qed

lemma row_wf_no_panic:
  assumes "row_wf r"
  shows "cell r i \<noteq> (Panic :: ('e, _) res)"
    and "try_cell r i \<noteq> (Panic :: ('e, _) res)"
    and "iter_cells r \<noteq> (Panic :: ('e, _) res)"
proof -
  obtain es where es: "entries r = (Ok es :: ('e, cell_entry list) res)"
    and b: "\<forall>e \<in> set es. entry_in_bounds (length (row_body r)) e"
    using assms by (rule row_wf_entries)
  show "cell r i \<noteq> (Panic :: ('e, _) res)" and "try_cell r i \<noteq> (Panic :: ('e, _) res)"
    using b by (auto simp: cell_def try_cell_def es outcome_simps cell_bytes_no_panic)
  show "iter_cells r \<noteq> (Panic :: ('e, _) res)"
    using b by (auto simp: iter_cells_def es cell_bytes_no_panic intro!: traverse_no_panic)
qed

lemma entries_from_entries [simp]: "entries (from_entries b es) = Ok es"
  by (simp add: entries_def from_entries_def slice_def)

lemma row_body_from_entries [simp]: "row_body (from_entries b es) = b"
  by (simp add: from_entries_def)

lemma row_wf_from_entries:
  "\<forall>e \<in> set es. entry_in_bounds (length b) e \<Longrightarrow> row_wf (from_entries b es)"
  by (simp add: row_wf_def)

lemma row_wf_empty: "row_wf raw_row_empty"
  by (simp add: row_wf_def raw_row_empty_def entries_def slice_def)

text \<open>A COPY chunk shorter than 2 GiB is one cell holding the whole body.\<close>

lemma entries_from_full_body: "entries (from_full_body b) = Ok [(0, word_of_nat (length b))]"
  by (simp add: entries_def from_full_body_def slice_def CELL_INLINE_CAP_def eval_nat_numeral)

lemma row_body_from_full_body [simp]: "row_body (from_full_body b) = b"
  by (simp add: from_full_body_def)

lemma iter_from_full_body:
  "length b < 2 ^ 31 \<Longrightarrow> iter_cells (from_full_body b) = Ok [Some b]"
  using sint_of_nat_i32 [of "length b"]
  by (simp add: iter_cells_def entries_from_full_body cell_bytes_def Let_def usize_of_i32_nonneg
      slice_def)

section \<open>Backend messages\<close>

datatype backend_msg =
    AuthenticationOk
  | AuthenticationCleartextPassword
  | AuthenticationMd5Password bytes
  | AuthenticationSASL "rstring list"
  | AuthenticationSASLContinue bytes
  | AuthenticationSASLFinal bytes
  | ParameterStatus rstring rstring
  | BackendKeyData i32 i32
  | ReadyForQuery u8
  | ParseComplete
  | BindComplete
  | CloseComplete
  | NoData
  | CommandComplete rstring
  | DataRow raw_row
  | RowDescription "field_description list"
  | ErrorResponse pg_error
  | NoticeResponse pg_error
  | EmptyQueryResponse
  | ParameterDescription "oid list"
  | NotificationResponse i32 rstring rstring
  | PortalSuspended
  | CopyInResponse u8 "i16 list"
  | CopyOutResponse u8 "i16 list"
  | BackendCopyData bytes
  | BackendCopyDone

text \<open>The strings of a message are UTF-8 and its rows satisfy the row contract.\<close>

definition pg_error_wf :: "pg_error \<Rightarrow> bool" where
  "pg_error_wf e \<longleftrightarrow> utf8_valid (pg_severity e) \<and> utf8_valid (pg_code e) \<and> utf8_valid (pg_message e)
     \<and> pred_option utf8_valid (pg_detail e) \<and> pred_option utf8_valid (pg_hint e)
     \<and> pred_option utf8_valid (pg_position e)"

fun msg_wf :: "backend_msg \<Rightarrow> bool" where
  "msg_wf (AuthenticationMd5Password salt) \<longleftrightarrow> length salt = 4"
| "msg_wf (AuthenticationSASL ms) \<longleftrightarrow> list_all utf8_valid ms"
| "msg_wf (ParameterStatus n v) \<longleftrightarrow> utf8_valid n \<and> utf8_valid v"
| "msg_wf (CommandComplete t) \<longleftrightarrow> utf8_valid t"
| "msg_wf (DataRow r) \<longleftrightarrow> row_wf r"
| "msg_wf (RowDescription fs) \<longleftrightarrow> list_all (\<lambda>f. utf8_valid (fd_name f)) fs"
| "msg_wf (ErrorResponse e) \<longleftrightarrow> pg_error_wf e"
| "msg_wf (NoticeResponse e) \<longleftrightarrow> pg_error_wf e"
| "msg_wf (NotificationResponse pid c p) \<longleftrightarrow> utf8_valid c \<and> utf8_valid p"
| "msg_wf _ \<longleftrightarrow> True"

end
