(* ===== verification/Frontend.thy ===== *)
theory Frontend
  imports Wire_Types "HOL-Library.Monad_Syntax"
begin

text \<open>
  \<open>pg-wired/src/protocol/frontend.rs\<close>: the encoder of client messages. The lengths are computed by
  the source's own formulas, apart from the bytes that are written, so that the two agreeing is a
  theorem. The second half is the abstract specification: a reader of client messages after the
  protocol's grammar, of which the encoder is a right inverse.
\<close>

section \<open>The encoder\<close>

text \<open>\<open>put_i32(n as i32)\<close> and \<open>put_i16(n as i16)\<close> of a \<open>usize\<close>.\<close>

definition put_len :: "nat \<Rightarrow> bytes" where "put_len n = be32 (word_of_nat n)"
definition put_count :: "nat \<Rightarrow> bytes" where "put_count n = be16 (word_of_nat n)"

definition put_param :: "bytes option \<Rightarrow> bytes" where
  "put_param p = (case p of None \<Rightarrow> be32 (- 1) | Some d \<Rightarrow> put_len (length d) @ d)"

definition param_size :: "bytes option \<Rightarrow> nat" where
  "param_size p = (case p of None \<Rightarrow> 4 | Some d \<Rightarrow> 4 + length d)"

definition put_fmt :: "format_code \<Rightarrow> bytes" where "put_fmt f = be16 (fmt_i16 f)"

fun encode_message :: "frontend_msg \<Rightarrow> bytes \<Rightarrow> bytes" where
  "encode_message (Parse name sql param_oids) buf =
     (let len = 4 + length name + 1 + length sql + 1 + 2 + length param_oids * 4
      in buf @ [0x50] @ put_len len @ name @ [0] @ sql @ [0]
           @ put_count (length param_oids) @ concat (map be32 param_oids))"
| "encode_message (Bind portal statement param_formats params result_formats) buf =
     (let params_size = sum_list (map param_size params);
          len = 4 + length portal + 1 + length statement + 1 + 2 + length param_formats * 2
                + 2 + params_size + 2 + length result_formats * 2
      in buf @ [0x42] @ put_len len @ portal @ [0] @ statement @ [0]
           @ put_count (length param_formats) @ concat (map put_fmt param_formats)
           @ put_count (length params) @ concat (map put_param params)
           @ put_count (length result_formats) @ concat (map put_fmt result_formats))"
| "encode_message (Execute portal max_rows) buf =
     (let len = 4 + length portal + 1 + 4
      in buf @ [0x45] @ put_len len @ portal @ [0] @ be32 max_rows)"
| "encode_message Sync buf = buf @ [0x53] @ be32 4"
| "encode_message (Query sql) buf =
     (let len = 4 + length sql + 1 in buf @ [0x51] @ put_len len @ sql @ [0])"
| "encode_message (Describe kind name) buf =
     (let len = 4 + 1 + length name + 1 in buf @ [0x44] @ put_len len @ [kind] @ name @ [0])"
| "encode_message (Close kind name) buf =
     (let len = 4 + 1 + length name + 1 in buf @ [0x43] @ put_len len @ [kind] @ name @ [0])"
| "encode_message Flush buf = buf @ [0x48] @ be32 4"
| "encode_message (SASLInitialResponse mechanism data) buf =
     (let len = 4 + length mechanism + 1 + 4 + length data
      in buf @ [0x70] @ put_len len @ mechanism @ [0] @ put_len (length data) @ data)"
| "encode_message (SASLResponse data) buf =
     (let len = 4 + length data in buf @ [0x70] @ put_len len @ data)"
| "encode_message (CopyData data) buf =
     (let len = 4 + length data in buf @ [0x64] @ put_len len @ data)"
| "encode_message CopyDone buf = buf @ [0x63] @ be32 4"
| "encode_message (CopyFail msg) buf =
     (let len = 4 + length msg + 1 in buf @ [0x66] @ put_len len @ msg @ [0])"
| "encode_message Terminate buf = buf @ [0x58] @ be32 4"

fun encode_messages :: "frontend_msg list \<Rightarrow> bytes \<Rightarrow> bytes" where
  "encode_messages [] buf = buf"
| "encode_messages (m # ms) buf = encode_messages ms (encode_message m buf)"

definition put_cstr :: "bytes \<Rightarrow> bytes" where "put_cstr s = s @ [0]"

fun encode_startup_with_params ::
  "rstring \<Rightarrow> rstring \<Rightarrow> (rstring \<times> rstring) list \<Rightarrow> bytes \<Rightarrow> bytes" where
  "encode_startup_with_params user database extra_params buf =
     (let body = be32 196608 @ lit ''user'' @ [0] @ user @ [0] @ lit ''database'' @ [0] @ database @ [0]
                 @ concat (map (\<lambda>(key, value). key @ [0] @ value @ [0]) extra_params) @ [0]
      in buf @ put_len (4 + length body) @ body)"

definition encode_startup :: "rstring \<Rightarrow> rstring \<Rightarrow> bytes \<Rightarrow> bytes" where
  "encode_startup user database buf = encode_startup_with_params user database [] buf"

definition encode_password :: "bytes \<Rightarrow> bytes \<Rightarrow> bytes" where
  "encode_password password buf =
     (let len = 4 + length password + 1 in buf @ [0x70] @ put_len len @ password @ [0])"

text \<open>\<open>{:x}\<close> of a digest: two lower-case hexadecimal digits per byte.\<close>

definition hex_digit_lower :: "nat \<Rightarrow> u8" where
  "hex_digit_lower n = (if n < 10 then word_of_nat (48 + n) else word_of_nat (87 + n))"

definition hex_lower :: "bytes \<Rightarrow> bytes" where
  "hex_lower bs = concat (map (\<lambda>b. [hex_digit_lower (unat b div 16), hex_digit_lower (unat b mod 16)]) bs)"

text \<open>The digest \<open>md5\<close> is the third-party \<open>md5\<close> crate, a parameter.\<close>

definition md5_password :: "(bytes \<Rightarrow> bytes) \<Rightarrow> rstring \<Rightarrow> rstring \<Rightarrow> bytes \<Rightarrow> bytes" where
  "md5_password md5 user password salt =
     (let inner = hex_lower (md5 (password @ user))
      in lit ''md5'' @ hex_lower (md5 (inner @ salt)))"

section \<open>Framing\<close>

text \<open>The tag and the body of a message, without its length.\<close>

fun msg_tag :: "frontend_msg \<Rightarrow> u8" where
  "msg_tag (Parse _ _ _) = 0x50"
| "msg_tag (Bind _ _ _ _ _) = 0x42"
| "msg_tag (Execute _ _) = 0x45"
| "msg_tag Sync = 0x53"
| "msg_tag (Query _) = 0x51"
| "msg_tag (Describe _ _) = 0x44"
| "msg_tag (Close _ _) = 0x43"
| "msg_tag Flush = 0x48"
| "msg_tag (SASLInitialResponse _ _) = 0x70"
| "msg_tag (SASLResponse _) = 0x70"
| "msg_tag (CopyData _) = 0x64"
| "msg_tag CopyDone = 0x63"
| "msg_tag (CopyFail _) = 0x66"
| "msg_tag Terminate = 0x58"

fun msg_body :: "frontend_msg \<Rightarrow> bytes" where
  "msg_body (Parse name sql oids) =
     put_cstr name @ put_cstr sql @ put_count (length oids) @ concat (map be32 oids)"
| "msg_body (Bind portal stmt pf ps rf) =
     put_cstr portal @ put_cstr stmt @ put_count (length pf) @ concat (map put_fmt pf)
     @ put_count (length ps) @ concat (map put_param ps)
     @ put_count (length rf) @ concat (map put_fmt rf)"
| "msg_body (Execute portal n) = put_cstr portal @ be32 n"
| "msg_body (Query sql) = put_cstr sql"
| "msg_body (Describe k name) = k # put_cstr name"
| "msg_body (Close k name) = k # put_cstr name"
| "msg_body (SASLInitialResponse m d) = put_cstr m @ put_len (length d) @ d"
| "msg_body (SASLResponse d) = d"
| "msg_body (CopyData d) = d"
| "msg_body (CopyFail m) = put_cstr m"
| "msg_body _ = []"

definition frame :: "u8 \<Rightarrow> bytes \<Rightarrow> bytes" where
  "frame tag body = tag # put_len (4 + length body) @ body"

lemma length_concat_const:
  "(\<And>x. length (f x) = k) \<Longrightarrow> length (concat (map f xs)) = length xs * k"
  by (induction xs) auto

lemma length_put_fmt [simp]: "length (put_fmt f) = 2"
  by (simp add: put_fmt_def)

lemma length_put_len [simp]: "length (put_len n) = 4"
  by (simp add: put_len_def)

lemma length_put_count [simp]: "length (put_count n) = 2"
  by (simp add: put_count_def)

lemma length_concat_params: "length (concat (map put_param ps)) = sum_list (map param_size ps)"
  by (induction ps) (auto simp: put_param_def param_size_def split: option.splits)

text \<open>Every message is one frame appended to the buffer: the source's length formulas agree with
  the bytes it writes.\<close>

lemma encode_message_frame: "encode_message m buf = buf @ frame (msg_tag m) (msg_body m)"
proof -
  have four: "be32 4 = put_len 4" by (simp add: put_len_def)
  show ?thesis
    by (cases m)
      (simp_all add: frame_def put_cstr_def four length_concat_const length_concat_params
        length_concat_const [where f = be32 and k = 4] algebra_simps)
qed

lemma encode_messages_frames:
  "encode_messages ms buf = buf @ concat (map (\<lambda>m. frame (msg_tag m) (msg_body m)) ms)"
  by (induction ms arbitrary: buf) (simp_all add: encode_message_frame)

section \<open>The specification: reading client messages\<close>

type_synonym 'a reader = "bytes \<Rightarrow> ('a \<times> bytes) option"

text \<open>A NUL-terminated string and the rest, if there is a NUL.\<close>

definition rd_cstr :: "bytes reader" where
  "rd_cstr bs =
     (let s = takeWhile (\<lambda>b. b \<noteq> 0) bs
      in if length s < length bs then Some (s, drop (Suc (length s)) bs) else None)"

definition rd_fixed :: "nat \<Rightarrow> bytes reader" where
  "rd_fixed n bs = (if n \<le> length bs then Some (take n bs, drop n bs) else None)"

definition rd16 :: "16 word reader" where
  "rd16 bs = map_option (\<lambda>(w, r). (from_be16 w, r)) (rd_fixed 2 bs)"

definition rd32 :: "32 word reader" where
  "rd32 bs = map_option (\<lambda>(w, r). (from_be32 w, r)) (rd_fixed 4 bs)"

fun rd_many :: "nat \<Rightarrow> 'a reader \<Rightarrow> 'a list reader" where
  "rd_many 0 g bs = Some ([], bs)"
| "rd_many (Suc n) g bs =
     (case g bs of None \<Rightarrow> None
      | Some (x, r) \<Rightarrow> map_option (\<lambda>(xs, r'). (x # xs, r')) (rd_many n g r))"

text \<open>Counts are unsigned 16-bit integers of the protocol.\<close>

definition rd_counted :: "'a reader \<Rightarrow> 'a list reader" where
  "rd_counted g bs = (case rd16 bs of None \<Rightarrow> None | Some (n, r) \<Rightarrow> rd_many (unat n) g r)"

definition rd_fmt :: "format_code reader" where
  "rd_fmt bs =
     (case rd16 bs of
        Some (w, r) \<Rightarrow> if w = 0 then Some (Text, r) else if w = 1 then Some (Binary, r) else None
      | None \<Rightarrow> None)"

definition rd_param :: "bytes option reader" where
  "rd_param bs =
     (case rd32 bs of None \<Rightarrow> None
      | Some (n, r) \<Rightarrow>
          if n = - 1 then Some (None, r)
          else map_option (\<lambda>(d, r'). (Some d, r')) (rd_fixed (unat n) r))"

text \<open>The body of a frame, by its tag. Tag \<open>p\<close> is a SASL initial response when \<open>first\<close> is set (the
  server is at the start of the exchange) and a SASL response otherwise.\<close>

definition rd_body :: "bool \<Rightarrow> u8 \<Rightarrow> bytes \<Rightarrow> frontend_msg option" where
  "rd_body first t b =
     (if t = 0x50 then do {
        (name, r) \<leftarrow> rd_cstr b; (sql, r) \<leftarrow> rd_cstr r; (oids, r) \<leftarrow> rd_counted rd32 r;
        if r = [] then Some (Parse name sql oids) else None }
      else if t = 0x42 then do {
        (portal, r) \<leftarrow> rd_cstr b; (stmt, r) \<leftarrow> rd_cstr r; (pf, r) \<leftarrow> rd_counted rd_fmt r;
        (ps, r) \<leftarrow> rd_counted rd_param r; (rf, r) \<leftarrow> rd_counted rd_fmt r;
        if r = [] then Some (Bind portal stmt pf ps rf) else None }
      else if t = 0x45 then do {
        (portal, r) \<leftarrow> rd_cstr b; (n, r) \<leftarrow> rd32 r;
        if r = [] then Some (Execute portal n) else None }
      else if t = 0x53 then (if b = [] then Some Sync else None)
      else if t = 0x51 then do { (sql, r) \<leftarrow> rd_cstr b; if r = [] then Some (Query sql) else None }
      else if t = 0x44 then do {
        (k, r) \<leftarrow> rd_fixed 1 b; (name, r) \<leftarrow> rd_cstr r;
        if r = [] then Some (Describe (hd k) name) else None }
      else if t = 0x43 then do {
        (k, r) \<leftarrow> rd_fixed 1 b; (name, r) \<leftarrow> rd_cstr r;
        if r = [] then Some (Close (hd k) name) else None }
      else if t = 0x48 then (if b = [] then Some Flush else None)
      else if t = 0x70 then
        (if first then do {
           (m, r) \<leftarrow> rd_cstr b; (n, r) \<leftarrow> rd32 r; (d, r) \<leftarrow> rd_fixed (unat n) r;
           if r = [] then Some (SASLInitialResponse m d) else None }
         else Some (SASLResponse b))
      else if t = 0x64 then Some (CopyData b)
      else if t = 0x63 then (if b = [] then Some CopyDone else None)
      else if t = 0x66 then do { (m, r) \<leftarrow> rd_cstr b; if r = [] then Some (CopyFail m) else None }
      else if t = 0x58 then (if b = [] then Some Terminate else None)
      else None)"

definition rd_frame :: "(u8 \<times> bytes) reader" where
  "rd_frame bs = do {
     (t, r) \<leftarrow> rd_fixed 1 bs; (n, r) \<leftarrow> rd32 r; (b, r) \<leftarrow> rd_fixed (unat n - 4) r;
     Some ((hd t, b), r) }"

definition rd_message :: "bool \<Rightarrow> frontend_msg reader" where
  "rd_message first bs = do {
     ((t, b), r) \<leftarrow> rd_frame bs; m \<leftarrow> rd_body first t b; Some (m, r) }"

text \<open>The messages a connection can carry: names and SQL hold no NUL, counts fit 16 bits, lengths
  fit 31 bits.\<close>

definition no_nul :: "bytes \<Rightarrow> bool" where "no_nul bs \<longleftrightarrow> 0 \<notin> set bs"

fun sendable :: "bool \<Rightarrow> frontend_msg \<Rightarrow> bool" where
  "sendable first (Parse name sql oids) \<longleftrightarrow> no_nul name \<and> no_nul sql \<and> length oids < 2 ^ 16"
| "sendable first (Bind portal stmt pf ps rf) \<longleftrightarrow> no_nul portal \<and> no_nul stmt
     \<and> length pf < 2 ^ 16 \<and> length ps < 2 ^ 16 \<and> length rf < 2 ^ 16"
| "sendable first (Execute portal n) \<longleftrightarrow> no_nul portal"
| "sendable first (Query sql) \<longleftrightarrow> no_nul sql"
| "sendable first (Describe k name) \<longleftrightarrow> no_nul name"
| "sendable first (Close k name) \<longleftrightarrow> no_nul name"
| "sendable first (SASLInitialResponse m d) \<longleftrightarrow> first \<and> no_nul m"
| "sendable first (SASLResponse d) \<longleftrightarrow> \<not> first"
| "sendable first (CopyFail m) \<longleftrightarrow> no_nul m"
| "sendable first _ \<longleftrightarrow> True"

definition fits :: "frontend_msg \<Rightarrow> bool" where
  "fits m \<longleftrightarrow> 4 + length (msg_body m) < 2 ^ 31"

lemma takeWhile_no_nul: "no_nul s \<Longrightarrow> takeWhile (\<lambda>b. b \<noteq> 0) (s @ 0 # r) = s"
  unfolding no_nul_def by (induction s) auto

lemma rd_cstr_put [simp]: "no_nul s \<Longrightarrow> rd_cstr (put_cstr s @ r) = Some (s, r)"
  by (simp add: rd_cstr_def put_cstr_def takeWhile_no_nul Let_def)

lemma rd_fixed_append [simp]: "length d = n \<Longrightarrow> rd_fixed n (d @ r) = Some (d, r)"
  by (simp add: rd_fixed_def)

lemma rd16_be16 [simp]: "rd16 (be16 w @ r) = Some (w, r)"
  by (simp add: rd16_def)

lemma rd32_be32 [simp]: "rd32 (be32 w @ r) = Some (w, r)"
  by (simp add: rd32_def)

lemma rd_many_concat:
  "\<forall>x \<in> set xs. \<forall>r. g (f x @ r) = Some (x, r) \<Longrightarrow>
   rd_many (length xs) g (concat (map f xs) @ r) = Some (xs, r)"
  by (induction xs) auto

lemma rd_counted_put:
  assumes "length xs < 2 ^ 16" and "\<forall>x \<in> set xs. \<forall>r. g (f x @ r) = Some (x, r)"
  shows "rd_counted g (put_count (length xs) @ concat (map f xs) @ r) = Some (xs, r)"
proof -
  have "unat (word_of_nat (length xs) :: 16 word) = length xs"
    using assms(1) by (simp add: unat_of_nat)
  then show ?thesis
    using rd_many_concat [OF assms(2)] by (simp add: rd_counted_def put_count_def)
qed

lemma rd_fmt_put [simp]: "rd_fmt (put_fmt f @ r) = Some (f, r)"
  by (cases f) (simp_all add: rd_fmt_def put_fmt_def)

lemma unat_put_len: "n < 2 ^ 31 \<Longrightarrow> unat (word_of_nat n :: 32 word) = n"
  by (simp add: unat_of_nat)

lemma put_len_not_null: "n < 2 ^ 31 \<Longrightarrow> (word_of_nat n :: 32 word) \<noteq> - 1"
proof
  assume n: "n < 2 ^ 31" and "(word_of_nat n :: 32 word) = - 1"
  then have "unat (word_of_nat n :: 32 word) = unat (- 1 :: 32 word)" by simp
  then show False
    using n by (simp add: unat_put_len unsigned_minus_1_eq_mask mask_eq_exp_minus_1)
qed

lemma rd_param_put:
  "case p of None \<Rightarrow> True | Some d \<Rightarrow> length d < 2 ^ 31 \<Longrightarrow> rd_param (put_param p @ r) = Some (p, r)"
  by (auto simp: rd_param_def put_param_def put_len_def unat_put_len put_len_not_null
      split: option.splits)

lemma rd_fixed_one [simp]: "rd_fixed (Suc 0) (x # r) = Some ([x], r)"
  by (simp add: rd_fixed_def)

lemma rd_frame_frame:
  "4 + length b < 2 ^ 31 \<Longrightarrow> rd_frame (frame t b @ r) = Some ((t, b), r)"
  using unat_put_len [of "4 + length b"]
  by (simp add: rd_frame_def frame_def put_len_def del: of_nat_add)

lemma param_length_le:
  "Some d \<in> set ps \<Longrightarrow> length d \<le> length (concat (map put_param ps))"
  by (induction ps) (auto simp: put_param_def)

lemma rd_params_put:
  assumes "length ps < 2 ^ 16" and "length (concat (map put_param ps)) < 2 ^ 31"
  shows "rd_counted rd_param (put_count (length ps) @ concat (map put_param ps) @ r) = Some (ps, r)"
proof (rule rd_counted_put [OF assms(1)], intro ballI allI)
  fix p r
  assume "p \<in> set ps"
  then show "rd_param (put_param p @ r) = Some (p, r)"
    using param_length_le [of _ ps] assms(2) by (intro rd_param_put) (fastforce split: option.splits)
qed

text \<open>The same readers at the end of a body.\<close>

lemmas rd_cstr_end [simp] = rd_cstr_put [where r = "[]", simplified]
lemmas rd32_end [simp] = rd32_be32 [where r = "[]", simplified]
lemmas rd_counted_end = rd_counted_put [where r = "[]", simplified]

lemma rd_body_msg_body:
  assumes "sendable first m" and "fits m"
  shows "rd_body first (msg_tag m) (msg_body m) = Some m"
proof (cases m)
  case (Parse name sql oids)
  with assms(1) show ?thesis
    by (simp add: rd_body_def rd_counted_end [where f = be32])
next
  case (Bind portal stmt pf ps rf)
  with assms have "length (concat (map put_param ps)) < 2 ^ 31"
    by (simp add: fits_def)
  with assms(1) Bind show ?thesis
    by (simp add: rd_body_def rd_params_put rd_counted_put [where f = put_fmt]
        rd_counted_end [where f = put_fmt])
next
  case (SASLInitialResponse mech d)
  with assms have "unat (word_of_nat (length d) :: 32 word) = length d"
    by (intro unat_put_len) (simp add: fits_def)
  with assms(1) SASLInitialResponse show ?thesis
    by (simp add: rd_body_def put_len_def rd_fixed_def)
qed (use assms(1) in \<open>simp_all add: rd_body_def\<close>)

lemma rd_message_encode:
  assumes "sendable first m" and "fits m"
  shows "rd_message first (encode_message m [] @ rest) = Some (m, rest)"
  using rd_body_msg_body [OF assms] assms(2)
  by (simp add: rd_message_def encode_message_frame rd_frame_frame fits_def)

text \<open>A parameterised query as the clients send it.\<close>

definition sample_pipeline :: "frontend_msg list" where
  "sample_pipeline = [Parse (lit ''s0'') (lit ''SELECT $1'') [23],
     Bind [] (lit ''s0'') [Binary] [Some [0, 0, 0, 42], None] [Text], Execute [] 0, Sync]"

text \<open>C4: A pipeline of client messages coalesced into one buffer reads back, message by message, as
  exactly those messages, and the bytes after them are untouched.\<close>

theorem encode_messages_roundtrip:
  assumes "\<forall>m \<in> set ms. sendable first m \<and> fits m"
  shows "rd_many (length ms) (rd_message first) (encode_messages ms [] @ rest) = Some (ms, rest)"
proof -
  have "\<forall>m \<in> set ms. \<forall>r. rd_message first (frame (msg_tag m) (msg_body m) @ r) = Some (m, r)"
    using assms rd_message_encode by (fastforce simp: encode_message_frame)
  then show ?thesis
    by (simp add: encode_messages_frames rd_many_concat [where f = "\<lambda>m. frame (msg_tag m) (msg_body m)"])
qed

theorem encode_messages_roundtrip_witness:
  "rd_many 4 (rd_message False) (encode_messages sample_pipeline [] @ [7]) = Some (sample_pipeline, [7])"
proof -
  have "\<forall>m \<in> set sample_pipeline. sendable False m \<and> fits m"
    by (simp add: sample_pipeline_def no_nul_def lit_def fits_def put_cstr_def put_param_def)
  from encode_messages_roundtrip [OF this, of "[7]"] show ?thesis
    by (simp add: sample_pipeline_def eval_nat_numeral del: encode_messages.simps rd_many.simps)
qed

text \<open>The 16-bit count field wraps: a \<open>Parse\<close> with 65536 parameter types announces none, while the
  frame's length covers them all, so \<open>sendable\<close> has to exclude it.\<close>

lemma parse_count_wraps:
  "length oids = 65536 \<Longrightarrow>
   msg_body (Parse name sql oids) = put_cstr name @ put_cstr sql @ [0, 0] @ concat (map be32 oids)"
proof -
  have z: "be16 0 = [0, 0]" by (simp add: be16_def numeral_2_eq_2)
  have w: "(65536 :: 16 word) = 0" by simp
  show "length oids = 65536 \<Longrightarrow> ?thesis" by (simp add: put_count_def w z)
qed

end
