(* ===== verification/Backend.thy ===== *)
theory Backend
  imports Frontend
begin

text \<open>
  \<open>pg-wired/src/protocol/backend.rs\<close>: the parser of server messages, one definition per Rust
  function. Every index and slice of the source is an operation that can panic, so the absence of
  panics is proved. \<open>parse_message\<close> returns its outcome together with the buffer it leaves.
  The second half states what the parser promises: framing, stability under later bytes, well-formed
  results, and that it inverts the encoding of the protocol.
\<close>

definition MAX_MESSAGE_SIZE :: nat where "MAX_MESSAGE_SIZE = 256 * 1024 * 1024"

text \<open>One constructor per error text of the source, with the values the text interpolates.\<close>

datatype parse_error =
    InvalidMessageLength i32
  | MessageTooLarge nat
  | ReadyForQueryEmptyBody
  | AuthBodyTooShort
  | Md5SaltTooShort
  | NotUtf8 string
  | UnsupportedAuthType i32
  | BackendKeyDataTooShort
  | DataRowTooShort
  | OffsetOverflow string
  | TruncatedAtLength nat nat
  | NegativeColumnLength i32
  | TruncatedColumnData nat nat nat
  | RowDescriptionTooShort
  | TruncatedFieldName nat
  | TruncatedFieldMetadata nat nat nat
  | ParameterDescriptionTooShort
  | ParameterDescriptionCount nat nat
  | NotificationTooShort
  | CopyResponseTooShort
  | CopyResponseColumns nat
  | NegativeCount string i16

type_synonym 'a parsed = "(parse_error, 'a) res"

section \<open>Helpers\<close>

definition i16_to_usize :: "i16 \<Rightarrow> string \<Rightarrow> nat parsed" where
  "i16_to_usize val context =
     (if sint val < 0 then Err (NegativeCount context val) else Ok (usize_of_i16 val))"

text \<open>Up to the first NUL and what follows it, or everything when there is none.\<close>

definition split_cstring :: "bytes \<Rightarrow> bytes \<times> bytes" where
  "split_cstring data =
     (let s = takeWhile (\<lambda>b. b \<noteq> 0) data in (s, drop (Suc (length s)) data))"

text \<open>\<open>String::from_utf8(x.to_vec()).map_err(...)\<close>.\<close>

definition string_of :: "string \<Rightarrow> bytes \<Rightarrow> rstring parsed" where
  "string_of context bs = (case from_utf8 bs of Some s \<Rightarrow> Ok s | None \<Rightarrow> Err (NotUtf8 context))"

text \<open>\<open>a.checked_add(b)\<close> on \<open>usize\<close>.\<close>

definition checked_add :: "nat \<Rightarrow> nat \<Rightarrow> nat option" where
  "checked_add a b = (if a + b < usize_limit then Some (a + b) else None)"

section \<open>The bodies of the messages\<close>

function sasl_mechanisms :: "bytes \<Rightarrow> nat \<Rightarrow> rstring list \<Rightarrow> rstring list parsed" where
  "sasl_mechanisms body offset mechanisms =
     (if offset < length body then
        and_then (idx body offset) (\<lambda>b.
          if b \<noteq> 0 then
            and_then (slice_from body offset) (\<lambda>d.
              let name = fst (split_cstring d)
              in and_then (string_of ''SASL mechanism name'' name) (\<lambda>name_str.
                   sasl_mechanisms body (offset + length name + 1) (mechanisms @ [name_str])))
          else Ok mechanisms)
      else Ok mechanisms)"
  by pat_completeness auto
termination
  by (relation "measure (\<lambda>(body, offset, ms). length body - offset)") auto

declare sasl_mechanisms.simps [simp del]

definition parse_auth :: "bytes \<Rightarrow> backend_msg option parsed" where
  "parse_auth body =
     (if length body < 4 then Err AuthBodyTooShort
      else and_then (be32_at body 0) (\<lambda>auth_type.
        if auth_type = 0 then Ok (Some AuthenticationOk)
        else if auth_type = 3 then Ok (Some AuthenticationCleartextPassword)
        else if auth_type = 5 then
          (if length body < 8 then Err Md5SaltTooShort
           else and_then (slice body 4 8) (\<lambda>salt. Ok (Some (AuthenticationMd5Password salt))))
        else if auth_type = 10 then
          and_then (sasl_mechanisms body 4 []) (\<lambda>ms. Ok (Some (AuthenticationSASL ms)))
        else if auth_type = 11 then
          and_then (slice_from body 4) (\<lambda>d. Ok (Some (AuthenticationSASLContinue d)))
        else if auth_type = 12 then
          and_then (slice_from body 4) (\<lambda>d. Ok (Some (AuthenticationSASLFinal d)))
        else Err (UnsupportedAuthType auth_type)))"

definition parse_parameter_status :: "bytes \<Rightarrow> backend_msg option parsed" where
  "parse_parameter_status body =
     (let (name, rest) = split_cstring body; (value, _) = split_cstring rest
      in and_then (string_of ''ParameterStatus name'' name) (\<lambda>name_str.
         and_then (string_of ''ParameterStatus value'' value) (\<lambda>value_str.
           Ok (Some (ParameterStatus name_str value_str)))))"

definition parse_backend_key_data :: "bytes \<Rightarrow> backend_msg option parsed" where
  "parse_backend_key_data body =
     (if length body < 8 then Err BackendKeyDataTooShort
      else and_then (be32_at body 0) (\<lambda>pid. and_then (be32_at body 4) (\<lambda>secret.
        Ok (Some (BackendKeyData pid secret)))))"

definition parse_command_complete :: "bytes \<Rightarrow> backend_msg option parsed" where
  "parse_command_complete body =
     (let tag = fst (split_cstring body)
      in and_then (string_of ''CommandComplete tag'' tag) (\<lambda>tag_str.
           Ok (Some (CommandComplete tag_str))))"

text \<open>One column of a DataRow: its cell entry and the offset after it.\<close>

definition read_cell_entry :: "bytes \<Rightarrow> nat \<Rightarrow> (cell_entry \<times> nat) parsed" where
  "read_cell_entry body off =
     (case checked_add off 4 of
        None \<Rightarrow> Err (OffsetOverflow ''column length'')
      | Some after_len \<Rightarrow>
          if after_len > length body then Err (TruncatedAtLength off (length body))
          else and_then (be32_at body off) (\<lambda>len.
            if sint len < 0 then
              (if len = - 1 then Ok ((0, - 1), after_len) else Err (NegativeColumnLength len))
            else
              (case checked_add after_len (usize_of_i32 len) of
                 None \<Rightarrow> Err (OffsetOverflow ''column data'')
               | Some end \<Rightarrow>
                   if end > length body
                   then Err (TruncatedColumnData (usize_of_i32 len) after_len (length body))
                   else Ok ((word_of_nat after_len, len), end))))"

fun read_cells :: "nat \<Rightarrow> bytes \<Rightarrow> nat \<Rightarrow> cell_entry list parsed" where
  "read_cells 0 body off = Ok []"
| "read_cells (Suc n) body off =
     and_then (read_cell_entry body off) (\<lambda>(e, off').
       and_then (read_cells n body off') (\<lambda>es. Ok (e # es)))"

definition parse_data_row :: "bytes \<Rightarrow> backend_msg option parsed" where
  "parse_data_row body =
     (if length body < 2 then Err DataRowTooShort
      else and_then (be16_at body 0) (\<lambda>n.
        and_then (i16_to_usize n ''DataRow'') (\<lambda>num_cols.
          and_then (read_cells num_cols body 2) (\<lambda>es.
            if num_cols \<le> CELL_INLINE_CAP then
              and_then
                (from_inline_unchecked body
                   (es @ drop num_cols (replicate CELL_INLINE_CAP (0, 0))) num_cols)
                (\<lambda>row. Ok (Some (DataRow row)))
            else Ok (Some (DataRow (from_entries body es)))))))"

definition read_field :: "bytes \<Rightarrow> nat \<Rightarrow> nat \<Rightarrow> (field_description \<times> nat) parsed" where
  "read_field body field_idx off =
     (if off \<ge> length body then Err (TruncatedFieldName field_idx)
      else and_then (slice_from body off) (\<lambda>d.
        let name = fst (split_cstring d); off = off + length name + 1
        in if off + 18 > length body then Err (TruncatedFieldMetadata field_idx off (length body))
           else
             and_then (be32_at body off) (\<lambda>table_oid.
             and_then (be16_at body (off + 4)) (\<lambda>column_id.
             and_then (be32_at body (off + 6)) (\<lambda>type_oid.
             and_then (be16_at body (off + 10)) (\<lambda>type_size.
             and_then (be32_at body (off + 12)) (\<lambda>type_modifier.
             and_then (be16_at body (off + 16)) (\<lambda>format.
             and_then (string_of ''RowDescription field name'' name) (\<lambda>name_str.
               Ok (\<lparr>fd_name = name_str, fd_table_oid = table_oid, fd_column_id = column_id,
                    fd_type_oid = type_oid, fd_type_size = type_size,
                    fd_type_modifier = type_modifier,
                    fd_format = (if format = 1 then Binary else Text)\<rparr>, off + 18))))))))))"

fun read_fields :: "nat \<Rightarrow> bytes \<Rightarrow> nat \<Rightarrow> nat \<Rightarrow> field_description list parsed" where
  "read_fields 0 body field_idx off = Ok []"
| "read_fields (Suc n) body field_idx off =
     and_then (read_field body field_idx off) (\<lambda>(f, off').
       and_then (read_fields n body (Suc field_idx) off') (\<lambda>fs. Ok (f # fs)))"

definition parse_row_description :: "bytes \<Rightarrow> backend_msg option parsed" where
  "parse_row_description body =
     (if length body < 2 then Err RowDescriptionTooShort
      else and_then (be16_at body 0) (\<lambda>n.
        and_then (i16_to_usize n ''RowDescription'') (\<lambda>num_fields.
          and_then (read_fields num_fields body 0 2) (\<lambda>fields.
            Ok (Some (RowDescription fields))))))"

fun read_u32s :: "nat \<Rightarrow> bytes \<Rightarrow> nat \<Rightarrow> u32 list parsed" where
  "read_u32s 0 body off = Ok []"
| "read_u32s (Suc n) body off =
     and_then (be32_at body off) (\<lambda>w. and_then (read_u32s n body (off + 4)) (\<lambda>ws. Ok (w # ws)))"

definition parse_parameter_description :: "bytes \<Rightarrow> backend_msg option parsed" where
  "parse_parameter_description body =
     (if length body < 2 then Err ParameterDescriptionTooShort
      else and_then (be16_at body 0) (\<lambda>n.
        and_then (i16_to_usize n ''ParameterDescription'') (\<lambda>num_params.
          if length body < 2 + num_params * 4
          then Err (ParameterDescriptionCount num_params (length body))
          else and_then (read_u32s num_params body 2) (\<lambda>type_oids.
            Ok (Some (ParameterDescription type_oids))))))"

definition parse_notification :: "bytes \<Rightarrow> backend_msg option parsed" where
  "parse_notification body =
     (if length body < 4 then Err NotificationTooShort
      else and_then (be32_at body 0) (\<lambda>pid.
        and_then (slice_from body 4) (\<lambda>d.
          let (channel, rest) = split_cstring d; (payload, _) = split_cstring rest
          in and_then (string_of ''NotificationResponse channel'' channel) (\<lambda>channel_str.
             and_then (string_of ''NotificationResponse payload'' payload) (\<lambda>payload_str.
               Ok (Some (NotificationResponse pid channel_str payload_str)))))))"

fun read_i16s :: "nat \<Rightarrow> bytes \<Rightarrow> nat \<Rightarrow> i16 list parsed" where
  "read_i16s 0 body off = Ok []"
| "read_i16s (Suc n) body off =
     and_then (be16_at body off) (\<lambda>w. and_then (read_i16s n body (off + 2)) (\<lambda>ws. Ok (w # ws)))"

definition parse_copy_response :: "bytes \<Rightarrow> bool \<Rightarrow> backend_msg option parsed" where
  "parse_copy_response body is_in =
     (if length body < 3 then Err CopyResponseTooShort
      else and_then (idx body 0) (\<lambda>format.
        and_then (be16_at body 1) (\<lambda>n.
          and_then (i16_to_usize n ''CopyResponse'') (\<lambda>num_cols.
            if length body < 3 + num_cols * 2 then Err (CopyResponseColumns num_cols)
            else and_then (read_i16s num_cols body 3) (\<lambda>column_formats.
              Ok (Some (if is_in then CopyInResponse format column_formats
                        else CopyOutResponse format column_formats)))))))"

definition set_error_field :: "u8 \<Rightarrow> rstring \<Rightarrow> pg_error \<Rightarrow> pg_error" where
  "set_error_field field_type v err =
     (if field_type = 0x53 then err\<lparr>pg_severity := v\<rparr>
      else if field_type = 0x43 then err\<lparr>pg_code := v\<rparr>
      else if field_type = 0x4D then err\<lparr>pg_message := v\<rparr>
      else if field_type = 0x44 then err\<lparr>pg_detail := Some v\<rparr>
      else if field_type = 0x48 then err\<lparr>pg_hint := Some v\<rparr>
      else if field_type = 0x50 then err\<lparr>pg_position := Some v\<rparr>
      else err)"

function error_fields :: "bytes \<Rightarrow> nat \<Rightarrow> pg_error \<Rightarrow> pg_error parsed" where
  "error_fields body offset err =
     (if offset < length body then
        and_then (idx body offset) (\<lambda>field_type.
          if field_type \<noteq> 0 then
            (if offset + 1 \<ge> length body then Ok err
             else and_then (slice_from body (offset + 1)) (\<lambda>d.
               let value = fst (split_cstring d)
               in error_fields body (offset + 1 + (length value + 1))
                    (set_error_field field_type (utf8_lossy value) err)))
          else Ok err)
      else Ok err)"
  by pat_completeness auto
termination
  by (relation "measure (\<lambda>(body, offset, e). length body - offset)") auto

declare error_fields.simps [simp del]

definition parse_error_or_notice :: "bytes \<Rightarrow> pg_error parsed" where
  "parse_error_or_notice body = error_fields body 0 pg_error_default"

section \<open>One message off the buffer\<close>

text \<open>The \<open>match tag\<close>; an unknown tag gives no message.\<close>

definition parse_body :: "u8 \<Rightarrow> bytes \<Rightarrow> backend_msg option parsed" where
  "parse_body tag body =
     (if tag = 0x52 then parse_auth body
      else if tag = 0x53 then parse_parameter_status body
      else if tag = 0x4B then parse_backend_key_data body
      else if tag = 0x5A then
        (if body = [] then Err ReadyForQueryEmptyBody
         else and_then (idx body 0) (\<lambda>status. Ok (Some (ReadyForQuery status))))
      else if tag = 0x31 then Ok (Some ParseComplete)
      else if tag = 0x32 then Ok (Some BindComplete)
      else if tag = 0x33 then Ok (Some CloseComplete)
      else if tag = 0x6E then Ok (Some NoData)
      else if tag = 0x43 then parse_command_complete body
      else if tag = 0x44 then parse_data_row body
      else if tag = 0x54 then parse_row_description body
      else if tag = 0x45 then
        and_then (parse_error_or_notice body) (\<lambda>e. Ok (Some (ErrorResponse e)))
      else if tag = 0x4E then
        and_then (parse_error_or_notice body) (\<lambda>e. Ok (Some (NoticeResponse e)))
      else if tag = 0x49 then Ok (Some EmptyQueryResponse)
      else if tag = 0x41 then parse_notification body
      else if tag = 0x74 then parse_parameter_description body
      else if tag = 0x73 then Ok (Some PortalSuspended)
      else if tag = 0x47 then parse_copy_response body True
      else if tag = 0x48 then parse_copy_response body False
      else if tag = 0x64 then Ok (Some (BackendCopyData body))
      else if tag = 0x63 then Ok (Some BackendCopyDone)
      else Ok None)"

definition parse_message :: "bytes \<Rightarrow> backend_msg option parsed \<times> bytes" where
  "parse_message buf =
     (if length buf < 5 then (Ok None, buf)
      else
        case and_then (idx buf 0) (\<lambda>tag. and_then (be32_at buf 1) (\<lambda>len_raw. Ok (tag, len_raw))) of
          Err e \<Rightarrow> (Err e, buf)
        | Panic \<Rightarrow> (Panic, buf)
        | Ok (tag, len_raw) \<Rightarrow>
            if sint len_raw < 4 then (Err (InvalidMessageLength len_raw), buf)
            else if usize_of_i32 len_raw > MAX_MESSAGE_SIZE
            then (Err (MessageTooLarge (usize_of_i32 len_raw)), buf)
            else if length buf < 1 + usize_of_i32 len_raw then (Ok None, buf)
            else
              (case slice buf 5 (5 + (usize_of_i32 len_raw - 4)) of
                 Err e \<Rightarrow> (Err e, buf)
               | Panic \<Rightarrow> (Panic, buf)
               | Ok body \<Rightarrow> (parse_body tag body, drop (5 + (usize_of_i32 len_raw - 4)) buf)))"

section \<open>No panic, and well-formed results\<close>

lemmas body_simps = Let_def split_beta

lemma string_of_eq_Ok [outcome_simps]: "string_of c bs = Ok s \<longleftrightarrow> utf8_valid bs \<and> s = bs"
  by (auto simp: string_of_def from_utf8_def)

lemma string_of_no_panic [outcome_simps]: "string_of c bs \<noteq> Panic"
  by (simp add: string_of_def split: option.splits)

lemma i16_to_usize_no_panic [outcome_simps]: "i16_to_usize n c \<noteq> Panic"
  by (simp add: i16_to_usize_def)

lemma i16_to_usize_eq_Ok [outcome_simps]:
  "i16_to_usize n c = Ok k \<longleftrightarrow> 0 \<le> sint n \<and> k = nat (sint n)"
  using usize_of_i16_nonneg [of n] by (auto simp: i16_to_usize_def)

lemma sasl_mechanisms_spec:
  "list_all utf8_valid ms \<Longrightarrow>
   sasl_mechanisms body off ms \<noteq> Panic
   \<and> (\<forall>r. sasl_mechanisms body off ms = Ok r \<longrightarrow> list_all utf8_valid r)"
proof (induction body off ms rule: sasl_mechanisms.induct)
  case (1 body off ms)
  show ?case
  proof (cases "off < length body \<and> body ! off \<noteq> 0 \<and> utf8_valid (fst (split_cstring (drop off body)))")
    case True
    with "1.prems" "1.IH" [of "body ! off" "drop off body" "fst (split_cstring (drop off body))"
        "fst (split_cstring (drop off body))"]
    show ?thesis
      by (subst (1 2) sasl_mechanisms.simps) (auto simp: outcome_simps body_simps idx_def slice_from_def string_of_def from_utf8_def)
  next
    case False
    with "1.prems" show ?thesis
      by (subst (1 2) sasl_mechanisms.simps)
        (auto simp: outcome_simps body_simps idx_def slice_from_def string_of_def from_utf8_def)
  qed
qed

lemma parse_auth_ok: "parse_auth body \<noteq> Panic" "parse_auth body = Ok (Some m) \<Longrightarrow> msg_wf m"
  using sasl_mechanisms_spec [of "[]" body 4]
  by (auto simp: parse_auth_def outcome_simps split: if_splits)

lemma parse_strings_ok:
  "parse_parameter_status body \<noteq> Panic" "parse_parameter_status body = Ok (Some m) \<Longrightarrow> msg_wf m"
  "parse_command_complete body \<noteq> Panic" "parse_command_complete body = Ok (Some m) \<Longrightarrow> msg_wf m"
  "parse_notification body \<noteq> Panic" "parse_notification body = Ok (Some m) \<Longrightarrow> msg_wf m"
  by (auto simp: parse_parameter_status_def parse_command_complete_def parse_notification_def
      outcome_simps body_simps split: if_splits)

lemma parse_backend_key_data_ok:
  "parse_backend_key_data body \<noteq> Panic" "parse_backend_key_data body = Ok (Some m) \<Longrightarrow> msg_wf m"
  by (auto simp: parse_backend_key_data_def outcome_simps split: if_splits)

lemma checked_add_eq_Some: "checked_add a b = Some c \<longleftrightarrow> c = a + b \<and> a + b < usize_limit"
  by (auto simp: checked_add_def)

lemma read_cell_entry_no_panic: "read_cell_entry body off \<noteq> Panic"
  by (auto simp: read_cell_entry_def outcome_simps checked_add_eq_Some split: option.splits)

lemma read_cell_entry_bounds:
  assumes "read_cell_entry body off = Ok (e, off')" and "length body < 2 ^ 31"
  shows "entry_in_bounds (length body) e \<and> off + 4 \<le> off' \<and> off' \<le> length body"
  using assms
  by (auto simp: read_cell_entry_def outcome_simps checked_add_eq_Some entry_in_bounds_def
      usize_of_i32_nonneg unat_put_len simp del: of_nat_add split: option.splits if_splits)

lemma read_cells_no_panic: "read_cells n body off \<noteq> Panic"
  by (induction n body off rule: read_cells.induct) (auto simp: outcome_simps body_simps read_cell_entry_no_panic)

lemma read_cells_length: "read_cells n body off = Ok es \<Longrightarrow> length es = n"
  by (induction n body off arbitrary: es rule: read_cells.induct) (auto simp: outcome_simps body_simps)

lemma read_cells_bounds:
  "read_cells n body off = Ok es \<Longrightarrow> length body < 2 ^ 31 \<Longrightarrow>
   \<forall>e \<in> set es. entry_in_bounds (length body) e"
  by (induction n body off arbitrary: es rule: read_cells.induct)
    (fastforce simp: outcome_simps body_simps dest: read_cell_entry_bounds)+

text \<open>The row built on the stack is the one \<open>from_entries\<close> builds, so both branches of
  \<open>parse_data_row\<close> give the same row.\<close>

lemma inline_row_from_entries:
  "length es = n \<Longrightarrow> n \<le> CELL_INLINE_CAP \<Longrightarrow>
   from_inline_unchecked body (es @ drop n (replicate CELL_INLINE_CAP (0, 0))) n
   = Ok (from_entries body es)"
  by (auto simp: from_inline_unchecked_def from_entries_def)

lemma parse_data_row_rows:
  "parse_data_row body =
     (if length body < 2 then Err DataRowTooShort
      else and_then (be16_at body 0) (\<lambda>n. and_then (i16_to_usize n ''DataRow'') (\<lambda>k.
        and_then (read_cells k body 2) (\<lambda>es. Ok (Some (DataRow (from_entries body es)))))))"
  unfolding parse_data_row_def
  by (intro if_cong and_then_cong refl)
    (simp add: inline_row_from_entries read_cells_length del: drop_replicate)

lemma parse_data_row_ok:
  assumes "length body < 2 ^ 31"
  shows "parse_data_row body \<noteq> Panic" "parse_data_row body = Ok (Some m) \<Longrightarrow> msg_wf m"
  using read_cells_bounds [OF _ assms]
  by (auto simp: parse_data_row_rows outcome_simps read_cells_no_panic
      intro!: row_wf_from_entries split: if_splits)

lemma read_field_ok:
  "read_field body i off \<noteq> Panic"
  "read_field body i off = Ok (f, off') \<Longrightarrow> utf8_valid (fd_name f)"
  by (auto simp: read_field_def outcome_simps body_simps split: if_splits)

lemma read_fields_ok:
  "read_fields n body i off \<noteq> Panic"
  "read_fields n body i off = Ok fs \<Longrightarrow> list_all (\<lambda>f. utf8_valid (fd_name f)) fs"
  by (induction n body i off arbitrary: fs rule: read_fields.induct)
    (auto simp: outcome_simps body_simps read_field_ok)

lemma parse_row_description_ok:
  "parse_row_description body \<noteq> Panic" "parse_row_description body = Ok (Some m) \<Longrightarrow> msg_wf m"
  by (auto simp: parse_row_description_def outcome_simps read_fields_ok split: if_splits)

lemma read_u32s_no_panic: "off + n * 4 \<le> length body \<Longrightarrow> read_u32s n body off \<noteq> Panic"
  by (induction n body off rule: read_u32s.induct) (auto simp: outcome_simps)

lemma read_i16s_no_panic: "off + n * 2 \<le> length body \<Longrightarrow> read_i16s n body off \<noteq> Panic"
  by (induction n body off rule: read_i16s.induct) (auto simp: outcome_simps)

lemma parse_parameter_description_ok:
  "parse_parameter_description body \<noteq> Panic"
  "parse_parameter_description body = Ok (Some m) \<Longrightarrow> msg_wf m"
  by (auto simp: parse_parameter_description_def outcome_simps read_u32s_no_panic split: if_splits)

lemma parse_copy_response_ok:
  "parse_copy_response body b \<noteq> Panic" "parse_copy_response body b = Ok (Some m) \<Longrightarrow> msg_wf m"
  by (auto simp: parse_copy_response_def outcome_simps read_i16s_no_panic split: if_splits)

lemma set_error_field_wf:
  "utf8_valid v \<Longrightarrow> pg_error_wf e \<Longrightarrow> pg_error_wf (set_error_field t v e)"
  by (simp add: set_error_field_def pg_error_wf_def)

lemma error_fields_ok:
  "pg_error_wf e \<Longrightarrow> error_fields body off e \<noteq> Panic
   \<and> (\<forall>x. error_fields body off e = Ok x \<longrightarrow> pg_error_wf x)"
proof (induction body off e rule: error_fields.induct)
  case (1 body off e)
  show ?case
  proof (cases "off + 1 < length body \<and> body ! off \<noteq> 0")
    case True
    with 1 show ?thesis
      by (subst (1 2) error_fields.simps)
        (simp add: idx_def slice_from_def set_error_field_wf utf8_valid_lossy Let_def)
  next
    case False
    with "1.prems" show ?thesis
      by (subst (1 2) error_fields.simps) (auto simp: outcome_simps idx_def)
  qed
qed

lemma pg_error_default_wf: "pg_error_wf pg_error_default"
  by (simp add: pg_error_wf_def pg_error_default_def)

lemma parse_error_or_notice_ok:
  "parse_error_or_notice body \<noteq> Panic" "parse_error_or_notice body = Ok e \<Longrightarrow> pg_error_wf e"
  using error_fields_ok [OF pg_error_default_wf, of body 0] by (auto simp: parse_error_or_notice_def)

lemmas parse_parts_no_panic = parse_auth_ok(1) parse_strings_ok(1,3,5) parse_backend_key_data_ok(1)
  parse_row_description_ok(1) parse_parameter_description_ok(1) parse_copy_response_ok(1)
  parse_error_or_notice_ok(1) parse_data_row_ok(1)
lemmas parse_parts_wf = parse_auth_ok(2) parse_strings_ok(2,4,6) parse_backend_key_data_ok(2)
  parse_row_description_ok(2) parse_parameter_description_ok(2) parse_copy_response_ok(2)
  parse_error_or_notice_ok(2) parse_data_row_ok(2)

lemma parse_body_no_panic: "length body < 2 ^ 31 \<Longrightarrow> parse_body tag body \<noteq> Panic"
  by (simp add: parse_body_def parse_parts_no_panic outcome_simps)

lemma parse_body_wf: "length body < 2 ^ 31 \<Longrightarrow> parse_body tag body = Ok (Some m) \<Longrightarrow> msg_wf m"
  using parse_data_row_ok(2) [of body m]
  by (auto simp: parse_body_def outcome_simps dest: parse_parts_wf split: if_split_asm)

section \<open>Framing\<close>

text \<open>The length a complete message announces, and the total it takes in the buffer.\<close>

definition announced :: "bytes \<Rightarrow> i32" where "announced buf = from_be32 (take 4 (drop 1 buf))"

definition complete :: "bytes \<Rightarrow> bool" where
  "complete buf \<longleftrightarrow> 5 \<le> length buf \<and> 4 \<le> sint (announced buf)
     \<and> nat (sint (announced buf)) \<le> MAX_MESSAGE_SIZE
     \<and> 1 + nat (sint (announced buf)) \<le> length buf"

lemma parse_message_complete:
  assumes "complete buf"
  shows "parse_message buf =
    (parse_body (hd buf) (take (nat (sint (announced buf)) - 4) (drop 5 buf)),
     drop (1 + nat (sint (announced buf))) buf)"
proof -
  from assms have n: "usize_of_i32 (announced buf) = nat (sint (announced buf))"
    "4 \<le> nat (sint (announced buf))" "buf \<noteq> []"
    by (auto simp: complete_def usize_of_i32_nonneg)
  from assms n show ?thesis
    by (simp add: parse_message_def complete_def idx_def be32_at_def slice_def hd_conv_nth
        flip: announced_def) (simp add: announced_def)
qed

lemma complete_short_body:
  "complete buf \<Longrightarrow> length (take (nat (sint (announced buf)) - 4) (drop 5 buf)) < 2 ^ 31"
  using sint_i32_range [of "announced buf"] by (auto simp: complete_def)

lemma complete_append: "complete buf \<Longrightarrow> complete (buf @ later)"
  by (auto simp: complete_def announced_def)

text \<open>On anything else the buffer is left alone: more bytes are awaited, or the length is refused
  as soon as it can be read.\<close>

lemma parse_message_incomplete:
  assumes "\<not> complete buf"
  shows "parse_message buf =
    (if length buf < 5 then Ok None
     else if sint (announced buf) < 4 then Err (InvalidMessageLength (announced buf))
     else if nat (sint (announced buf)) > MAX_MESSAGE_SIZE
     then Err (MessageTooLarge (nat (sint (announced buf))))
     else Ok None, buf)"
proof (cases "length buf < 5")
  case False
  with assms show ?thesis
    by (simp add: parse_message_def complete_def idx_def be32_at_def slice_def usize_of_i32_nonneg
        flip: announced_def) (auto simp: announced_def)
qed (simp add: parse_message_def)

lemma parse_message_framed:
  "snd (parse_message buf) = (if complete buf then drop (1 + nat (sint (announced buf))) buf else buf)"
  by (cases "complete buf") (auto simp: parse_message_complete parse_message_incomplete)

lemma parse_message_later:
  assumes "parse_message buf \<noteq> (Ok None, buf)"
  shows "parse_message (buf @ later) = (fst (parse_message buf), snd (parse_message buf) @ later)"
proof (cases "complete buf")
  case True
  then have "parse_message (buf @ later) = (parse_body (hd (buf @ later))
      (take (nat (sint (announced (buf @ later))) - 4) (drop 5 (buf @ later))),
      drop (1 + nat (sint (announced (buf @ later)))) (buf @ later))"
    by (intro parse_message_complete complete_append)
  moreover have "announced (buf @ later) = announced buf" "hd (buf @ later) = hd buf"
    using True by (cases buf; auto simp: complete_def announced_def)+
  ultimately show ?thesis
    using True by (simp add: parse_message_complete) (auto simp: complete_def)
next
  case False
  with assms have e: "5 \<le> length buf"
    "sint (announced buf) < 4 \<or> nat (sint (announced buf)) > MAX_MESSAGE_SIZE"
    by (auto simp: parse_message_incomplete split: if_splits)
  then have a: "announced (buf @ later) = announced buf" by (simp add: announced_def)
  with e have "\<not> complete (buf @ later)" by (auto simp: complete_def)
  with False e a show ?thesis by (auto simp: parse_message_incomplete)
qed

lemma parse_message_safe: "fst (parse_message buf) \<noteq> Panic"
  using parse_body_no_panic complete_short_body [of buf]
  by (cases "complete buf") (auto simp: parse_message_complete parse_message_incomplete)

text \<open>C2: \<open>parse_message\<close> never panics, whatever bytes the server sends, and it takes exactly one
  complete frame off the buffer or leaves the buffer as it was.\<close>

theorem parse_message_total:
  "fst (parse_message buf) \<noteq> Panic
   \<and> snd (parse_message buf)
       = (if complete buf then drop (1 + nat (sint (announced buf))) buf else buf)"
  using parse_message_safe parse_message_framed by blast

text \<open>Once \<open>parse_message\<close> has decided on a buffer (a message, an error, or a frame skipped), bytes
  that arrive later do not change the decision and stay in the buffer behind it.\<close>

theorem parse_message_stable:
  assumes "parse_message buf \<noteq> (Ok None, buf)"
  shows "parse_message (buf @ later) = (fst (parse_message buf), snd (parse_message buf) @ later)"
  by (rule parse_message_later [OF assms])


section \<open>The specification: what a server writes\<close>

text \<open>The protocol's encoding of a backend message: a tag and a body, framed like client messages.
  A row is encoded from its cells.\<close>

definition put_field :: "field_description \<Rightarrow> bytes" where
  "put_field f = put_cstr (fd_name f) @ be32 (fd_table_oid f) @ be16 (fd_column_id f)
     @ be32 (fd_type_oid f) @ be16 (fd_type_size f) @ be32 (fd_type_modifier f) @ put_fmt (fd_format f)"

text \<open>The fields of an error, each a type byte and a string, in the order a server sends them.\<close>

fun opt_field :: "u8 \<Rightarrow> rstring option \<Rightarrow> (u8 \<times> rstring) list" where
  "opt_field t None = []"
| "opt_field t (Some v) = [(t, v)]"

definition error_kvs :: "pg_error \<Rightarrow> (u8 \<times> rstring) list" where
  "error_kvs e = [(0x53, pg_severity e), (0x43, pg_code e), (0x4D, pg_message e)]
     @ opt_field 0x44 (pg_detail e) @ opt_field 0x48 (pg_hint e) @ opt_field 0x50 (pg_position e)"

definition put_kv :: "u8 \<times> rstring \<Rightarrow> bytes" where "put_kv kv = fst kv # put_cstr (snd kv)"

definition put_error :: "pg_error \<Rightarrow> bytes" where
  "put_error e = concat (map put_kv (error_kvs e)) @ [0]"

definition row_values :: "raw_row \<Rightarrow> bytes option list" where
  "row_values r = (case iter_cells r :: (unit, bytes option list) res of Ok cs \<Rightarrow> cs | _ \<Rightarrow> [])"

fun server_tag :: "backend_msg \<Rightarrow> u8" where
  "server_tag (ParameterStatus _ _) = 0x53"
| "server_tag (BackendKeyData _ _) = 0x4B"
| "server_tag (ReadyForQuery _) = 0x5A"
| "server_tag ParseComplete = 0x31"
| "server_tag BindComplete = 0x32"
| "server_tag CloseComplete = 0x33"
| "server_tag NoData = 0x6E"
| "server_tag (CommandComplete _) = 0x43"
| "server_tag (DataRow _) = 0x44"
| "server_tag (RowDescription _) = 0x54"
| "server_tag (ErrorResponse _) = 0x45"
| "server_tag (NoticeResponse _) = 0x4E"
| "server_tag EmptyQueryResponse = 0x49"
| "server_tag (NotificationResponse _ _ _) = 0x41"
| "server_tag (ParameterDescription _) = 0x74"
| "server_tag PortalSuspended = 0x73"
| "server_tag (CopyInResponse _ _) = 0x47"
| "server_tag (CopyOutResponse _ _) = 0x48"
| "server_tag (BackendCopyData _) = 0x64"
| "server_tag BackendCopyDone = 0x63"
| "server_tag _ = 0x52"

fun server_body :: "backend_msg \<Rightarrow> bytes" where
  "server_body AuthenticationOk = be32 0"
| "server_body AuthenticationCleartextPassword = be32 3"
| "server_body (AuthenticationMd5Password salt) = be32 5 @ salt"
| "server_body (AuthenticationSASL ms) = be32 10 @ concat (map put_cstr ms) @ [0]"
| "server_body (AuthenticationSASLContinue d) = be32 11 @ d"
| "server_body (AuthenticationSASLFinal d) = be32 12 @ d"
| "server_body (ParameterStatus n v) = put_cstr n @ put_cstr v"
| "server_body (BackendKeyData pid secret) = be32 pid @ be32 secret"
| "server_body (ReadyForQuery st) = [st]"
| "server_body (CommandComplete t) = put_cstr t"
| "server_body (DataRow r) = put_count (length (row_values r)) @ concat (map put_param (row_values r))"
| "server_body (RowDescription fs) = put_count (length fs) @ concat (map put_field fs)"
| "server_body (ErrorResponse e) = put_error e"
| "server_body (NoticeResponse e) = put_error e"
| "server_body (NotificationResponse pid c p) = be32 pid @ put_cstr c @ put_cstr p"
| "server_body (ParameterDescription ts) = put_count (length ts) @ concat (map be32 ts)"
| "server_body (CopyInResponse f fs) = f # put_count (length fs) @ concat (map be16 fs)"
| "server_body (CopyOutResponse f fs) = f # put_count (length fs) @ concat (map be16 fs)"
| "server_body (BackendCopyData d) = d"
| "server_body _ = []"

definition server_frame :: "backend_msg \<Rightarrow> bytes" where
  "server_frame m = frame (server_tag m) (server_body m)"

text \<open>What a server may send: well-formed messages without NUL bytes inside strings, with counts
  below \<open>2^15\<close> and no larger than the limit of the parser.\<close>

definition cstr_ok :: "rstring \<Rightarrow> bool" where "cstr_ok s \<longleftrightarrow> no_nul s \<and> utf8_valid s"

definition error_ok :: "pg_error \<Rightarrow> bool" where
  "error_ok e \<longleftrightarrow> cstr_ok (pg_severity e) \<and> cstr_ok (pg_code e) \<and> cstr_ok (pg_message e)
     \<and> pred_option cstr_ok (pg_detail e) \<and> pred_option cstr_ok (pg_hint e)
     \<and> pred_option cstr_ok (pg_position e)"

fun server_ok :: "backend_msg \<Rightarrow> bool" where
  "server_ok (AuthenticationMd5Password salt) \<longleftrightarrow> length salt = 4"
| "server_ok (AuthenticationSASL ms) \<longleftrightarrow> (\<forall>m \<in> set ms. cstr_ok m \<and> m \<noteq> [])"
| "server_ok (ParameterStatus n v) \<longleftrightarrow> cstr_ok n \<and> cstr_ok v"
| "server_ok (CommandComplete t) \<longleftrightarrow> cstr_ok t"
| "server_ok (DataRow r) \<longleftrightarrow> row_wf r \<and> length (row_values r) < 2 ^ 15"
| "server_ok (RowDescription fs) \<longleftrightarrow> length fs < 2 ^ 15 \<and> (\<forall>f \<in> set fs. cstr_ok (fd_name f))"
| "server_ok (ErrorResponse e) \<longleftrightarrow> error_ok e"
| "server_ok (NoticeResponse e) \<longleftrightarrow> error_ok e"
| "server_ok (NotificationResponse pid c p) \<longleftrightarrow> cstr_ok c \<and> cstr_ok p"
| "server_ok (ParameterDescription ts) \<longleftrightarrow> length ts < 2 ^ 15"
| "server_ok (CopyInResponse f fs) \<longleftrightarrow> length fs < 2 ^ 15"
| "server_ok (CopyOutResponse f fs) \<longleftrightarrow> length fs < 2 ^ 15"
| "server_ok _ \<longleftrightarrow> True"

definition server_sendable :: "backend_msg \<Rightarrow> bool" where
  "server_sendable m \<longleftrightarrow> server_ok m \<and> 4 + length (server_body m) \<le> MAX_MESSAGE_SIZE"

text \<open>Equal messages, rows being equal when their cells are.\<close>

definition same_msg :: "backend_msg \<Rightarrow> backend_msg \<Rightarrow> bool" where
  "same_msg m m' \<longleftrightarrow>
     (case m of
        DataRow r \<Rightarrow>
          (case m' of DataRow r' \<Rightarrow> row_wf r' \<and> row_values r' = row_values r | _ \<Rightarrow> False)
      | _ \<Rightarrow> m' = m)"

subsection \<open>Each part reads back\<close>

lemma split_cstring_put [simp]: "no_nul s \<Longrightarrow> split_cstring (put_cstr s @ r) = (s, r)"
  by (simp add: split_cstring_def put_cstr_def takeWhile_no_nul Let_def)

lemma split_cstring_end [simp]: "no_nul s \<Longrightarrow> split_cstring (put_cstr s) = (s, [])"
  using split_cstring_put [of s "[]"] by simp

lemma string_of_ok [simp]: "utf8_valid s \<Longrightarrow> string_of c s = Ok s"
  by (simp add: string_of_def from_utf8_def)

lemma slice_from_append [simp]: "length pre = off \<Longrightarrow> slice_from (pre @ post) off = Ok post"
  by (auto simp: slice_from_def)

lemma length_put_cstr [simp]: "length (put_cstr s) = Suc (length s)"
  by (simp add: put_cstr_def)

lemma sasl_mechanisms_put:
  "(\<forall>m \<in> set ms. cstr_ok m \<and> m \<noteq> []) \<Longrightarrow> off = length pre \<Longrightarrow>
   sasl_mechanisms (pre @ concat (map put_cstr ms) @ [0]) off acc = Ok (acc @ ms)"
proof (induction ms arbitrary: pre acc off)
  case Nil
  then show ?case
    by (subst sasl_mechanisms.simps) (simp add: idx_def)
next
  case (Cons m ms)
  have m: "cstr_ok m" "m \<noteq> []" "m ! 0 \<noteq> 0"
    using Cons.prems by (auto simp: cstr_ok_def no_nul_def) (metis length_greater_0_conv nth_mem)
  have "sasl_mechanisms ((pre @ put_cstr m) @ concat (map put_cstr ms) @ [0])
          (off + length m + 1) (acc @ [m]) = Ok ((acc @ [m]) @ ms)"
    using Cons.prems by (intro Cons.IH) auto
  with m Cons.prems show ?case
    by (subst sasl_mechanisms.simps)
      (simp add: idx_def nth_append cstr_ok_def Let_def put_cstr_def [of m] takeWhile_no_nul
        split_cstring_def)
qed

lemma i16_to_usize_put [simp]:
  "n < 2 ^ 15 \<Longrightarrow> i16_to_usize (word_of_nat n) c = Ok n"
  using sint_of_nat_i16 [of n] by (simp add: outcome_simps)

lemma be16_at_count [simp]:
  "length pre = off \<Longrightarrow> be16_at (pre @ put_count n @ post) off = Ok (word_of_nat n)"
  by (simp add: put_count_def)

lemmas at_start [simp] = be16_at_count [where pre = "[]" and off = 0, simplified]
  be32_at_append [where pre = "[]" and off = 0, simplified]
  be32_at_append [where pre = "[]" and off = 0 and post = "[]", simplified]
  slice_from_append [where off = 4 and pre = "be32 w" for w, simplified]

lemma read_cell_entry_put:
  assumes "off = length pre" and "length (pre @ put_param c @ post) < 2 ^ 31"
  shows "\<exists>e. read_cell_entry (pre @ put_param c @ post) off = Ok (e, off + length (put_param c))
    \<and> cell_bytes (pre @ put_param c @ post) e = (Ok c :: (unit, bytes option) res)"
proof (cases c)
  case None
  then show ?thesis
    using assms by (simp add: read_cell_entry_def put_param_def checked_add_def cell_bytes_def)
next
  case (Some d)
  from assms Some have n: "length d < 2 ^ 31" "off + 4 < 2 ^ 31" "off + 4 + length d < 2 ^ 31"
    by (simp_all add: put_param_def)
  have w: "sint (word_of_nat (length d) :: i32) = int (length d)"
    "usize_of_i32 (word_of_nat (length d)) = length d"
    using n(1) by (simp_all add: sint_of_nat_i32 usize_of_i32_nonneg)
  have "cell_bytes (pre @ put_param c @ post) (word_of_nat (off + 4), word_of_nat (length d))
        = (Ok c :: (unit, bytes option) res)"
    using Some assms(1) n w unat_put_len [OF n(2)]
    by (simp add: cell_bytes_def put_param_def slice_def Let_def del: of_nat_add)
  moreover have "read_cell_entry (pre @ put_param c @ post) off
      = Ok ((word_of_nat (off + 4), word_of_nat (length d)), off + length (put_param c))"
    using Some assms n w
    by (simp add: read_cell_entry_def put_param_def checked_add_def put_len_def del: of_nat_add)
  ultimately show ?thesis by blast
qed

lemma read_cells_put:
  "off = length pre \<Longrightarrow> length (pre @ concat (map put_param cs)) < 2 ^ 31 \<Longrightarrow>
   \<exists>es. read_cells (length cs) (pre @ concat (map put_param cs)) off = Ok es
     \<and> traverse (cell_bytes (pre @ concat (map put_param cs))) es
         = (Ok cs :: (unit, bytes option list) res)"
proof (induction cs arbitrary: pre off)
  case (Cons c cs)
  let ?b = "pre @ concat (map put_param (c # cs))"
  obtain e where e: "read_cell_entry ?b off = Ok (e, off + length (put_param c))"
    "cell_bytes ?b e = (Ok c :: (unit, bytes option) res)"
    using read_cell_entry_put [of off pre c "concat (map put_param cs)"] Cons.prems by auto
  obtain es where es: "read_cells (length cs) ?b (off + length (put_param c)) = Ok es"
    "traverse (cell_bytes ?b) es = (Ok cs :: (unit, bytes option list) res)"
    using Cons.IH [of "off + length (put_param c)" "pre @ put_param c"] Cons.prems by auto
  from e es show ?case
    by (intro exI [of _ "e # es"]) (simp del: concat.simps list.map)
qed simp

lemma parse_data_row_put:
  assumes "length cs < 2 ^ 15" and "length (put_count (length cs) @ concat (map put_param cs)) < 2 ^ 31"
  shows "\<exists>r. parse_data_row (put_count (length cs) @ concat (map put_param cs)) = Ok (Some (DataRow r))
    \<and> row_wf r \<and> row_values r = cs"
proof -
  let ?b = "put_count (length cs) @ concat (map put_param cs)"
  obtain es where es: "read_cells (length cs) ?b 2 = Ok es"
    "traverse (cell_bytes ?b) es = (Ok cs :: (unit, bytes option list) res)"
    using read_cells_put [of 2 "put_count (length cs)" cs] assms(2) by auto
  have "parse_data_row ?b = Ok (Some (DataRow (from_entries ?b es)))"
    using es(1) assms(1) by (simp add: parse_data_row_rows)
  moreover have "row_wf (from_entries ?b es)"
    using read_cells_bounds [OF es(1) assms(2)] by (rule row_wf_from_entries)
  moreover have "row_values (from_entries ?b es) = cs"
    using es(2) by (simp add: row_values_def iter_cells_def)
  ultimately show ?thesis by blast
qed

lemma read_field_put:
  assumes "off = length pre" and "cstr_ok (fd_name f)"
  shows "read_field (pre @ put_field f @ post) i off = Ok (f, off + length (put_field f))"
proof -
  have "(if from_be16 (be16 (fmt_i16 (fd_format f))) = 1 then Binary else Text) = fd_format f"
    by (cases "fd_format f") simp_all
  with assms show ?thesis
    by (simp add: read_field_def put_field_def put_fmt_def cstr_ok_def Let_def be16_at_def
        be32_at_def slice_def slice_from_def)
qed

lemma read_fields_put:
  "off = length pre \<Longrightarrow> \<forall>f \<in> set fs. cstr_ok (fd_name f) \<Longrightarrow>
   read_fields (length fs) (pre @ concat (map put_field fs)) i off = Ok fs"
proof (induction fs arbitrary: pre off i)
  case (Cons f fs)
  then show ?case
    using read_field_put [of off pre f "concat (map put_field fs)" i]
      Cons.IH [of "off + length (put_field f)" "pre @ put_field f" "Suc i"] by simp
qed simp

lemma be_list_cons: "concat (map f (x # xs)) = f x @ concat (map f xs)"
  by simp

lemma read_u32s_put:
  "off = length pre \<Longrightarrow> read_u32s (length ws) (pre @ concat (map be32 ws)) off = Ok ws"
proof (induction ws arbitrary: pre off)
  case (Cons w ws)
  then show ?case
    using Cons.IH [of "off + 4" "pre @ be32 w"] by simp
qed simp

lemma read_i16s_put:
  "off = length pre \<Longrightarrow> read_i16s (length ws) (pre @ concat (map be16 ws)) off = Ok ws"
proof (induction ws arbitrary: pre off)
  case (Cons w ws)
  then show ?case
    using Cons.IH [of "off + 2" "pre @ be16 w"] by simp
qed simp

lemma error_fields_put:
  "off = length pre \<Longrightarrow> \<forall>(t, v) \<in> set kvs. cstr_ok v \<and> t \<noteq> 0 \<Longrightarrow>
   error_fields (pre @ concat (map put_kv kvs) @ [0]) off e
   = Ok (fold (\<lambda>(t, v). set_error_field t v) kvs e)"
proof (induction kvs arbitrary: pre off e)
  case Nil
  then show ?case by (subst error_fields.simps) (simp add: idx_def)
next
  case (Cons kv kvs)
  obtain t v where kv: "kv = (t, v)" "cstr_ok v" "t \<noteq> 0"
    using Cons.prems by (cases kv) auto
  have "error_fields ((pre @ put_kv kv) @ concat (map put_kv kvs) @ [0]) (off + length (put_kv kv))
      (set_error_field t v e) = Ok (fold (\<lambda>(t, v). set_error_field t v) kvs (set_error_field t v e))"
    using Cons.prems by (intro Cons.IH) auto
  with kv Cons.prems(1) show ?case
    by (subst error_fields.simps)
      (simp add: idx_def slice_from_def nth_append cstr_ok_def Let_def utf8_lossy_valid put_kv_def)
qed

lemma set_error_fields_all:
  "fold (\<lambda>(t, v). set_error_field t v) (error_kvs e) pg_error_default = (e :: pg_error)"
  by (cases e; cases "pg_detail e"; cases "pg_hint e"; cases "pg_position e")
    (simp_all add: error_kvs_def set_error_field_def pg_error_default_def)

lemma error_kvs_ok: "error_ok e \<Longrightarrow> \<forall>(t, v) \<in> set (error_kvs e). cstr_ok v \<and> t \<noteq> 0"
  by (cases "pg_detail e"; cases "pg_hint e"; cases "pg_position e")
    (simp_all add: error_ok_def error_kvs_def)

lemma parse_error_put: "error_ok e \<Longrightarrow> parse_error_or_notice (put_error e) = Ok e"
  using error_fields_put [of 0 "[]", OF _ error_kvs_ok]
  by (simp add: parse_error_or_notice_def put_error_def set_error_fields_all)

lemma parse_row_description_put:
  "length fs < 2 ^ 15 \<Longrightarrow> \<forall>f \<in> set fs. cstr_ok (fd_name f) \<Longrightarrow>
   parse_row_description (put_count (length fs) @ concat (map put_field fs))
   = Ok (Some (RowDescription fs))"
  using read_fields_put [of 2 "put_count (length fs)" fs 0] by (simp add: parse_row_description_def)

lemma parse_parameter_description_put:
  "length ts < 2 ^ 15 \<Longrightarrow>
   parse_parameter_description (put_count (length ts) @ concat (map be32 ts))
   = Ok (Some (ParameterDescription ts))"
  using read_u32s_put [of 2 "put_count (length ts)" ts]
  by (simp add: parse_parameter_description_def length_concat_const [where f = be32 and k = 4])

lemmas be16_at_count_1 [simp] =
  be16_at_count [where pre = "[f]" and off = 1 for f, simplified]

lemma parse_copy_response_put:
  "length fs < 2 ^ 15 \<Longrightarrow>
   parse_copy_response (f # put_count (length fs) @ concat (map be16 fs)) b
   = Ok (Some (if b then CopyInResponse f fs else CopyOutResponse f fs))"
  using read_i16s_put [of 3 "f # put_count (length fs)" fs]
  by (simp add: parse_copy_response_def idx_def length_concat_const [where f = be16 and k = 2])

lemma parse_body_put:
  assumes "server_sendable m"
  shows "\<exists>m'. parse_body (server_tag m) (server_body m) = Ok (Some m') \<and> same_msg m m'"
proof -
  have len: "length (server_body m) < 2 ^ 31" and ok: "server_ok m"
    using assms by (auto simp: server_sendable_def MAX_MESSAGE_SIZE_def)
  show ?thesis
  proof (cases m)
    case (DataRow r)
    with ok len parse_data_row_put [of "row_values r"] show ?thesis
      by (auto simp: parse_body_def same_msg_def)
  next
    case (AuthenticationSASL ms)
    with ok sasl_mechanisms_put [of ms 4 "be32 10" "[]"] show ?thesis
      by (simp add: parse_body_def same_msg_def parse_auth_def)
  next
    case (AuthenticationMd5Password salt)
    with ok show ?thesis
      by (simp add: parse_body_def same_msg_def parse_auth_def slice_def)
  next
    case (BackendKeyData pid secret)
    with ok be32_at_append [of "be32 pid" 4 secret "[]"] show ?thesis
      by (simp add: parse_body_def same_msg_def parse_backend_key_data_def be32_at_def slice_def)
  qed (use ok in \<open>auto simp: parse_body_def same_msg_def parse_auth_def parse_parameter_status_def
        parse_backend_key_data_def parse_command_complete_def parse_notification_def cstr_ok_def
        parse_error_put parse_row_description_put parse_parameter_description_put
        parse_copy_response_put idx_def\<close>)
qed

lemma parse_message_frame:
  assumes "4 + length b \<le> MAX_MESSAGE_SIZE"
  shows "parse_message (frame t b @ rest) = (parse_body t b, rest)"
proof -
  have n: "4 + length b < 2 ^ 31" using assms by (simp add: MAX_MESSAGE_SIZE_def)
  have a: "sint (announced (frame t b @ rest)) = int (4 + length b)"
    using sint_of_nat_i32 [OF n] by (simp add: announced_def frame_def put_len_def del: of_nat_add)
  have "complete (frame t b @ rest)"
    using assms unfolding complete_def a nat_int by (simp add: frame_def)
  moreover have "drop (1 + (4 + length b)) (frame t b @ rest) = rest"
    unfolding plus_1_eq_Suc by (simp only: frame_def append_Cons drop_Suc_Cons) simp
  ultimately show ?thesis
    using parse_message_complete [of "frame t b @ rest", unfolded a nat_int]
    by (simp del: drop_append) (simp add: frame_def)
qed

text \<open>What follows a message that the parser takes off a stream.\<close>

lemma parse_message_put:
  "server_sendable m \<Longrightarrow>
   \<exists>m'. parse_message (server_frame m @ rest) = (Ok (Some m'), rest) \<and> same_msg m m'"
  using parse_body_put [of m]
  by (auto simp: server_frame_def parse_message_frame server_sendable_def)

text \<open>A two-column row, one of them NULL, and the error a server sends for a stale plan.\<close>

definition sample_row :: backend_msg where
  "sample_row = DataRow (from_entries [7, 8, 9] [(1, 2), (0, - 1)])"

lemma sample_row_sendable: "server_sendable sample_row"
  by (simp add: sample_row_def server_sendable_def row_wf_def entry_in_bounds_def row_values_def
      iter_cells_def cell_bytes_def usize_of_i32_def slice_def put_param_def MAX_MESSAGE_SIZE_def)



text \<open>Witnesses of the theorems above: a \<open>ReadyForQuery\<close> frame and the start of another.\<close>

definition sample_ready :: bytes where "sample_ready = [0x5A, 0, 0, 0, 5, 0x49]"

lemma sample_ready_frame: "sample_ready = frame 0x5A [0x49]"
  by code_simp

lemma parse_sample_ready: "parse_message (sample_ready @ r) = (Ok (Some (ReadyForQuery 0x49)), r)"
  by (simp add: sample_ready_frame parse_message_frame MAX_MESSAGE_SIZE_def parse_body_def idx_def)

theorem parse_message_stable_witness:
  "parse_message ((sample_ready @ [0x44]) @ [0, 0]) = (Ok (Some (ReadyForQuery 0x49)), [0x44] @ [0, 0])"
proof -
  have "parse_message (sample_ready @ [0x44]) \<noteq> (Ok None, sample_ready @ [0x44])"
    by (simp add: parse_sample_ready)
  from parse_message_stable [OF this, of "[0, 0]"] show ?thesis
    by (simp only: parse_sample_ready fst_conv snd_conv)
qed


end
