(* ===== verification/Stream.thy ===== *)
theory Stream
  imports Backend
begin

text \<open>
  Reading messages off a socket. \<open>WireConn::recv_msg\<close> of \<open>pg-wired/src/connection.rs\<close> and
  \<open>read_msg\<close> of \<open>pg-wired/src/async_conn.rs\<close> are the same loop over a receive buffer and a stream; the
  functions that call them are loops of the shape \<open>loop { let msg = recv().await?; match msg ... }\<close>.
  Both are modelled here, with the errors of \<open>pg-wired/src/error.rs\<close>. The interface \<open>message_loop\<close>
  is what those callers rely on: what the bytes on the stream parse to, message by message, is what
  the loop sees, however the bytes are cut into reads.
\<close>

section \<open>Errors\<close>

datatype scram_error = NotUtf8Server | InvalidIterations | NonceMismatch | InvalidBase64 | HmacInit

text \<open>The texts of \<open>PgWireError::Protocol\<close>, by where they come from.\<close>

datatype protocol_error =
    BadMessage parse_error
  | NoSaslMechanism "rstring list"
  | ScramFailed scram_error
  | TlsRefused
  | TlsNotBuilt
  | SslResponse u8
  | TlsSetup string
  | CancelTimedOut
  | PoolSizeZero

datatype io_kind =
    BrokenPipe | UnexpectedEof | ConnectionReset | ConnectionAborted | NotConnected | IoTimedOut | OtherIo

datatype wire_error = Io io_kind | Pg pg_error | Protocol protocol_error | ConnectionClosed

section \<open>The read half of a socket\<close>

text \<open>What the calls of \<open>read_buf\<close> find: some bytes (none is the end of the stream, and stays so) or
  an error. Past the end of the list nothing has arrived yet and a read waits.\<close>

datatype read_event = Read bytes | ReadError io_kind

record read_half =
  rh_buf :: bytes
  rh_events :: "read_event list"

text \<open>A step that may wait is an optional outcome: \<open>None\<close> while it waits.\<close>

type_synonym 'a awaited = "(wire_error, 'a) res option"

text \<open>The loop of \<open>recv_msg\<close>: parse; with no message, read more; at the end of the stream parse once
  more before giving up.\<close>

fun recv_loop :: "bytes \<Rightarrow> read_event list \<Rightarrow> backend_msg awaited \<times> read_half" where
  "recv_loop buf [] =
     (case parse_message buf of
        (Ok (Some m), b) \<Rightarrow> (Some (Ok m), \<lparr>rh_buf = b, rh_events = []\<rparr>)
      | (Ok None, b) \<Rightarrow> (None, \<lparr>rh_buf = b, rh_events = []\<rparr>)
      | (Err e, b) \<Rightarrow> (Some (Err (Protocol (BadMessage e))), \<lparr>rh_buf = b, rh_events = []\<rparr>)
      | (Panic, b) \<Rightarrow> (Some Panic, \<lparr>rh_buf = b, rh_events = []\<rparr>))"
| "recv_loop buf (ev # evs) =
     (case parse_message buf of
        (Ok (Some m), b) \<Rightarrow> (Some (Ok m), \<lparr>rh_buf = b, rh_events = ev # evs\<rparr>)
      | (Ok None, b) \<Rightarrow>
          (case ev of
             ReadError k \<Rightarrow> (Some (Err (Io k)), \<lparr>rh_buf = b, rh_events = evs\<rparr>)
           | Read d \<Rightarrow>
               if d = [] then
                 (case parse_message b of
                    (Ok (Some m), b') \<Rightarrow> (Some (Ok m), \<lparr>rh_buf = b', rh_events = ev # evs\<rparr>)
                  | (Ok None, b') \<Rightarrow>
                      (Some (Err ConnectionClosed), \<lparr>rh_buf = b', rh_events = ev # evs\<rparr>)
                  | (Err e, b') \<Rightarrow>
                      (Some (Err (Protocol (BadMessage e))), \<lparr>rh_buf = b', rh_events = ev # evs\<rparr>)
                  | (Panic, b') \<Rightarrow> (Some Panic, \<lparr>rh_buf = b', rh_events = ev # evs\<rparr>))
               else recv_loop (b @ d) evs)
      | (Err e, b) \<Rightarrow> (Some (Err (Protocol (BadMessage e))), \<lparr>rh_buf = b, rh_events = ev # evs\<rparr>)
      | (Panic, b) \<Rightarrow> (Some Panic, \<lparr>rh_buf = b, rh_events = ev # evs\<rparr>))"

definition recv_msg :: "read_half \<Rightarrow> backend_msg awaited \<times> read_half" where
  "recv_msg rh = recv_loop (rh_buf rh) (rh_events rh)"

text \<open>What is left to read: every message taken makes it smaller.\<close>

fun event_size :: "read_event \<Rightarrow> nat" where
  "event_size (Read d) = length d"
| "event_size (ReadError _) = 0"

definition rh_size :: "read_half \<Rightarrow> nat" where
  "rh_size rh = length (rh_buf rh) + sum_list (map event_size (rh_events rh))"

lemma parse_message_le: "parse_message buf = (r, b) \<Longrightarrow> length b \<le> length buf"
  using parse_message_framed [of buf] by (auto split: if_splits)

lemma parse_message_less:
  assumes "parse_message buf = (Ok (Some m), b)"
  shows "length b < length buf"
proof -
  have "complete buf"
    using assms by (cases "complete buf") (auto simp: parse_message_incomplete split: if_splits)
  then show ?thesis
    using assms by (auto simp: parse_message_complete complete_def)
qed

lemma recv_loop_size:
  "recv_loop buf evs = (r, rh) \<Longrightarrow>
   rh_size rh \<le> length buf + sum_list (map event_size evs)
   \<and> (\<forall>m. r = Some (Ok m) \<longrightarrow> rh_size rh < length buf + sum_list (map event_size evs))"
proof (induction buf evs arbitrary: r rh rule: recv_loop.induct)
  case (1 buf)
  then show ?case
    by (auto simp: rh_size_def dest: parse_message_le parse_message_less
        split: prod.splits res.splits option.splits)
next
  case (2 buf ev evs)
  obtain p b where p: "parse_message buf = (p, b)" by (cases "parse_message buf")
  have le: "length b \<le> length buf" using parse_message_le [OF p] .
  show ?case
  proof (cases "p = Ok None \<and> (\<exists>d. ev = Read d \<and> d \<noteq> [])")
    case True
    then obtain d where d: "p = Ok None" "ev = Read d" "d \<noteq> []" by blast
    with "2.prems" p have "recv_loop (b @ d) evs = (r, rh)" by simp
    from "2.IH" [OF p [symmetric] d(1) refl d(2,3) this] d(2) le show ?thesis by fastforce
  next
    case False
    with "2.prems" p le show ?thesis
      by (auto simp: rh_size_def dest!: parse_message_le parse_message_less
          split: prod.splits res.splits option.splits read_event.splits if_splits)
  qed
qed

lemma recv_msg_less: "recv_msg rh = (Some (Ok m), rh') \<Longrightarrow> rh_size rh' < rh_size rh"
  using recv_loop_size [of "rh_buf rh" "rh_events rh"] by (simp add: recv_msg_def rh_size_def)

section \<open>What is on the stream\<close>

text \<open>\<open>parses bs ms tail\<close>: the bytes are, one after the other, the messages \<open>ms\<close>, and then \<open>tail\<close>.\<close>

fun parses :: "bytes \<Rightarrow> backend_msg list \<Rightarrow> bytes \<Rightarrow> bool" where
  "parses bs [] tail \<longleftrightarrow> bs = tail"
| "parses bs (m # ms) tail \<longleftrightarrow>
     fst (parse_message bs) = Ok (Some m) \<and> parses (snd (parse_message bs)) ms tail"

text \<open>The bytes that the coming reads deliver, when they deliver bytes only.\<close>

fun data_events :: "read_event list \<Rightarrow> bytes option" where
  "data_events [] = Some []"
| "data_events (Read d # evs) =
     (if d = [] then None else map_option (\<lambda>r. d @ r) (data_events evs))"
| "data_events (ReadError _ # evs) = None"

definition delivers :: "read_half \<Rightarrow> backend_msg list \<Rightarrow> bytes \<Rightarrow> bool" where
  "delivers rh ms tail \<longleftrightarrow>
     (case data_events (rh_events rh) of
        Some d \<Rightarrow> parses (rh_buf rh @ d) ms tail
      | None \<Rightarrow> False)"

lemma parses_append:
  "parses bs (ms @ ns) tail \<longleftrightarrow> (\<exists>mid. parses bs ms mid \<and> parses mid ns tail)"
  by (induction bs ms tail arbitrary: rule: parses.induct) auto

text \<open>What a server writes is what parses.\<close>

lemma parses_server_frames:
  "\<forall>m \<in> set ms. server_sendable m \<Longrightarrow>
   \<exists>ms'. parses (concat (map server_frame ms) @ tail) ms' tail \<and> list_all2 same_msg ms ms'"
proof (induction ms)
  case (Cons m ms)
  obtain m' where m': "same_msg m m'"
    "parse_message (server_frame m @ concat (map server_frame ms) @ tail)
       = (Ok (Some m'), concat (map server_frame ms) @ tail)"
    using parse_message_put [of m "concat (map server_frame ms) @ tail"] Cons.prems by auto
  obtain ms' where "parses (concat (map server_frame ms) @ tail) ms' tail" "list_all2 same_msg ms ms'"
    using Cons by auto
  with m' show ?case by (intro exI [of _ "m' # ms'"]) simp
qed simp

lemma recv_loop_parses:
  "data_events evs = Some d \<Longrightarrow> parses (buf @ d) (m # ms) tail \<Longrightarrow>
   \<exists>rh. recv_loop buf evs = (Some (Ok m), rh) \<and> delivers rh ms tail"
proof (induction evs arbitrary: buf d)
  case Nil
  then show ?case
    by (cases "parse_message buf") (auto simp: delivers_def)
next
  case (Cons ev evs)
  obtain e r where ev: "ev = Read e" "e \<noteq> []" "data_events evs = Some r" "d = e @ r"
    using Cons.prems(1) by (cases ev) (auto split: if_splits)
  show ?case
  proof (cases "parse_message buf = (Ok None, buf)")
    case True
    from Cons.IH [OF ev(3), of "buf @ e"] Cons.prems(2) ev True show ?thesis by simp
  next
    case False
    from parse_message_later [OF this, of d] Cons.prems ev show ?thesis
      by (cases "parse_message buf") (auto simp: delivers_def)
  qed
qed

lemma recv_msg_delivers:
  "delivers rh (m # ms) tail \<Longrightarrow> \<exists>rh'. recv_msg rh = (Some (Ok m), rh') \<and> delivers rh' ms tail"
  using recv_loop_parses [of "rh_events rh" _ "rh_buf rh" m ms tail]
  by (auto simp del: parses.simps simp: delivers_def recv_msg_def split: option.splits)

section \<open>Loops over messages\<close>

text \<open>\<open>loop { let msg = recv().await?; match msg { ... } }\<close>: the match is the function \<open>step\<close> on the
  loop's variables; it goes on (\<open>None\<close>) or leaves the loop with a value.\<close>

function msg_loop ::
  "('st \<Rightarrow> backend_msg \<Rightarrow> 'st \<times> 'r option) \<Rightarrow> 'st \<Rightarrow> read_half \<Rightarrow> 'r awaited \<times> 'st \<times> read_half"
  where
  "msg_loop step st rh =
     (case recv_msg rh of
        (None, rh') \<Rightarrow> (None, st, rh')
      | (Some (Err e), rh') \<Rightarrow> (Some (Err e), st, rh')
      | (Some Panic, rh') \<Rightarrow> (Some Panic, st, rh')
      | (Some (Ok m), rh') \<Rightarrow>
          (case step st m of
             (st', None) \<Rightarrow> msg_loop step st' rh'
           | (st', Some r) \<Rightarrow> (Some (Ok r), st', rh')))"
  by pat_completeness auto
termination
  by (relation "measure (\<lambda>(step, st, rh). rh_size rh)") (auto dest: recv_msg_less sym)

declare msg_loop.simps [simp del]

lemma msg_loop_next:
  "recv_msg rh = (Some (Ok m), rh') \<Longrightarrow>
   msg_loop step st rh =
     (case step st m of
        (st', None) \<Rightarrow> msg_loop step st' rh'
      | (st', Some r) \<Rightarrow> (Some (Ok r), st', rh'))"
  by (subst msg_loop.simps) simp

text \<open>The same loop on a list of messages that is already there: what is left of the list.\<close>

fun run_steps ::
  "('st \<Rightarrow> backend_msg \<Rightarrow> 'st \<times> 'r option) \<Rightarrow> 'st \<Rightarrow> backend_msg list
     \<Rightarrow> 'st \<times> 'r option \<times> backend_msg list" where
  "run_steps step st [] = (st, None, [])"
| "run_steps step st (m # ms) =
     (case step st m of
        (st', None) \<Rightarrow> run_steps step st' ms
      | (st', Some r) \<Rightarrow> (st', Some r, ms))"

text \<open>The interface of a source of messages, and a loop that draws on it.\<close>

locale message_source =
  fixes recv :: "'s \<Rightarrow> backend_msg awaited \<times> 's"
    and holds :: "'s \<Rightarrow> backend_msg list \<Rightarrow> bytes \<Rightarrow> bool"
  assumes recv_next:
    "holds s (m # ms) tail \<Longrightarrow> \<exists>s'. recv s = (Some (Ok m), s') \<and> holds s' ms tail"

locale message_loop = message_source +
  fixes loop :: "('st \<Rightarrow> backend_msg \<Rightarrow> 'st \<times> 'r option) \<Rightarrow> 'st \<Rightarrow> 's \<Rightarrow> 'r awaited \<times> 'st \<times> 's"
  assumes loop_next:
    "recv s = (Some (Ok m), s') \<Longrightarrow>
     loop step st s =
       (case step st m of
          (st', None) \<Rightarrow> loop step st' s'
        | (st', Some r) \<Rightarrow> (Some (Ok r), st', s'))"
begin

text \<open>A loop whose messages are on the stream does what the list run does and leaves the rest.\<close>

lemma loop_runs:
  "holds s ms tail \<Longrightarrow> run_steps step st ms = (st', Some r, rest) \<Longrightarrow>
   \<exists>s'. loop step st s = (Some (Ok r), st', s') \<and> holds s' rest tail"
proof (induction ms arbitrary: s st)
  case (Cons m ms)
  obtain s1 where s1: "recv s = (Some (Ok m), s1)" "holds s1 ms tail"
    using recv_next [OF Cons.prems(1)] by blast
  with Cons show ?case
    by (auto simp: loop_next [OF s1(1)] split: prod.splits option.splits)
qed simp

end

interpretation socket: message_loop recv_msg delivers msg_loop
  by unfold_locales (fact recv_msg_delivers msg_loop_next)+

section \<open>Reading ahead of the server\<close>

text \<open>\<open>on_course\<close>: what has arrived is a prefix of bytes that are the messages \<open>ms\<close>. A read then waits
  or sees the next message; nothing else.\<close>

definition on_course :: "read_half \<Rightarrow> backend_msg list \<Rightarrow> bytes \<Rightarrow> bool" where
  "on_course rh ms future \<longleftrightarrow>
     (case data_events (rh_events rh) of
        Some d \<Rightarrow> parses (rh_buf rh @ d @ future) ms []
      | None \<Rightarrow> False)"

lemma recv_loop_on_course:
  "data_events evs = Some d \<Longrightarrow> parses (buf @ d @ future) ms [] \<Longrightarrow>
   (\<exists>rh. recv_loop buf evs = (None, rh)) \<and> (ms = [] \<or> future \<noteq> [])
   \<or> (\<exists>m ms' rh. ms = m # ms' \<and> recv_loop buf evs = (Some (Ok m), rh) \<and> on_course rh ms' future)"
proof (induction evs arbitrary: buf d)
  case Nil
  show ?case
  proof (cases "parse_message buf = (Ok None, buf)")
    case False
    with Nil have "ms \<noteq> []" by (cases ms) (auto simp: parse_message_def)
    with Nil parse_message_later [OF False, of future] show ?thesis
      by (cases ms; cases "parse_message buf") (auto simp: on_course_def)
  next
    case True
    with Nil show ?thesis by (cases ms) auto
  qed
next
  case (Cons ev evs)
  obtain e r where ev: "ev = Read e" "e \<noteq> []" "data_events evs = Some r" "d = e @ r"
    using Cons.prems(1) by (cases ev) (auto split: if_splits)
  show ?case
  proof (cases "parse_message buf = (Ok None, buf)")
    case True
    from Cons.IH [OF ev(3), of "buf @ e"] Cons.prems(2) ev True show ?thesis by simp
  next
    case False
    with Cons.prems have "ms \<noteq> []" by (cases ms) (auto simp: parse_message_def)
    with parse_message_later [OF False, of "d @ future"] Cons.prems ev show ?thesis
      by (cases ms; cases "parse_message buf") (auto simp: on_course_def)
  qed
qed

lemma recv_msg_on_course:
  "on_course rh ms future \<Longrightarrow>
   (\<exists>rh'. recv_msg rh = (None, rh')) \<and> (ms = [] \<or> future \<noteq> [])
   \<or> (\<exists>m ms' rh'. ms = m # ms' \<and> recv_msg rh = (Some (Ok m), rh') \<and> on_course rh' ms' future)"
  using recv_loop_on_course [of "rh_events rh" _ "rh_buf rh" future ms]
  by (auto simp: on_course_def recv_msg_def split: option.splits)

text \<open>A source that may have to wait, and the same loop over it.\<close>

locale waiting_loop =
  fixes recv :: "'s \<Rightarrow> backend_msg awaited \<times> 's"
    and course :: "'s \<Rightarrow> backend_msg list \<Rightarrow> bytes \<Rightarrow> bool"
    and loop :: "('st \<Rightarrow> backend_msg \<Rightarrow> 'st \<times> 'r option) \<Rightarrow> 'st \<Rightarrow> 's \<Rightarrow> 'r awaited \<times> 'st \<times> 's"
  assumes recv_course:
    "course s ms future \<Longrightarrow>
     (\<exists>s'. recv s = (None, s')) \<and> (ms = [] \<or> future \<noteq> [])
     \<or> (\<exists>m ms' s'. ms = m # ms' \<and> recv s = (Some (Ok m), s') \<and> course s' ms' future)"
    and loop_waits: "recv s = (None, s') \<Longrightarrow> loop step st s = (None, st, s')"
    and loop_goes_on:
    "recv s = (Some (Ok m), s') \<Longrightarrow>
     loop step st s =
       (case step st m of
          (st', None) \<Rightarrow> loop step st' s'
        | (st', Some r) \<Rightarrow> (Some (Ok r), st', s'))"
begin

lemma loop_course:
  "course s ms future \<Longrightarrow> run_steps step st ms = (st', Some r, rest) \<Longrightarrow>
   (\<exists>st1 s'. loop step st s = (None, st1, s')) \<and> future \<noteq> []
   \<or> (\<exists>s'. loop step st s = (Some (Ok r), st', s') \<and> course s' rest future)"
proof (induction ms arbitrary: s st)
  case (Cons m ms)
  from recv_course [OF Cons.prems(1)] show ?case
  proof (elim disjE exE conjE)
    fix s1
    assume "recv s = (None, s1)" "future \<noteq> []"
    with loop_waits show ?thesis by blast
  next
    fix m1 ms1 s1
    assume "m # ms = m1 # ms1" "recv s = (Some (Ok m1), s1)" "course s1 ms1 future"
    with Cons show ?thesis
      by (auto simp: loop_goes_on split: prod.splits option.splits)
  qed simp
qed simp

end

lemma msg_loop_waits: "recv_msg rh = (None, rh') \<Longrightarrow> msg_loop step st rh = (None, st, rh')"
  by (subst msg_loop.simps) simp

interpretation arriving: waiting_loop recv_msg on_course msg_loop
  by unfold_locales (fact recv_msg_on_course msg_loop_waits msg_loop_next)+

section \<open>What a reply says\<close>

text \<open>The content of the messages of one reply, up to \<open>ReadyForQuery\<close>: its rows, its last command tag
  and row description, its first error.\<close>

fun is_ready :: "backend_msg \<Rightarrow> bool" where
  "is_ready (ReadyForQuery _) = True"
| "is_ready _ = False"

definition no_ready :: "backend_msg list \<Rightarrow> bool" where
  "no_ready ms \<longleftrightarrow> list_all (\<lambda>m. \<not> is_ready m) ms"

definition row_list :: "backend_msg list \<Rightarrow> raw_row list" where
  "row_list ms = concat (map (\<lambda>m. case m of DataRow r \<Rightarrow> [r] | _ \<Rightarrow> []) ms)"

definition last_tag :: "rstring \<Rightarrow> backend_msg list \<Rightarrow> rstring" where
  "last_tag = foldl (\<lambda>t m. case m of CommandComplete t' \<Rightarrow> t' | _ \<Rightarrow> t)"

definition last_fields :: "field_description list \<Rightarrow> backend_msg list \<Rightarrow> field_description list" where
  "last_fields = foldl (\<lambda>fs m. case m of RowDescription fs' \<Rightarrow> fs' | _ \<Rightarrow> fs)"

fun first_error :: "backend_msg list \<Rightarrow> pg_error option" where
  "first_error [] = None"
| "first_error (m # ms) = (case m of ErrorResponse e \<Rightarrow> Some e | _ \<Rightarrow> first_error ms)"

lemma no_ready_simps [simp]:
  "no_ready []" "no_ready (m # ms) \<longleftrightarrow> \<not> is_ready m \<and> no_ready ms"
  "no_ready (ms @ ns) \<longleftrightarrow> no_ready ms \<and> no_ready ns"
  by (simp_all add: no_ready_def)

lemma row_list_simps [simp]:
  "row_list [] = []" "row_list (m # ms) = (case m of DataRow r \<Rightarrow> [r] | _ \<Rightarrow> []) @ row_list ms"
  by (simp_all add: row_list_def)

lemma last_tag_simps [simp]:
  "last_tag t [] = t"
  "last_tag t (m # ms) = last_tag (case m of CommandComplete t' \<Rightarrow> t' | _ \<Rightarrow> t) ms"
  by (simp_all add: last_tag_def)

lemma last_fields_simps [simp]:
  "last_fields f [] = f"
  "last_fields f (m # ms) = last_fields (case m of RowDescription f' \<Rightarrow> f' | _ \<Rightarrow> f) ms"
  by (simp_all add: last_fields_def)

lemma first_error_Some:
  "first_error ms = Some e \<Longrightarrow> \<exists>pre post. ms = pre @ ErrorResponse e # post \<and> first_error pre = None"
proof (induction ms)
  case (Cons m ms)
  show ?case
  proof (cases "\<exists>e'. m = ErrorResponse e'")
    case True
    with Cons.prems have "m # ms = [] @ ErrorResponse e # ms" by auto
    then show ?thesis by (metis first_error.simps(1))
  next
    case False
    with Cons have "first_error ms = Some e" by (auto split: backend_msg.splits)
    then obtain pre post where "ms = pre @ ErrorResponse e # post" "first_error pre = None"
      using Cons.IH by blast
    moreover have "first_error (m # pre) = None"
      using False calculation(2) by (auto split: backend_msg.splits)
    ultimately show ?thesis by (metis append_Cons)
  qed
qed simp

text \<open>Messages without rows parse back to themselves.\<close>

lemma parses_exact:
  assumes "list_all (\<lambda>m. server_sendable m \<and> (\<forall>r. m \<noteq> DataRow r)) ms"
  shows "parses (concat (map server_frame ms) @ tail) ms tail"
proof -
  obtain ms' where ms': "parses (concat (map server_frame ms) @ tail) ms' tail" "list_all2 same_msg ms ms'"
    using parses_server_frames [of ms tail] assms by (auto simp: list_all_iff)
  from ms'(2) assms have "ms' = ms"
    by (induction ms ms') (auto simp: same_msg_def split: backend_msg.splits)
  with ms' show ?thesis by simp
qed



text \<open>At the end of the stream, what is buffered is returned first and \<open>ConnectionClosed\<close> after it.\<close>

lemma recv_msg_eof:
  assumes "rh_events rh = Read [] # evs" and "rh_buf rh = []"
  shows "recv_msg rh = (Some (Err ConnectionClosed), rh)"
  using assms by (cases rh) (simp add: recv_msg_def parse_message_def)

text \<open>A message with an unknown tag is taken off the buffer, but the loop then waits for the socket
  before it looks at the buffer again: a \<open>ReadyForQuery\<close> that arrived in the same read is not
  returned until more bytes come.\<close>

lemma recv_msg_waits_after_unknown_tag:
  "recv_msg \<lparr>rh_buf = [], rh_events = [Read (frame 0x76 [] @ sample_ready)]\<rparr>
   = (None, \<lparr>rh_buf = sample_ready, rh_events = []\<rparr>)"
proof -
  have "parse_message [] = (Ok None, [])" by (simp add: parse_message_def)
  then show ?thesis
    by (simp add: recv_msg_def parse_message_frame parse_body_def MAX_MESSAGE_SIZE_def)
      (simp add: frame_def)
qed

end
