(* ===== verification/Typed.thy ===== *)
theory Typed
  imports Rust_Str Stream Pool
begin

text \<open>
  What the typed layer shares: the errors of \<open>resolute/src/error.rs\<close> and the type identifiers of
  \<open>resolute/src/oid.rs\<close>. The two directions of the OID table are inverse to each other; attaching SQL to
  an error panics when the 200th byte lies inside a character.
\<close>

section \<open>Errors\<close>

text \<open>The messages of \<open>TypedError::Decode\<close>, by where they come from.\<close>

datatype decode_reason =
    WrongLength string nat nat
  | InvalidUtf8
  | BadText string rstring
  | BadHex nat
  | Truncated string
  | NullElement
  | NotOneDimensional i32
  | UnknownFamily u8
  | NotRepresentable string
  | BadValue string
  | ColumnOutOfRange nat nat
  | NoSuchColumn nat
  | NoRows string
  | UnterminatedElement
  | MissingComma rstring

datatype typed_error =
    WireError wire_error
  | Decode nat decode_reason
  | ColumnNotFound rstring
  | UnexpectedNull nat
  | NotExactlyOne nat
  | TypeMismatch u32 u32
  | PoolFailed pool_error
  | TimedOut
  | MissingParam rstring
  | IoFailed
  | Config rstring
  | QueryFailed typed_error rstring

type_synonym 'a typed = "(typed_error, 'a) res"

text \<open>\<open>with_sql\<close> cuts the SQL at byte 200.\<close>

definition with_sql :: "typed_error \<Rightarrow> rstring \<Rightarrow> ('e, typed_error) res" where
  "with_sql e sql =
     (if length sql > 200
      then and_then (str_slice sql 0 200) (\<lambda>t. Ok (QueryFailed e (t @ lit ''...'')))
      else Ok (QueryFailed e sql))"

lemma with_sql_ascii: "\<forall>b \<in> set sql. b < 0x80 \<Longrightarrow> with_sql e sql \<noteq> (Panic :: ('e, typed_error) res)"
  by (auto simp: with_sql_def str_slice_def char_boundary_def is_cont_def not_le dest: nth_mem
    intro: less_le_trans split: res.splits)

text \<open>An SQL text of 199 letters and a two-byte character panics instead of reporting its error.\<close>

lemma with_sql_cuts_character:
  "utf8_valid (replicate 199 0x61 @ [0xC3, 0xA9]) \<and> with_sql e (replicate 199 0x61 @ [0xC3, 0xA9]) = Panic"
proof
  have "utf8_valid [0xC3, 0xA9]"
    by code_simp
  then have "utf8_valid (replicate n 0x61 @ [0xC3, 0xA9])" for n
    by (subst utf8_valid_append) (auto intro: utf8_valid_ascii)
  then show "utf8_valid (replicate 199 0x61 @ [0xC3, 0xA9])" .
  show "with_sql e (replicate 199 0x61 @ [0xC3, 0xA9]) = Panic"
    by (simp add: with_sql_def str_slice_def char_boundary_def is_cont_def nth_append)
qed

section \<open>Type identifiers\<close>

datatype type_oid =
    OidUnspecified | OidBool | OidBytea | OidInt8 | OidInt2 | OidInt4 | OidText | OidOid
    | OidFloat4 | OidFloat8 | OidVarchar | OidChar | OidName | OidTimestamp | OidTimestamptz
    | OidDate | OidTime | OidInterval | OidUuid | OidJson | OidJsonb | OidInet | OidCidr
    | OidNumeric | OidBoolArray | OidByteaArray | OidInt2Array | OidInt4Array | OidTextArray
    | OidVarcharArray | OidInt8Array | OidFloat4Array | OidFloat8Array | OidInetArray
    | OidTimestampArray | OidDateArray | OidTimeArray | OidTimestamptzArray | OidNumericArray
    | OidUuidArray | OidJsonbArray

text \<open>The discriminants of the enum, and the table back.\<close>

fun as_u32 :: "type_oid \<Rightarrow> u32" where
  "as_u32 OidUnspecified = 0"
| "as_u32 OidBool = 16"
| "as_u32 OidBytea = 17"
| "as_u32 OidInt8 = 20"
| "as_u32 OidInt2 = 21"
| "as_u32 OidInt4 = 23"
| "as_u32 OidText = 25"
| "as_u32 OidOid = 26"
| "as_u32 OidFloat4 = 700"
| "as_u32 OidFloat8 = 701"
| "as_u32 OidVarchar = 1043"
| "as_u32 OidChar = 18"
| "as_u32 OidName = 19"
| "as_u32 OidTimestamp = 1114"
| "as_u32 OidTimestamptz = 1184"
| "as_u32 OidDate = 1082"
| "as_u32 OidTime = 1083"
| "as_u32 OidInterval = 1186"
| "as_u32 OidUuid = 2950"
| "as_u32 OidJson = 114"
| "as_u32 OidJsonb = 3802"
| "as_u32 OidInet = 869"
| "as_u32 OidCidr = 650"
| "as_u32 OidNumeric = 1700"
| "as_u32 OidBoolArray = 1000"
| "as_u32 OidByteaArray = 1001"
| "as_u32 OidInt2Array = 1005"
| "as_u32 OidInt4Array = 1007"
| "as_u32 OidTextArray = 1009"
| "as_u32 OidVarcharArray = 1015"
| "as_u32 OidInt8Array = 1016"
| "as_u32 OidFloat4Array = 1021"
| "as_u32 OidFloat8Array = 1022"
| "as_u32 OidInetArray = 1041"
| "as_u32 OidTimestampArray = 1115"
| "as_u32 OidDateArray = 1182"
| "as_u32 OidTimeArray = 1183"
| "as_u32 OidTimestamptzArray = 1185"
| "as_u32 OidNumericArray = 1231"
| "as_u32 OidUuidArray = 2951"
| "as_u32 OidJsonbArray = 3807"

definition oid_table :: "(u32 \<times> type_oid) list" where
  "oid_table =
     [(0, OidUnspecified), (16, OidBool), (17, OidBytea), (18, OidChar), (19, OidName)
      , (20, OidInt8), (21, OidInt2), (23, OidInt4), (25, OidText), (26, OidOid), (114, OidJson)
      , (650, OidCidr), (700, OidFloat4), (701, OidFloat8), (869, OidInet), (1000, OidBoolArray)
      , (1001, OidByteaArray), (1005, OidInt2Array), (1007, OidInt4Array), (1009, OidTextArray)
      , (1015, OidVarcharArray), (1016, OidInt8Array), (1021, OidFloat4Array)
      , (1022, OidFloat8Array), (1041, OidInetArray), (1043, OidVarchar), (1082, OidDate)
      , (1083, OidTime), (1114, OidTimestamp), (1115, OidTimestampArray), (1182, OidDateArray)
      , (1183, OidTimeArray), (1184, OidTimestamptz), (1185, OidTimestamptzArray)
      , (1186, OidInterval), (1231, OidNumericArray), (1700, OidNumeric), (2950, OidUuid)
      , (2951, OidUuidArray), (3802, OidJsonb), (3807, OidJsonbArray)]"

definition from_u32 :: "u32 \<Rightarrow> type_oid option" where
  "from_u32 oid = map_of oid_table oid"

text \<open>The two OID conversions are inverse to each other: every variant comes back from its number, and a
  number that is recognised is the number of its variant.\<close>

theorem type_oid_roundtrip:
  "from_u32 (as_u32 t) = Some t \<and> (from_u32 n = Some t' \<longrightarrow> as_u32 t' = n)"
proof
  show "from_u32 (as_u32 t) = Some t"
    by (cases t) (simp_all add: from_u32_def oid_table_def)
  have "as_u32 (snd e) = fst e" if "e \<in> set oid_table" for e
    using that by (auto simp: oid_table_def)
  then show "from_u32 n = Some t' \<longrightarrow> as_u32 t' = n"
    by (auto simp: from_u32_def dest: map_of_SomeD)
qed

theorem type_oid_roundtrip_witness: "as_u32 OidJsonb = 3802 \<and> from_u32 3802 = Some OidJsonb"
proof -
  have "from_u32 3802 = Some OidJsonb"
    by (simp add: from_u32_def oid_table_def)
  then show ?thesis
    using type_oid_roundtrip [of OidJsonb 3802 OidJsonb] by simp
qed

end
