(* ===== verification/Codec.thy ===== *)
theory Codec
  imports Typed "HOL-Library.Signed_Division"
begin

unbundle bit_operations_syntax

text \<open>
  The binary codec: \<open>resolute/src/encode.rs\<close>, \<open>resolute/src/decode.rs\<close> (binary half) and
  \<open>resolute/src/range.rs\<close>. An encoder appends to a buffer, a decoder reads a cell. A float is its bits.
  \<open>chrono\<close> and \<open>serde_json\<close> are parameters. The contract of one value type - its encoder appends, its
  decoder inverts it - is the locale \<open>codec\<close>; arrays and ranges are lifted once inside it.
\<close>

type_synonym 'a encoder = "'a \<Rightarrow> bytes \<Rightarrow> bytes"
type_synonym 'a decoder = "bytes \<Rightarrow> 'a typed"

section \<open>Encoding\<close>

text \<open>\<open>encode_param\<close> leaves four bytes for the length and patches them.\<close>

definition encode_param :: "'a encoder \<Rightarrow> 'a encoder" where
  "encode_param enc v buf =
     (let start = length buf;
          buf = enc v (buf @ be32 0);
          len = word_of_nat (length buf - start - 4)
      in take start buf @ be32 len @ drop (start + 4) buf)"

definition encode_bool :: "bool encoder" where "encode_bool b buf = buf @ [if b then 1 else 0]"
definition encode_i16 :: "i16 encoder" where "encode_i16 n buf = buf @ be16 n"
definition encode_i32 :: "i32 encoder" where "encode_i32 n buf = buf @ be32 n"
definition encode_i64 :: "i64 encoder" where "encode_i64 n buf = buf @ be64 n"
definition encode_f32 :: "u32 encoder" where "encode_f32 bits buf = buf @ be32 bits"
definition encode_f64 :: "u64 encoder" where "encode_f64 bits buf = buf @ be64 bits"
definition encode_str :: "rstring encoder" where "encode_str s buf = buf @ s"
definition encode_bytes :: "bytes encoder" where "encode_bytes bs buf = buf @ bs"

text \<open>\<open>PgNumeric\<close> and \<open>PgInet\<close> are strings and are sent as such.\<close>

definition encode_numeric :: "rstring encoder" where "encode_numeric s buf = buf @ s"
definition encode_inet :: "rstring encoder" where "encode_inet s buf = buf @ s"

definition encode_uuid :: "bytes encoder" where "encode_uuid u buf = buf @ u"

datatype pg_timestamp = TsValue i64 | TsInfinity | TsNegInfinity
datatype pg_date = DateValue i32 | DateInfinity | DateNegInfinity

definition I64_MAX :: i64 where "I64_MAX = 0x7FFFFFFFFFFFFFFF"
definition I64_MIN :: i64 where "I64_MIN = 0x8000000000000000"
definition I32_MAX :: i32 where "I32_MAX = 0x7FFFFFFF"
definition I32_MIN :: i32 where "I32_MIN = 0x80000000"

fun encode_timestamp :: "pg_timestamp encoder" where
  "encode_timestamp (TsValue us) buf = buf @ be64 us"
| "encode_timestamp TsInfinity buf = buf @ be64 I64_MAX"
| "encode_timestamp TsNegInfinity buf = buf @ be64 I64_MIN"

fun encode_date :: "pg_date encoder" where
  "encode_date (DateValue d) buf = buf @ be32 d"
| "encode_date DateInfinity buf = buf @ be32 I32_MAX"
| "encode_date DateNegInfinity buf = buf @ be32 I32_MIN"

text \<open>JSONB: a version byte and the text \<open>serde_json\<close> gives.\<close>

definition encode_json :: "('j \<Rightarrow> rstring) \<Rightarrow> 'j encoder" where
  "encode_json to_string v buf = buf @ [1] @ to_string v"

text \<open>\<open>encode_array_header\<close>, and \<open>impl_array_encode\<close>.\<close>

definition encode_array_header :: "bytes \<Rightarrow> bool \<Rightarrow> u32 \<Rightarrow> nat \<Rightarrow> bytes" where
  "encode_array_header buf has_null element_oid len =
     buf @ be32 1 @ be32 (if has_null then 1 else 0) @ be32 element_oid @ be32 (word_of_nat len) @ be32 1"

definition encode_array :: "u32 \<Rightarrow> 'a encoder \<Rightarrow> 'a list encoder" where
  "encode_array element_oid enc vs buf =
     fold (encode_param enc) vs (encode_array_header buf False element_oid (length vs))"

text \<open>\<open>SqlParam\<close> for a value and for an \<open>Option\<close>.\<close>

definition encode_param_value :: "'a encoder \<Rightarrow> 'a \<Rightarrow> bytes option" where
  "encode_param_value enc v = Some (enc v [])"

definition encode_option_value :: "'a encoder \<Rightarrow> 'a option \<Rightarrow> bytes option" where
  "encode_option_value enc v = (case v of Some v \<Rightarrow> Some (enc v []) | None \<Rightarrow> None)"

definition option_oid :: "('a \<Rightarrow> u32) \<Rightarrow> 'a option \<Rightarrow> u32" where
  "option_oid oid v = (case v of Some v \<Rightarrow> oid v | None \<Rightarrow> 0)"

section \<open>Decoding\<close>

abbreviation decode_err :: "decode_reason \<Rightarrow> 'a typed" where
  "decode_err r \<equiv> Err (Decode 0 r)"

definition decode_bool :: "bool decoder" where
  "decode_bool buf =
     (if length buf \<noteq> 1 then decode_err (WrongLength ''bool'' 1 (length buf)) else Ok (buf ! 0 \<noteq> 0))"

definition decode_i16 :: "i16 decoder" where
  "decode_i16 buf =
     (if length buf \<noteq> 2 then decode_err (WrongLength ''i16'' 2 (length buf)) else Ok (from_be16 buf))"

definition decode_i32 :: "i32 decoder" where
  "decode_i32 buf =
     (if length buf \<noteq> 4 then decode_err (WrongLength ''i32'' 4 (length buf)) else Ok (from_be32 buf))"

definition decode_i64 :: "i64 decoder" where
  "decode_i64 buf =
     (if length buf \<noteq> 8 then decode_err (WrongLength ''i64'' 8 (length buf)) else Ok (from_be64 buf))"

definition decode_f32 :: "u32 decoder" where
  "decode_f32 buf =
     (if length buf \<noteq> 4 then decode_err (WrongLength ''f32'' 4 (length buf)) else Ok (from_be32 buf))"

definition decode_f64 :: "u64 decoder" where
  "decode_f64 buf =
     (if length buf \<noteq> 8 then decode_err (WrongLength ''f64'' 8 (length buf)) else Ok (from_be64 buf))"

definition decode_string :: "rstring decoder" where
  "decode_string buf = (case from_utf8 buf of Some s \<Rightarrow> Ok s | None \<Rightarrow> decode_err InvalidUtf8)"

definition decode_bytes :: "bytes decoder" where "decode_bytes buf = Ok buf"

definition decode_uuid :: "bytes decoder" where
  "decode_uuid buf =
     (if length buf \<noteq> 16 then decode_err (WrongLength ''UUID'' 16 (length buf)) else Ok buf)"

definition decode_timestamp :: "pg_timestamp decoder" where
  "decode_timestamp buf =
     and_then (decode_i64 buf) (\<lambda>us.
       Ok (if us = I64_MAX then TsInfinity else if us = I64_MIN then TsNegInfinity else TsValue us))"

definition decode_date :: "pg_date decoder" where
  "decode_date buf =
     and_then (decode_i32 buf) (\<lambda>days.
       Ok (if days = I32_MAX then DateInfinity else if days = I32_MIN then DateNegInfinity
           else DateValue days))"

definition decode_json :: "(bytes \<Rightarrow> 'j option) \<Rightarrow> 'j decoder" where
  "decode_json from_slice buf =
     (let text = (if buf \<noteq> [] \<and> buf ! 0 = 1 then drop 1 buf else buf)
      in case from_slice text of Some v \<Rightarrow> Ok v | None \<Rightarrow> decode_err (BadValue ''JSON''))"

definition decode_option :: "'a decoder \<Rightarrow> bytes option \<Rightarrow> 'a option typed" where
  "decode_option dec buf =
     (case buf of Some b \<Rightarrow> and_then (dec b) (\<lambda>v. Ok (Some v)) | None \<Rightarrow> Ok None)"

text \<open>\<open>parse_array_header\<close>: element OID, number of elements, where they start.\<close>

definition parse_array_header :: "bytes \<Rightarrow> (u32 \<times> nat \<times> nat) typed" where
  "parse_array_header buf =
     (if length buf < 12 then decode_err (Truncated ''array: header'')
      else
        and_then (be32_at buf 0) (\<lambda>ndim.
        and_then (be32_at buf 8) (\<lambda>element_oid.
        if ndim = 0 then Ok (element_oid, 0, 12)
        else if ndim \<noteq> 1 then decode_err (NotOneDimensional ndim)
        else if length buf < 20 then decode_err (Truncated ''array: 1D header'')
        else and_then (be32_at buf 12) (\<lambda>dim_len. Ok (element_oid, usize_of_i32 dim_len, 20)))))"

text \<open>One cell at an offset, in an array or a range: its bytes and the offset behind it. \<open>offset + len\<close>
  with a negative length panics: on the addition, or, where it wraps, on the slice.\<close>

definition length_prefixed :: "bytes \<Rightarrow> nat \<Rightarrow> i32 \<Rightarrow> (bytes \<times> nat) typed" where
  "length_prefixed buf offset len =
     (if offset + usize_of_i32 len \<ge> usize_limit then Panic
      else if offset + usize_of_i32 len > length buf then decode_err (Truncated ''data'')
      else and_then (slice buf offset (offset + usize_of_i32 len))
             (\<lambda>d. Ok (d, offset + usize_of_i32 len)))"

fun decode_elements :: "'a decoder \<Rightarrow> nat \<Rightarrow> bytes \<Rightarrow> nat \<Rightarrow> 'a list typed" where
  "decode_elements dec 0 buf offset = Ok []"
| "decode_elements dec (Suc n) buf offset =
     (if offset + 4 > length buf then decode_err (Truncated ''array: element header'')
      else
        and_then (be32_at buf offset) (\<lambda>len.
        if len = - 1 then decode_err NullElement
        else
          and_then (length_prefixed buf (offset + 4) len) (\<lambda>(d, offset').
          and_then (dec d) (\<lambda>v.
          and_then (decode_elements dec n buf offset') (\<lambda>vs. Ok (v # vs))))))"

text \<open>\<open>Vec::with_capacity\<close> panics on what no address space holds.\<close>

definition decode_array_elements :: "'a decoder \<Rightarrow> 'a list decoder" where
  "decode_array_elements dec buf =
     and_then (parse_array_header buf) (\<lambda>(_, count, offset).
       if count \<ge> 2 ^ 63 then Panic else decode_elements dec count buf offset)"

section \<open>Dates and times of \<open>chrono\<close>\<close>

text \<open>\<open>chrono\<close> is given by the conversions the code calls: microseconds since 1970 of a date and time and
  back, days since the PostgreSQL epoch, seconds and nanoseconds since midnight. Additions wrap as in a
  release build.\<close>

definition PG_EPOCH_OFFSET_US :: i64 where "PG_EPOCH_OFFSET_US = 946684800000000"

definition encode_datetime :: "('d \<Rightarrow> i64) \<Rightarrow> 'd encoder" where
  "encode_datetime timestamp_micros d buf = buf @ be64 (timestamp_micros d - PG_EPOCH_OFFSET_US)"

definition decode_datetime :: "(i64 \<Rightarrow> 'd option) \<Rightarrow> 'd decoder" where
  "decode_datetime from_timestamp_micros buf =
     and_then (decode_i64 buf) (\<lambda>us.
       if us = I64_MAX \<or> us = I64_MIN then decode_err (NotRepresentable ''infinity'')
       else (case from_timestamp_micros (us + PG_EPOCH_OFFSET_US) of
               Some d \<Rightarrow> Ok d
             | None \<Rightarrow> decode_err (BadValue ''microseconds'')))"

definition encode_naive_date :: "('d \<Rightarrow> int) \<Rightarrow> 'd encoder" where
  "encode_naive_date days_since_epoch d buf = buf @ be32 (word_of_int (days_since_epoch d))"

definition decode_naive_date :: "(int \<Rightarrow> 'd option) \<Rightarrow> 'd decoder" where
  "decode_naive_date epoch_plus_days buf =
     and_then (decode_i32 buf) (\<lambda>days.
       if days = I32_MAX \<or> days = I32_MIN then decode_err (NotRepresentable ''infinity'')
       else (case epoch_plus_days (sint days) of
               Some d \<Rightarrow> Ok d
             | None \<Rightarrow> decode_err (BadValue ''days'')))"

definition encode_naive_time :: "('t \<Rightarrow> i64) \<Rightarrow> 't encoder" where
  "encode_naive_time micros_since_midnight t buf = buf @ be64 (micros_since_midnight t)"

definition time_secs :: "i64 \<Rightarrow> u32" where "time_secs us = word_of_int (sint us sdiv 1000000)"
definition time_nanos :: "i64 \<Rightarrow> u32" where "time_nanos us = word_of_int ((sint us smod 1000000) * 1000)"

definition decode_naive_time :: "(u32 \<Rightarrow> u32 \<Rightarrow> 't option) \<Rightarrow> 't decoder" where
  "decode_naive_time from_num_seconds_from_midnight_opt buf =
     and_then (decode_i64 buf) (\<lambda>us.
       case from_num_seconds_from_midnight_opt (time_secs us) (time_nanos us) of
         Some t \<Rightarrow> Ok t
       | None \<Rightarrow> decode_err (BadValue ''microseconds''))"

section \<open>Ranges\<close>

datatype 'a pg_range =
    EmptyRange
  | Range "'a option" "'a option" bool bool

definition RANGE_EMPTY :: u8 where "RANGE_EMPTY = 0x01"
definition RANGE_LB_INC :: u8 where "RANGE_LB_INC = 0x02"
definition RANGE_UB_INC :: u8 where "RANGE_UB_INC = 0x04"
definition RANGE_LB_INF :: u8 where "RANGE_LB_INF = 0x08"
definition RANGE_UB_INF :: u8 where "RANGE_UB_INF = 0x10"

lemmas range_flags = RANGE_EMPTY_def RANGE_LB_INC_def RANGE_UB_INC_def RANGE_LB_INF_def RANGE_UB_INF_def

definition encode_bound :: "'a encoder \<Rightarrow> 'a option \<Rightarrow> bytes \<Rightarrow> bytes" where
  "encode_bound enc b buf = (case b of Some v \<Rightarrow> encode_param enc v buf | None \<Rightarrow> buf)"

fun encode_range :: "'a encoder \<Rightarrow> 'a pg_range encoder" where
  "encode_range enc EmptyRange buf = buf @ [RANGE_EMPTY]"
| "encode_range enc (Range lower upper lower_inclusive upper_inclusive) buf =
     (let flags = 0;
          flags = (if lower_inclusive then flags OR RANGE_LB_INC else flags);
          flags = (if upper_inclusive then flags OR RANGE_UB_INC else flags);
          flags = (if lower = None then flags OR RANGE_LB_INF else flags);
          flags = (if upper = None then flags OR RANGE_UB_INF else flags)
      in encode_bound enc upper (encode_bound enc lower (buf @ [flags])))"

definition decode_bound :: "'a decoder \<Rightarrow> bool \<Rightarrow> bytes \<Rightarrow> nat \<Rightarrow> ('a option \<times> nat) typed" where
  "decode_bound dec unbounded buf offset =
     (if unbounded then Ok (None, offset)
      else if offset + 4 > length buf then decode_err (Truncated ''range: bound length'')
      else
        and_then (be32_at buf offset) (\<lambda>len.
        and_then (length_prefixed buf (offset + 4) len) (\<lambda>(d, offset').
        and_then (dec d) (\<lambda>v. Ok (Some v, offset')))))"

definition decode_range :: "'a decoder \<Rightarrow> 'a pg_range decoder" where
  "decode_range dec buf =
     (if buf = [] then decode_err (Truncated ''range: empty buffer'')
      else
        let flags = buf ! 0
        in if flags AND RANGE_EMPTY \<noteq> 0 then Ok EmptyRange
           else
             and_then (decode_bound dec (flags AND RANGE_LB_INF \<noteq> 0) buf 1) (\<lambda>(lower, offset).
             and_then (decode_bound dec (flags AND RANGE_UB_INF \<noteq> 0) buf offset) (\<lambda>(upper, _).
               Ok (Range lower upper (flags AND RANGE_LB_INC \<noteq> 0) (flags AND RANGE_UB_INC \<noteq> 0)))))"


section \<open>Reading back what was written\<close>

lemma usize_of_length: "n < 2 ^ 31 \<Longrightarrow> usize_of_i32 (word_of_nat n) = n"
  by (simp add: usize_of_i32_nonneg sint_of_nat_i32)

lemma length_not_null: "n < 2 ^ 31 \<Longrightarrow> (word_of_nat n :: i32) \<noteq> - 1"
proof
  assume n: "n < 2 ^ 31" and eq: "(word_of_nat n :: i32) = - 1"
  have "int n = sint (- 1 :: i32)"
    using sint_of_nat_i32 [OF n] eq by simp
  then show False by simp
qed

definition put_cell :: "bytes \<Rightarrow> bytes" where
  "put_cell d = be32 (word_of_nat (length d)) @ d"

lemma length_put_cell [simp]: "length (put_cell d) = 4 + length d"
  by (simp add: put_cell_def)

lemma read_put_cell:
  assumes "length d < 2 ^ 31" and "length (pre @ put_cell d @ post) < usize_limit"
  shows "be32_at (pre @ put_cell d @ post) (length pre) = (Ok (word_of_nat (length d)) :: i32 typed)"
    and "length_prefixed (pre @ put_cell d @ post) (length pre + 4) (word_of_nat (length d))
      = Ok (d, length pre + 4 + length d)"
proof -
  have "pre @ put_cell d @ post = pre @ be32 (word_of_nat (length d)) @ (d @ post)"
    by (simp add: put_cell_def)
  then show "be32_at (pre @ put_cell d @ post) (length pre) = (Ok (word_of_nat (length d)) :: i32 typed)"
    by simp
  have "slice (pre @ put_cell d @ post) (length pre + 4) (length pre + 4 + length d) = (Ok d :: bytes typed)"
    by (simp add: put_cell_def slice_eq_Ok)
  then show "length_prefixed (pre @ put_cell d @ post) (length pre + 4) (word_of_nat (length d))
      = Ok (d, length pre + 4 + length d)"
    using assms by (simp add: length_prefixed_def usize_of_length)
qed

text \<open>The contract of a value type: its encoder appends to the buffer, and its decoder reads back every
  \<open>good\<close> value, whose encoding fits a length field.\<close>

locale codec =
  fixes enc :: "'a encoder" and dec :: "'a decoder" and good :: "'a \<Rightarrow> bool"
  assumes appends: "enc v buf = buf @ enc v []"
    and decodes: "good v \<Longrightarrow> dec (enc v []) = Ok v"
    and short: "good v \<Longrightarrow> length (enc v []) < 2 ^ 31"
begin

lemma encode_param_eq: "encode_param enc v buf = buf @ put_cell (enc v [])"
proof -
  have "enc v (buf @ be32 0) = buf @ be32 0 @ enc v []"
    using appends [of v "buf @ be32 0"] by simp
  then show ?thesis
    by (simp add: encode_param_def put_cell_def Let_def)
qed

lemma encode_params_eq: "fold (encode_param enc) vs buf = buf @ concat (map (\<lambda>v. put_cell (enc v [])) vs)"
  by (induction vs arbitrary: buf) (simp_all add: encode_param_eq)

lemma option_roundtrip:
  assumes "case v of Some v \<Rightarrow> good v | None \<Rightarrow> True"
  shows "decode_option dec (encode_option_value enc v) = Ok v"
  using assms decodes by (cases v) (simp_all add: decode_option_def encode_option_value_def)

lemma decode_elements_encoded:
  assumes "list_all good vs"
    and "length (pre @ concat (map (\<lambda>v. put_cell (enc v [])) vs)) < usize_limit"
  shows "decode_elements dec (length vs) (pre @ concat (map (\<lambda>v. put_cell (enc v [])) vs)) (length pre) = Ok vs"
  using assms
proof (induction vs arbitrary: pre)
  case (Cons v vs)
  let ?rest = "concat (map (\<lambda>v. put_cell (enc v [])) vs)"
  have "decode_elements dec (length vs) ((pre @ put_cell (enc v [])) @ ?rest) (length (pre @ put_cell (enc v [])))
      = Ok vs"
    using Cons.prems by (intro Cons.IH) simp_all
  moreover have "length pre + 4 + length (enc v []) = length (pre @ put_cell (enc v []))"
    by simp
  ultimately show ?case
    using Cons.prems read_put_cell [of "enc v []" pre ?rest] short [of v] decodes [of v]
      length_not_null [of "length (enc v [])"]
    by (simp add: add.assoc)
qed simp

lemma parse_header_encoded:
  "n < 2 ^ 31 \<Longrightarrow> parse_array_header (encode_array_header [] False oid n @ rest) = Ok (oid, n, 20)"
proof -
  assume n: "n < 2 ^ 31"
  have 1: "be32_at (encode_array_header [] False oid n @ rest) 0 = (Ok 1 :: i32 typed)"
    using be32_at_append [where pre = "[]" and w = 1 and post = "be32 0 @ be32 oid @ be32 (word_of_nat n) @ be32 1 @ rest"]
    by (simp add: encode_array_header_def)
  have 2: "be32_at (encode_array_header [] False oid n @ rest) 8 = (Ok oid :: u32 typed)"
    using be32_at_append [where pre = "be32 1 @ be32 0" and w = oid and post = "be32 (word_of_nat n) @ be32 1 @ rest"]
    by (simp add: encode_array_header_def)
  have 3: "be32_at (encode_array_header [] False oid n @ rest) 12 = (Ok (word_of_nat n) :: i32 typed)"
    using be32_at_append [where pre = "be32 1 @ be32 0 @ be32 oid" and w = "word_of_nat n" and post = "be32 1 @ rest"]
    by (simp add: encode_array_header_def)
  have "length (encode_array_header [] False oid n @ rest) = 20 + length rest"
    by (simp add: encode_array_header_def)
  then show ?thesis
    using 1 2 3 n by (simp add: parse_array_header_def usize_of_length)
qed

lemma array_roundtrip:
  assumes "list_all good vs" and "length vs < 2 ^ 31" and "length (encode_array oid enc vs []) < usize_limit"
  shows "decode_array_elements dec (encode_array oid enc vs []) = Ok vs"
proof -
  let ?pre = "encode_array_header [] False oid (length vs)"
  let ?cells = "concat (map (\<lambda>v. put_cell (enc v [])) vs)"
  have eq: "encode_array oid enc vs [] = ?pre @ ?cells"
    by (simp add: encode_array_def encode_params_eq)
  have "length ?pre = 20"
    by (simp add: encode_array_header_def)
  then have "decode_elements dec (length vs) (?pre @ ?cells) 20 = Ok vs"
    using decode_elements_encoded [OF assms(1), of ?pre] assms(3) eq by simp
  then show ?thesis
    using assms(2) eq parse_header_encoded [of "length vs" oid ?cells] by (simp add: decode_array_elements_def)
qed

lemma encode_bound_eq:
  "encode_bound enc b buf = buf @ (case b of Some v \<Rightarrow> put_cell (enc v []) | None \<Rightarrow> [])"
  by (cases b) (simp_all add: encode_bound_def encode_param_eq)

lemma decode_bound_encoded:
  assumes "case b of Some v \<Rightarrow> good v | None \<Rightarrow> True"
    and "length (pre @ (case b of Some v \<Rightarrow> put_cell (enc v []) | None \<Rightarrow> []) @ post) < usize_limit"
  shows "decode_bound dec (b = None) (pre @ (case b of Some v \<Rightarrow> put_cell (enc v []) | None \<Rightarrow> []) @ post)
      (length pre)
    = Ok (b, length pre + length (case b of Some v \<Rightarrow> put_cell (enc v []) | None \<Rightarrow> []))"
proof (cases b)
  case (Some v)
  then show ?thesis
    using assms read_put_cell [of "enc v []" pre post] short [of v] decodes [of v]
    by (simp add: decode_bound_def add.assoc)
qed (simp add: decode_bound_def)

lemma range_roundtrip:
  assumes "case r of EmptyRange \<Rightarrow> True
      | Range l u li ui \<Rightarrow> (case l of Some v \<Rightarrow> good v | None \<Rightarrow> True)
          \<and> (case u of Some v \<Rightarrow> good v | None \<Rightarrow> True)"
    and "length (encode_range enc r []) < usize_limit"
  shows "decode_range dec (encode_range enc r []) = Ok r"
proof (cases r)
  case EmptyRange
  then show ?thesis by (simp add: decode_range_def range_flags)
next
  case (Range l u li ui)
  define flags where "flags = (if li then RANGE_LB_INC else 0) OR (if ui then RANGE_UB_INC else 0)
      OR (if l = None then RANGE_LB_INF else 0) OR (if u = None then RANGE_UB_INF else 0)"
  let ?cell = "\<lambda>b. case b of Some v \<Rightarrow> put_cell (enc v []) | None \<Rightarrow> []"
  have bits: "flags AND RANGE_EMPTY = 0" "(flags AND RANGE_LB_INC \<noteq> 0) = li" "(flags AND RANGE_UB_INC \<noteq> 0) = ui"
    "(flags AND RANGE_LB_INF \<noteq> 0) = (l = None)" "(flags AND RANGE_UB_INF \<noteq> 0) = (u = None)"
    by (simp_all add: flags_def range_flags split: if_splits)
  have eq: "encode_range enc r [] = [flags] @ ?cell l @ ?cell u"
    by (simp add: Range encode_bound_eq flags_def Let_def or.assoc)
  have len: "length ([flags] @ ?cell l @ ?cell u) < usize_limit"
    using assms(2) by (simp only: eq)
  have "decode_bound dec (l = None) ([flags] @ ?cell l @ ?cell u) (length [flags])
      = Ok (l, length [flags] + length (?cell l))"
    using assms(1) len unfolding Range by (intro decode_bound_encoded) simp_all
  moreover have "decode_bound dec (u = None) (([flags] @ ?cell l) @ ?cell u @ []) (length ([flags] @ ?cell l))
      = Ok (u, length ([flags] @ ?cell l) + length (?cell u))"
    using assms(1) len unfolding Range by (intro decode_bound_encoded) simp_all
  ultimately show ?thesis
    unfolding eq using bits by (simp add: decode_range_def Range)
qed

end


section \<open>The value types\<close>

lemma length_1: "length buf = 1 \<longleftrightarrow> (\<exists>b. buf = [b])"
  by (cases buf) auto

lemma decode_i16_iff: "decode_i16 buf = Ok v \<longleftrightarrow> buf = encode_i16 v []"
  using be16_from_be16 [of buf] by (auto simp: decode_i16_def encode_i16_def)

lemma decode_i32_iff: "decode_i32 buf = Ok v \<longleftrightarrow> buf = encode_i32 v []"
  using be32_from_be32 [of buf] by (auto simp: decode_i32_def encode_i32_def)

lemma decode_i64_iff: "decode_i64 buf = Ok v \<longleftrightarrow> buf = encode_i64 v []"
  using be64_from_be64 [of buf] by (auto simp: decode_i64_def encode_i64_def)

lemma decode_f32_iff: "decode_f32 buf = Ok v \<longleftrightarrow> buf = encode_f32 v []"
  using be32_from_be32 [of buf] by (auto simp: decode_f32_def encode_f32_def)

lemma decode_f64_iff: "decode_f64 buf = Ok v \<longleftrightarrow> buf = encode_f64 v []"
  using be64_from_be64 [of buf] by (auto simp: decode_f64_def encode_f64_def)

lemma decode_string_iff: "decode_string buf = Ok s \<longleftrightarrow> buf = encode_str s [] \<and> utf8_valid s"
  by (auto simp: decode_string_def encode_str_def from_utf8_def split: if_splits)

lemma decode_uuid_iff: "decode_uuid buf = Ok u \<longleftrightarrow> buf = encode_uuid u [] \<and> length u = 16"
  by (auto simp: decode_uuid_def encode_uuid_def)

interpretation bool_codec: codec encode_bool decode_bool "\<lambda>_. True"
  by unfold_locales (simp_all add: encode_bool_def decode_bool_def)

interpretation int2_codec: codec encode_i16 decode_i16 "\<lambda>_. True"
  by unfold_locales (simp_all add: encode_i16_def decode_i16_def)

interpretation int4_codec: codec encode_i32 decode_i32 "\<lambda>_. True"
  by unfold_locales (simp_all add: encode_i32_def decode_i32_def)

interpretation int8_codec: codec encode_i64 decode_i64 "\<lambda>_. True"
  by unfold_locales (simp_all add: encode_i64_def decode_i64_def)

interpretation float4_codec: codec encode_f32 decode_f32 "\<lambda>_. True"
  by unfold_locales (simp_all add: encode_f32_def decode_f32_def)

interpretation float8_codec: codec encode_f64 decode_f64 "\<lambda>_. True"
  by unfold_locales (simp_all add: encode_f64_def decode_f64_def)

interpretation text_codec: codec encode_str decode_string "\<lambda>s. utf8_valid s \<and> length s < 2 ^ 31"
  by unfold_locales (simp_all add: encode_str_def decode_string_def from_utf8_def)

interpretation bytea_codec: codec encode_bytes decode_bytes "\<lambda>bs. length bs < 2 ^ 31"
  by unfold_locales (simp_all add: encode_bytes_def decode_bytes_def)

interpretation uuid_codec: codec encode_uuid decode_uuid "\<lambda>u. length u = 16"
  by unfold_locales (simp_all add: encode_uuid_def decode_uuid_def)

lemma timestamp_roundtrip_iff:
  "decode_timestamp (encode_timestamp t []) = Ok t \<longleftrightarrow> t \<noteq> TsValue I64_MAX \<and> t \<noteq> TsValue I64_MIN"
proof -
  have "I64_MAX \<noteq> I64_MIN"
    by (simp add: I64_MAX_def I64_MIN_def)
  then show ?thesis
    by (cases t) (auto simp: decode_timestamp_def decode_i64_def)
qed

lemma date_roundtrip_iff:
  "decode_date (encode_date d []) = Ok d \<longleftrightarrow> d \<noteq> DateValue I32_MAX \<and> d \<noteq> DateValue I32_MIN"
proof -
  have "I32_MAX \<noteq> I32_MIN"
    by (simp add: I32_MAX_def I32_MIN_def)
  then show ?thesis
    by (cases d) (auto simp: decode_date_def decode_i32_def)
qed

lemma length_encode_timestamp: "length (encode_timestamp t buf) = length buf + 8"
  by (cases t) simp_all

lemma length_encode_date: "length (encode_date d buf) = length buf + 4"
  by (cases d) simp_all

interpretation timestamp_codec: codec encode_timestamp decode_timestamp
  "\<lambda>t. t \<noteq> TsValue I64_MAX \<and> t \<noteq> TsValue I64_MIN"
proof
  show "encode_timestamp v buf = buf @ encode_timestamp v []" for v buf
    by (cases v) simp_all
qed (simp_all add: timestamp_roundtrip_iff length_encode_timestamp)

interpretation date_codec: codec encode_date decode_date "\<lambda>d. d \<noteq> DateValue I32_MAX \<and> d \<noteq> DateValue I32_MIN"
proof
  show "encode_date v buf = buf @ encode_date v []" for v buf
    by (cases v) simp_all
qed (simp_all add: date_roundtrip_iff length_encode_date)

section \<open>Properties\<close>


text \<open>Arrays round-trip: a \<open>text[]\<close> of UTF-8 strings and an \<open>int8[]\<close> come back as they were sent,
  whatever the strings contain, up to the sizes the length fields can hold.\<close>

theorem arrays_roundtrip:
  assumes "list_all (\<lambda>s. utf8_valid s \<and> length s < 2 ^ 31) ss" and "length ss < 2 ^ 31"
    and "length (encode_array 25 encode_str ss []) < usize_limit"
    and "length ns < 2 ^ 31" and "length (encode_array 20 encode_i64 ns []) < usize_limit"
  shows "decode_array_elements decode_string (encode_array 25 encode_str ss []) = Ok ss
    \<and> decode_array_elements decode_i64 (encode_array 20 encode_i64 ns []) = Ok ns"
  using assms
  by (intro conjI text_codec.array_roundtrip int8_codec.array_roundtrip) (simp_all add: list_all_iff)

theorem arrays_roundtrip_witness:
  "decode_array_elements decode_string (encode_array 25 encode_str [lit ''a'', [], lit ''{,}''] [])
     = Ok [lit ''a'', [], lit ''{,}'']
   \<and> decode_array_elements decode_i64 (encode_array 20 encode_i64 [0, - 1] []) = Ok [0, - 1]"
proof (rule arrays_roundtrip)
  show "list_all (\<lambda>s. utf8_valid s \<and> length s < 2 ^ 31) [lit ''a'', [], lit ''{,}'']"
    by (simp add: lit_def utf8_valid_ascii)
qed (simp_all add: encode_array_def text_codec.encode_params_eq int8_codec.encode_params_eq
    encode_array_header_def text_codec.encode_param_eq int8_codec.encode_param_eq encode_str_def
    encode_i64_def lit_def)

text \<open>Ranges round-trip: every \<open>int8range\<close> - empty, bounded, half-open, unbounded on either side, with
  any inclusivity - and every range of finite timestamps comes back as it was sent.\<close>

theorem ranges_roundtrip:
  assumes "length (encode_range encode_i64 r []) < usize_limit"
    and "length (encode_range encode_timestamp q []) < usize_limit"
    and "\<forall>t \<in> set_pg_range q. t \<noteq> TsValue I64_MAX \<and> t \<noteq> TsValue I64_MIN"
  shows "decode_range decode_i64 (encode_range encode_i64 r []) = Ok r
    \<and> decode_range decode_timestamp (encode_range encode_timestamp q []) = Ok q"
proof
  show "decode_range decode_i64 (encode_range encode_i64 r []) = Ok r"
    using assms(1) by (intro int8_codec.range_roundtrip) (simp_all split: pg_range.splits option.splits)
  show "decode_range decode_timestamp (encode_range encode_timestamp q []) = Ok q"
    using assms(2,3)
    by (intro timestamp_codec.range_roundtrip) (cases q; auto split: option.splits)+
qed

theorem ranges_roundtrip_witness:
  "decode_range decode_i64 (encode_range encode_i64 (Range (Some 1) None True False) [])
     = Ok (Range (Some 1) None True False)
   \<and> decode_range decode_timestamp (encode_range encode_timestamp EmptyRange []) = Ok EmptyRange"
  by (rule ranges_roundtrip)
     (simp_all add: encode_bound_def int8_codec.encode_param_eq Let_def encode_i64_def)

text \<open>A timestamp or date survives the round trip exactly when it is not a finite value that the
  protocol reserves for an infinity; the two infinities do survive.\<close>

theorem infinities_reserved:
  "(decode_timestamp (encode_timestamp t []) = Ok t \<longleftrightarrow> t \<notin> {TsValue I64_MAX, TsValue I64_MIN})
   \<and> (decode_date (encode_date d []) = Ok d \<longleftrightarrow> d \<notin> {DateValue I32_MAX, DateValue I32_MIN})"
  by (simp add: timestamp_roundtrip_iff date_roundtrip_iff)

text \<open>For any calendar whose microseconds read back, a date and time is recovered from its encoding
  unless its PostgreSQL value is one of the two infinities, which are refused.\<close>

theorem datetime_roundtrip:
  assumes "from_timestamp_micros (timestamp_micros d) = Some d"
  shows "decode_datetime from_timestamp_micros (encode_datetime timestamp_micros d [])
    = (if timestamp_micros d - PG_EPOCH_OFFSET_US \<in> {I64_MAX, I64_MIN}
       then Err (Decode 0 (NotRepresentable ''infinity'')) else Ok d)"
  using assms by (simp add: decode_datetime_def encode_datetime_def decode_i64_def)

theorem datetime_roundtrip_witness:
  "decode_datetime Some (encode_datetime id 1700000000000000 []) = Ok 1700000000000000"
proof -
  have "(1700000000000000 :: i64) - PG_EPOCH_OFFSET_US \<notin> {I64_MAX, I64_MIN}"
    by (simp add: PG_EPOCH_OFFSET_US_def I64_MAX_def I64_MIN_def)
  then show ?thesis
    using datetime_roundtrip [of Some id 1700000000000000] by simp
qed

section \<open>What goes wrong\<close>

text \<open>A negative element length other than -1 panics instead of giving an error; so does a negative number
  of elements.\<close>

lemma array_negative_length_panics:
  "decode_array_elements decode_i32 (encode_array_header [] False 23 1 @ be32 (- 2)) = Panic"
proof -
  have l: "length (encode_array_header [] False 23 1) = 20"
    by (simp add: encode_array_header_def)
  then have "be32_at (encode_array_header [] False 23 1 @ be32 (- 2)) 20 = (Ok (- 2) :: i32 typed)"
    using be32_at_append [where pre = "encode_array_header [] False 23 1" and w = "- 2" and post = "[]"]
    by simp
  moreover have "usize_of_i32 (- 2) = usize_limit - 2"
    by (simp add: usize_of_i32_def)
  ultimately show ?thesis
    using l int4_codec.parse_header_encoded [of 1 23 "be32 (- 2)"]
    by (simp add: decode_array_elements_def length_prefixed_def)
qed

lemma array_negative_count_panics:
  "decode_array_elements decode_i32 (encode_array_header [] False 23 (2 ^ 32 - 1)) = Panic"
proof -
  have "be32_at (encode_array_header [] False 23 (2 ^ 32 - 1)) 12 = (Ok 4294967295 :: i32 typed)"
    "be32_at (encode_array_header [] False 23 (2 ^ 32 - 1)) 0 = (Ok 1 :: i32 typed)"
    "be32_at (encode_array_header [] False 23 (2 ^ 32 - 1)) 8 = (Ok 23 :: i32 typed)"
    using be32_at_append [where pre = "be32 1 @ be32 0 @ be32 23" and w = 4294967295 and post = "be32 1"]
      be32_at_append [where pre = "[]" and w = 1 and post = "be32 0 @ be32 23 @ be32 4294967295 @ be32 1"]
      be32_at_append [where pre = "be32 1 @ be32 0" and w = 23 and post = "be32 4294967295 @ be32 1"]
    by (simp_all add: encode_array_header_def)
  moreover have "length (encode_array_header [] False 23 (2 ^ 32 - 1)) = 20"
    by (simp add: encode_array_header_def)
  moreover have "usize_of_i32 4294967295 = usize_limit - 1"
    by (simp add: usize_of_i32_def)
  ultimately show ?thesis
    by (simp add: decode_array_elements_def parse_array_header_def)
qed

text \<open>A time of \<open>2 ^ 32\<close> seconds is taken for midnight: the seconds are cut to 32 bits before the check.\<close>

lemma time_wraps: "time_secs (4294967296 * 1000000) = 0 \<and> time_nanos (4294967296 * 1000000) = 0"
  by (simp add: time_secs_def time_nanos_def)

end
