(* ===== verification/Codec_Numeric.thy ===== *)
theory Codec_Numeric
  imports Codec
begin

text \<open>
  The binary decoders of \<open>PgNumeric\<close> and \<open>PgInet\<close> in \<open>resolute/src/decode.rs\<close>, which turn the server's
  base-10000 digits or address bytes into text. The theorem: the text of a finite numeric is its sign,
  its integer part in decimal and exactly \<open>dscale\<close> fractional digits, each the right one.
\<close>

section \<open>Decoding\<close>

definition numeric_digit :: "bytes \<Rightarrow> nat \<Rightarrow> int" where
  "numeric_digit buf i = sint (from_be16 (take 2 (drop (8 + i * 2) buf)))"

lemma length_pad4: "4 \<le> length (pad4 d)"
  by (simp add: pad4_def Let_def)

lemma pad4_progress: "0 < n \<Longrightarrow> n - length (pad4 d) < n"
  using length_pad4 [of d] by linarith

text \<open>The fractional loop: \<open>n\<close> characters are still wanted, \<open>pos\<close> is an \<open>i16\<close>.\<close>

function frac_chars :: "(int \<Rightarrow> int) \<Rightarrow> i16 \<Rightarrow> nat \<Rightarrow> i16 \<Rightarrow> bytes" where
  "frac_chars digit weight n pos =
     (if n = 0 then []
      else let s = pad4 (digit (sint (weight - pos)))
           in take n s @ frac_chars digit weight (n - length s) (pos - 1))"
  by auto
termination
  by (relation "measure (\<lambda>(_, _, n, _). n)") (auto simp: pad4_progress)

declare frac_chars.simps [simp del]

text \<open>\<open>digits.get(i)\<close>, 0 where there is none, and the text built from the groups.\<close>

definition numeric_group :: "bytes \<Rightarrow> nat \<Rightarrow> int \<Rightarrow> int" where
  "numeric_group buf ndigits i = (if 0 \<le> i \<and> nat i < ndigits then numeric_digit buf (nat i) else 0)"

definition numeric_string :: "(int \<Rightarrow> int) \<Rightarrow> i16 \<Rightarrow> bool \<Rightarrow> nat \<Rightarrow> rstring" where
  "numeric_string digit weight negative dscale =
     (let int_groups = nat (max (sint (weight + 1)) 0);
          int_text = concat (map (\<lambda>i. if i = 0 then decimal_int (digit (int i)) else pad4 (digit (int i)))
            [0..<int_groups])
      in (if negative then lit ''-'' else [])
         @ (if int_groups = 0 then lit ''0'' else int_text)
         @ (if dscale > 0 then lit ''.'' @ frac_chars digit weight dscale (- 1) else []))"

text \<open>A negative \<open>ndigits\<close> overflows \<open>8 + ndigits * 2\<close> and would read past the end; a negative \<open>dscale\<close>
  asks for more zeros than memory holds.\<close>

definition decode_numeric :: "rstring decoder" where
  "decode_numeric buf =
     (if length buf < 8 then decode_err (WrongLength ''PgNumeric'' 8 (length buf))
      else
        and_then (be16_at buf 0) (\<lambda>nd.
        and_then (be16_at buf 2) (\<lambda>weight.
        and_then (be16_at buf 4) (\<lambda>sign.
        and_then (be16_at buf 6) (\<lambda>ds.
        let ndigits = usize_of_i16 nd;
            dscale = usize_of_i16 ds
        in if ndigits \<ge> 2 ^ 63 \<or> dscale \<ge> 2 ^ 63 then Panic
           else if length buf < 8 + ndigits * 2 then decode_err (Truncated ''PgNumeric'')
           else if ndigits = 0 then
             Ok (if dscale > 0 then lit ''0.'' @ replicate dscale 0x30 else lit ''0'')
           else
             Ok (numeric_string (numeric_group buf ndigits) weight (sign = 0x4000) dscale))))))"

text \<open>\<open>PgInet\<close>: family, prefix length, a flag, the address. \<open>{:x}\<close> of an \<open>u16\<close> has no leading zeros.\<close>

fun hex :: "nat \<Rightarrow> bytes" where
  "hex n =
     (let c = (\<lambda>k. if k < 10 then word_of_nat (48 + k) else word_of_nat (87 + k))
      in if n < 16 then [c n] else hex (n div 16) @ [c (n mod 16)])"

declare hex.simps [simp del]

definition join :: "bytes \<Rightarrow> bytes list \<Rightarrow> bytes" where
  "join sep ps = (case ps of [] \<Rightarrow> [] | p # ps \<Rightarrow> p @ concat (map (\<lambda>q. sep @ q) ps))"

definition decode_inet :: "rstring decoder" where
  "decode_inet buf =
     (if length buf < 4 then decode_err (Truncated ''PgInet'')
      else
        let family = buf ! 0; netmask = buf ! 1; addr_len = unat (buf ! 3)
        in if length buf < 4 + addr_len then decode_err (Truncated ''PgInet: address'')
           else
             let addr = take addr_len (drop 4 buf)
             in if family = 2 \<and> addr_len = 4 then
                  Ok (join (lit ''.'') (map (\<lambda>b. decimal (unat b)) addr) @ lit ''/'' @ decimal (unat netmask))
                else if family = 3 \<and> addr_len = 16 then
                  Ok (join (lit '':'') (map (\<lambda>i. hex (unat (addr ! (2 * i)) * 256 + unat (addr ! (2 * i + 1)))) [0..<8])
                      @ lit ''/'' @ decimal (unat netmask))
                else decode_err (UnknownFamily family))"

section \<open>Decimal text of base-10000 digits\<close>

lemma decimal_step: "10 \<le> n \<Longrightarrow> decimal n = decimal (n div 10) @ [word_of_nat (48 + n mod 10)]"
  by (subst decimal.simps) simp

lemma decimal_digit: "n < 10 \<Longrightarrow> decimal n = [word_of_nat (48 + n)]"
  by (subst decimal.simps) simp

text \<open>The four decimal digits of a base-10000 digit.\<close>

definition quad :: "nat \<Rightarrow> bytes" where
  "quad d = map (\<lambda>k. word_of_nat (48 + d div 10 ^ (3 - k) mod 10)) [0..<4]"

lemma quad_eq:
  "quad d = [word_of_nat (48 + d div 1000 mod 10), word_of_nat (48 + d div 100 mod 10),
     word_of_nat (48 + d div 10 mod 10), word_of_nat (48 + d mod 10)]"
  by (simp add: quad_def upt_rec numeral_2_eq_2 [symmetric] numeral_3_eq_3 [symmetric] del: of_nat_add)

lemma quad_digit: "0 < k \<Longrightarrow> (n * (j * 10 * k) + d) div k mod 10 = d div k mod 10" for n :: nat
proof -
  assume "0 < k"
  then have "(d + (n * j * 10) * k) div k = d div k + n * j * 10"
    by simp
  moreover have "n * (j * 10 * k) + d = d + (n * j * 10) * k"
    by (simp add: ac_simps)
  ultimately show ?thesis
    by (simp only: mod_mult_self1)
qed

lemma decimal_quad:
  assumes "0 < n" and "d < 10000"
  shows "decimal (n * 10000 + d) = decimal n @ quad d"
proof -
  let ?m = "n * 10000 + d"
  have 1: "decimal ?m = decimal (?m div 10) @ [word_of_nat (48 + ?m mod 10)]"
    using assms(1) by (intro decimal_step) simp
  have 2: "decimal (?m div 10) = decimal (?m div 100) @ [word_of_nat (48 + ?m div 10 mod 10)]"
    using assms(1) decimal_step [of "?m div 10"] by (simp add: div_mult2_eq [symmetric])
  have 3: "decimal (?m div 100) = decimal (?m div 1000) @ [word_of_nat (48 + ?m div 100 mod 10)]"
    using assms(1) decimal_step [of "?m div 100"] by (simp add: div_mult2_eq [symmetric])
  have 4: "decimal (?m div 1000) = decimal (?m div 10000) @ [word_of_nat (48 + ?m div 1000 mod 10)]"
    using assms(1) decimal_step [of "?m div 1000"] by (simp add: div_mult2_eq [symmetric])
  have digits: "?m mod 10 = d mod 10" "?m div 10 mod 10 = d div 10 mod 10"
    "?m div 100 mod 10 = d div 100 mod 10" "?m div 1000 mod 10 = d div 1000 mod 10" "?m div 10000 = n"
    using quad_digit [of 1 n 1000 d] quad_digit [of 10 n 100 d] quad_digit [of 100 n 10 d]
      quad_digit [of 1000 n 1 d] assms(2) by simp_all
  show ?thesis
    unfolding 1 2 3 4 digits quad_eq by simp
qed

lemma pad4_quad:
  assumes "d < 10000"
  shows "pad4 (int d) = quad d"
proof -
  have zero: "(word_of_nat 48 :: u8) = 0x30"
    by simp
  consider "d < 10" | "10 \<le> d" "d < 100" | "100 \<le> d" "d < 1000" | "1000 \<le> d"
    by linarith
  then show ?thesis
  proof cases
    case 1
    then show ?thesis
      by (simp add: pad4_def Let_def quad_eq decimal_digit numeral_3_eq_3 zero del: of_nat_add)
  next
    case 2
    then have "decimal d = [word_of_nat (48 + d div 10), word_of_nat (48 + d mod 10)]"
      by (simp add: decimal_step decimal_digit del: of_nat_add)
    then show ?thesis
      using 2 by (simp add: pad4_def Let_def quad_eq numeral_2_eq_2 zero del: of_nat_add)
  next
    case 3
    have "decimal (d div 10) = decimal (d div 100) @ [word_of_nat (48 + d div 10 mod 10)]"
      using 3 decimal_step [of "d div 10"] by (simp add: div_mult2_eq [symmetric] del: of_nat_add)
    then have "decimal d = [word_of_nat (48 + d div 100), word_of_nat (48 + d div 10 mod 10),
        word_of_nat (48 + d mod 10)]"
      using 3 by (simp add: decimal_step [of d] decimal_digit del: of_nat_add)
    then show ?thesis
      using 3 by (simp add: pad4_def Let_def quad_eq zero del: of_nat_add)
  next
    case 4
    have "decimal (d div 10) = decimal (d div 100) @ [word_of_nat (48 + d div 10 mod 10)]"
      "decimal (d div 100) = decimal (d div 1000) @ [word_of_nat (48 + d div 100 mod 10)]"
      using 4 decimal_step [of "d div 10"] decimal_step [of "d div 100"]
      by (simp_all add: div_mult2_eq [symmetric] del: of_nat_add)
    then have "decimal d = [word_of_nat (48 + d div 1000), word_of_nat (48 + d div 100 mod 10),
        word_of_nat (48 + d div 10 mod 10), word_of_nat (48 + d mod 10)]"
      using 4 assms by (simp add: decimal_step [of d] decimal_digit del: of_nat_add)
    then show ?thesis
      using 4 assms by (simp add: pad4_def Let_def quad_eq del: of_nat_add)
  qed
qed

lemma length_quad [simp]: "length (quad d) = 4"
  by (simp add: quad_def)

lemma nth_quad: "k < 4 \<Longrightarrow> quad d ! k = word_of_nat (48 + d div 10 ^ (3 - k) mod 10)"
  by (simp add: quad_def del: of_nat_add)


section \<open>Finite numerics\<close>

text \<open>The wire form of a numeric, and its value as groups of four digits: group \<open>k\<close> counts multiples of
  \<open>10000\<close> to the \<open>k\<close>.\<close>

definition numeric_wire :: "bool \<Rightarrow> int \<Rightarrow> nat \<Rightarrow> nat list \<Rightarrow> bytes" where
  "numeric_wire neg weight dscale ds =
     be16 (word_of_nat (length ds)) @ be16 (word_of_int weight) @ be16 (if neg then 0x4000 else 0)
     @ be16 (word_of_nat dscale) @ concat (map (\<lambda>d. be16 (word_of_nat d)) ds)"

definition group :: "int \<Rightarrow> nat list \<Rightarrow> int \<Rightarrow> nat" where
  "group weight ds k = (if k \<le> weight \<and> nat (weight - k) < length ds then ds ! nat (weight - k) else 0)"

text \<open>The integer part by Horner's rule, and the \<open>j\<close>-th fractional decimal digit.\<close>

definition int_part :: "int \<Rightarrow> nat list \<Rightarrow> nat" where
  "int_part weight ds = foldl (\<lambda>a i. a * 10000 + group weight ds (weight - int i)) 0 [0..<nat (weight + 1)]"

definition frac_digit :: "int \<Rightarrow> nat list \<Rightarrow> nat \<Rightarrow> nat" where
  "frac_digit weight ds j = group weight ds (- 1 - int (j div 4)) div 10 ^ (3 - j mod 4) mod 10"

lemma groups_text:
  assumes "\<forall>d \<in> set ds. d < 10000" and "0 < d0 \<or> ds = []"
  shows "decimal d0 @ concat (map (\<lambda>d. pad4 (int d)) ds) = decimal (foldl (\<lambda>a d. a * 10000 + d) d0 ds)"
  using assms
proof (induction ds arbitrary: d0)
  case (Cons d ds)
  have "decimal d0 @ pad4 (int d) = decimal (d0 * 10000 + d)"
    using Cons.prems by (simp add: decimal_quad pad4_quad)
  then show ?case
    using Cons.IH [of "d0 * 10000 + d"] Cons.prems by (simp flip: append_assoc)
qed simp

lemma concat_quads_nth:
  "j < 4 * m \<Longrightarrow> concat (map (\<lambda>k. quad (f k)) [0..<m]) ! j = quad (f (j div 4)) ! (j mod 4)"
proof (induction m)
  case (Suc m)
  have len: "length (concat (map (\<lambda>k. quad (f k)) [0..<m])) = 4 * m"
    by (induction m) simp_all
  show ?case
  proof (cases "j < 4 * m")
    case True
    then show ?thesis
      using Suc.IH len by (simp add: nth_append)
  next
    case False
    then have "j div 4 = m" "j mod 4 = j - 4 * m"
      using Suc.prems by presburger+
    then show ?thesis
      using False len by (simp add: nth_append)
  qed
qed simp

lemma length_concat_quads: "length (concat (map (\<lambda>k. quad (f k)) [0..<m])) = 4 * m"
  by (induction m) simp_all

lemma frac_chars_quads:
  assumes "\<And>k. k < n \<Longrightarrow> digit (sint (weight - (pos - word_of_nat k))) = int (f k) \<and> f k < 10000"
  shows "frac_chars digit weight n pos = take n (concat (map (\<lambda>k. quad (f k)) [0..<n]))"
  using assms
proof (induction n arbitrary: pos f rule: less_induct)
  case (less n)
  show ?case
  proof (cases "n = 0")
    case True
    then show ?thesis by (subst frac_chars.simps) simp
  next
    case False
    have d0: "digit (sint (weight - pos)) = int (f 0)" "f 0 < 10000"
      using less.prems [of 0] False by simp_all
    have rest: "frac_chars digit weight (n - 4) (pos - 1)
        = take (n - 4) (concat (map (\<lambda>k. quad (f (Suc k))) [0..<n - 4]))"
    proof (rule less.IH)
      show "n - 4 < n"
        using False by simp
      fix k assume "k < n - 4"
      then show "digit (sint (weight - (pos - 1 - word_of_nat k))) = int (f (Suc k)) \<and> f (Suc k) < 10000"
        using less.prems [of "Suc k"] by (simp add: algebra_simps)
    qed
    have split: "[0..<n] = 0 # map Suc [0..<n - 1]"
      using False by (simp add: map_Suc_upt upt_conv_Cons)
    have more: "take m (concat (map g [0..<m])) = take m (concat (map g [0..<m']))"
      if "m \<le> m'" "\<And>k. length (g k) = 4" for m m' and g :: "nat \<Rightarrow> bytes"
    proof -
      have "[0..<m'] = [0..<m] @ [m..<m']"
        using that(1) by (metis le0 le_add_diff_inverse upt_add_eq_append)
      moreover have "length (concat (map g [0..<m])) = 4 * m"
        using that(2) by (induction m) simp_all
      ultimately show ?thesis by simp
    qed
    have "frac_chars digit weight n pos = take n (quad (f 0)) @ frac_chars digit weight (n - 4) (pos - 1)"
      using False d0 by (subst frac_chars.simps) (simp add: Let_def pad4_quad)
    also have "\<dots> = take n (quad (f 0)) @ take (n - 4) (concat (map (\<lambda>k. quad (f (Suc k))) [0..<n - 1]))"
      using more [of "n - 4" "n - 1" "\<lambda>k. quad (f (Suc k))"] rest by simp
    also have "\<dots> = take n (concat (map (\<lambda>k. quad (f k)) [0..<n]))"
      by (simp add: split comp_def)
    finally show ?thesis .
  qed
qed


lemma drop_pairs:
  "(\<And>d. length (f d) = 2) \<Longrightarrow> i < length ds \<Longrightarrow> take 2 (drop (i * 2) (concat (map f ds))) = f (ds ! i)"
proof (induction ds arbitrary: i)
  case (Cons d ds)
  then show ?case by (cases i) simp_all
qed simp

lemma numeric_digit_wire:
  assumes "i < length ds" and "\<forall>d \<in> set ds. d < 10000"
  shows "numeric_digit (numeric_wire neg weight dscale ds) i = int (ds ! i)"
proof -
  have "take 2 (drop (8 + i * 2) (numeric_wire neg weight dscale ds))
      = take 2 (drop (i * 2) (concat (map (\<lambda>d. be16 (word_of_nat d)) ds)))"
    by (simp add: numeric_wire_def)
  also have "\<dots> = be16 (word_of_nat (ds ! i))"
    using assms(1) by (intro drop_pairs) simp_all
  finally have "numeric_digit (numeric_wire neg weight dscale ds) i = sint (word_of_nat (ds ! i) :: i16)"
    by (simp add: numeric_digit_def)
  moreover have "ds ! i < 2 ^ 15"
    using assms nth_mem [OF assms(1)] by fastforce
  ultimately show ?thesis
    by (simp only: sint_of_nat_i16)
qed

lemma sint_of_int_i16: "- (2 ^ 15) \<le> i \<Longrightarrow> i < 2 ^ 15 \<Longrightarrow> sint (word_of_int i :: i16) = i"
  by (simp add: signed_of_int signed_take_bit_int_eq_self)

lemma usize_of_i16_nat: "n < 2 ^ 15 \<Longrightarrow> usize_of_i16 (word_of_nat n) = n"
  by (simp add: usize_of_i16_nonneg sint_of_nat_i16)

lemma numeric_header:
  "be16_at (numeric_wire neg weight dscale ds) 0 = (Ok (word_of_nat (length ds)) :: i16 typed)"
  "be16_at (numeric_wire neg weight dscale ds) 2 = (Ok (word_of_int weight) :: i16 typed)"
  "be16_at (numeric_wire neg weight dscale ds) 4 = (Ok (if neg then 0x4000 else 0) :: i16 typed)"
  "be16_at (numeric_wire neg weight dscale ds) 6 = (Ok (word_of_nat dscale) :: i16 typed)"
  "length (numeric_wire neg weight dscale ds) = 8 + length ds * 2"
proof -
  let ?n = "be16 (word_of_nat (length ds))" and ?w = "be16 (word_of_int weight)"
  let ?s = "be16 (if neg then 0x4000 else 0)" and ?d = "be16 (word_of_nat dscale)"
  let ?c = "concat (map (\<lambda>d. be16 (word_of_nat d)) ds)"
  show "be16_at (numeric_wire neg weight dscale ds) 0 = (Ok (word_of_nat (length ds)) :: i16 typed)"
    using be16_at_append [where pre = "[]" and w = "word_of_nat (length ds)" and post = "?w @ ?s @ ?d @ ?c"]
    by (simp add: numeric_wire_def)
  show "be16_at (numeric_wire neg weight dscale ds) 2 = (Ok (word_of_int weight) :: i16 typed)"
    using be16_at_append [where pre = ?n and w = "word_of_int weight" and post = "?s @ ?d @ ?c"]
    by (simp add: numeric_wire_def)
  show "be16_at (numeric_wire neg weight dscale ds) 4 = (Ok (if neg then 0x4000 else 0) :: i16 typed)"
    using be16_at_append [where pre = "?n @ ?w" and w = "if neg then 0x4000 else 0" and post = "?d @ ?c"]
    by (simp add: numeric_wire_def)
  show "be16_at (numeric_wire neg weight dscale ds) 6 = (Ok (word_of_nat dscale) :: i16 typed)"
    using be16_at_append [where pre = "?n @ ?w @ ?s" and w = "word_of_nat dscale" and post = ?c]
    by (simp add: numeric_wire_def)
  have "length ?c = length ds * 2"
    by (induction ds) simp_all
  then show "length (numeric_wire neg weight dscale ds) = 8 + length ds * 2"
    by (simp add: numeric_wire_def)
qed

lemma int_text_correct:
  assumes "ds \<noteq> []" and "\<forall>d \<in> set ds. d < 10000" and "0 < hd ds" and "0 \<le> weight"
  shows "concat (map (\<lambda>i. if i = 0 then decimal_int (int (group weight ds (weight - int i)))
       else pad4 (int (group weight ds (weight - int i)))) [0..<nat (weight + 1)])
    = decimal (int_part weight ds)"
proof -
  let ?g = "\<lambda>i. group weight ds (weight - int i)"
  have up: "[0..<nat (weight + 1)] = 0 # [1..<nat (weight + 1)]"
    using assms(4) by (simp add: upt_conv_Cons)
  have g0: "?g 0 = hd ds"
    using assms(1) by (simp add: group_def hd_conv_nth)
  have small: "\<forall>d \<in> set (map ?g [1..<nat (weight + 1)]). d < 10000"
    using assms(2) by (auto simp: group_def)
  have "decimal (?g 0) @ concat (map (\<lambda>d. pad4 (int d)) (map ?g [1..<nat (weight + 1)]))
      = decimal (foldl (\<lambda>a d. a * 10000 + d) (?g 0) (map ?g [1..<nat (weight + 1)]))"
    using small assms(3) g0 by (intro groups_text) simp_all
  moreover have "foldl (\<lambda>a d. a * 10000 + d) (?g 0) (map ?g [1..<nat (weight + 1)]) = int_part weight ds"
    by (simp add: int_part_def up foldl_map)
  ultimately have horner: "decimal (?g 0) @ concat (map (\<lambda>i. pad4 (int (?g i))) [1..<nat (weight + 1)])
      = decimal (int_part weight ds)"
    by (simp add: comp_def)
  let ?F = "\<lambda>i. if i = 0 then decimal_int (int (?g i)) else pad4 (int (?g i))"
  have "concat (map ?F [0..<nat (weight + 1)]) = ?F 0 @ concat (map ?F [1..<nat (weight + 1)])"
    by (simp only: up list.map concat.simps)
  also have "map ?F [1..<nat (weight + 1)] = map (\<lambda>i. pad4 (int (?g i))) [1..<nat (weight + 1)]"
    by (rule map_cong) auto
  finally show ?thesis
    using horner by (simp add: decimal_int_def)
qed

lemma fraction_text:
  assumes "\<forall>d \<in> set ds. d < 10000" and "- 16384 \<le> weight" and "weight < 16384" and "dscale < 16384"
  shows "frac_chars (\<lambda>i. int (group weight ds (weight - i))) (word_of_int weight) dscale (- 1)
    = map (\<lambda>j. word_of_nat (48 + frac_digit weight ds j)) [0..<dscale]"
proof -
  let ?digit = "\<lambda>i. int (group weight ds (weight - i))"
  let ?f = "\<lambda>k. group weight ds (- 1 - int k)"
  have "frac_chars ?digit (word_of_int weight) dscale (- 1)
      = take dscale (concat (map (\<lambda>k. quad (?f k)) [0..<dscale]))"
  proof (rule frac_chars_quads)
    fix k assume "k < dscale"
    then have k: "int k < 16384"
      using assms(4) by simp
    have "(word_of_int weight :: i16) - (- 1 - word_of_nat k) = word_of_int (weight + 1 + int k)"
      by simp
    then have "sint ((word_of_int weight :: i16) - (- 1 - word_of_nat k)) = weight + 1 + int k"
      using k assms(2,3) by (simp only:) (rule sint_of_int_i16, simp_all)
    then show "?digit (sint ((word_of_int weight :: i16) - (- 1 - word_of_nat k))) = int (?f k) \<and> ?f k < 10000"
      using assms(1) by (auto simp: group_def)
  qed
  also have "\<dots> = map (\<lambda>j. word_of_nat (48 + frac_digit weight ds j)) [0..<dscale]"
    by (rule nth_equalityI) (simp_all add: length_concat_quads concat_quads_nth nth_quad frac_digit_def del: of_nat_add)
  finally show ?thesis .
qed

lemma integer_text:
  assumes "ds \<noteq> []" and "\<forall>d \<in> set ds. d < 10000" and "0 < hd ds"
  shows "(if nat (max (weight + 1) 0) = 0 then lit ''0''
      else concat (map (\<lambda>i. if i = 0 then decimal_int (int (group weight ds (weight - int i)))
                          else pad4 (int (group weight ds (weight - int i))))
             [0..<nat (max (weight + 1) 0)])) = decimal (int_part weight ds)"
proof (cases "0 \<le> weight")
  case True
  then have "nat (max (weight + 1) 0) = nat (weight + 1)" "0 < nat (weight + 1)"
    by simp_all
  then show ?thesis
    using int_text_correct [OF assms True] by simp
next
  case False
  then have "nat (max (weight + 1) 0) = 0" "int_part weight ds = 0"
    by (simp_all add: int_part_def)
  then show ?thesis
    by (simp add: lit_def decimal_digit)
qed



text \<open>An IPv4 address with its prefix length.\<close>

lemma decode_inet_v4:
  "decode_inet [2, m, 0, 4, a, b, c, d]
    = Ok (decimal (unat a) @ lit ''.'' @ decimal (unat b) @ lit ''.'' @ decimal (unat c) @ lit ''.''
        @ decimal (unat d) @ lit ''/'' @ decimal (unat m))"
  by (simp add: decode_inet_def Let_def join_def)

section \<open>What goes wrong\<close>

text \<open>The server's \<open>NaN\<close> and infinities have no digits and decode to zero.\<close>

lemma nan_decodes_to_zero: "decode_numeric (be16 0 @ be16 0 @ be16 0xC000 @ be16 0) = Ok (lit ''0'')"
proof -
  have "be16_at (be16 0 @ be16 0 @ be16 0xC000 @ be16 0) 0 = (Ok 0 :: i16 typed)"
    "be16_at (be16 0 @ be16 0 @ be16 0xC000 @ be16 0) 2 = (Ok 0 :: i16 typed)"
    "be16_at (be16 0 @ be16 0 @ be16 0xC000 @ be16 0) 4 = (Ok 0xC000 :: i16 typed)"
    "be16_at (be16 0 @ be16 0 @ be16 0xC000 @ be16 0) 6 = (Ok 0 :: i16 typed)"
    using be16_at_append [where pre = "[]" and w = 0 and post = "be16 0 @ be16 0xC000 @ be16 0"]
      be16_at_append [where pre = "be16 0" and w = 0 and post = "be16 0xC000 @ be16 0"]
      be16_at_append [where pre = "be16 0 @ be16 0" and w = "0xC000" and post = "be16 0"]
      be16_at_append [where pre = "be16 0 @ be16 0 @ be16 0xC000" and w = 0 and post = "[]"]
    by simp_all
  then show ?thesis
    by (simp add: decode_numeric_def usize_of_i16_def)
qed

text \<open>A numeric parameter is sent as text although its column is declared binary: the bytes of \<open>1.5\<close> are not
  the binary form of any numeric.\<close>

lemma numeric_param_is_text: "decode_numeric (encode_numeric (lit ''1.5'') []) = Err (Decode 0 (WrongLength ''PgNumeric'' 8 3))"
  by (simp add: decode_numeric_def encode_numeric_def lit_def)

text \<open>A negative digit count panics.\<close>

lemma numeric_negative_count_panics: "decode_numeric (be16 (- 1) @ be16 0 @ be16 0 @ be16 0) = Panic"
proof -
  have "be16_at (be16 (- 1) @ be16 0 @ be16 0 @ be16 0) 0 = (Ok (- 1) :: i16 typed)"
    "be16_at (be16 (- 1) @ be16 0 @ be16 0 @ be16 0) 2 = (Ok 0 :: i16 typed)"
    "be16_at (be16 (- 1) @ be16 0 @ be16 0 @ be16 0) 4 = (Ok 0 :: i16 typed)"
    "be16_at (be16 (- 1) @ be16 0 @ be16 0 @ be16 0) 6 = (Ok 0 :: i16 typed)"
    using be16_at_append [where pre = "[]" and w = "- 1" and post = "be16 0 @ be16 0 @ be16 0"]
      be16_at_append [where pre = "be16 (- 1)" and w = 0 and post = "be16 0 @ be16 0"]
      be16_at_append [where pre = "be16 (- 1) @ be16 0" and w = 0 and post = "be16 0"]
      be16_at_append [where pre = "be16 (- 1) @ be16 0 @ be16 0" and w = 0 and post = "[]"]
    by simp_all
  then show ?thesis
    by (simp add: decode_numeric_def usize_of_i16_def)
qed

end
