(* ===== verification/Scram.thy ===== *)
theory Scram
  imports Stream Rust_Std
begin

unbundle bit_operations_syntax

text \<open>
  \<open>pg-wired/src/scram.rs\<close>: the SCRAM-SHA-256 client. The hash, HMAC and base64 come from third-party
  crates and are the fields of \<open>crypto\<close>; the nonce is an argument. The theorems show that the proof a
  client sends is the one a server that stores only \<open>StoredKey\<close> accepts, and that a server which does
  not extend the client's nonce gets no proof.
\<close>

record crypto =
  cr_hmac :: "bytes \<Rightarrow> bytes \<Rightarrow> bytes option"
  cr_sha256 :: "bytes \<Rightarrow> bytes"
  cr_b64_encode :: "bytes \<Rightarrow> rstring"
  cr_b64_decode :: "rstring \<Rightarrow> bytes option"

datatype channel_binding = NoBinding | TlsServerEndPoint bytes

record scram_client =
  sc_password :: rstring
  sc_nonce :: rstring
  sc_client_first_bare :: rstring
  sc_channel_binding :: channel_binding

type_synonym 'a scram = "(scram_error, 'a) res"

fun gs2_header :: "channel_binding \<Rightarrow> rstring" where
  "gs2_header NoBinding = lit ''n,,''"
| "gs2_header (TlsServerEndPoint _) = lit ''p=tls-server-end-point,,''"

text \<open>\<open>ScramClient::new\<close>, given the nonce it generates.\<close>

definition scram_new :: "rstring \<Rightarrow> rstring \<Rightarrow> channel_binding \<Rightarrow> scram_client \<times> bytes" where
  "scram_new nonce password cb =
     (let client_first_bare = lit ''n=,r='' @ nonce
      in (\<lparr>sc_password = password, sc_nonce = nonce, sc_client_first_bare = client_first_bare,
           sc_channel_binding = cb\<rparr>,
          gs2_header cb @ client_first_bare))"

definition hmac_sha256 :: "crypto \<Rightarrow> bytes \<Rightarrow> bytes \<Rightarrow> bytes scram" where
  "hmac_sha256 cr key data = (case cr_hmac cr key data of Some d \<Rightarrow> Ok d | None \<Rightarrow> Err HmacInit)"

definition xor_bytes :: "bytes \<Rightarrow> bytes \<Rightarrow> bytes" where
  "xor_bytes xs ys = map2 (\<lambda>a b. xor a b) xs ys"

text \<open>\<open>*r ^= x\<close> over the zipped iterators: bytes past the shorter one are left alone.\<close>

definition xor_into :: "bytes \<Rightarrow> bytes \<Rightarrow> bytes" where
  "xor_into result u = xor_bytes result u @ drop (length u) result"

fun hi_rounds :: "crypto \<Rightarrow> rstring \<Rightarrow> nat \<Rightarrow> bytes \<Rightarrow> bytes \<Rightarrow> bytes scram" where
  "hi_rounds cr password 0 u result = Ok result"
| "hi_rounds cr password (Suc n) u result =
     and_then (hmac_sha256 cr password u) (\<lambda>u. hi_rounds cr password n u (xor_into result u))"

definition hi :: "crypto \<Rightarrow> rstring \<Rightarrow> bytes \<Rightarrow> u32 \<Rightarrow> bytes scram" where
  "hi cr password salt iterations =
     and_then (hmac_sha256 cr password (salt @ be32 1)) (\<lambda>u.
       hi_rounds cr password (unat iterations - 1) u u)"

text \<open>The attributes of a server-first message: the loop over the comma-separated parts.\<close>

fun server_first_parts :: "bytes list \<Rightarrow> rstring \<times> rstring \<times> u32 \<Rightarrow> (rstring \<times> rstring \<times> u32) scram"
  where
  "server_first_parts [] acc = Ok acc"
| "server_first_parts (part # parts) (server_nonce, salt_b64, iterations) =
     (case strip_prefix (lit ''r='') part of
        Some v \<Rightarrow> server_first_parts parts (v, salt_b64, iterations)
      | None \<Rightarrow>
          (case strip_prefix (lit ''s='') part of
             Some v \<Rightarrow> server_first_parts parts (server_nonce, v, iterations)
           | None \<Rightarrow>
               (case strip_prefix (lit ''i='') part of
                  Some v \<Rightarrow>
                    (case parse_unsigned (2 ^ 32) v of
                       Some i \<Rightarrow> server_first_parts parts (server_nonce, salt_b64, word_of_nat i)
                     | None \<Rightarrow> Err InvalidIterations)
                | None \<Rightarrow> server_first_parts parts (server_nonce, salt_b64, iterations))))"

definition channel_binding_data :: "crypto \<Rightarrow> channel_binding \<Rightarrow> rstring" where
  "channel_binding_data cr cb =
     (case cb of
        NoBinding \<Rightarrow> cr_b64_encode cr (lit ''n,,'')
      | TlsServerEndPoint cert_hash \<Rightarrow>
          cr_b64_encode cr (lit ''p=tls-server-end-point,,'' @ cert_hash))"

definition process_server_first :: "crypto \<Rightarrow> scram_client \<Rightarrow> bytes \<Rightarrow> bytes scram" where
  "process_server_first cr c server_first =
     (case from_utf8 server_first of
        None \<Rightarrow> Err NotUtf8Server
      | Some server_first \<Rightarrow>
          and_then (server_first_parts (split_on 0x2C server_first) ([], [], 0))
            (\<lambda>(server_nonce, salt_b64, iterations).
          if \<not> starts_with (sc_nonce c) server_nonce then Err NonceMismatch
          else
            (case cr_b64_decode cr salt_b64 of
               None \<Rightarrow> Err InvalidBase64
             | Some salt \<Rightarrow>
                 and_then (hi cr (sc_password c) salt iterations) (\<lambda>salted_password.
                 and_then (hmac_sha256 cr salted_password (lit ''Client Key'')) (\<lambda>client_key.
                 let stored_key = cr_sha256 cr client_key;
                     client_final_without_proof =
                       lit ''c='' @ channel_binding_data cr (sc_channel_binding c)
                       @ lit '',r='' @ server_nonce;
                     auth_message = sc_client_first_bare c @ lit '','' @ server_first
                       @ lit '','' @ client_final_without_proof
                 in and_then (hmac_sha256 cr stored_key auth_message) (\<lambda>client_signature.
                      Ok (client_final_without_proof @ lit '',p=''
                          @ cr_b64_encode cr (xor_bytes client_key client_signature))))))))"

section \<open>The specification: RFC 5802\<close>

text \<open>What the crates document: HMAC-SHA-256 takes keys of any size and gives 32 bytes, base64 text is
  ASCII without commas and decodes to what was encoded.\<close>

definition crypto_ok :: "crypto \<Rightarrow> (bytes \<Rightarrow> bytes \<Rightarrow> bytes) \<Rightarrow> bool" where
  "crypto_ok cr hm \<longleftrightarrow>
     (\<forall>k d. cr_hmac cr k d = Some (hm k d) \<and> length (hm k d) = 32)
     \<and> (\<forall>x. cr_b64_decode cr (cr_b64_encode cr x) = Some x \<and> 0x2C \<notin> set (cr_b64_encode cr x)
            \<and> utf8_valid (cr_b64_encode cr x))"

text \<open>\<open>Hi\<close>: the exclusive or of \<open>i\<close> chained HMACs.\<close>

fun chained :: "(bytes \<Rightarrow> bytes \<Rightarrow> bytes) \<Rightarrow> rstring \<Rightarrow> bytes \<Rightarrow> nat \<Rightarrow> bytes" where
  "chained hm password salt 0 = hm password (salt @ be32 1)"
| "chained hm password salt (Suc n) = hm password (chained hm password salt n)"

definition Hi :: "(bytes \<Rightarrow> bytes \<Rightarrow> bytes) \<Rightarrow> rstring \<Rightarrow> bytes \<Rightarrow> nat \<Rightarrow> bytes" where
  "Hi hm password salt i =
     foldl xor_bytes (chained hm password salt 0) (map (chained hm password salt) [1..<i])"

definition stored_key_of ::
  "crypto \<Rightarrow> (bytes \<Rightarrow> bytes \<Rightarrow> bytes) \<Rightarrow> rstring \<Rightarrow> bytes \<Rightarrow> nat \<Rightarrow> bytes" where
  "stored_key_of cr hm password salt i = cr_sha256 cr (hm (Hi hm password salt i) (lit ''Client Key''))"

definition server_first_msg :: "crypto \<Rightarrow> rstring \<Rightarrow> bytes \<Rightarrow> nat \<Rightarrow> bytes" where
  "server_first_msg cr nonce salt i =
     lit ''r='' @ nonce @ lit '',s='' @ cr_b64_encode cr salt @ lit '',i='' @ decimal i"

text \<open>A server that holds only the stored key checks a client-final message.\<close>

definition server_verify ::
  "crypto \<Rightarrow> bytes \<Rightarrow> channel_binding \<Rightarrow> rstring \<Rightarrow> bytes \<Rightarrow> rstring \<Rightarrow> bytes \<Rightarrow> bool" where
  "server_verify cr stored_key cb client_first_bare server_first nonce client_final \<longleftrightarrow>
     (let without_proof = lit ''c='' @ channel_binding_data cr cb @ lit '',r='' @ nonce;
          auth = client_first_bare @ lit '','' @ server_first @ lit '','' @ without_proof
      in case strip_prefix (without_proof @ lit '',p='') client_final of
           None \<Rightarrow> False
         | Some p \<Rightarrow>
             (case (cr_b64_decode cr p, cr_hmac cr stored_key auth) of
                (Some proof, Some sig) \<Rightarrow> cr_sha256 cr (xor_bytes proof sig) = stored_key
              | _ \<Rightarrow> False))"

lemma length_xor_bytes [simp]: "length (xor_bytes xs ys) = min (length xs) (length ys)"
  by (simp add: xor_bytes_def)

lemma xor_bytes_cancel: "length xs = length ys \<Longrightarrow> xor_bytes (xor_bytes xs ys) ys = xs"
  unfolding xor_bytes_def by (induction xs ys rule: list_induct2) (simp_all add: xor.assoc)

lemma xor_into_same_length: "length xs = length ys \<Longrightarrow> xor_into xs ys = xor_bytes xs ys"
  by (simp add: xor_into_def)

lemma length_chained: "crypto_ok cr hm \<Longrightarrow> length (chained hm pw salt n) = 32"
  by (cases n) (simp_all add: crypto_ok_def)

lemma hmac_ok: "crypto_ok cr hm \<Longrightarrow> hmac_sha256 cr k d = Ok (hm k d)"
  by (simp add: crypto_ok_def hmac_sha256_def)

lemma hi_rounds_Hi:
  assumes "crypto_ok cr hm"
  shows "length r = 32 \<Longrightarrow> hi_rounds cr pw n (chained hm pw salt k) r
    = Ok (foldl xor_bytes r (map (chained hm pw salt) [Suc k..<Suc k + n]))"
proof (induction n arbitrary: k r)
  case (Suc n)
  have "[Suc k..<Suc k + Suc n] = Suc k # [Suc (Suc k)..<Suc (Suc k) + n]"
    by (subst upt_rec) simp
  moreover have "hi_rounds cr pw n (chained hm pw salt (Suc k))
      (xor_into r (hm pw (chained hm pw salt k)))
    = Ok (foldl xor_bytes (xor_into r (hm pw (chained hm pw salt k)))
        (map (chained hm pw salt) [Suc (Suc k)..<Suc (Suc k) + n]))"
    using assms Suc.prems by (intro Suc.IH) (simp add: crypto_ok_def xor_into_same_length)
  ultimately show ?case
    using assms Suc.prems by (simp add: hmac_ok [OF assms] crypto_ok_def xor_into_same_length)
qed simp

lemma hi_Hi:
  assumes "crypto_ok cr hm" and "0 < unat i"
  shows "hi cr pw salt i = Ok (Hi hm pw salt (unat i))"
  using hi_rounds_Hi [OF assms(1), of "chained hm pw salt 0" pw "unat i - 1" salt 0] assms
    length_chained [OF assms(1), of pw salt 0]
  by (simp add: hi_def hmac_ok Hi_def)

lemma lit_Cons: "lit (c # s) = of_char c # lit s"
  by (simp add: lit_def)

lemma lit_Nil [simp]: "lit [] = []"
  by (simp add: lit_def)

lemma decimal_no_comma: "0x2C \<notin> set (decimal n)"
  using decimal_digits [of n] by (auto simp: list_all_iff is_digit_def)

lemma server_first_parts_msg:
  assumes "crypto_ok cr hm" and "0x2C \<notin> set nonce" and "i < 2 ^ 32"
  shows "server_first_parts (split_on 0x2C (server_first_msg cr nonce salt i)) ([], [], 0)
    = Ok (nonce, cr_b64_encode cr salt, word_of_nat i)"
proof -
  have b: "0x2C \<notin> set (cr_b64_encode cr salt)"
    using assms(1) by (simp add: crypto_ok_def)
  have "split_on 0x2C (server_first_msg cr nonce salt i)
      = [lit ''r='' @ nonce, lit ''s='' @ cr_b64_encode cr salt, lit ''i='' @ decimal i]"
    using split_on_append [of "0x2C" "lit ''r='' @ nonce"]
      split_on_append [of "0x2C" "lit ''s='' @ cr_b64_encode cr salt"]
      split_on_single [of "0x2C" "lit ''i='' @ decimal i"] assms(2) b decimal_no_comma [of i]
    by (simp add: server_first_msg_def lit_Cons)
  then show ?thesis
    using assms(3) by (simp add: strip_prefix_def starts_with_def lit_Cons)
qed

lemma utf8_valid_lit: "\<forall>c \<in> set s. of_char c < (0x80 :: u8) \<Longrightarrow> utf8_valid (lit s @ r) = utf8_valid r"
  by (intro utf8_valid_append utf8_valid_ascii) (auto simp: lit_def)

lemma server_first_utf8:
  "crypto_ok cr hm \<Longrightarrow> utf8_valid nonce \<Longrightarrow> utf8_valid (server_first_msg cr nonce salt i)"
  by (simp add: server_first_msg_def utf8_valid_lit utf8_valid_append crypto_ok_def decimal_utf8)

lemma client_final_verifies:
  assumes "crypto_ok cr hm" and "0x2C \<notin> set (nonce @ ext)" and "utf8_valid (nonce @ ext)"
    and "0 < i" and "i < 2 ^ 32"
  shows "case process_server_first cr (fst (scram_new nonce password cb))
            (server_first_msg cr (nonce @ ext) salt i) of
           Ok final \<Rightarrow> server_verify cr (stored_key_of cr hm password salt i) cb (lit ''n=,r='' @ nonce)
                         (server_first_msg cr (nonce @ ext) salt i) (nonce @ ext) final
         | _ \<Rightarrow> False"
proof -
  have i: "unat (word_of_nat i :: u32) = i" using assms(5) by (simp add: unat_of_nat)
  have dec: "cr_b64_decode cr (cr_b64_encode cr x) = Some x" for x
    using assms(1) by (simp add: crypto_ok_def)
  have hmac: "cr_hmac cr k d = Some (hm k d)" "length (hm k d) = 32" for k d
    using assms(1) by (simp_all add: crypto_ok_def)
  have hi: "hi cr password salt (word_of_nat i) = Ok (Hi hm password salt i)"
    using hi_Hi [OF assms(1), of "word_of_nat i"] assms(4) i by simp
  show ?thesis
    using server_first_parts_msg [OF assms(1,2,5), of salt] server_first_utf8 [OF assms(1,3)] hi
    by (simp add: process_server_first_def scram_new_def from_utf8_def dec hmac_sha256_def hmac
        Let_def server_verify_def stored_key_of_def xor_bytes_cancel flip: append_assoc)
qed

text \<open>C13: The client's final message authenticates: a server that stores only the salted, hashed key of
  the same password, and sends a nonce extending the client's, accepts the proof (RFC 5802).\<close>

theorem scram_server_accepts:
  assumes "crypto_ok cr hm" and "0x2C \<notin> set (nonce @ ext)" and "utf8_valid (nonce @ ext)"
    and "0 < i" and "i < 2 ^ 32"
  shows "case process_server_first cr (fst (scram_new nonce password cb))
            (server_first_msg cr (nonce @ ext) salt i) of
           Ok final \<Rightarrow> server_verify cr (stored_key_of cr hm password salt i) cb (lit ''n=,r='' @ nonce)
                         (server_first_msg cr (nonce @ ext) salt i) (nonce @ ext) final
         | _ \<Rightarrow> False"
  by (rule client_final_verifies [OF assms])

text \<open>An instance of the crates' contract to apply the theorem at.\<close>

definition sample_encode :: "bytes \<Rightarrow> rstring" where
  "sample_encode bs = concat (map (\<lambda>b. [drop_bit 4 b + 65, (b AND 15) + 65]) bs)"

fun sample_decode :: "rstring \<Rightarrow> bytes option" where
  "sample_decode (x # y # r) = map_option (\<lambda>t. (push_bit 4 (x - 65) OR (y - 65)) # t) (sample_decode r)"
| "sample_decode [] = Some []"
| "sample_decode [_] = None"

definition sample_hmac :: "bytes \<Rightarrow> bytes \<Rightarrow> bytes" where
  "sample_hmac k d = take 32 (d @ k @ replicate 32 0)"

definition sample_crypto :: crypto where
  "sample_crypto = \<lparr>cr_hmac = \<lambda>k d. Some (sample_hmac k d), cr_sha256 = \<lambda>x. x,
     cr_b64_encode = sample_encode, cr_b64_decode = sample_decode\<rparr>"

lemma sample_nibbles:
  fixes b :: u8
  shows "push_bit 4 (drop_bit 4 b) OR (b AND 15) = b"
    and "drop_bit 4 b + 65 < 0x80" and "(b AND 15) + 65 < 0x80"
    and "drop_bit 4 b + 65 \<noteq> 0x2C" and "(b AND 15) + 65 \<noteq> 0x2C"
proof -
  have m: "(15 :: u8) = mask 4" by (simp add: mask_eq_exp_minus_1)
  show "push_bit 4 (drop_bit 4 b) OR (b AND 15) = b"
    unfolding m by (rule bit_eqI) (auto simp: bit_simps)
  have u: "unat (drop_bit 4 b) < 16" "unat (b AND 15) < 16"
    using unsigned_less [of b, where ?'a = nat]
    by (simp_all add: m drop_bit_eq_div take_bit_eq_mod unat_div unat_mod flip: take_bit_eq_mask)
  have s: "unat (x + 65) = unat x + 65" if "unat x < 16" for x :: u8
    using that by (simp add: unat_word_ariths)
  show "drop_bit 4 b + 65 < 0x80" and "(b AND 15) + 65 < 0x80"
    using u s [OF u(1)] s [OF u(2)] by (simp_all add: word_less_nat_alt)
  show "drop_bit 4 b + 65 \<noteq> 0x2C" and "(b AND 15) + 65 \<noteq> 0x2C"
  proof -
    have "x + 65 \<noteq> 0x2C" if "unat x < 16" for x :: u8
    proof
      assume "x + 65 = 0x2C"
      then have "unat (x + 65) = unat (0x2C :: u8)" by (simp only:)
      with s [OF that] show False by simp
    qed
    with u show "drop_bit 4 b + 65 \<noteq> 0x2C" and "(b AND 15) + 65 \<noteq> 0x2C" by blast+
  qed
qed

lemma sample_crypto_ok: "crypto_ok sample_crypto sample_hmac"
proof -
  have d: "sample_decode (sample_encode x) = Some x" for x
    by (induction x) (simp_all add: sample_encode_def sample_nibbles)
  have c: "0x2C \<notin> set (sample_encode x)" and a: "\<forall>b \<in> set (sample_encode x). b < 0x80" for x
    using sample_nibbles by (auto simp: sample_encode_def)
  show ?thesis
    using d c utf8_valid_ascii [OF a]
    by (simp add: crypto_ok_def sample_crypto_def) (auto simp: sample_hmac_def min_def)
qed

theorem scram_server_accepts_witness:
  "case process_server_first sample_crypto (fst (scram_new (lit ''ab'') (lit ''pw'') NoBinding))
      (server_first_msg sample_crypto (lit ''ab'' @ lit ''cd'') [1, 2] 4096) of
     Ok final \<Rightarrow> server_verify sample_crypto
        (stored_key_of sample_crypto sample_hmac (lit ''pw'') [1, 2] 4096) NoBinding
        (lit ''n=,r='' @ lit ''ab'') (server_first_msg sample_crypto (lit ''ab'' @ lit ''cd'') [1, 2] 4096)
        (lit ''ab'' @ lit ''cd'') final
   | _ \<Rightarrow> False"
  by (rule scram_server_accepts [OF sample_crypto_ok])
    (simp_all add: lit_def utf8_valid_ascii)

text \<open>A server that does not extend the client's nonce gets an error, not a proof.\<close>

lemma scram_rejects_foreign_nonce:
  assumes "crypto_ok cr hm" and "0x2C \<notin> set nonce'" and "utf8_valid nonce'" and "i < 2 ^ 32"
    and "\<not> starts_with nonce nonce'"
  shows "process_server_first cr (fst (scram_new nonce password cb)) (server_first_msg cr nonce' salt i)
    = Err NonceMismatch"
  using server_first_parts_msg [OF assms(1,2,4), of salt] server_first_utf8 [OF assms(1,3)] assms(5)
  by (simp add: process_server_first_def scram_new_def from_utf8_def Let_def)

text \<open>An iteration count of zero is taken as one.\<close>

lemma hi_zero_is_one: "hi cr password salt 0 = hi cr password salt 1"
  by (simp add: hi_def)

end
