(* ===== verification/Cert_Hash.thy ===== *)
theory Cert_Hash
  imports Prelude
begin

unbundle bit_operations_syntax

text \<open>
  \<open>pg-wired/src/cert_hash.rs\<close>: the channel-binding hash of a server certificate. The SHA-2 functions
  are third-party and the fields of \<open>digests\<close>. The specification is a DER encoder of certificates: the
  hash is taken with the digest that the certificate's signature algorithm names.
\<close>

record digests =
  dg_sha256 :: "bytes \<Rightarrow> bytes"
  dg_sha384 :: "bytes \<Rightarrow> bytes"
  dg_sha512 :: "bytes \<Rightarrow> bytes"

datatype sig_digest = Sha256 | Sha384 | Sha512

definition sig_digest_for_oid :: "u32 list \<Rightarrow> sig_digest option" where
  "sig_digest_for_oid oid =
     (if oid = [1, 2, 840, 113549, 1, 1, 11] then Some Sha256
      else if oid = [1, 2, 840, 113549, 1, 1, 12] then Some Sha384
      else if oid = [1, 2, 840, 113549, 1, 1, 13] then Some Sha512
      else if oid = [1, 2, 840, 10045, 4, 3, 2] then Some Sha256
      else if oid = [1, 2, 840, 10045, 4, 3, 3] then Some Sha384
      else if oid = [1, 2, 840, 10045, 4, 3, 4] then Some Sha512
      else if oid = [1, 3, 101, 112] then Some Sha512
      else None)"

text \<open>\<open>buf.get(i..j)\<close> and \<open>buf.get(i..)\<close>.\<close>

definition get_range :: "bytes \<Rightarrow> nat \<Rightarrow> nat \<Rightarrow> bytes option" where
  "get_range buf i j = (if i \<le> j \<and> j \<le> length buf then Some (take (j - i) (drop i buf)) else None)"

definition get_from :: "bytes \<Rightarrow> nat \<Rightarrow> bytes option" where
  "get_from buf i = (if i \<le> length buf then Some (drop i buf) else None)"

text \<open>The length is built in a \<open>usize\<close> from at most eight bytes.\<close>

definition read_length :: "bytes \<Rightarrow> (nat \<times> nat) option" where
  "read_length buf =
     (case buf of
        [] \<Rightarrow> None
      | first # _ \<Rightarrow>
          if first AND 0x80 = 0 then Some (1, unat first)
          else
            let n = unat (first AND 0x7F)
            in if n = 0 \<or> n > 8 then None
               else case get_range buf 1 (1 + n) of
                      None \<Rightarrow> None
                    | Some bytes \<Rightarrow>
                        Some (1 + n, foldl (\<lambda>len b. (len * 256) mod usize_limit + unat b) 0 bytes))"

definition read_tlv :: "bytes \<Rightarrow> u8 \<Rightarrow> (nat \<times> bytes) option" where
  "read_tlv buf expected_tag =
     (case buf of
        [] \<Rightarrow> None
      | t # rest \<Rightarrow>
          if t \<noteq> expected_tag then None
          else
            case read_length rest of
              None \<Rightarrow> None
            | Some (len_bytes, content_len) \<Rightarrow>
                let header_len = 1 + len_bytes; total_len = header_len + content_len
                in if total_len \<ge> usize_limit then None
                   else case get_range buf header_len total_len of
                          None \<Rightarrow> None
                        | Some content \<Rightarrow> Some (total_len, content))"

text \<open>The loop of \<open>decode_oid\<close>: shifting a \<open>u32\<close> by 7 drops the high bits, the addition is checked.\<close>

fun oid_arcs :: "u32 \<Rightarrow> bytes \<Rightarrow> u32 list option" where
  "oid_arcs acc [] = (if acc \<noteq> 0 then None else Some [])"
| "oid_arcs acc (b # bs) =
     (let s = push_bit 7 acc; d = ucast (b AND 0x7F)
      in if unat s + unat d \<ge> 2 ^ 32 then None
         else if b AND 0x80 = 0 then map_option (\<lambda>out. (s + d) # out) (oid_arcs 0 bs)
         else oid_arcs (s + d) bs)"

definition decode_oid :: "bytes \<Rightarrow> u32 list option" where
  "decode_oid buf =
     (case buf of
        [] \<Rightarrow> None
      | b # bs \<Rightarrow>
          let first = ucast b :: u32
          in map_option (\<lambda>out. first div 40 # first mod 40 # out) (oid_arcs 0 bs))"

definition parse_signature_oid :: "bytes \<Rightarrow> u32 list option" where
  "parse_signature_oid der =
     (case read_tlv der 0x30 of
        None \<Rightarrow> None
      | Some (_, outer_body) \<Rightarrow>
          (case read_tlv outer_body 0x30 of
             None \<Rightarrow> None
           | Some (tbs_total_len, _) \<Rightarrow>
               (case get_from outer_body tbs_total_len of
                  None \<Rightarrow> None
                | Some after_tbs \<Rightarrow>
                    (case read_tlv after_tbs 0x30 of
                       None \<Rightarrow> None
                     | Some (_, alg_body) \<Rightarrow>
                         (case read_tlv alg_body 0x06 of
                            None \<Rightarrow> None
                          | Some (_, oid_body) \<Rightarrow> decode_oid oid_body)))))"

definition cert_signature_hash :: "digests \<Rightarrow> bytes \<Rightarrow> bytes" where
  "cert_signature_hash dg cert_der =
     (case Option.bind (parse_signature_oid cert_der) sig_digest_for_oid of
        Some Sha384 \<Rightarrow> dg_sha384 dg cert_der
      | Some Sha512 \<Rightarrow> dg_sha512 dg cert_der
      | _ \<Rightarrow> dg_sha256 dg cert_der)"

section \<open>The specification: DER\<close>

text \<open>The number of bytes a length needs, and the definite-length encoding.\<close>

fun byte_count :: "nat \<Rightarrow> nat" where
  "byte_count n = (if n < 256 then 1 else Suc (byte_count (n div 256)))"

declare byte_count.simps [simp del]

definition der_length :: "nat \<Rightarrow> bytes" where
  "der_length n =
     (if n < 128 then [word_of_nat n]
      else (0x80 OR word_of_nat (byte_count n)) # be_bytes (byte_count n) n)"

definition tlv :: "u8 \<Rightarrow> bytes \<Rightarrow> bytes" where
  "tlv tag content = tag # der_length (length content) @ content"

text \<open>An arc in base 128, most significant first, the high bit on all but the last byte.\<close>

fun arc_high :: "nat \<Rightarrow> bytes" where
  "arc_high n = (if n = 0 then [] else arc_high (n div 128) @ [word_of_nat (128 + n mod 128)])"

declare arc_high.simps [simp del]

definition arc_bytes :: "nat \<Rightarrow> bytes" where
  "arc_bytes n = arc_high (n div 128) @ [word_of_nat (n mod 128)]"

fun der_oid :: "nat list \<Rightarrow> bytes" where
  "der_oid (a # b # arcs) = word_of_nat (40 * a + b) # concat (map arc_bytes arcs)"
| "der_oid _ = []"

definition oid_ok :: "nat list \<Rightarrow> bool" where
  "oid_ok oid \<longleftrightarrow> 2 \<le> length oid \<and> oid ! 0 < 3 \<and> oid ! 1 < 40 \<and> (\<forall>a \<in> set oid. a < 2 ^ 32)"

definition der_certificate :: "bytes \<Rightarrow> nat list \<Rightarrow> bytes \<Rightarrow> bytes \<Rightarrow> bytes" where
  "der_certificate tbs oid params sig =
     tlv 0x30 (tlv 0x30 tbs @ tlv 0x30 (tlv 0x06 (der_oid oid) @ params) @ sig)"

lemma byte_count_le: "n < 256 ^ Suc k \<Longrightarrow> byte_count n \<le> Suc k"
proof (induction k arbitrary: n)
  case (Suc k)
  then have "n div 256 < 256 ^ Suc k"
    by (simp add: less_mult_imp_div_less mult.commute)
  with Suc.IH [of "n div 256"] show ?case by (subst byte_count.simps) simp
qed (simp add: byte_count.simps)

lemma byte_count_pos: "0 < byte_count n"
  by (subst byte_count.simps) simp

lemma less_byte_count: "n < 256 ^ byte_count n"
proof (induction n rule: byte_count.induct)
  case (1 n)
  then show ?case
    by (subst byte_count.simps) (auto simp: less_mult_imp_div_less dest: div_less_iff_less_mult [THEN iffD1, rotated])
qed

lemma high_bit_u8: "w AND 0x80 = 0 \<longleftrightarrow> unat w < 128" for w :: u8
proof -
  have "unat w < 256"
    using unsigned_less [of w, where ?'a = nat] by simp
  moreover have "w AND 2 ^ 7 = 0 \<longleftrightarrow> \<not> odd (unat w div 2 ^ 7)"
    by (simp only: and_exp_eq_0_iff_not_bit bit_unsigned_iff flip: bit_iff_odd) simp
  moreover have "unat w div 128 < 2" using \<open>unat w < 256\<close> by simp
  ultimately show ?thesis by (auto simp: less_2_cases_iff)
qed

lemma low_bits_u8: "unat (w AND 0x7F) = unat w mod 128" for w :: u8
proof -
  have "(0x7F :: u8) = mask 7" by (simp add: mask_eq_exp_minus_1)
  then have "w AND 0x7F = take_bit 7 w" by (simp only: take_bit_eq_mask)
  then show ?thesis by (simp add: take_bit_eq_mod unat_mod)
qed

lemma of_be_checked:
  "length bs \<le> 8 \<Longrightarrow> foldl (\<lambda>len b. (len * 256) mod usize_limit + unat b) 0 bs = of_be bs"
proof (induction bs rule: rev_induct)
  case (snoc b bs)
  have "of_be bs < 256 ^ 7"
    using of_be_less [of bs] power_increasing [of "length bs" 7 "256 :: nat"] snoc.prems by simp
  with snoc show ?case by (simp add: of_be_snoc)
qed simp

lemma read_length_der:
  assumes "n < 2 ^ 56"
  shows "read_length (der_length n @ r) = Some (length (der_length n), n)"
proof (cases "n < 128")
  case True
  then have "unat (word_of_nat n :: u8) = n" by (simp add: unat_of_nat)
  with True show ?thesis by (simp add: read_length_def der_length_def high_bit_u8)
next
  case False
  let ?k = "byte_count n"
  have k: "0 < ?k" "?k \<le> 7"
    using byte_count_pos byte_count_le [of n 6] assms by auto
  then have "?k \<in> {1, 2, 3, 4, 5, 6, 7}" by auto
  then have w: "unat (0x80 OR word_of_nat ?k :: u8) = 128 + ?k" by auto
  have "read_length (der_length n @ r)
      = Some (1 + ?k, foldl (\<lambda>len b. (len * 256) mod usize_limit + unat b) 0 (be_bytes ?k n))"
    using False k w by (simp add: read_length_def der_length_def high_bit_u8 low_bits_u8 get_range_def Let_def)
  with k show ?thesis
    using False less_byte_count [of n] by (simp add: of_be_checked of_be_be_bytes der_length_def)
qed

lemma read_tlv_tlv:
  assumes "length c < 2 ^ 56"
  shows "read_tlv (tlv t c @ r) t = Some (length (tlv t c), c)"
proof -
  have "length (der_length (length c)) \<le> 8"
    using byte_count_le [of "length c" 6] assms by (auto simp: der_length_def)
  with read_length_der [OF assms, of "c @ r"] assms show ?thesis
    by (simp add: read_tlv_def tlv_def get_range_def Let_def)
qed

lemma arc_step:
  assumes "unat acc * 128 + d < 2 ^ 32" and "d < 128" and "unat b mod 128 = d"
  shows "oid_arcs acc (b # bs) =
    (if unat b < 128 then map_option (\<lambda>out. word_of_nat (unat acc * 128 + d) # out) (oid_arcs 0 bs)
     else oid_arcs (word_of_nat (unat acc * 128 + d)) bs)"
proof -
  have s: "push_bit 7 acc = word_of_nat (unat acc * 128)"
    by (simp add: push_bit_eq_mult mult.commute)
  have us: "unat (push_bit 7 acc) = unat acc * 128"
    using assms(1) unfolding s by (simp add: unat_of_nat del: of_nat_mult)
  have d: "ucast (b AND 0x7F) = (word_of_nat d :: u32)"
    using assms(3) low_bits_u8 [of b] by (metis of_nat_unat)
  have ud: "unat (word_of_nat d :: u32) = d"
    using assms(2) by (simp add: unat_of_nat)
  have "push_bit 7 acc + ucast (b AND 0x7F) = word_of_nat (unat acc * 128 + d)"
    unfolding s d by simp
  with us ud d assms(1) show ?thesis
    by (simp add: Let_def high_bit_u8 del: of_nat_add of_nat_mult)
qed

lemma oid_arcs_high: "n < 2 ^ 25 \<Longrightarrow> oid_arcs 0 (arc_high n @ bs) = oid_arcs (word_of_nat n) bs"
proof (induction n arbitrary: bs rule: arc_high.induct)
  case (1 n)
  show ?case
  proof (cases "n = 0")
    case False
    have u: "unat (word_of_nat (n div 128) :: u32) = n div 128"
      "unat (word_of_nat (128 + n mod 128) :: u8) = 128 + n mod 128"
      using "1.prems" by (simp_all only: unat_of_nat) simp_all
    have "oid_arcs 0 (arc_high n @ bs)
        = oid_arcs (word_of_nat (n div 128)) (word_of_nat (128 + n mod 128) # bs)"
      using 1 False by (subst arc_high.simps) (simp del: of_nat_add)
    also have "\<dots> = oid_arcs (word_of_nat n) bs"
      using "1.prems" u
      by (subst arc_step [where d = "n mod 128"]) (simp_all del: of_nat_add of_nat_mult)
    finally show ?thesis .
  qed (simp add: arc_high.simps)
qed

lemma oid_arcs_arc:
  assumes "a < 2 ^ 32"
  shows "oid_arcs 0 (arc_bytes a @ bs) = map_option (\<lambda>out. word_of_nat a # out) (oid_arcs 0 bs)"
proof -
  have u: "unat (word_of_nat (a div 128) :: u32) = a div 128"
    "unat (word_of_nat (a mod 128) :: u8) = a mod 128"
    using assms by (simp_all only: unat_of_nat) simp_all
  have "oid_arcs 0 (arc_bytes a @ bs) = oid_arcs (word_of_nat (a div 128)) (word_of_nat (a mod 128) # bs)"
    using oid_arcs_high [of "a div 128"] assms by (simp add: arc_bytes_def)
  also have "\<dots> = map_option (\<lambda>out. word_of_nat a # out) (oid_arcs 0 bs)"
    using assms u by (subst arc_step [where d = "a mod 128"]) (simp_all del: of_nat_add of_nat_mult)
  finally show ?thesis .
qed

lemma decode_oid_der:
  assumes "oid_ok oid"
  shows "decode_oid (der_oid oid) = Some (map word_of_nat oid)"
proof -
  obtain a b arcs where oid: "oid = a # b # arcs"
    using assms by (cases oid rule: der_oid.cases) (auto simp: oid_ok_def)
  have ab: "a < 3" "b < 40" using assms oid by (auto simp: oid_ok_def)
  have arcs: "oid_arcs 0 (concat (map arc_bytes arcs)) = Some (map word_of_nat arcs)"
    using assms unfolding oid oid_ok_def by (induction arcs) (auto simp: oid_arcs_arc)
  have u: "unat (word_of_nat (40 * a + b) :: u8) = 40 * a + b"
    using ab by (simp only: unat_of_nat) simp
  have w: "ucast (word_of_nat (40 * a + b) :: u8) = (word_of_nat (40 * a + b) :: u32)"
    using u by (metis of_nat_unat)
  have u32: "unat (word_of_nat (40 * a + b) :: u32) = 40 * a + b"
    using ab by (simp only: unat_of_nat) simp
  have "unat (word_of_nat a :: u32) = a" "unat (word_of_nat b :: u32) = b"
    using ab by (simp_all add: unat_of_nat)
  then have "unat ((word_of_nat (40 * a + b) :: u32) div 40) = unat (word_of_nat a :: u32)"
    "unat ((word_of_nat (40 * a + b) :: u32) mod 40) = unat (word_of_nat b :: u32)"
    using ab by (simp_all add: unat_div unat_mod u32 del: of_nat_add of_nat_mult)
  then have "(word_of_nat (40 * a + b) :: u32) div 40 = word_of_nat a"
    "(word_of_nat (40 * a + b) :: u32) mod 40 = word_of_nat b"
    by (blast intro: unsigned_word_eqI)+
  then show ?thesis
    by (simp add: decode_oid_def oid w arcs Let_def del: of_nat_add of_nat_mult)
qed

text \<open>The channel-binding hash of a certificate is taken with the digest of the certificate's
  signature algorithm: for any DER certificate the algorithm identifier is found and decides.\<close>

theorem cert_signature_hash_der:
  assumes "oid_ok oid" and "length (der_certificate tbs oid params sig) < 2 ^ 56"
  shows "cert_signature_hash dg (der_certificate tbs oid params sig) =
    (case sig_digest_for_oid (map word_of_nat oid) of
       Some Sha384 \<Rightarrow> dg_sha384 dg (der_certificate tbs oid params sig)
     | Some Sha512 \<Rightarrow> dg_sha512 dg (der_certificate tbs oid params sig)
     | _ \<Rightarrow> dg_sha256 dg (der_certificate tbs oid params sig))"
proof -
  have len: "length c \<le> length (tlv t c)" for t c by (simp add: tlv_def)
  let ?alg = "tlv 0x06 (der_oid oid) @ params"
  let ?body = "tlv 0x30 tbs @ tlv 0x30 ?alg @ sig"
  have l: "length ?body < 2 ^ 56" "length ?alg < 2 ^ 56" "length (der_oid oid) < 2 ^ 56" "length tbs < 2 ^ 56"
    using assms(2) len [of ?body "0x30"] len [of ?alg "0x30"] len [of "der_oid oid" "0x06"] len [of tbs "0x30"]
    by (simp_all add: der_certificate_def)
  have "parse_signature_oid (der_certificate tbs oid params sig) = Some (map word_of_nat oid)"
    using read_tlv_tlv [OF l(1), where t = "0x30" and r = "[]"]
      read_tlv_tlv [OF l(4), where t = "0x30" and r = "tlv 0x30 ?alg @ sig"]
      read_tlv_tlv [OF l(2), where t = "0x30" and r = sig]
      read_tlv_tlv [OF l(3), where t = "0x06" and r = params]
    by (simp add: parse_signature_oid_def der_certificate_def get_from_def decode_oid_der [OF assms(1)])
  then show ?thesis by (simp add: cert_signature_hash_def)
qed

definition sample_digests :: digests where
  "sample_digests = \<lparr>dg_sha256 = Cons 1, dg_sha384 = Cons 2, dg_sha512 = Cons 3\<rparr>"

theorem cert_signature_hash_der_witness:
  "cert_signature_hash sample_digests (der_certificate [1] [1, 3, 101, 112] [] [9])
   = dg_sha512 sample_digests (der_certificate [1] [1, 3, 101, 112] [] [9])"
proof -
  have "oid_ok [1, 3, 101, 112]" by (simp add: oid_ok_def)
  moreover have "length (der_certificate [1] [1, 3, 101, 112] [] [9]) = 13"
    by code_simp
  moreover have "sig_digest_for_oid (map word_of_nat [1, 3, 101, 112]) = Some Sha512"
    by (simp add: sig_digest_for_oid_def)
  ultimately show ?thesis
    using cert_signature_hash_der [where oid = "[1, 3, 101, 112]" and tbs = "[1]" and params = "[]"
        and sig = "[9]" and dg = sample_digests] by simp
qed

end
