(* ===== verification/Connection.thy ===== *)
theory Connection
  imports Scram Cert_Hash
begin

text \<open>
  \<open>pg-wired/src/connection.rs\<close>: \<open>WireConn\<close>, the connection that a single task owns. The state is the
  struct together with its socket: what the reads deliver, what has been written, and which of the
  coming writes fail. It begins at \<open>finish_startup\<close>; \<open>connect_inner\<close>, which opens the
  socket and negotiates TLS, is in \<open>Tls\<close>.
\<close>

datatype tls_stream = Plain | TlsStream "bytes option"

record wire_conn =
  wc_rh :: read_half
  wc_sent :: bytes
  wc_faults :: "bool list"
  wc_tls :: tls_stream
  wc_pid :: i32
  wc_secret :: i32
  wc_params :: "rstring \<rightharpoonup> rstring"
  wc_auth :: rstring

text \<open>The third-party functions of a startup, and the nonce it draws.\<close>

record startup_deps =
  sd_crypto :: crypto
  sd_digests :: digests
  sd_md5 :: "bytes \<Rightarrow> bytes"
  sd_nonce :: rstring

section \<open>Primitive operations\<close>

text \<open>Sequencing of steps that may wait or fail.\<close>

fun aw_then :: "'a awaited \<times> 's \<Rightarrow> ('a \<Rightarrow> 's \<Rightarrow> 'b awaited \<times> 's) \<Rightarrow> 'b awaited \<times> 's" where
  "aw_then (Some (Ok a), s) f = f a s"
| "aw_then (Some (Err e), s) f = (Some (Err e), s)"
| "aw_then (Some Panic, s) f = (Some Panic, s)"
| "aw_then (None, s) f = (None, s)"

definition send_raw :: "bytes \<Rightarrow> wire_conn \<Rightarrow> unit awaited \<times> wire_conn" where
  "send_raw buf c =
     (case wc_faults c of
        True # fs \<Rightarrow> (Some (Err (Io OtherIo)), c\<lparr>wc_faults := fs\<rparr>)
      | False # fs \<Rightarrow> (Some (Ok ()), c\<lparr>wc_faults := fs, wc_sent := wc_sent c @ buf\<rparr>)
      | [] \<Rightarrow> (Some (Ok ()), c\<lparr>wc_sent := wc_sent c @ buf\<rparr>))"

definition conn_loop ::
  "('st \<Rightarrow> backend_msg \<Rightarrow> 'st \<times> 'r option) \<Rightarrow> 'st \<Rightarrow> wire_conn \<Rightarrow> 'r awaited \<times> wire_conn" where
  "conn_loop step st c =
     (case msg_loop step st (wc_rh c) of (r, _, rh) \<Rightarrow> (r, c\<lparr>wc_rh := rh\<rparr>))"

definition has_pending_data :: "wire_conn \<Rightarrow> bool" where
  "has_pending_data c \<longleftrightarrow> rh_buf (wc_rh c) \<noteq> []"

fun drain_step :: "unit \<Rightarrow> backend_msg \<Rightarrow> unit \<times> unit option" where
  "drain_step _ (ReadyForQuery _) = ((), Some ())"
| "drain_step _ _ = ((), None)"

definition drain_until_ready :: "wire_conn \<Rightarrow> unit awaited \<times> wire_conn" where
  "drain_until_ready c = conn_loop drain_step () c"

text \<open>The loops that stop at an \<open>ErrorResponse\<close> drain to \<open>ReadyForQuery\<close> and return it.\<close>

definition or_drain :: "(pg_error + 'a) awaited \<times> wire_conn \<Rightarrow> 'a awaited \<times> wire_conn" where
  "or_drain r =
     aw_then r (\<lambda>x c.
       case x of
         Inr a \<Rightarrow> (Some (Ok a), c)
       | Inl e \<Rightarrow> aw_then (drain_until_ready c) (\<lambda>_ c. (Some (Err (Pg e)), c)))"

fun rows_step ::
  "raw_row list \<times> rstring \<Rightarrow> backend_msg
     \<Rightarrow> (raw_row list \<times> rstring) \<times> (pg_error + raw_row list \<times> rstring) option" where
  "rows_step (rows, tag) (DataRow row) = ((rows @ [row], tag), None)"
| "rows_step (rows, tag) (CommandComplete t) = ((rows, t), None)"
| "rows_step (rows, tag) (ReadyForQuery _) = ((rows, tag), Some (Inr (rows, tag)))"
| "rows_step (rows, tag) (ErrorResponse e) = ((rows, tag), Some (Inl e))"
| "rows_step (rows, tag) _ = ((rows, tag), None)"

definition collect_rows :: "wire_conn \<Rightarrow> (raw_row list \<times> rstring) awaited \<times> wire_conn" where
  "collect_rows c = or_drain (conn_loop rows_step ([], []) c)"

fun describe_step ::
  "oid list \<times> field_description list \<Rightarrow> backend_msg
     \<Rightarrow> (oid list \<times> field_description list) \<times> (pg_error + oid list \<times> field_description list) option"
  where
  "describe_step (oids, fds) (ParameterDescription type_oids) = ((type_oids, fds), None)"
| "describe_step (oids, fds) (RowDescription f) = ((oids, f), None)"
| "describe_step (oids, fds) (ReadyForQuery _) = ((oids, fds), Some (Inr (oids, fds)))"
| "describe_step (oids, fds) (ErrorResponse e) = ((oids, fds), Some (Inl e))"
| "describe_step (oids, fds) _ = ((oids, fds), None)"

definition describe_statement ::
  "rstring \<Rightarrow> wire_conn \<Rightarrow> (oid list \<times> field_description list) awaited \<times> wire_conn" where
  "describe_statement sql c =
     (let buf = encode_message (Parse [] sql []) [];
          buf = encode_message (Describe 0x53 []) buf;
          buf = encode_message Sync buf
      in aw_then (send_raw buf c) (\<lambda>_ c. or_drain (conn_loop describe_step ([], []) c)))"

section \<open>Startup\<close>

definition scram_plus :: rstring where "scram_plus = lit ''SCRAM-SHA-256-PLUS''"
definition scram_plain :: rstring where "scram_plain = lit ''SCRAM-SHA-256''"

definition choose_scram_mechanism ::
  "digests \<Rightarrow> tls_stream \<Rightarrow> rstring list \<Rightarrow> (wire_error, channel_binding \<times> rstring) res" where
  "choose_scram_mechanism dg tls mechanisms =
     (let fallback = (if scram_plain \<in> set mechanisms then Ok (NoBinding, scram_plain)
                      else Err (Protocol (NoSaslMechanism mechanisms)))
      in case tls of
           TlsStream (Some cert) \<Rightarrow>
             if scram_plus \<in> set mechanisms
             then Ok (TlsServerEndPoint (cert_signature_hash dg cert), scram_plus)
             else fallback
         | _ \<Rightarrow> fallback)"

fun sasl_continue_step :: "unit \<Rightarrow> backend_msg \<Rightarrow> unit \<times> (pg_error + bytes) option" where
  "sasl_continue_step _ (AuthenticationSASLContinue d) = ((), Some (Inr d))"
| "sasl_continue_step _ (ErrorResponse e) = ((), Some (Inl e))"
| "sasl_continue_step _ _ = ((), None)"

fun sasl_final_step :: "unit \<Rightarrow> backend_msg \<Rightarrow> unit \<times> (pg_error + unit) option" where
  "sasl_final_step _ (AuthenticationSASLFinal _) = ((), None)"
| "sasl_final_step _ AuthenticationOk = ((), Some (Inr ()))"
| "sasl_final_step _ (ErrorResponse e) = ((), Some (Inl e))"
| "sasl_final_step _ _ = ((), None)"

text \<open>The arm of \<open>AuthenticationSASL\<close>, which runs the whole exchange.\<close>

definition auth_sasl ::
  "startup_deps \<Rightarrow> rstring \<Rightarrow> rstring list \<Rightarrow> wire_conn \<Rightarrow> bool awaited \<times> wire_conn" where
  "auth_sasl dp password mechanisms c =
     aw_then (Some (choose_scram_mechanism (sd_digests dp) (wc_tls c) mechanisms), c)
       (\<lambda>(cb, name) c.
     let c = c\<lparr>wc_auth := name\<rparr>;
         (scram, client_first) = scram_new (sd_nonce dp) password cb
     in aw_then (send_raw (encode_message (SASLInitialResponse name client_first) []) c) (\<lambda>_ c.
        aw_then (conn_loop sasl_continue_step () c) (\<lambda>r c.
          case r of
            Inl e \<Rightarrow> (Some (Err (Pg e)), c)
          | Inr server_first \<Rightarrow>
              aw_then (Some (map_err (\<lambda>e. Protocol (ScramFailed e))
                               (process_server_first (sd_crypto dp) scram server_first)), c)
                (\<lambda>client_final c.
              aw_then (send_raw (encode_message (SASLResponse client_final) []) c) (\<lambda>_ c.
              aw_then (conn_loop sasl_final_step () c) (\<lambda>r c.
                case r of
                  Inl e \<Rightarrow> (Some (Err (Pg e)), c)
                | Inr _ \<Rightarrow> (Some (Ok False), c)))))))"

text \<open>One message of the authentication loop: whether to leave the loop.\<close>

definition auth_step ::
  "startup_deps \<Rightarrow> rstring \<Rightarrow> rstring \<Rightarrow> backend_msg \<Rightarrow> wire_conn \<Rightarrow> bool awaited \<times> wire_conn" where
  "auth_step dp user password msg c =
     (case msg of
        AuthenticationCleartextPassword \<Rightarrow>
          aw_then (send_raw (encode_password password []) (c\<lparr>wc_auth := lit ''cleartext''\<rparr>))
            (\<lambda>_ c. (Some (Ok False), c))
      | AuthenticationMd5Password salt \<Rightarrow>
          aw_then (send_raw (encode_password (md5_password (sd_md5 dp) user password salt) [])
                     (c\<lparr>wc_auth := lit ''md5''\<rparr>))
            (\<lambda>_ c. (Some (Ok False), c))
      | AuthenticationSASL mechanisms \<Rightarrow> auth_sasl dp password mechanisms c
      | ParameterStatus name value \<Rightarrow>
          (Some (Ok False), c\<lparr>wc_params := (wc_params c)(name \<mapsto> value)\<rparr>)
      | BackendKeyData pid secret \<Rightarrow> (Some (Ok False), c\<lparr>wc_pid := pid, wc_secret := secret\<rparr>)
      | ReadyForQuery _ \<Rightarrow> (Some (Ok True), c)
      | ErrorResponse e \<Rightarrow> (Some (Err (Pg e)), c)
      | _ \<Rightarrow> (Some (Ok False), c))"

lemma msg_loop_size: "rh_size (snd (snd (msg_loop step st rh))) \<le> rh_size rh"
proof (induction step st rh rule: msg_loop.induct)
  case (1 step st rh)
  obtain r rh' where r: "recv_msg rh = (r, rh')" by (cases "recv_msg rh")
  have le: "rh_size rh' \<le> rh_size rh"
    using recv_loop_size [of "rh_buf rh" "rh_events rh" r rh'] r
    by (simp add: recv_msg_def rh_size_def)
  show ?case
  proof (cases "\<exists>m st'. r = Some (Ok m) \<and> step st m = (st', None)")
    case True
    then obtain m st' where m: "r = Some (Ok m)" "step st m = (st', None)" by blast
    with "1.IH" [OF r [symmetric] m(1) refl m(2) [symmetric] refl] r le show ?thesis
      by (subst msg_loop.simps) simp
  next
    case False
    with r le show ?thesis
      by (subst msg_loop.simps) (auto split: option.splits res.splits prod.splits)
  qed
qed

text \<open>No operation grows what is left to read, so the authentication loop ends.\<close>

definition shrinking :: "(wire_conn \<Rightarrow> 'a awaited \<times> wire_conn) \<Rightarrow> bool" where
  "shrinking f \<longleftrightarrow> (\<forall>c. rh_size (wc_rh (snd (f c))) \<le> rh_size (wc_rh c))"

lemma shrinking_aw_then:
  assumes "shrinking f" and "\<And>a. shrinking (g a)"
  shows "shrinking (\<lambda>c. aw_then (f c) g)"
  unfolding shrinking_def
proof
  fix c
  obtain r c1 where r: "f c = (r, c1)" by (cases "f c")
  with assms(1) have le: "rh_size (wc_rh c1) \<le> rh_size (wc_rh c)"
    unfolding shrinking_def by (metis snd_conv)
  have g: "rh_size (wc_rh (snd (g a c1))) \<le> rh_size (wc_rh c)" for a
    using assms(2) [of a] le unfolding shrinking_def by (blast intro: le_trans)
  show "rh_size (wc_rh (snd (aw_then (f c) g))) \<le> rh_size (wc_rh c)"
  proof (cases r)
    case (Some x)
    then show ?thesis using r le g by (cases x) simp_all
  qed (use r le in simp)
qed

lemma shrinking_const [intro]: "shrinking (\<lambda>c. (r c, c))"
  by (simp add: shrinking_def)

lemma shrinking_send [intro]: "shrinking (send_raw buf)"
  by (auto simp: shrinking_def send_raw_def split: list.splits bool.splits)

lemma shrinking_loop [intro]: "shrinking (conn_loop step st)"
  using msg_loop_size [of step st] by (simp add: shrinking_def conn_loop_def split: prod.splits)
    (metis snd_conv)

lemma shrinking_auth_sasl: "shrinking (auth_sasl dp password ms)"
proof -
  have upd: "shrinking (\<lambda>c. f (c\<lparr>wc_auth := name\<rparr>))"
    if "shrinking f" for f :: "wire_conn \<Rightarrow> bool awaited \<times> wire_conn" and name
    using that unfolding shrinking_def by (metis wire_conn.select_convs(1) wire_conn.surjective wire_conn.update_convs(8))
  have sum: "shrinking (\<lambda>c. case r of Inl e \<Rightarrow> f e c | Inr a \<Rightarrow> g a c)"
    if "\<And>e. shrinking (f e)" "\<And>a. shrinking (g a)"
    for r :: "pg_error + 'x" and f g :: "_ \<Rightarrow> wire_conn \<Rightarrow> bool awaited \<times> wire_conn"
    using that by (cases r) simp_all
  show ?thesis
    unfolding auth_sasl_def
    by (auto intro!: shrinking_aw_then upd sum simp: Let_def split_beta case_prod_unfold)
qed

lemma auth_step_shrinks: "rh_size (wc_rh (snd (auth_step dp user password m c))) \<le> rh_size (wc_rh c)"
proof -
  have s: "rh_size (wc_rh (snd (aw_then (send_raw buf c') (\<lambda>_ c. (Some (Ok False), c))))) \<le> rh_size (wc_rh c)"
    if "wc_rh c' = wc_rh c" for buf c'
    using shrinking_aw_then [OF shrinking_send shrinking_const, of buf "\<lambda>_ _. Some (Ok False)"] that
    unfolding shrinking_def by metis
  show ?thesis
    using shrinking_auth_sasl [of dp password] s
    by (cases m) (simp_all add: auth_step_def shrinking_def)
qed

lemma auth_step_less:
  assumes "(Some (Ok m), rh) = recv_msg (wc_rh c)"
    and "(r, c') = auth_step dp user password m (c\<lparr>wc_rh := rh\<rparr>)"
  shows "rh_size (wc_rh c') < rh_size (wc_rh c)"
  using recv_msg_less [OF assms(1) [symmetric]] auth_step_shrinks [of dp user password m "c\<lparr>wc_rh := rh\<rparr>"]
  by (simp flip: assms(2))

function auth_loop ::
  "startup_deps \<Rightarrow> rstring \<Rightarrow> rstring \<Rightarrow> wire_conn \<Rightarrow> unit awaited \<times> wire_conn" where
  "auth_loop dp user password c =
     (case recv_msg (wc_rh c) of
        (None, rh) \<Rightarrow> (None, c\<lparr>wc_rh := rh\<rparr>)
      | (Some (Err e), rh) \<Rightarrow> (Some (Err e), c\<lparr>wc_rh := rh\<rparr>)
      | (Some Panic, rh) \<Rightarrow> (Some Panic, c\<lparr>wc_rh := rh\<rparr>)
      | (Some (Ok m), rh) \<Rightarrow>
          (case auth_step dp user password m (c\<lparr>wc_rh := rh\<rparr>) of
             (Some (Ok True), c') \<Rightarrow> (Some (Ok ()), c')
           | (Some (Ok False), c') \<Rightarrow> auth_loop dp user password c'
           | (Some (Err e), c') \<Rightarrow> (Some (Err e), c')
           | (Some Panic, c') \<Rightarrow> (Some Panic, c')
           | (None, c') \<Rightarrow> (None, c')))"
  by pat_completeness auto
termination
  by (relation "measure (\<lambda>(dp, user, password, c). rh_size (wc_rh c))")
    (auto intro: auth_step_less)

declare auth_loop.simps [simp del]

text \<open>A fresh connection on an open socket, the startup message, and the loop.\<close>

definition finish_startup ::
  "startup_deps \<Rightarrow> read_event list \<Rightarrow> bool list \<Rightarrow> tls_stream \<Rightarrow> rstring \<Rightarrow> rstring \<Rightarrow> rstring
     \<Rightarrow> (rstring \<times> rstring) list \<Rightarrow> unit awaited \<times> wire_conn" where
  "finish_startup dp events faults tls user password database startup_params =
     (let c = \<lparr>wc_rh = \<lparr>rh_buf = [], rh_events = events\<rparr>, wc_sent = [], wc_faults = faults,
               wc_tls = tls, wc_pid = 0, wc_secret = 0, wc_params = Map.empty,
               wc_auth = lit ''trust''\<rparr>
      in aw_then (send_raw (encode_startup_with_params user database startup_params []) c)
           (\<lambda>_ c. auth_loop dp user password c))"

definition parse_hostname :: "rstring \<Rightarrow> rstring" where
  "parse_hostname addr =
     (if starts_with (lit ''['') addr \<and> 0x5D \<in> set addr
      then drop 1 (takeWhile (\<lambda>b. b \<noteq> 0x5D) addr)
      else hd (split_on 0x3A addr))"

section \<open>Collecting a reply\<close>

lemma conn_loop_runs:
  assumes "delivers (wc_rh c) ms tail" and "run_steps step st ms = (st', Some r, rest)"
  shows "\<exists>rh. conn_loop step st c = (Some (Ok r), c\<lparr>wc_rh := rh\<rparr>) \<and> delivers rh rest tail"
  using socket.loop_runs [OF assms] by (auto simp: conn_loop_def)

lemma run_drain: "no_ready ms \<Longrightarrow> run_steps drain_step () (ms @ ReadyForQuery st # rest) = ((), Some (), rest)"
proof (induction ms)
  case (Cons m ms)
  then show ?case by (cases m) simp_all
qed simp

lemma run_rows:
  "no_ready ms \<Longrightarrow> first_error ms = None \<Longrightarrow> run_steps rows_step (rows, tag) (ms @ later)
   = run_steps rows_step (rows @ row_list ms, last_tag tag ms) later"
proof (induction ms arbitrary: rows tag)
  case (Cons m ms)
  then show ?case by (cases m) simp_all
qed simp

lemma drain_until_ready_runs:
  assumes "delivers (wc_rh c) (ms @ ReadyForQuery st # rest) tail" and "no_ready ms"
  shows "\<exists>rh. drain_until_ready c = (Some (Ok ()), c\<lparr>wc_rh := rh\<rparr>) \<and> delivers rh rest tail"
  unfolding drain_until_ready_def by (rule conn_loop_runs [OF assms(1) run_drain [OF assms(2)]])

lemma collect_rows_runs:
  assumes "delivers (wc_rh c) (ms @ ReadyForQuery st # rest) tail" and "no_ready ms"
  shows "\<exists>rh. collect_rows c =
      (Some (case first_error ms of None \<Rightarrow> Ok (row_list ms, last_tag [] ms) | Some e \<Rightarrow> Err (Pg e)),
       c\<lparr>wc_rh := rh\<rparr>) \<and> delivers rh rest tail"
proof (cases "first_error ms")
  case None
  have "run_steps rows_step ([], []) (ms @ ReadyForQuery st # rest)
      = ((row_list ms, last_tag [] ms), Some (Inr (row_list ms, last_tag [] ms)), rest)"
    using run_rows [OF assms(2) None] by simp
  from conn_loop_runs [OF assms(1) this] None show ?thesis
    by (auto simp: collect_rows_def or_drain_def)
next
  case (Some e)
  then obtain pre post where ms: "ms = pre @ ErrorResponse e # post" "first_error pre = None"
    by (blast dest: first_error_Some)
  have "run_steps rows_step ([], []) (ms @ ReadyForQuery st # rest)
      = ((row_list pre, last_tag [] pre), Some (Inl e), post @ ReadyForQuery st # rest)"
    using run_rows [OF _ ms(2), of "[]" "[]"] assms(2) by (simp add: ms)
  from conn_loop_runs [OF assms(1) this] obtain rh where
    rh: "conn_loop rows_step ([], []) c = (Some (Ok (Inl e)), c\<lparr>wc_rh := rh\<rparr>)"
      "delivers rh (post @ ReadyForQuery st # rest) tail" by blast
  have "no_ready post" using assms(2) ms by simp
  moreover have "delivers (wc_rh (c\<lparr>wc_rh := rh\<rparr>)) (post @ ReadyForQuery st # rest) tail"
    using rh(2) by simp
  ultimately obtain rh' where "drain_until_ready (c\<lparr>wc_rh := rh\<rparr>) = (Some (Ok ()), c\<lparr>wc_rh := rh'\<rparr>)"
    "delivers rh' rest tail"
    using drain_until_ready_runs [of "c\<lparr>wc_rh := rh\<rparr>" post st rest tail] by auto
  with rh Some show ?thesis by (auto simp: collect_rows_def or_drain_def)
qed

text \<open>C11: \<open>WireConn::collect_rows\<close> returns the rows and the command tag of one reply, or its first error,
  and either way leaves the connection right after the reply's \<open>ReadyForQuery\<close>: the next reply is the
  next thing read.\<close>

theorem collect_rows_resync:
  assumes "delivers (wc_rh c) (ms @ ReadyForQuery st # rest) tail" and "no_ready ms"
  shows "\<exists>rh. collect_rows c =
      (Some (case first_error ms of None \<Rightarrow> Ok (row_list ms, last_tag [] ms) | Some e \<Rightarrow> Err (Pg e)),
       c\<lparr>wc_rh := rh\<rparr>) \<and> delivers rh rest tail"
  by (rule collect_rows_runs [OF assms])

text \<open>A connection whose socket holds one empty reply, cut in the middle.\<close>

definition sample_reply :: "backend_msg list" where
  "sample_reply = [CommandComplete (lit ''SELECT 0''), ReadyForQuery 0x49]"

definition sample_conn :: "bytes \<Rightarrow> wire_conn" where
  "sample_conn d = \<lparr>wc_rh = \<lparr>rh_buf = take 3 d, rh_events = [Read (drop 3 d)]\<rparr>, wc_sent = [],
     wc_faults = [], wc_tls = Plain, wc_pid = 0, wc_secret = 0, wc_params = Map.empty, wc_auth = []\<rparr>"

lemma sample_conn_delivers:
  "list_all (\<lambda>m. server_sendable m \<and> (\<forall>r. m \<noteq> DataRow r)) ms \<Longrightarrow> 3 < length (concat (map server_frame ms)) \<Longrightarrow>
   delivers (wc_rh (sample_conn (concat (map server_frame ms)))) ms []"
  using parses_exact [of ms "[]"] by (simp add: sample_conn_def delivers_def)

lemma length_server_frame: "length (server_frame m) = 5 + length (server_body m)"
  by (simp add: server_frame_def frame_def)

theorem collect_rows_resync_witness:
  "\<exists>rh. collect_rows (sample_conn (concat (map server_frame sample_reply)))
     = (Some (Ok ([], lit ''SELECT 0'')), (sample_conn (concat (map server_frame sample_reply)))\<lparr>wc_rh := rh\<rparr>)
     \<and> delivers rh [] []"
proof -
  have "delivers (wc_rh (sample_conn (concat (map server_frame sample_reply)))) sample_reply []"
    by (rule sample_conn_delivers)
      (simp_all add: sample_reply_def server_sendable_def cstr_ok_def no_nul_def lit_def
        utf8_valid_ascii MAX_MESSAGE_SIZE_def length_server_frame)
  then have "delivers (wc_rh (sample_conn (concat (map server_frame sample_reply))))
      ([CommandComplete (lit ''SELECT 0'')] @ ReadyForQuery 0x49 # []) []"
    by (simp only: sample_reply_def append_Cons append_Nil)
  from collect_rows_resync [OF this] show ?thesis by simp
qed

section \<open>The startup\<close>

lemma auth_loop_next:
  assumes "delivers (wc_rh c) (m # ms) tail"
  shows "\<exists>rh. delivers rh ms tail \<and> auth_loop dp user password c =
    (case auth_step dp user password m (c\<lparr>wc_rh := rh\<rparr>) of
       (Some (Ok True), c') \<Rightarrow> (Some (Ok ()), c')
     | (Some (Ok False), c') \<Rightarrow> auth_loop dp user password c'
     | (Some (Err e), c') \<Rightarrow> (Some (Err e), c')
     | (Some Panic, c') \<Rightarrow> (Some Panic, c')
     | (None, c') \<Rightarrow> (None, c'))"
  using recv_msg_delivers [OF assms] by (subst auth_loop.simps) auto

text \<open>After the authentication: parameters, the key data, and \<open>ReadyForQuery\<close>.\<close>

lemma auth_loop_parameters:
  "delivers (wc_rh c) (map (\<lambda>(n, v). ParameterStatus n v) ps @ [BackendKeyData pid secret, ReadyForQuery st]) tail
   \<Longrightarrow> \<exists>rh. auth_loop dp user password c =
     (Some (Ok ()), c\<lparr>wc_rh := rh, wc_params := wc_params c ++ map_of (rev ps), wc_pid := pid,
        wc_secret := secret\<rparr>) \<and> delivers rh [] tail"
proof (induction ps arbitrary: c)
  case Nil
  then obtain rh where rh: "delivers rh [ReadyForQuery st] tail"
    "auth_loop dp user password c = auth_loop dp user password
        (c\<lparr>wc_rh := rh, wc_pid := pid, wc_secret := secret\<rparr>)"
    using auth_loop_next [of c "BackendKeyData pid secret" "[ReadyForQuery st]" tail dp user password]
    by (auto simp: auth_step_def)
  with auth_loop_next [of "c\<lparr>wc_rh := rh, wc_pid := pid, wc_secret := secret\<rparr>" "ReadyForQuery st" "[]"
      tail dp user password]
  obtain rh' where rh': "delivers rh' [] tail" "auth_loop dp user password c
      = (Some (Ok ()), c\<lparr>wc_rh := rh, wc_pid := pid, wc_secret := secret, wc_rh := rh'\<rparr>)"
    by (auto simp: auth_step_def)
  have "c\<lparr>wc_rh := rh, wc_pid := pid, wc_secret := secret, wc_rh := rh'\<rparr>
      = c\<lparr>wc_rh := rh', wc_params := wc_params c ++ map_of (rev []), wc_pid := pid, wc_secret := secret\<rparr>"
    by (cases c) simp
  with rh' show ?case by (metis list.simps(8))
next
  case (Cons p ps)
  obtain n v where p: "p = (n, v)" by (cases p)
  let ?ms = "map (\<lambda>(n, v). ParameterStatus n v) ps @ [BackendKeyData pid secret, ReadyForQuery st]"
  from auth_loop_next [of c "ParameterStatus n v" ?ms tail dp user password] Cons.prems p
  obtain rh where rh: "delivers rh ?ms tail"
    "auth_loop dp user password c = auth_loop dp user password
        (c\<lparr>wc_rh := rh, wc_params := (wc_params c)(n \<mapsto> v)\<rparr>)"
    by (auto simp: auth_step_def)
  from Cons.IH [of "c\<lparr>wc_rh := rh, wc_params := (wc_params c)(n \<mapsto> v)\<rparr>"] rh(1)
  obtain rh' where rh': "delivers rh' [] tail"
    "auth_loop dp user password (c\<lparr>wc_rh := rh, wc_params := (wc_params c)(n \<mapsto> v)\<rparr>)
      = (Some (Ok ()), c\<lparr>wc_rh := rh', wc_params := (wc_params c)(n \<mapsto> v) ++ map_of (rev ps),
           wc_pid := pid, wc_secret := secret\<rparr>)"
    by (auto simp del: fun_upd_apply)
  have "(wc_params c)(n \<mapsto> v) ++ map_of (rev ps) = wc_params c ++ map_of (rev (p # ps))"
    by (simp add: p map_add_assoc [symmetric] del: fun_upd_apply)
  with rh(2) rh' show ?case by metis
qed

text \<open>C12: A SCRAM startup: with a mechanism both sides support, the client sends exactly the startup
  message, its first message and the proof (never the password), and ends with the server's key data,
  its parameters (the last value of each) and the mechanism's name, right after \<open>ReadyForQuery\<close>. The
  server's final signature \<open>v\<close> is not looked at.\<close>

theorem scram_startup:
  assumes "delivers \<lparr>rh_buf = [], rh_events = events\<rparr>
      ([AuthenticationSASL ms, AuthenticationSASLContinue sf, AuthenticationSASLFinal v, AuthenticationOk]
       @ map (\<lambda>(n, v). ParameterStatus n v) ps @ [BackendKeyData pid secret, ReadyForQuery st]) tail"
    and "choose_scram_mechanism (sd_digests dp) tls ms = Ok (cb, name)"
    and "process_server_first (sd_crypto dp) (fst (scram_new (sd_nonce dp) password cb)) sf = Ok final"
  shows "\<exists>c. finish_startup dp events [] tls user password database params = (Some (Ok ()), c)
    \<and> wc_pid c = pid \<and> wc_secret c = secret \<and> wc_params c = map_of (rev ps) \<and> wc_auth c = name
    \<and> wc_sent c = encode_startup_with_params user database params []
        @ encode_message (SASLInitialResponse name (snd (scram_new (sd_nonce dp) password cb))) []
        @ encode_message (SASLResponse final) []
    \<and> delivers (wc_rh c) [] tail"
proof -
  let ?fin = "map (\<lambda>(n, v). ParameterStatus n v) ps @ [BackendKeyData pid secret, ReadyForQuery st]"
  let ?c0 = "\<lparr>wc_rh = \<lparr>rh_buf = [], rh_events = events\<rparr>,
    wc_sent = encode_startup_with_params user database params [], wc_faults = [], wc_tls = tls,
    wc_pid = 0, wc_secret = 0, wc_params = Map.empty, wc_auth = lit ''trust''\<rparr>"
  let ?scram = "scram_new (sd_nonce dp) password cb"
  obtain scram first where s: "?scram = (scram, first)" by (cases ?scram)
  from auth_loop_next [of ?c0 "AuthenticationSASL ms" _ tail dp user password] assms(1)
  obtain rh1 where rh1: "delivers rh1 (AuthenticationSASLContinue sf # AuthenticationSASLFinal v # AuthenticationOk # ?fin) tail"
    "auth_loop dp user password ?c0 = (case auth_sasl dp password ms (?c0\<lparr>wc_rh := rh1\<rparr>) of
       (Some (Ok True), c') \<Rightarrow> (Some (Ok ()), c')
     | (Some (Ok False), c') \<Rightarrow> auth_loop dp user password c'
     | (Some (Err e), c') \<Rightarrow> (Some (Err e), c')
     | (Some Panic, c') \<Rightarrow> (Some Panic, c')
     | (None, c') \<Rightarrow> (None, c'))"
    by (auto simp: auth_step_def)
  let ?c1 = "?c0\<lparr>wc_rh := rh1, wc_auth := name, wc_sent := wc_sent ?c0
     @ encode_message (SASLInitialResponse name first) []\<rparr>"
  obtain rh2 where rh2: "conn_loop sasl_continue_step () ?c1 = (Some (Ok (Inr sf)), ?c1\<lparr>wc_rh := rh2\<rparr>)"
    "delivers rh2 (AuthenticationSASLFinal v # AuthenticationOk # ?fin) tail"
    using conn_loop_runs [of ?c1 _ tail sasl_continue_step "()"] rh1(1) by force
  let ?c2 = "?c1\<lparr>wc_rh := rh2, wc_sent := wc_sent ?c1 @ encode_message (SASLResponse final) []\<rparr>"
  obtain rh3 where rh3: "conn_loop sasl_final_step () ?c2 = (Some (Ok (Inr ())), ?c2\<lparr>wc_rh := rh3\<rparr>)"
    "delivers rh3 ?fin tail"
    using conn_loop_runs [of ?c2 _ tail sasl_final_step "()"] rh2(2) by force
  have "auth_sasl dp password ms (?c0\<lparr>wc_rh := rh1\<rparr>) = (Some (Ok False), ?c2\<lparr>wc_rh := rh3\<rparr>)"
    using assms(2,3) s rh2(1) rh3(1) by (simp add: auth_sasl_def send_raw_def del: encode_message.simps)
  with rh1(2) auth_loop_parameters [of "?c2\<lparr>wc_rh := rh3\<rparr>" ps pid secret st tail dp user password] rh3(2) s
  show ?thesis
    by (auto simp: finish_startup_def send_raw_def simp del: encode_message.simps
        encode_startup_with_params.simps)
qed

text \<open>A server that offers SCRAM-SHA-256 and sends one parameter.\<close>

definition sample_deps :: startup_deps where
  "sample_deps = \<lparr>sd_crypto = sample_crypto, sd_digests = sample_digests,
     sd_md5 = \<lambda>x. x, sd_nonce = lit ''ab''\<rparr>"

definition sample_first :: bytes where
  "sample_first = server_first_msg sample_crypto (lit ''ab'' @ lit ''cd'') [1, 2] 5"

definition sample_startup :: "backend_msg list" where
  "sample_startup = [AuthenticationSASL [scram_plain], AuthenticationSASLContinue sample_first,
     AuthenticationSASLFinal [], AuthenticationOk, ParameterStatus (lit ''TimeZone'') (lit ''UTC''),
     BackendKeyData 7 8, ReadyForQuery 0x49]"

lemma sample_startup_delivers:
  "delivers \<lparr>rh_buf = [], rh_events = [Read (concat (map server_frame sample_startup))]\<rparr> sample_startup []"
proof -
  have d: "decimal 5 = [53]" by (subst decimal.simps) simp
  have "list_all (\<lambda>m. server_sendable m \<and> (\<forall>r. m \<noteq> DataRow r)) sample_startup"
    by (simp add: sample_startup_def server_sendable_def cstr_ok_def no_nul_def lit_def scram_plain_def
        utf8_valid_ascii MAX_MESSAGE_SIZE_def sample_first_def server_first_msg_def sample_crypto_def
        sample_encode_def d)
  moreover have "0 < length (concat (map server_frame sample_startup))"
    by (simp add: sample_startup_def length_server_frame)
  ultimately show ?thesis
    using parses_exact [of sample_startup "[]"] by (simp add: delivers_def)
qed

theorem scram_startup_witness:
  "\<exists>c. finish_startup sample_deps [Read (concat (map server_frame sample_startup))] [] Plain
      (lit ''u'') (lit ''pw'') (lit ''db'') [] = (Some (Ok ()), c)
    \<and> wc_pid c = 7 \<and> wc_params c = [lit ''TimeZone'' \<mapsto> lit ''UTC''] \<and> wc_auth c = scram_plain"
proof -
  obtain final where final: "process_server_first (sd_crypto sample_deps)
      (fst (scram_new (sd_nonce sample_deps) (lit ''pw'') NoBinding)) sample_first = Ok final"
    using client_final_verifies [OF sample_crypto_ok, where nonce = "lit ''ab''" and ext = "lit ''cd''"
        and i = 5 and password = "lit ''pw''" and cb = NoBinding and salt = "[1, 2]"]
    by (auto simp: sample_deps_def sample_first_def lit_def utf8_valid_ascii split: res.splits)
  have d: "delivers \<lparr>rh_buf = [], rh_events = [Read (concat (map server_frame sample_startup))]\<rparr>
      ([AuthenticationSASL [scram_plain], AuthenticationSASLContinue sample_first,
        AuthenticationSASLFinal [], AuthenticationOk]
       @ map (\<lambda>(n, v). ParameterStatus n v) [(lit ''TimeZone'', lit ''UTC'')]
       @ [BackendKeyData 7 8, ReadyForQuery 0x49]) []"
    using sample_startup_delivers by (simp add: sample_startup_def)
  have m: "choose_scram_mechanism (sd_digests sample_deps) Plain [scram_plain] = Ok (NoBinding, scram_plain)"
    by (simp add: choose_scram_mechanism_def)
  from scram_startup [OF d m final, of "lit ''u''" "lit ''db''" "[]"] show ?thesis by auto
qed

text \<open>An error during the startup ends it, with no more bytes sent.\<close>

lemma startup_error:
  assumes "delivers (wc_rh c) (ErrorResponse e # ms) tail"
  shows "\<exists>rh. auth_loop dp user password c = (Some (Err (Pg e)), c\<lparr>wc_rh := rh\<rparr>)"
  using auth_loop_next [OF assms, of dp user password] by (auto simp: auth_step_def)

text \<open>Channel binding is used exactly when the stream is TLS with a certificate and the server offers
  it; a mechanism the client does not know is refused.\<close>

lemma choose_scram_binding:
  "choose_scram_mechanism dg tls ms = Ok (TlsServerEndPoint h, n) \<longleftrightarrow>
   (\<exists>cert. tls = TlsStream (Some cert) \<and> scram_plus \<in> set ms \<and> h = cert_signature_hash dg cert
      \<and> n = scram_plus)"
  by (auto simp: choose_scram_mechanism_def Let_def split: tls_stream.splits option.splits if_splits)

lemma parse_hostname_brackets:
  "0x5D \<notin> set h \<Longrightarrow> parse_hostname (lit ''['' @ h @ lit '']:5432'') = h"
  by (subst takeWhile_append2 | simp add: parse_hostname_def lit_def starts_with_def)+ auto

lemma parse_hostname_plain:
  "0x3A \<notin> set h \<Longrightarrow> \<not> starts_with (lit ''['') h \<Longrightarrow> h \<noteq> [] \<Longrightarrow> parse_hostname (h @ lit '':5432'') = h"
  using split_on_append [of "0x3A" h "lit ''5432''"]
  by (cases h) (auto simp: parse_hostname_def lit_def starts_with_def)

end
