(* ===== verification/Wire_Pipeline.thy ===== *)
theory Wire_Pipeline
  imports Connection
begin

text \<open>
  \<open>pg-wired/src/pipeline.rs\<close>: \<open>PgPipeline\<close>, the pipelined client on a \<open>WireConn\<close>, with its own
  statement cache. Every operation writes its messages at once and then reads the replies it expects.
  The theorems: what each operation returns for the replies on the stream and where it leaves the
  stream, and the bounds of the cache.
\<close>

section \<open>State\<close>

record pg_pipeline =
  pp_conn :: wire_conn
  pp_cache :: "(rstring \<times> rstring) list"
  pp_counter :: u64
  pp_max :: nat

definition pipeline_new :: "wire_conn \<Rightarrow> pg_pipeline" where
  "pipeline_new c = \<lparr>pp_conn = c, pp_cache = [], pp_counter = 0, pp_max = 256\<rparr>"

definition clear_cache :: "pg_pipeline \<Rightarrow> pg_pipeline" where "clear_cache p = p\<lparr>pp_cache := []\<rparr>"

text \<open>The whole cache is dropped when it is full; a new name is cached before the server has seen it.\<close>

definition pipeline_name :: "u64 \<Rightarrow> rstring" where "pipeline_name k = lit ''s'' @ decimal (unat k)"

definition pipeline_lookup :: "rstring \<Rightarrow> pg_pipeline \<Rightarrow> (rstring \<times> bool) \<times> pg_pipeline" where
  "pipeline_lookup sql p =
     (case map_of (pp_cache p) sql of
        Some name \<Rightarrow> ((name, False), p)
      | None \<Rightarrow>
          let p = (if length (pp_cache p) \<ge> pp_max p then p\<lparr>pp_cache := []\<rparr> else p);
              name = pipeline_name (pp_counter p)
          in ((name, True), p\<lparr>pp_counter := pp_counter p + 1, pp_cache := (sql, name) # pp_cache p\<rparr>))"

section \<open>Operations\<close>

definition on_conn :: "(wire_conn \<Rightarrow> 'a awaited \<times> wire_conn) \<Rightarrow> pg_pipeline \<Rightarrow> 'a awaited \<times> pg_pipeline" where
  "on_conn f p = (case f (pp_conn p) of (r, c) \<Rightarrow> (r, p\<lparr>pp_conn := c\<rparr>))"

definition pipeline_messages ::
  "rstring \<Rightarrow> bytes option list \<Rightarrow> oid list \<Rightarrow> rstring \<times> bool \<Rightarrow> frontend_msg list" where
  "pipeline_messages sql ps oids stmt =
     (if snd stmt then [Parse (fst stmt) sql oids] else [])
     @ [Bind [] (fst stmt) (replicate (length ps) Text) ps [Text], Execute [] 0, Sync]"

definition rows_only :: "(raw_row list \<times> rstring) awaited \<times> 's \<Rightarrow> raw_row list awaited \<times> 's" where
  "rows_only p = aw_then p (\<lambda>(rows, tag) s. (Some (Ok rows), s))"

definition pipeline_query ::
  "rstring \<Rightarrow> bytes option list \<Rightarrow> oid list \<Rightarrow> pg_pipeline \<Rightarrow> raw_row list awaited \<times> pg_pipeline" where
  "pipeline_query sql ps oids p =
     (let (stmt, p) = pipeline_lookup sql p
      in aw_then (on_conn (send_raw (encode_messages (pipeline_messages sql ps oids stmt) [])) p) (\<lambda>_ p.
           rows_only (on_conn collect_rows p)))"

text \<open>\<open>simple_query\<close> keeps the first error and goes on to \<open>ReadyForQuery\<close>.\<close>

fun simple_step :: "pg_error option \<Rightarrow> backend_msg \<Rightarrow> pg_error option \<times> pg_error option option" where
  "simple_step e (ReadyForQuery _) = (e, Some e)"
| "simple_step None (ErrorResponse e) = (Some e, None)"
| "simple_step e _ = (e, None)"

definition pipeline_simple_query :: "rstring \<Rightarrow> pg_pipeline \<Rightarrow> unit awaited \<times> pg_pipeline" where
  "pipeline_simple_query sql p =
     aw_then (on_conn (send_raw (encode_message (Query sql) [])) p) (\<lambda>_ p.
       aw_then (on_conn (conn_loop simple_step None) p) (\<lambda>first_error p.
         (Some (case first_error of Some e \<Rightarrow> Err (Pg e) | None \<Rightarrow> Ok ()), p)))"

definition pipeline_simple_query_rows ::
  "rstring \<Rightarrow> pg_pipeline \<Rightarrow> (raw_row list \<times> rstring) awaited \<times> pg_pipeline" where
  "pipeline_simple_query_rows sql p =
     aw_then (on_conn (send_raw (encode_message (Query sql) [])) p) (\<lambda>_ p. on_conn collect_rows p)"

definition pipeline_with_setup ::
  "rstring \<Rightarrow> rstring \<Rightarrow> bytes option list \<Rightarrow> oid list \<Rightarrow> pg_pipeline \<Rightarrow> raw_row list awaited \<times> pg_pipeline" where
  "pipeline_with_setup setup_sql sql ps oids p =
     (let (stmt, p) = pipeline_lookup sql p
      in aw_then (on_conn (send_raw (encode_messages (Query setup_sql # pipeline_messages sql ps oids stmt) [])) p) (\<lambda>_ p.
           aw_then (on_conn drain_until_ready p) (\<lambda>_ p. rows_only (on_conn collect_rows p))))"

definition wire_transaction ::
  "rstring \<Rightarrow> rstring \<Rightarrow> bytes option list \<Rightarrow> oid list \<Rightarrow> pg_pipeline \<Rightarrow> raw_row list awaited \<times> pg_pipeline" where
  "wire_transaction setup_sql sql ps oids p =
     (let (stmt, p) = pipeline_lookup sql p;
          msgs = Query setup_sql # pipeline_messages sql ps oids stmt @ [Query (lit ''COMMIT'')]
      in aw_then (on_conn (send_raw (encode_messages msgs [])) p) (\<lambda>_ p.
           aw_then (on_conn drain_until_ready p) (\<lambda>_ p.
             aw_then (on_conn collect_rows p) (\<lambda>(rows, tag) p.
               aw_then (on_conn drain_until_ready p) (\<lambda>_ p. (Some (Ok rows), p))))))"

section \<open>Replies and the stream\<close>

text \<open>The connection after a write that succeeds; what is still to be read does not change.\<close>

definition holds_replies :: "pg_pipeline \<Rightarrow> backend_msg list list \<Rightarrow> bytes \<Rightarrow> bool" where
  "holds_replies p replies tail \<longleftrightarrow>
     list_all no_ready replies
     \<and> (\<exists>sts. length sts = length replies
          \<and> delivers (wc_rh (pp_conn p)) (concat (map2 (\<lambda>ms st. ms @ [ReadyForQuery st]) replies sts)) tail)"

lemma holds_reply:
  assumes "holds_replies p (ms # replies) tail"
  shows "\<exists>st sts. no_ready ms \<and> list_all no_ready replies \<and> length sts = length replies
    \<and> delivers (wc_rh (pp_conn p)) (ms @ ReadyForQuery st
         # concat (map2 (\<lambda>ms st. ms @ [ReadyForQuery st]) replies sts)) tail"
proof -
  obtain sts where sts: "list_all no_ready (ms # replies)" "length sts = length (ms # replies)"
    "delivers (wc_rh (pp_conn p)) (concat (map2 (\<lambda>ms st. ms @ [ReadyForQuery st]) (ms # replies) sts)) tail"
    using assms by (auto simp: holds_replies_def)
  then obtain st sts' where "sts = st # sts'" by (cases sts) auto
  with sts show ?thesis by auto
qed

lemma holds_rest:
  "list_all no_ready replies \<Longrightarrow> length sts = length replies \<Longrightarrow>
   delivers rh (concat (map2 (\<lambda>ms st. ms @ [ReadyForQuery st]) replies sts)) tail \<Longrightarrow>
   holds_replies (p\<lparr>pp_conn := c\<lparr>wc_rh := rh\<rparr>\<rparr>) replies tail"
  by (auto simp: holds_replies_def)

lemma send_holds:
  assumes "holds_replies p replies tail" and "wc_faults (pp_conn p) = []"
  shows "\<exists>p'. on_conn (send_raw buf) p = (Some (Ok ()), p') \<and> holds_replies p' replies tail
    \<and> wc_faults (pp_conn p') = [] \<and> pp_cache p' = pp_cache p \<and> wc_sent (pp_conn p') = wc_sent (pp_conn p) @ buf"
  using assms by (simp add: on_conn_def send_raw_def holds_replies_def)

text \<open>Each reader takes one reply.\<close>

lemma drain_takes:
  assumes "holds_replies p (ms # replies) tail" and "wc_faults (pp_conn p) = []"
  shows "\<exists>p'. on_conn drain_until_ready p = (Some (Ok ()), p') \<and> holds_replies p' replies tail
    \<and> wc_faults (pp_conn p') = [] \<and> pp_cache p' = pp_cache p"
proof -
  obtain st sts where r: "no_ready ms" "list_all no_ready replies" "length sts = length replies"
    "delivers (wc_rh (pp_conn p)) (ms @ ReadyForQuery st # concat (map2 (\<lambda>ms st. ms @ [ReadyForQuery st]) replies sts)) tail"
    using holds_reply [OF assms(1)] by blast
  from drain_until_ready_runs [OF r(4,1)] holds_rest [OF r(2,3)] assms(2) show ?thesis
    by (fastforce simp: on_conn_def)
qed

lemma collect_takes:
  assumes "holds_replies p (ms # replies) tail" and "wc_faults (pp_conn p) = []"
  shows "\<exists>p'. on_conn collect_rows p
      = (Some (case first_error ms of None \<Rightarrow> Ok (row_list ms, last_tag [] ms) | Some e \<Rightarrow> Err (Pg e)), p')
    \<and> holds_replies p' replies tail \<and> wc_faults (pp_conn p') = [] \<and> pp_cache p' = pp_cache p"
proof -
  obtain st sts where r: "no_ready ms" "list_all no_ready replies" "length sts = length replies"
    "delivers (wc_rh (pp_conn p)) (ms @ ReadyForQuery st # concat (map2 (\<lambda>ms st. ms @ [ReadyForQuery st]) replies sts)) tail"
    using holds_reply [OF assms(1)] by blast
  from collect_rows_runs [OF r(4,1)] holds_rest [OF r(2,3)] assms(2) show ?thesis
    by (fastforce simp: on_conn_def)
qed

lemma run_simple_step:
  "no_ready ms \<Longrightarrow> run_steps simple_step e (ms @ ReadyForQuery st # rest)
    = (case e of Some x \<Rightarrow> Some x | None \<Rightarrow> first_error ms, Some (case e of Some x \<Rightarrow> Some x | None \<Rightarrow> first_error ms), rest)"
proof (induction ms arbitrary: e)
  case Nil
  show ?case by (cases e) simp_all
next
  case (Cons m ms)
  then show ?case by (cases m; cases e) simp_all
qed

lemma simple_takes:
  assumes "holds_replies p (ms # replies) tail" and "wc_faults (pp_conn p) = []"
  shows "\<exists>p'. on_conn (conn_loop simple_step None) p = (Some (Ok (first_error ms)), p')
    \<and> holds_replies p' replies tail \<and> wc_faults (pp_conn p') = [] \<and> wc_sent (pp_conn p') = wc_sent (pp_conn p)"
proof -
  obtain st sts where r: "no_ready ms" "list_all no_ready replies" "length sts = length replies"
    "delivers (wc_rh (pp_conn p)) (ms @ ReadyForQuery st # concat (map2 (\<lambda>ms st. ms @ [ReadyForQuery st]) replies sts)) tail"
    using holds_reply [OF assms(1)] by blast
  have "run_steps simple_step None (ms @ ReadyForQuery st # concat (map2 (\<lambda>ms st. ms @ [ReadyForQuery st]) replies sts))
    = (first_error ms, Some (first_error ms), concat (map2 (\<lambda>ms st. ms @ [ReadyForQuery st]) replies sts))"
    using run_simple_step [OF r(1)] by simp
  from conn_loop_runs [OF r(4) this] holds_rest [OF r(2,3)] assms(2) show ?thesis
    by (fastforce simp: on_conn_def)
qed

section \<open>What the operations return\<close>

lemma simple_query_reports:
  assumes "holds_replies p (ms # replies) tail" and "wc_faults (pp_conn p) = []"
  shows "\<exists>p'. pipeline_simple_query sql p = (Some (case first_error ms of None \<Rightarrow> Ok () | Some e \<Rightarrow> Err (Pg e)), p')
    \<and> holds_replies p' replies tail \<and> wc_faults (pp_conn p') = []
    \<and> wc_sent (pp_conn p') = wc_sent (pp_conn p) @ encode_message (Query sql) []"
proof -
  obtain p1 where p1: "on_conn (send_raw (encode_message (Query sql) [])) p = (Some (Ok ()), p1)"
    "holds_replies p1 (ms # replies) tail" "wc_faults (pp_conn p1) = []"
    "wc_sent (pp_conn p1) = wc_sent (pp_conn p) @ encode_message (Query sql) []"
    using send_holds [OF assms] by blast
  obtain p2 where "on_conn (conn_loop simple_step None) p1 = (Some (Ok (first_error ms)), p2)" "holds_replies p2 replies tail"
    "wc_faults (pp_conn p2) = []" "wc_sent (pp_conn p2) = wc_sent (pp_conn p1)"
    using simple_takes [OF p1(2,3)] by blast
  with p1(1,4) show ?thesis
    by (auto simp: pipeline_simple_query_def split: option.splits)
qed

text \<open>A simple query returns the first error of its reply, or success when there is none, and either way
  leaves the stream at the next reply.\<close>

theorem pipeline_simple_query_reports:
  assumes "holds_replies p (ms # replies) tail" and "wc_faults (pp_conn p) = []"
  shows "\<exists>p'. pipeline_simple_query sql p = (Some (case first_error ms of None \<Rightarrow> Ok () | Some e \<Rightarrow> Err (Pg e)), p')
    \<and> holds_replies p' replies tail"
  using simple_query_reports [OF assms] by blast

lemma holds_replies_conn: "pp_conn p' = pp_conn p \<Longrightarrow> holds_replies p' replies tail = holds_replies p replies tail"
  by (simp add: holds_replies_def)

lemma pipeline_lookup_conn: "pp_conn (snd (pipeline_lookup sql p)) = pp_conn p"
  by (simp add: pipeline_lookup_def Let_def split: option.splits)

text \<open>C25: the pipelined transaction returns the rows of its query whatever the setup and the \<open>COMMIT\<close> reply,
  and then every reply has been read. When the query itself fails the call returns that error with the
  reply of the \<open>COMMIT\<close> still unread: the next simple query takes it for its own.\<close>

theorem wire_transaction_replies:
  assumes "holds_replies p (setup_reply # data_reply # commit_reply # replies) tail" and "wc_faults (pp_conn p) = []"
  shows "\<exists>p'. wire_transaction setup_sql sql ps oids p
      = (Some (case first_error data_reply of None \<Rightarrow> Ok (row_list data_reply) | Some e \<Rightarrow> Err (Pg e)), p')
    \<and> (first_error data_reply = None \<longrightarrow> holds_replies p' replies tail)
    \<and> (first_error data_reply \<noteq> None \<longrightarrow> holds_replies p' (commit_reply # replies) tail
         \<and> fst (pipeline_simple_query next_sql p')
           = Some (case first_error commit_reply of None \<Rightarrow> Ok () | Some e \<Rightarrow> Err (Pg e)))"
proof -
  obtain stmt p0 where p0: "pipeline_lookup sql p = (stmt, p0)" by fastforce
  then have conn: "pp_conn p0 = pp_conn p" using pipeline_lookup_conn [of sql p] by simp
  let ?buf = "encode_messages (Query setup_sql # pipeline_messages sql ps oids stmt @ [Query (lit ''COMMIT'')]) []"
  have h0: "holds_replies p0 (setup_reply # data_reply # commit_reply # replies) tail" "wc_faults (pp_conn p0) = []"
    using assms holds_replies_conn [OF conn] conn by simp_all
  obtain p1 where p1: "on_conn (send_raw ?buf) p0 = (Some (Ok ()), p1)"
    "holds_replies p1 (setup_reply # data_reply # commit_reply # replies) tail" "wc_faults (pp_conn p1) = []"
    using send_holds [OF h0] by blast
  obtain p2 where p2: "on_conn drain_until_ready p1 = (Some (Ok ()), p2)"
    "holds_replies p2 (data_reply # commit_reply # replies) tail" "wc_faults (pp_conn p2) = []"
    using drain_takes [OF p1(2,3)] by blast
  obtain p3 where p3: "on_conn collect_rows p2 = (Some (case first_error data_reply of
        None \<Rightarrow> Ok (row_list data_reply, last_tag [] data_reply) | Some e \<Rightarrow> Err (Pg e)), p3)"
    "holds_replies p3 (commit_reply # replies) tail" "wc_faults (pp_conn p3) = []"
    using collect_takes [OF p2(2,3)] by blast
  obtain p4 where p4: "on_conn drain_until_ready p3 = (Some (Ok ()), p4)" "holds_replies p4 replies tail"
    using drain_takes [OF p3(2,3)] by blast
  have run: "wire_transaction setup_sql sql ps oids p =
      aw_then (on_conn collect_rows p2) (\<lambda>(rows, tag) p. aw_then (on_conn drain_until_ready p) (\<lambda>_ p. (Some (Ok rows), p)))"
    using p0 p1(1) p2(1) by (simp add: wire_transaction_def)
  show ?thesis
  proof (cases "first_error data_reply")
    case None
    then show ?thesis using run p3(1) p4 by simp
  next
    case (Some e)
    obtain p5 where p5: "pipeline_simple_query next_sql p3
        = (Some (case first_error commit_reply of None \<Rightarrow> Ok () | Some e \<Rightarrow> Err (Pg e)), p5)"
      using simple_query_reports [OF p3(2,3)] by blast
    with Some show ?thesis using run p3(1,2) by simp
  qed
qed

text \<open>Three replies and the one of the next statement, on the socket of \<open>Connection\<close>.\<close>

definition refused :: pg_error where
  "refused = pg_error_default\<lparr>pg_code := lit ''23505''\<rparr>"

definition sample_replies :: "backend_msg list list" where
  "sample_replies = [[CommandComplete (lit ''SET'')], [ErrorResponse refused], [CommandComplete (lit ''ROLLBACK'')],
     [ErrorResponse refused]]"

definition sample_pipeline :: pg_pipeline where
  "sample_pipeline = pipeline_new (sample_conn
     (concat (map server_frame (concat (map (\<lambda>ms. ms @ [ReadyForQuery 0x49]) sample_replies)))))"

lemma sample_pipeline_holds: "holds_replies sample_pipeline sample_replies []"
proof -
  have sendable: "list_all (\<lambda>m. server_sendable m \<and> (\<forall>r. m \<noteq> DataRow r)) (concat (map (\<lambda>ms. ms @ [ReadyForQuery 0x49]) sample_replies))"
    by (simp add: sample_replies_def refused_def pg_error_default_def server_sendable_def error_ok_def cstr_ok_def
        no_nul_def lit_def utf8_valid_ascii MAX_MESSAGE_SIZE_def put_error_def error_kvs_def put_kv_def)
  have "3 < length (concat (map server_frame (concat (map (\<lambda>ms. ms @ [ReadyForQuery 0x49]) sample_replies))))"
    by (simp add: sample_replies_def length_server_frame)
  from sample_conn_delivers [OF sendable this] show ?thesis
    unfolding holds_replies_def
    by (intro conjI exI [of _ "replicate 4 0x49"])
      (simp_all add: sample_pipeline_def pipeline_new_def sample_replies_def numeral_eq_Suc)
qed

lemma sample_pipeline_faults: "wc_faults (pp_conn sample_pipeline) = []"
  by (simp add: sample_pipeline_def pipeline_new_def sample_conn_def)

theorem pipeline_simple_query_reports_witness:
  "\<exists>p'. pipeline_simple_query (lit ''SET x = 1'') sample_pipeline = (Some (Ok ()), p')
    \<and> holds_replies p' (tl sample_replies) []"
  using pipeline_simple_query_reports [of sample_pipeline "hd sample_replies" "tl sample_replies" "[]"]
    sample_pipeline_holds sample_pipeline_faults
  by (simp add: sample_replies_def)

theorem wire_transaction_replies_witness:
  "\<exists>p'. wire_transaction (lit ''BEGIN'') (lit ''INSERT'') [] [] sample_pipeline = (Some (Err (Pg refused)), p')
    \<and> fst (pipeline_simple_query (lit ''DROP TABLE t'') p') = Some (Ok ())"
  using wire_transaction_replies [of sample_pipeline "sample_replies ! 0" "sample_replies ! 1" "sample_replies ! 2"
      "drop 3 sample_replies" "[]" "lit ''BEGIN''" "lit ''INSERT''" "[]" "[]" "lit ''DROP TABLE t''"]
    sample_pipeline_holds sample_pipeline_faults
  by (auto simp: sample_replies_def)

section \<open>The cache\<close>

lemma on_conn_cache [simp]: "pp_cache (snd (on_conn f p)) = pp_cache p" "pp_counter (snd (on_conn f p)) = pp_counter p"
  by (simp_all add: on_conn_def split: prod.splits)

lemma aw_then_keeps:
  "(\<And>a s. g (snd (f a s)) = g s) \<Longrightarrow> g (snd (aw_then p f)) = g (snd p)"
  by (cases "(p, f)" rule: aw_then.cases) simp_all

text \<open>The cache stays within its bound, and distinct statements have distinct entries.\<close>

lemma pipeline_lookup_bounded:
  "0 < pp_max p \<Longrightarrow> length (pp_cache p) \<le> pp_max p \<Longrightarrow> distinct (map fst (pp_cache p)) \<Longrightarrow>
   length (pp_cache (snd (pipeline_lookup sql p))) \<le> pp_max p
   \<and> distinct (map fst (pp_cache (snd (pipeline_lookup sql p)))) \<and> pp_max (snd (pipeline_lookup sql p)) = pp_max p"
  by (auto simp: pipeline_lookup_def Let_def map_of_eq_None_iff split: option.splits)

text \<open>Whatever the server replies to a query, its statement is cached afterwards: after a refused \<open>Parse\<close>, or
  a failed write, the next query with this SQL binds a statement that does not exist.\<close>

lemma refused_parse_stays_cached:
  "snd (fst (pipeline_lookup sql (snd (pipeline_query sql ps oids p)))) = False"
proof -
  obtain stmt p0 where p0: "pipeline_lookup sql p = (stmt, p0)" by fastforce
  have "map_of (pp_cache p0) sql \<noteq> None"
    using p0 by (auto simp: pipeline_lookup_def Let_def split: option.splits)
  moreover have "pp_cache (snd (pipeline_query sql ps oids p)) = pp_cache p0"
    unfolding pipeline_query_def p0 Let_def prod.case rows_only_def
    by (subst aw_then_keeps; (subst aw_then_keeps)?) (simp_all split: prod.splits)
  ultimately show ?thesis
    by (auto simp: pipeline_lookup_def split: option.splits)
qed

end
