(* ===== verification/Async_Reply.thy ===== *)
theory Async_Reply
  imports Stream
begin

text \<open>
  The reader side of \<open>pg-wired/src/async_conn.rs\<close>: the functions that collect the reply of one request
  off the shared stream (\<open>collect_rows\<close>, \<open>drain_until_ready\<close>, \<open>stream_rows\<close>,
  \<open>collect_copy_in_response\<close>, \<open>collect_copy_out\<close>), one step function per \<open>match msg\<close>. Each is shown
  to deliver what the reply says and to stop right after its \<open>ReadyForQuery\<close>.
\<close>

section \<open>State\<close>

text \<open>The shared flags and the notification channel: its receiver may have been dropped.\<close>

record session =
  ss_mutated :: bool
  ss_notes :: "backend_msg list"
  ss_notes_open :: bool
  ss_dropped :: u64

definition NOTIFICATION_CAP :: nat where "NOTIFICATION_CAP = 4096"

text \<open>The two channels of a streaming request: what has been sent on them, and after how many more
  sends the receiver of the rows is gone (\<open>None\<close>: never).\<close>

record stream_chan =
  st_header :: "(wire_error, field_description list) res option"
  st_rows :: "(wire_error, raw_row) res list"
  st_accepts :: "nat option"

datatype collector = Rows | Drain | StreamTo stream_chan | CopyIn bytes | CopyOut

datatype pipeline_response =
    RowsResponse "field_description list" "raw_row list" rstring
  | Done

section \<open>The collectors\<close>

definition note_rfq_status :: "u8 \<Rightarrow> session \<Rightarrow> session" where
  "note_rfq_status status s = (if status \<noteq> 0x49 then s\<lparr>ss_mutated := True\<rparr> else s)"

definition forward_notification :: "backend_msg \<Rightarrow> session \<Rightarrow> session" where
  "forward_notification msg s =
     (if ss_notes_open s \<and> length (ss_notes s) < NOTIFICATION_CAP
      then s\<lparr>ss_notes := ss_notes s @ [msg]\<rparr>
      else s\<lparr>ss_dropped := ss_dropped s + 1\<rparr>)"

fun async_drain_step :: "session \<Rightarrow> backend_msg \<Rightarrow> session \<times> unit option" where
  "async_drain_step s (ReadyForQuery status) = (note_rfq_status status s, Some ())"
| "async_drain_step s _ = (s, None)"

definition async_drain :: "read_half \<Rightarrow> session \<Rightarrow> unit awaited \<times> session \<times> read_half" where
  "async_drain rh s = msg_loop async_drain_step s rh"

text \<open>A loop that leaves with the reply or with the server's error; the error is returned after the
  drain, or the drain's own.\<close>

definition reply_or_drain ::
  "(pg_error + pipeline_response) awaited \<times> session \<times> read_half
     \<Rightarrow> pipeline_response awaited \<times> session \<times> read_half" where
  "reply_or_drain r =
     (case r of
        (Some (Ok (Inr p)), s, rh) \<Rightarrow> (Some (Ok p), s, rh)
      | (Some (Ok (Inl e)), s, rh) \<Rightarrow>
          (case async_drain rh s of
             (Some (Ok _), s', rh') \<Rightarrow> (Some (Err (Pg e)), s', rh')
           | (Some (Err e'), s', rh') \<Rightarrow> (Some (Err e'), s', rh')
           | (Some Panic, s', rh') \<Rightarrow> (Some Panic, s', rh')
           | (None, s', rh') \<Rightarrow> (None, s', rh'))
      | (Some (Err e), s, rh) \<Rightarrow> (Some (Err e), s, rh)
      | (Some Panic, s, rh) \<Rightarrow> (Some Panic, s, rh)
      | (None, s, rh) \<Rightarrow> (None, s, rh))"

text \<open>The variables of a collecting loop.\<close>

record gathered =
  g_fields :: "field_description list"
  g_rows :: "raw_row list"
  g_tag :: rstring

definition nothing_gathered :: gathered where
  "nothing_gathered = \<lparr>g_fields = [], g_rows = [], g_tag = []\<rparr>"

type_synonym collecting = "gathered \<times> session"

fun async_rows_step ::
  "collecting \<Rightarrow> backend_msg \<Rightarrow> collecting \<times> (pg_error + pipeline_response) option" where
  "async_rows_step (g, s) (DataRow row) = ((g\<lparr>g_rows := g_rows g @ [row]\<rparr>, s), None)"
| "async_rows_step (g, s) (RowDescription f) = ((g\<lparr>g_fields := f\<rparr>, s), None)"
| "async_rows_step (g, s) (CommandComplete t) = ((g\<lparr>g_tag := t\<rparr>, s), None)"
| "async_rows_step (g, s) (ReadyForQuery status) =
     ((g, note_rfq_status status s), Some (Inr (RowsResponse (g_fields g) (g_rows g) (g_tag g))))"
| "async_rows_step (g, s) (ErrorResponse e) = ((g, s), Some (Inl e))"
| "async_rows_step (g, s) (NotificationResponse pid c p) =
     ((g, forward_notification (NotificationResponse pid c p) s), None)"
| "async_rows_step (g, s) _ = ((g, s), None)"

fun copy_in_step ::
  "collecting \<Rightarrow> backend_msg \<Rightarrow> collecting \<times> (pg_error + pipeline_response) option" where
  "copy_in_step (g, s) (CommandComplete t) = ((g\<lparr>g_tag := t\<rparr>, s), None)"
| "copy_in_step (g, s) (ReadyForQuery status) =
     ((g, note_rfq_status status s), Some (Inr (RowsResponse [] [] (g_tag g))))"
| "copy_in_step (g, s) (ErrorResponse e) = ((g, s), Some (Inl e))"
| "copy_in_step (g, s) _ = ((g, s), None)"

fun copy_out_step ::
  "collecting \<Rightarrow> backend_msg \<Rightarrow> collecting \<times> (pg_error + pipeline_response) option" where
  "copy_out_step (g, s) (BackendCopyData d) = ((g\<lparr>g_rows := g_rows g @ [from_full_body d]\<rparr>, s), None)"
| "copy_out_step (g, s) (CommandComplete t) = ((g\<lparr>g_tag := t\<rparr>, s), None)"
| "copy_out_step (g, s) (ReadyForQuery status) =
     ((g, note_rfq_status status s), Some (Inr (RowsResponse [] (g_rows g) (g_tag g))))"
| "copy_out_step (g, s) (ErrorResponse e) = ((g, s), Some (Inl e))"
| "copy_out_step (g, s) _ = ((g, s), None)"

definition collect_with ::
  "(collecting \<Rightarrow> backend_msg \<Rightarrow> collecting \<times> (pg_error + pipeline_response) option)
     \<Rightarrow> read_half \<Rightarrow> session \<Rightarrow> pipeline_response awaited \<times> session \<times> read_half" where
  "collect_with step rh s =
     (case msg_loop step (nothing_gathered, s) rh of (r, (_, s'), rh') \<Rightarrow> reply_or_drain (r, s', rh'))"

definition async_collect_rows :: "read_half \<Rightarrow> session \<Rightarrow> pipeline_response awaited \<times> session \<times> read_half"
  where "async_collect_rows = collect_with async_rows_step"

definition collect_copy_in_response ::
  "read_half \<Rightarrow> session \<Rightarrow> pipeline_response awaited \<times> session \<times> read_half"
  where "collect_copy_in_response = collect_with copy_in_step"

definition collect_copy_out :: "read_half \<Rightarrow> session \<Rightarrow> pipeline_response awaited \<times> session \<times> read_half"
  where "collect_copy_out = collect_with copy_out_step"

subsection \<open>Streaming\<close>

text \<open>\<open>header_tx.take()\<close> then \<open>send\<close>: only the first send happens.\<close>

definition send_header ::
  "(wire_error, field_description list) res \<Rightarrow> stream_chan \<Rightarrow> stream_chan" where
  "send_header h ch = (if st_header ch = None then ch\<lparr>st_header := Some h\<rparr> else ch)"

text \<open>\<open>row_tx.send(x).await\<close>: whether the receiver is still there.\<close>

definition send_row :: "(wire_error, raw_row) res \<Rightarrow> stream_chan \<Rightarrow> bool \<times> stream_chan" where
  "send_row x ch =
     (case st_accepts ch of
        None \<Rightarrow> (True, ch\<lparr>st_rows := st_rows ch @ [x]\<rparr>)
      | Some 0 \<Rightarrow> (False, ch)
      | Some (Suc n) \<Rightarrow> (True, ch\<lparr>st_rows := st_rows ch @ [x], st_accepts := Some n\<rparr>))"

text \<open>An error goes to the header when that is still unsent, otherwise to the rows.\<close>

definition send_stream_error :: "wire_error \<Rightarrow> stream_chan \<Rightarrow> stream_chan" where
  "send_stream_error e ch =
     (if st_header ch = None then send_header (Err e) ch else snd (send_row (Err e) ch))"

type_synonym streaming = "field_description list \<times> stream_chan \<times> session"

text \<open>The loop leaves with whether the stream is to be drained first.\<close>

fun stream_step :: "streaming \<Rightarrow> backend_msg \<Rightarrow> streaming \<times> bool option" where
  "stream_step (fs, ch, s) (RowDescription f) = ((f, ch, s), None)"
| "stream_step (fs, ch, s) (DataRow row) =
     (let (sent, ch') = send_row (Ok row) (send_header (Ok fs) ch)
      in ((fs, ch', s), if sent then None else Some True))"
| "stream_step (fs, ch, s) (CommandComplete _) =
     (if st_header ch = None then (([], send_header (Ok fs) ch, s), None) else ((fs, ch, s), None))"
| "stream_step (fs, ch, s) (ReadyForQuery status) =
     (let s' = note_rfq_status status s
      in (if st_header ch = None then (([], send_header (Ok fs) ch, s'), Some False)
          else ((fs, ch, s'), Some False)))"
| "stream_step (fs, ch, s) (ErrorResponse e) = ((fs, send_stream_error (Pg e) ch, s), Some True)"
| "stream_step (fs, ch, s) (NotificationResponse pid c p) =
     ((fs, ch, forward_notification (NotificationResponse pid c p) s), None)"
| "stream_step (fs, ch, s) _ = ((fs, ch, s), None)"

text \<open>The outcome of the drain is ignored; a read error is sent on the channels.\<close>

definition stream_rows ::
  "read_half \<Rightarrow> stream_chan \<Rightarrow> session \<Rightarrow> unit awaited \<times> stream_chan \<times> session \<times> read_half" where
  "stream_rows rh ch s =
     (case msg_loop stream_step ([], ch, s) rh of
        (None, (_, ch', s'), rh') \<Rightarrow> (None, ch', s', rh')
      | (Some Panic, (_, ch', s'), rh') \<Rightarrow> (Some Panic, ch', s', rh')
      | (Some (Err e), (_, ch', s'), rh') \<Rightarrow> (Some (Ok ()), send_stream_error e ch', s', rh')
      | (Some (Ok drain), (_, ch', s'), rh') \<Rightarrow>
          if drain then
            (case async_drain rh' s' of
               (None, s'', rh'') \<Rightarrow> (None, ch', s'', rh'')
             | (Some Panic, s'', rh'') \<Rightarrow> (Some Panic, ch', s'', rh'')
             | (Some _, s'', rh'') \<Rightarrow> (Some (Ok ()), ch', s'', rh''))
          else (Some (Ok ()), ch', s', rh'))"

subsection \<open>One request\<close>

text \<open>The \<open>match pr.collector\<close> of \<open>reader_task\<close>: the result for the caller, and the channels of a
  streaming request.\<close>

definition collect_response ::
  "collector \<Rightarrow> read_half \<Rightarrow> session
     \<Rightarrow> pipeline_response awaited \<times> stream_chan option \<times> session \<times> read_half" where
  "collect_response c rh s =
     (case c of
        Rows \<Rightarrow> (case async_collect_rows rh s of (r, s', rh') \<Rightarrow> (r, None, s', rh'))
      | Drain \<Rightarrow>
          (case async_drain rh s of
             (r, s', rh') \<Rightarrow>
               (map_option (\<lambda>x. and_then x (\<lambda>_. Ok Done)) r, None, s', rh'))
      | StreamTo ch \<Rightarrow>
          (case stream_rows rh ch s of
             (r, ch', s', rh') \<Rightarrow>
               (map_option (\<lambda>x. and_then x (\<lambda>_. Ok Done)) r, Some ch', s', rh'))
      | CopyIn _ \<Rightarrow> (case collect_copy_in_response rh s of (r, s', rh') \<Rightarrow> (r, None, s', rh'))
      | CopyOut \<Rightarrow> (case collect_copy_out rh s of (r, s', rh') \<Rightarrow> (r, None, s', rh')))"

section \<open>What a reply means to each collector\<close>

definition copied :: "backend_msg list \<Rightarrow> bytes list" where
  "copied ms = concat (map (\<lambda>m. case m of BackendCopyData d \<Rightarrow> [d] | _ \<Rightarrow> []) ms)"

text \<open>The response of a request whose reply is \<open>ms\<close> and then \<open>ReadyForQuery\<close>.\<close>

definition or_first_error :: "backend_msg list \<Rightarrow> 'a \<Rightarrow> (wire_error, 'a) res" where
  "or_first_error ms r = (case first_error ms of None \<Rightarrow> Ok r | Some e \<Rightarrow> Err (Pg e))"

fun response_of :: "collector \<Rightarrow> backend_msg list \<Rightarrow> (wire_error, pipeline_response) res" where
  "response_of Rows ms =
     or_first_error ms (RowsResponse (last_fields [] ms) (row_list ms) (last_tag [] ms))"
| "response_of Drain ms = Ok Done"
| "response_of (StreamTo _) ms = Ok Done"
| "response_of (CopyIn _) ms = or_first_error ms (RowsResponse [] [] (last_tag [] ms))"
| "response_of CopyOut ms =
     or_first_error ms (RowsResponse [] (map from_full_body (copied ms)) (last_tag [] ms))"

lemma copied_simps [simp]:
  "copied [] = []" "copied (m # ms) = (case m of BackendCopyData d \<Rightarrow> [d] | _ \<Rightarrow> []) @ copied ms"
  by (simp_all add: copied_def)

text \<open>The notifications of a reply, forwarded one after the other.\<close>

definition noted :: "backend_msg list \<Rightarrow> session \<Rightarrow> session" where
  "noted ms s =
     fold (\<lambda>m s. case m of NotificationResponse _ _ _ \<Rightarrow> forward_notification m s | _ \<Rightarrow> s) ms s"

lemma noted_simps [simp]:
  "noted [] s = s"
  "noted (m # ms) s =
     noted ms (case m of NotificationResponse _ _ _ \<Rightarrow> forward_notification m s | _ \<Rightarrow> s)"
  by (simp_all add: noted_def)

lemma mutated_forward [simp]: "ss_mutated (forward_notification m s) = ss_mutated s"
  by (simp add: forward_notification_def)

lemma mutated_noted [simp]: "ss_mutated (noted ms s) = ss_mutated s"
proof (induction ms arbitrary: s)
  case (Cons m ms)
  then show ?case by (cases m) simp_all
qed simp

lemma mutated_rfq [simp]: "ss_mutated (note_rfq_status st s) \<longleftrightarrow> ss_mutated s \<or> st \<noteq> 0x49"
  by (simp add: note_rfq_status_def)

text \<open>Each step over the messages before \<open>ReadyForQuery\<close> or an error.\<close>

lemma run_async_rows:
  "no_ready ms \<Longrightarrow> first_error ms = None \<Longrightarrow>
   run_steps async_rows_step (\<lparr>g_fields = f, g_rows = r, g_tag = t\<rparr>, s) (ms @ later)
   = run_steps async_rows_step (\<lparr>g_fields = last_fields f ms, g_rows = r @ row_list ms,
        g_tag = last_tag t ms\<rparr>, noted ms s) later"
proof (induction ms arbitrary: f r t s)
  case (Cons m ms)
  then show ?case by (cases m) simp_all
qed simp

lemma run_copy_in:
  "no_ready ms \<Longrightarrow> first_error ms = None \<Longrightarrow>
   run_steps copy_in_step (\<lparr>g_fields = f, g_rows = r, g_tag = t\<rparr>, s) (ms @ later)
   = run_steps copy_in_step (\<lparr>g_fields = f, g_rows = r, g_tag = last_tag t ms\<rparr>, s) later"
proof (induction ms arbitrary: t)
  case (Cons m ms)
  then show ?case by (cases m) simp_all
qed simp

lemma run_copy_out:
  "no_ready ms \<Longrightarrow> first_error ms = None \<Longrightarrow>
   run_steps copy_out_step (\<lparr>g_fields = f, g_rows = r, g_tag = t\<rparr>, s) (ms @ later)
   = run_steps copy_out_step (\<lparr>g_fields = f, g_rows = r @ map from_full_body (copied ms),
        g_tag = last_tag t ms\<rparr>, s) later"
proof (induction ms arbitrary: r t)
  case (Cons m ms)
  then show ?case by (cases m) simp_all
qed simp

lemma run_async_drain:
  "no_ready ms \<Longrightarrow> run_steps async_drain_step s (ms @ ReadyForQuery st # rest)
   = (note_rfq_status st s, Some (), rest)"
proof (induction ms)
  case (Cons m ms)
  then show ?case by (cases m) simp_all
qed simp

text \<open>The outcome of collecting one reply: it waits while bytes are missing, or it has the response and
  stands right after \<open>ReadyForQuery\<close>, whose status is noted.\<close>

definition collected ::
  "'a awaited \<times> session \<times> read_half \<Rightarrow> (wire_error, 'a) res \<Rightarrow> session \<Rightarrow> u8
     \<Rightarrow> backend_msg list \<Rightarrow> bytes \<Rightarrow> bool" where
  "collected out r s st rest future \<longleftrightarrow>
     (fst out = None \<and> future \<noteq> [])
     \<or> (fst out = Some r \<and> on_course (snd (snd out)) rest future
         \<and> (ss_mutated (fst (snd out)) \<longleftrightarrow> ss_mutated s \<or> st \<noteq> 0x49))"

lemma async_drain_collected:
  assumes "on_course rh (ms @ ReadyForQuery st # rest) future" and "no_ready ms"
  shows "collected (async_drain rh s) (Ok ()) s st rest future"
  using arriving.loop_course [OF assms(1) run_async_drain [OF assms(2)], of s]
  by (auto simp: async_drain_def collected_def)

text \<open>A collecting loop is right when its steps gather \<open>resp\<close> from replies without errors and it leaves
  at an error.\<close>

lemma collect_with_collected:
  assumes course: "on_course rh (ms @ ReadyForQuery st # rest) future" and ready: "no_ready ms"
    and ok: "first_error ms = None \<Longrightarrow>
      \<exists>g s'. run_steps step (nothing_gathered, s) (ms @ ReadyForQuery st # rest)
        = ((g, note_rfq_status st s'), Some (Inr resp), rest) \<and> ss_mutated s' = ss_mutated s"
    and err: "\<And>pre e post. ms = pre @ ErrorResponse e # post \<Longrightarrow> first_error pre = None \<Longrightarrow>
      \<exists>g s'. run_steps step (nothing_gathered, s) (ms @ ReadyForQuery st # rest)
        = ((g, s'), Some (Inl e), post @ ReadyForQuery st # rest) \<and> ss_mutated s' = ss_mutated s"
  shows "collected (collect_with step rh s) (or_first_error ms resp) s st rest future"
proof (cases "first_error ms")
  case None
  from ok [OF this] arriving.loop_course [OF course] None show ?thesis
    by (fastforce simp: collect_with_def reply_or_drain_def collected_def or_first_error_def)
next
  case (Some e)
  then obtain pre post where ms: "ms = pre @ ErrorResponse e # post" "first_error pre = None"
    by (blast dest: first_error_Some)
  obtain g s' where run: "run_steps step (nothing_gathered, s) (ms @ ReadyForQuery st # rest)
      = ((g, s'), Some (Inl e), post @ ReadyForQuery st # rest)" "ss_mutated s' = ss_mutated s"
    using err [OF ms] by blast
  from arriving.loop_course [OF course run(1)] show ?thesis
  proof (elim disjE exE conjE)
    fix rh'
    assume l: "msg_loop step (nothing_gathered, s) rh = (Some (Ok (Inl e)), (g, s'), rh')"
      and c: "on_course rh' (post @ ReadyForQuery st # rest) future"
    have "no_ready post" using ready ms by simp
    from async_drain_collected [OF c this, of s'] l run(2) Some show ?thesis
      by (cases "async_drain rh' s'")
        (auto simp: collect_with_def reply_or_drain_def collected_def or_first_error_def)
  qed (auto simp: collect_with_def reply_or_drain_def collected_def)
qed

lemma collect_rows_collected:
  assumes "on_course rh (ms @ ReadyForQuery st # rest) future" and "no_ready ms"
  shows "collected (async_collect_rows rh s) (response_of Rows ms) s st rest future"
  unfolding async_collect_rows_def response_of.simps
proof (rule collect_with_collected [OF assms])
  assume "first_error ms = None"
  from run_async_rows [OF assms(2) this]
  show "\<exists>g s'. run_steps async_rows_step (nothing_gathered, s) (ms @ ReadyForQuery st # rest)
      = ((g, note_rfq_status st s'), Some (Inr (RowsResponse (last_fields [] ms) (row_list ms) (last_tag [] ms))), rest)
      \<and> ss_mutated s' = ss_mutated s"
    by (auto simp: nothing_gathered_def)
next
  fix pre e post
  assume "ms = pre @ ErrorResponse e # post" "first_error pre = None"
  with run_async_rows [of pre] assms(2)
  show "\<exists>g s'. run_steps async_rows_step (nothing_gathered, s) (ms @ ReadyForQuery st # rest)
      = ((g, s'), Some (Inl e), post @ ReadyForQuery st # rest) \<and> ss_mutated s' = ss_mutated s"
    by (auto simp: nothing_gathered_def)
qed

lemma collect_copy_in_collected:
  assumes "on_course rh (ms @ ReadyForQuery st # rest) future" and "no_ready ms"
  shows "collected (collect_copy_in_response rh s) (response_of (CopyIn d) ms) s st rest future"
  unfolding collect_copy_in_response_def response_of.simps
proof (rule collect_with_collected [OF assms])
  assume "first_error ms = None"
  from run_copy_in [OF assms(2) this]
  show "\<exists>g s'. run_steps copy_in_step (nothing_gathered, s) (ms @ ReadyForQuery st # rest)
      = ((g, note_rfq_status st s'), Some (Inr (RowsResponse [] [] (last_tag [] ms))), rest)
      \<and> ss_mutated s' = ss_mutated s"
    by (auto simp: nothing_gathered_def)
next
  fix pre e post
  assume "ms = pre @ ErrorResponse e # post" "first_error pre = None"
  with run_copy_in [of pre] assms(2)
  show "\<exists>g s'. run_steps copy_in_step (nothing_gathered, s) (ms @ ReadyForQuery st # rest)
      = ((g, s'), Some (Inl e), post @ ReadyForQuery st # rest) \<and> ss_mutated s' = ss_mutated s"
    by (auto simp: nothing_gathered_def)
qed

lemma collect_copy_out_collected:
  assumes "on_course rh (ms @ ReadyForQuery st # rest) future" and "no_ready ms"
  shows "collected (collect_copy_out rh s) (response_of CopyOut ms) s st rest future"
  unfolding collect_copy_out_def response_of.simps
proof (rule collect_with_collected [OF assms])
  assume "first_error ms = None"
  from run_copy_out [OF assms(2) this]
  show "\<exists>g s'. run_steps copy_out_step (nothing_gathered, s) (ms @ ReadyForQuery st # rest)
      = ((g, note_rfq_status st s'),
         Some (Inr (RowsResponse [] (map from_full_body (copied ms)) (last_tag [] ms))), rest)
      \<and> ss_mutated s' = ss_mutated s"
    by (auto simp: nothing_gathered_def)
next
  fix pre e post
  assume "ms = pre @ ErrorResponse e # post" "first_error pre = None"
  with run_copy_out [of pre] assms(2)
  show "\<exists>g s'. run_steps copy_out_step (nothing_gathered, s) (ms @ ReadyForQuery st # rest)
      = ((g, s'), Some (Inl e), post @ ReadyForQuery st # rest) \<and> ss_mutated s' = ss_mutated s"
    by (auto simp: nothing_gathered_def)
qed

subsection \<open>A streamed reply\<close>

text \<open>The loop leaves at \<open>ReadyForQuery\<close>, or earlier (an error, or the receiver is gone) and then
  drains: either way it stops right after \<open>ReadyForQuery\<close>.\<close>

lemma run_stream:
  "no_ready ms \<Longrightarrow>
   (\<exists>f ch' s'. run_steps stream_step (f0, ch, s) (ms @ ReadyForQuery st # rest)
       = ((f, ch', note_rfq_status st s'), Some False, rest) \<and> ss_mutated s' = ss_mutated s)
   \<or> (\<exists>f ch' s' post. run_steps stream_step (f0, ch, s) (ms @ ReadyForQuery st # rest)
       = ((f, ch', s'), Some True, post @ ReadyForQuery st # rest) \<and> ss_mutated s' = ss_mutated s
       \<and> no_ready post)"
proof (induction ms arbitrary: f0 ch s)
  case (Cons m ms)
  have IH: "no_ready ms" using Cons.prems by simp
  show ?case
  proof (cases "snd (stream_step (f0, ch, s) m)")
    case None
    then obtain f1 ch1 s1 where m: "stream_step (f0, ch, s) m = ((f1, ch1, s1), None)"
      by (cases "stream_step (f0, ch, s) m") auto
    then have "ss_mutated s1 = ss_mutated s"
      using Cons.prems by (cases m) (auto simp: Let_def split: prod.splits if_splits)
    with Cons.IH [OF IH, of f1 ch1 s1] m show ?thesis by simp
  next
    case (Some b)
    then obtain f1 ch1 s1 where m: "stream_step (f0, ch, s) m = ((f1, ch1, s1), Some b)"
      by (cases "stream_step (f0, ch, s) m") auto
    then have "b \<and> ss_mutated s1 = ss_mutated s"
      using Cons.prems by (cases m) (auto simp: Let_def split: prod.splits if_splits)
    with m IH show ?thesis by simp
  qed
qed (auto simp: Let_def)

lemma stream_rows_collected:
  assumes "on_course rh (ms @ ReadyForQuery st # rest) future" and "no_ready ms"
  shows "collected (case stream_rows rh ch s of (r, ch', x) \<Rightarrow> (r, x)) (Ok ()) s st rest future"
  using run_stream [OF assms(2), of "[]" ch s st rest]
proof (elim disjE exE conjE)
  fix f ch' s'
  assume run: "run_steps stream_step ([], ch, s) (ms @ ReadyForQuery st # rest)
      = ((f, ch', note_rfq_status st s'), Some False, rest)" and s': "ss_mutated s' = ss_mutated s"
  from arriving.loop_course [OF assms(1) run] s' show ?thesis
    by (fastforce simp: stream_rows_def collected_def)
next
  fix f ch' s' post
  assume run: "run_steps stream_step ([], ch, s) (ms @ ReadyForQuery st # rest)
      = ((f, ch', s'), Some True, post @ ReadyForQuery st # rest)"
    and s': "ss_mutated s' = ss_mutated s" and post: "no_ready post"
  from arriving.loop_course [OF assms(1) run] show ?thesis
  proof (elim disjE exE conjE)
    fix rh'
    assume l: "msg_loop stream_step ([], ch, s) rh = (Some (Ok True), (f, ch', s'), rh')"
      and c: "on_course rh' (post @ ReadyForQuery st # rest) future"
    from async_drain_collected [OF c post, of s'] l s' show ?thesis
      by (cases "async_drain rh' s'") (auto simp: stream_rows_def collected_def)
  qed (auto simp: stream_rows_def collected_def)
qed

lemma collect_response_collected:
  assumes "on_course rh (ms @ ReadyForQuery st # rest) future" and "no_ready ms"
  shows "collected (case collect_response c rh s of (r, ch, x) \<Rightarrow> (r, x)) (response_of c ms) s st rest future"
proof (cases c)
  case Rows
  with collect_rows_collected [OF assms, of s] show ?thesis
    by (auto simp: collect_response_def split: prod.splits)
next
  case Drain
  with async_drain_collected [OF assms, of s] show ?thesis
    by (auto simp: collect_response_def collected_def split: prod.splits)
next
  case (StreamTo ch)
  with stream_rows_collected [OF assms, of ch s] show ?thesis
    by (auto simp: collect_response_def collected_def split: prod.splits)
next
  case (CopyIn d)
  with collect_copy_in_collected [OF assms, of s d] show ?thesis
    by (auto simp: collect_response_def split: prod.splits)
next
  case CopyOut
  with collect_copy_out_collected [OF assms, of s] show ?thesis
    by (auto simp: collect_response_def split: prod.splits)
qed

text \<open>C28: Every collector answers a request with what the server's reply says (rows, tag and columns, or
  the first error; a drain and a stream always answer \<open>Done\<close>), leaves the stream right after the
  reply's \<open>ReadyForQuery\<close>, and flags the session as mutated exactly when that reports a status other
  than idle.\<close>

theorem collect_response_resync:
  assumes "on_course rh (ms @ ReadyForQuery st # rest) []" and "no_ready ms"
  shows "\<exists>ch s' rh'. collect_response c rh s = (Some (response_of c ms), ch, s', rh')
    \<and> on_course rh' rest [] \<and> (ss_mutated s' \<longleftrightarrow> ss_mutated s \<or> st \<noteq> 0x49)"
  using collect_response_collected [OF assms, of c s]
  by (cases "collect_response c rh s") (auto simp: collected_def)

definition sample_session :: session where
  "sample_session = \<lparr>ss_mutated = False, ss_notes = [], ss_notes_open = True, ss_dropped = 0\<rparr>"

definition sample_half :: "backend_msg list \<Rightarrow> read_half" where
  "sample_half ms = \<lparr>rh_buf = concat (map server_frame ms), rh_events = []\<rparr>"

lemma sample_half_course:
  "list_all (\<lambda>m. server_sendable m \<and> (\<forall>r. m \<noteq> DataRow r)) ms \<Longrightarrow> on_course (sample_half ms) ms []"
  using parses_exact [of ms "[]"] by (simp add: sample_half_def on_course_def)

definition sample_error :: pg_error where
  "sample_error = pg_error_default\<lparr>pg_code := lit ''25P02''\<rparr>"

lemma sample_error_course:
  "on_course (sample_half [ErrorResponse sample_error, ReadyForQuery 0x45])
     ([ErrorResponse sample_error] @ ReadyForQuery 0x45 # []) []"
proof -
  have "list_all (\<lambda>m. server_sendable m \<and> (\<forall>r. m \<noteq> DataRow r)) [ErrorResponse sample_error, ReadyForQuery 0x45]"
    by (simp add: sample_error_def pg_error_default_def server_sendable_def error_ok_def cstr_ok_def
        no_nul_def lit_def utf8_valid_ascii put_error_def error_kvs_def put_kv_def MAX_MESSAGE_SIZE_def)
  from sample_half_course [OF this] show ?thesis by simp
qed

theorem collect_response_resync_witness:
  "\<exists>ch s' rh'. collect_response Rows (sample_half [ErrorResponse sample_error, ReadyForQuery 0x45]) sample_session
      = (Some (Err (Pg sample_error)), ch, s', rh') \<and> on_course rh' [] [] \<and> ss_mutated s'"
  using collect_response_resync [OF sample_error_course, of Rows sample_session]
  by (auto simp: or_first_error_def)

text \<open>A \<open>COMMIT\<close> that the server refuses is reported as done: the collector of such a request drops the
  error.\<close>

lemma drain_swallows_error:
  "\<exists>ch s' rh'. collect_response Drain (sample_half [ErrorResponse sample_error, ReadyForQuery 0x45]) sample_session
      = (Some (Ok Done), ch, s', rh')"
  using collect_response_collected [OF sample_error_course, of Drain sample_session]
  by (cases "collect_response Drain (sample_half [ErrorResponse sample_error, ReadyForQuery 0x45]) sample_session")
    (auto simp: collected_def)

text \<open>Notifications that arrive while a reply is drained or copied are neither forwarded nor counted.\<close>

lemma drain_forgets_notifications: "async_drain_step s (NotificationResponse pid c p) = (s, None)"
  and copy_forgets_notifications:
    "copy_in_step (g, s) (NotificationResponse pid c p) = ((g, s), None)"
    "copy_out_step (g, s) (NotificationResponse pid c p) = ((g, s), None)"
  by simp_all

section \<open>What a stream's consumer sees\<close>

fun opens :: "backend_msg \<Rightarrow> bool" where
  "opens (DataRow _) = True"
| "opens (CommandComplete _) = True"
| "opens _ = False"

definition before_error :: "backend_msg list \<Rightarrow> backend_msg list" where
  "before_error ms = takeWhile (\<lambda>m. case m of ErrorResponse _ \<Rightarrow> False | _ \<Rightarrow> True) ms"

text \<open>The header, sent with the first row or at the end, has the columns described by then.\<close>

definition header_fields :: "backend_msg list \<Rightarrow> field_description list" where
  "header_fields ms = last_fields [] (takeWhile (\<lambda>m. \<not> opens m) ms)"

definition fresh_chan :: stream_chan where
  "fresh_chan = \<lparr>st_header = None, st_rows = [], st_accepts = None\<rparr>"

definition streamed :: "backend_msg list \<Rightarrow> stream_chan" where
  "streamed ms =
     (let pre = before_error ms
      in case first_error ms of
           None \<Rightarrow> \<lparr>st_header = Some (Ok (header_fields ms)), st_rows = map Ok (row_list ms), st_accepts = None\<rparr>
         | Some e \<Rightarrow>
             if list_ex opens pre
             then \<lparr>st_header = Some (Ok (header_fields pre)), st_rows = map Ok (row_list pre) @ [Err (Pg e)],
                   st_accepts = None\<rparr>
             else \<lparr>st_header = Some (Err (Pg e)), st_rows = [], st_accepts = None\<rparr>)"

lemma run_stream_open:
  "no_ready ms \<Longrightarrow> first_error ms = None \<Longrightarrow>
   \<exists>s'. run_steps stream_step (f, \<lparr>st_header = Some h, st_rows = r, st_accepts = None\<rparr>, s) (ms @ later)
     = run_steps stream_step (last_fields f ms, \<lparr>st_header = Some h, st_rows = r @ map Ok (row_list ms),
         st_accepts = None\<rparr>, s') later"
proof (induction ms arbitrary: f r s)
  case (Cons m ms)
  have "\<exists>s'. run_steps stream_step (f, \<lparr>st_header = Some h, st_rows = r @ [x], st_accepts = None\<rparr>, s) (ms @ later)
     = run_steps stream_step (last_fields f ms, \<lparr>st_header = Some h, st_rows = r @ x # map Ok (row_list ms),
         st_accepts = None\<rparr>, s') later" if "m = DataRow y" for x y s
    using Cons.IH [of f "r @ [x]" s] Cons.prems that by simp
  with Cons show ?case by (cases m) (simp_all add: send_header_def send_row_def)
qed auto

lemma run_stream_unopened:
  "no_ready ms \<Longrightarrow> first_error ms = None \<Longrightarrow> \<not> list_ex opens ms \<Longrightarrow>
   \<exists>s'. run_steps stream_step (f, ch, s) (ms @ later) = run_steps stream_step (last_fields f ms, ch, s') later"
proof (induction ms arbitrary: f s)
  case (Cons m ms)
  then show ?case by (cases m) simp_all
qed auto

lemma first_error_append: "first_error (xs @ ys) = (case first_error xs of None \<Rightarrow> first_error ys | Some e \<Rightarrow> Some e)"
proof (induction xs)
  case (Cons x xs)
  then show ?case by (cases x) simp_all
qed simp

lemma run_stream_opening:
  assumes "no_ready ms" and "first_error ms = None" and "list_ex opens ms"
  shows "\<exists>f s'. run_steps stream_step ([], fresh_chan, s) (ms @ later)
     = run_steps stream_step (f, \<lparr>st_header = Some (Ok (header_fields ms)), st_rows = map Ok (row_list ms),
         st_accepts = None\<rparr>, s') later"
proof -
  obtain pre m post where ms: "ms = pre @ m # post" "\<not> list_ex opens pre" "opens m"
    using assms(3) split_list_first_prop [of ms opens] by (auto simp: list_ex_iff)
  have pre: "first_error pre = None" "no_ready pre" "row_list pre = []"
    and post: "first_error post = None" "no_ready post"
    and h: "header_fields ms = last_fields [] pre" "row_list ms = row_list (m # post)"
  proof -
    show "first_error pre = None" "no_ready pre" "no_ready post"
      using assms ms by (auto simp: first_error_append split: option.splits)
    show "first_error post = None"
      using assms(2) ms by (cases m) (auto simp: first_error_append split: option.splits)
    show p: "row_list pre = []"
      using ms(2) by (induction pre) (auto split: backend_msg.splits)
    show "header_fields ms = last_fields [] pre"
      using ms by (simp add: header_fields_def takeWhile_tail list_ex_iff takeWhile_append2)
    show "row_list ms = row_list (m # post)"
      using p unfolding ms by (simp add: row_list_def)
  qed
  obtain s1 where s1: "run_steps stream_step ([], fresh_chan, s) (ms @ later)
      = run_steps stream_step (last_fields [] pre, fresh_chan, s1) (m # post @ later)"
    using run_stream_unopened [OF pre(2,1) ms(2), of "[]" fresh_chan s "m # post @ later"] ms(1) by auto
  consider (row) x where "m = DataRow x" | (complete) t where "m = CommandComplete t"
    using ms(3) by (cases m) auto
  then show ?thesis
  proof cases
    case row
    from run_stream_open [OF post(2,1), of "last_fields [] pre" "Ok (last_fields [] pre)" "[Ok x]" s1 later]
    show ?thesis by (auto simp: s1 [unfolded fresh_chan_def] h row fresh_chan_def send_header_def send_row_def)
  next
    case complete
    from run_stream_open [OF post(2,1), of "[]" "Ok (last_fields [] pre)" "[]" s1 later]
    show ?thesis by (auto simp: s1 [unfolded fresh_chan_def] h complete fresh_chan_def send_header_def)
  qed
qed

lemma before_error_Some:
  "first_error pre = None \<Longrightarrow> before_error (pre @ ErrorResponse e # post) = pre"
proof (induction pre)
  case (Cons m pre)
  then show ?case by (cases m) (simp_all add: before_error_def)
qed (simp add: before_error_def)

lemma header_fields_unopened: "\<not> list_ex opens ms \<Longrightarrow> header_fields ms = last_fields [] ms"
  by (simp add: header_fields_def list_ex_iff takeWhile_eq_all_conv [THEN iffD2])

lemma row_list_unopened: "\<not> list_ex opens ms \<Longrightarrow> row_list ms = []"
  by (induction ms) (auto split: backend_msg.splits)

lemma run_streamed:
  assumes "no_ready ms"
  shows "(first_error ms = None \<and> (\<exists>f s'. run_steps stream_step ([], fresh_chan, s) (ms @ ReadyForQuery st # rest)
       = ((f, streamed ms, s'), Some False, rest)))
   \<or> (\<exists>f s' post. run_steps stream_step ([], fresh_chan, s) (ms @ ReadyForQuery st # rest)
       = ((f, streamed ms, s'), Some True, post @ ReadyForQuery st # rest) \<and> no_ready post)"
proof (cases "first_error ms")
  case None
  show ?thesis
  proof (cases "list_ex opens ms")
    case True
    from run_stream_opening [OF assms None True, of s "ReadyForQuery st # rest"] None show ?thesis
      by (auto simp: streamed_def Let_def)
  next
    case False
    from run_stream_unopened [OF assms None False, of "[]" fresh_chan s "ReadyForQuery st # rest"] None False
    show ?thesis
      by (auto simp: streamed_def fresh_chan_def Let_def send_header_def header_fields_unopened
          row_list_unopened)
  qed
next
  case (Some e)
  then obtain pre post where ms: "ms = pre @ ErrorResponse e # post" "first_error pre = None"
    by (blast dest: first_error_Some)
  have pre: "no_ready pre" and post: "no_ready post" using assms ms by simp_all
  have be: "before_error (pre @ ErrorResponse e # post) = pre" by (rule before_error_Some [OF ms(2)])
  show ?thesis
  proof (cases "list_ex opens pre")
    case True
    from run_stream_opening [OF pre ms(2) True, of s "ErrorResponse e # post @ ReadyForQuery st # rest"]
      Some post True show ?thesis
      by (auto simp: streamed_def Let_def be ms(1) send_stream_error_def send_row_def)
  next
    case False
    from run_stream_unopened [OF pre ms(2) False, of "[]" fresh_chan s
        "ErrorResponse e # post @ ReadyForQuery st # rest"] Some post False
    show ?thesis
      by (auto simp: streamed_def Let_def be ms(1) send_stream_error_def send_header_def fresh_chan_def)
  qed
qed

text \<open>A streaming consumer that keeps receiving gets the column header first, then exactly the rows
  of the reply in order; an error comes last on the rows, or instead of the header when nothing was
  sent before it; and the stream is left right after \<open>ReadyForQuery\<close>.\<close>

theorem stream_rows_content:
  assumes "on_course rh (ms @ ReadyForQuery st # rest) []" and "no_ready ms"
  shows "\<exists>s' rh'. stream_rows rh fresh_chan s = (Some (Ok ()), streamed ms, s', rh') \<and> on_course rh' rest []"
  using run_streamed [OF assms(2), of s st rest]
proof (elim disjE exE conjE)
  fix f s'
  assume run: "run_steps stream_step ([], fresh_chan, s) (ms @ ReadyForQuery st # rest)
      = ((f, streamed ms, s'), Some False, rest)"
  from arriving.loop_course [OF assms(1) run] show ?thesis by (auto simp: stream_rows_def)
next
  fix f s' post
  assume run: "run_steps stream_step ([], fresh_chan, s) (ms @ ReadyForQuery st # rest)
      = ((f, streamed ms, s'), Some True, post @ ReadyForQuery st # rest)" and post: "no_ready post"
  from arriving.loop_course [OF assms(1) run] obtain rh' where
    l: "msg_loop stream_step ([], fresh_chan, s) rh = (Some (Ok True), (f, streamed ms, s'), rh')"
    and c: "on_course rh' (post @ ReadyForQuery st # rest) []" by blast
  from async_drain_collected [OF c post, of s'] l show ?thesis
    by (cases "async_drain rh' s'") (auto simp: stream_rows_def collected_def)
qed

theorem stream_rows_content_witness:
  "\<exists>s' rh'. stream_rows (sample_half [ErrorResponse sample_error, ReadyForQuery 0x45]) fresh_chan sample_session
     = (Some (Ok ()), \<lparr>st_header = Some (Err (Pg sample_error)), st_rows = [], st_accepts = None\<rparr>, s', rh')
     \<and> on_course rh' [] []"
  using stream_rows_content [OF sample_error_course, of sample_session]
  by (simp add: streamed_def before_error_def)

end
