(* ===== verification/Async_Conn.thy ===== *)
theory Async_Conn
  imports Async_Reply Rust_Std "HOL-Library.Multiset"
begin

text \<open>
  The shared connection of \<open>pg-wired/src/async_conn.rs\<close>: the request channel, the writer task that
  coalesces requests into one write, the queue of pending responses, and the reader task that answers
  them in order. The tasks interleave, so each of their actions is a labelled step. The theorems: the
  answer a request gets is the server's reply to that very request, and no request is lost or answered
  twice, whatever fails.
\<close>

section \<open>State\<close>

definition REQUEST_QUEUE_CAP :: nat where "REQUEST_QUEUE_CAP = 256"

text \<open>A request; its oneshot channel is identified by a number. A pending response is a request whose
  messages have been written.\<close>

record request =
  rq_id :: nat
  rq_messages :: bytes
  rq_collector :: collector

text \<open>The struct \<open>AsyncConn\<close> with its two tasks: what each holds, what has been written, what has been
  sent on the oneshot channels. \<open>cn_next\<close> numbers the channels. A cache entry is the SQL, the statement
  name and the counter behind the name.\<close>

record async_conn =
  cn_queue :: "request list"
  cn_queue_open :: bool
  cn_batch :: "request list"
  cn_pending :: "request list"
  cn_current :: "request option"
  cn_sent :: bytes
  cn_rh :: read_half
  cn_session :: session
  cn_alive :: bool
  cn_broken :: bool
  cn_cache :: "(rstring \<times> rstring \<times> u64) list"
  cn_counter :: u64
  cn_next :: nat
  cn_answers :: "(nat \<times> (wire_error, pipeline_response) res) list"
  cn_streams :: "(nat \<times> stream_chan) list"

text \<open>\<open>AsyncConn::new\<close> on an authenticated connection. The buffer of the handshake is not handed over.\<close>

definition async_new :: "read_event list \<Rightarrow> async_conn" where
  "async_new events =
     \<lparr>cn_queue = [], cn_queue_open = True, cn_batch = [], cn_pending = [], cn_current = None,
      cn_sent = [], cn_rh = \<lparr>rh_buf = [], rh_events = events\<rparr>,
      cn_session = \<lparr>ss_mutated = False, ss_notes = [], ss_notes_open = True, ss_dropped = 0\<rparr>,
      cn_alive = True, cn_broken = False, cn_cache = [], cn_counter = 0, cn_next = 0,
      cn_answers = [], cn_streams = []\<rparr>"

section \<open>The flags\<close>

definition mark_state_mutated :: "async_conn \<Rightarrow> async_conn" where
  "mark_state_mutated s = s\<lparr>cn_session := (cn_session s)\<lparr>ss_mutated := True\<rparr>\<rparr>"

definition take_state_mutated :: "async_conn \<Rightarrow> bool \<times> async_conn" where
  "take_state_mutated s = (ss_mutated (cn_session s), s\<lparr>cn_session := (cn_session s)\<lparr>ss_mutated := False\<rparr>\<rparr>)"

definition is_state_mutated :: "async_conn \<Rightarrow> bool" where
  "is_state_mutated s = ss_mutated (cn_session s)"

definition mark_broken :: "async_conn \<Rightarrow> async_conn" where
  "mark_broken s = s\<lparr>cn_broken := True\<rparr>"

definition is_broken :: "async_conn \<Rightarrow> bool" where "is_broken s = cn_broken s"

definition is_alive :: "async_conn \<Rightarrow> bool" where "is_alive s = cn_alive s"

definition dropped_notifications :: "async_conn \<Rightarrow> u64" where
  "dropped_notifications s = ss_dropped (cn_session s)"

section \<open>The request channel\<close>

definition enqueue :: "bytes \<Rightarrow> collector \<Rightarrow> async_conn \<Rightarrow> async_conn" where
  "enqueue msgs c s =
     s\<lparr>cn_queue := cn_queue s @ [\<lparr>rq_id = cn_next s, rq_messages = msgs, rq_collector = c\<rparr>],
       cn_next := Suc (cn_next s)\<rparr>"

text \<open>\<open>request_tx.try_send(...).is_ok()\<close>.\<close>

definition try_send :: "bytes \<Rightarrow> collector \<Rightarrow> async_conn \<Rightarrow> bool \<times> async_conn" where
  "try_send msgs c s =
     (if cn_queue_open s \<and> length (cn_queue s) < REQUEST_QUEUE_CAP
      then (True, enqueue msgs c s) else (False, s))"

definition try_enqueue_rollback :: "async_conn \<Rightarrow> bool \<times> async_conn" where
  "try_enqueue_rollback s = try_send (encode_message (Query (lit ''ROLLBACK'')) []) Drain s"

definition enqueue_rollback :: "async_conn \<Rightarrow> bool \<times> async_conn" where
  "enqueue_rollback s = (if \<not> is_alive s then (False, s) else try_enqueue_rollback s)"

section \<open>The tasks\<close>

text \<open>The writer receives a request and everything queued behind it.\<close>

definition writer_take :: "async_conn \<Rightarrow> async_conn option" where
  "writer_take s =
     (if cn_queue_open s \<and> cn_batch s = [] \<and> cn_queue s \<noteq> []
      then Some (s\<lparr>cn_batch := cn_queue s, cn_queue := []\<rparr>) else None)"

definition batch_bytes :: "request list \<Rightarrow> bytes" where
  "batch_bytes rqs = concat (map rq_messages rqs)"

text \<open>The write succeeds and the batch is handed to the reader.\<close>

definition writer_wrote :: "async_conn \<Rightarrow> async_conn option" where
  "writer_wrote s =
     (if cn_batch s \<noteq> []
      then Some (s\<lparr>cn_sent := cn_sent s @ batch_bytes (cn_batch s),
                    cn_pending := cn_pending s @ cn_batch s, cn_batch := []\<rparr>)
      else None)"

definition answer_all ::
  "wire_error \<Rightarrow> request list \<Rightarrow> (nat \<times> (wire_error, pipeline_response) res) list" where
  "answer_all e rqs = map (\<lambda>rq. (rq_id rq, Err e)) rqs"

definition drain_pending_on_exit :: "async_conn \<Rightarrow> async_conn" where
  "drain_pending_on_exit s =
     s\<lparr>cn_answers := cn_answers s @ answer_all ConnectionClosed (cn_pending s), cn_pending := []\<rparr>"

text \<open>The writer is gone: the channel closes, and a request still in it sees its oneshot sender dropped,
  which \<open>submit\<close> reports as \<open>ConnectionClosed\<close>.\<close>

definition writer_exit :: "async_conn \<Rightarrow> async_conn" where
  "writer_exit s =
     (let s = drain_pending_on_exit s
      in s\<lparr>cn_answers := cn_answers s @ answer_all ConnectionClosed (cn_queue s), cn_queue := [],
           cn_queue_open := False, cn_alive := False\<rparr>)"

text \<open>The write fails after some of the bytes.\<close>

definition writer_failed :: "nat \<Rightarrow> async_conn \<Rightarrow> async_conn option" where
  "writer_failed n s =
     (if cn_batch s \<noteq> []
      then Some (writer_exit
             (s\<lparr>cn_sent := cn_sent s @ take n (batch_bytes (cn_batch s)),
                cn_answers := cn_answers s @ answer_all (Io BrokenPipe) (cn_batch s), cn_batch := []\<rparr>))
      else None)"

text \<open>Every sender of the channel is dropped and the channel is empty.\<close>

definition writer_closed :: "async_conn \<Rightarrow> async_conn option" where
  "writer_closed s =
     (if cn_queue_open s \<and> cn_batch s = [] \<and> cn_queue s = [] then Some (writer_exit s) else None)"

definition reader_pop :: "async_conn \<Rightarrow> async_conn option" where
  "reader_pop s =
     (case (cn_current s, cn_pending s) of
        (None, rq # rqs) \<Rightarrow> Some (s\<lparr>cn_current := Some rq, cn_pending := rqs\<rparr>)
      | _ \<Rightarrow> None)"

text \<open>The reader has the whole reply, or a read error, and sends the result. While it waits the step is
  not enabled.\<close>

definition reader_answer :: "async_conn \<Rightarrow> async_conn option" where
  "reader_answer s =
     (case cn_current s of
        None \<Rightarrow> None
      | Some rq \<Rightarrow>
          (case collect_response (rq_collector rq) (cn_rh s) (cn_session s) of
             (None, _) \<Rightarrow> None
           | (Some r, ch, session, rh) \<Rightarrow>
               Some (s\<lparr>cn_current := None, cn_rh := rh, cn_session := session,
                       cn_answers := cn_answers s @ [(rq_id rq, r)],
                       cn_streams := cn_streams s @ (case ch of None \<Rightarrow> [] | Some x \<Rightarrow> [(rq_id rq, x)])\<rparr>)))"

datatype action =
    Submit bytes collector
  | Take
  | Wrote
  | WriteFailed nat
  | Closed
  | Pop
  | Answer
  | Arrive read_event

fun act :: "action \<Rightarrow> async_conn \<Rightarrow> async_conn option" where
  "act (Submit msgs c) s = (case try_send msgs c s of (True, s') \<Rightarrow> Some s' | _ \<Rightarrow> None)"
| "act Take s = writer_take s"
| "act Wrote s = writer_wrote s"
| "act (WriteFailed n) s = writer_failed n s"
| "act Closed s = writer_closed s"
| "act Pop s = reader_pop s"
| "act Answer s = reader_answer s"
| "act (Arrive ev) s = Some (s\<lparr>cn_rh := (cn_rh s)\<lparr>rh_events := rh_events (cn_rh s) @ [ev]\<rparr>\<rparr>)"

text \<open>The runs of a connection, with the actions taken.\<close>

inductive runs :: "action list \<Rightarrow> async_conn \<Rightarrow> bool" where
  start: "runs [] (async_new [])"
| more: "runs as s \<Longrightarrow> act a s = Some s' \<Longrightarrow> runs (as @ [a]) s'"

inductive_cases runs_snocE: "runs (as @ [a]) s"

section \<open>Every request is somewhere, once\<close>

text \<open>All the requests a connection knows: answered, being answered, or on their way.\<close>

definition unanswered :: "async_conn \<Rightarrow> request list" where
  "unanswered s = (case cn_current s of None \<Rightarrow> [] | Some rq \<Rightarrow> [rq]) @ cn_pending s @ cn_batch s @ cn_queue s"

definition all_ids :: "async_conn \<Rightarrow> nat list" where
  "all_ids s = map fst (cn_answers s) @ map rq_id (unanswered s)"

lemmas act_defs = try_send_def enqueue_def writer_take_def writer_wrote_def writer_failed_def
  writer_closed_def writer_exit_def drain_pending_on_exit_def reader_pop_def reader_answer_def

lemma map_fst_answer_all [simp]: "map fst (answer_all e rqs) = map rq_id rqs"
  by (simp add: answer_all_def)

lemma mset_answer_all [simp]: "image_mset fst (mset (answer_all e rqs)) = image_mset rq_id (mset rqs)"
  by (simp flip: mset_map)

lemma act_ids:
  assumes "act a s = Some s'"
  shows "mset (all_ids s') + mset [0..<cn_next s] = mset (all_ids s) + mset [0..<cn_next s']"
  using assms
  by (cases a)
    (auto simp: act_defs all_ids_def unanswered_def Let_def atLeast0_lessThan_Suc
      split: option.splits list.splits prod.splits if_splits)

text \<open>C27: No request is lost and none is answered twice: after any interleaving of submissions, writes,
  failures and answers, every request ever accepted is answered, in the reader's hands, or queued
  exactly once.\<close>

theorem requests_accounted:
  assumes "runs as s"
  shows "mset (all_ids s) = mset [0..<cn_next s]"
  using assms
proof induction
  case start
  show ?case by (simp add: async_new_def all_ids_def unanswered_def)
next
  case (more as s a s')
  from act_ids [OF more(2)] more.IH show ?case by simp
qed

text \<open>A run in which a write fails: the two requests of the batch and the one behind it are answered.\<close>

definition sample_run :: "action list" where
  "sample_run = [Submit [1] Drain, Take, Wrote, Submit [2] Rows, Take, Submit [3] Rows, WriteFailed 0]"

lemma runs_append:
  "runs as s \<Longrightarrow> fold (\<lambda>a s. Option.bind s (act a)) bs (Some s) = Some s' \<Longrightarrow> runs (as @ bs) s'"
proof (induction bs arbitrary: as s)
  case (Cons b bs)
  from Cons.prems(2) obtain s1 where s1: "act b s = Some s1"
    "fold (\<lambda>a s. Option.bind s (act a)) bs (Some s1) = Some s'"
  proof (cases "act b s")
    case None
    have "fold (\<lambda>a s. Option.bind s (act a)) bs None = None" by (induction bs) simp_all
    with None Cons.prems(2) show ?thesis by simp
  qed simp
  from Cons.IH [OF runs.more [OF Cons.prems(1) s1(1)] s1(2)] show ?case by simp
qed simp

theorem requests_accounted_witness:
  "\<exists>s. runs sample_run s \<and> mset (all_ids s) = mset [0..<3] \<and> unanswered s = []"
proof -
  obtain s where s: "fold (\<lambda>a s. Option.bind s (act a)) sample_run (Some (async_new [])) = Some s"
    "cn_next s = 3" "unanswered s = []"
    by (simp add: sample_run_def async_new_def act_defs REQUEST_QUEUE_CAP_def batch_bytes_def
        unanswered_def Let_def answer_all_def)
  from runs_append [OF runs.start s(1)] have r: "runs sample_run s" by simp
  from requests_accounted [OF this] s r show ?thesis by (intro exI [of _ s]) simp
qed

text \<open>Once the writer has exited, only the request the reader is collecting can be unanswered.\<close>

lemma exited_answers_all:
  "runs as s \<Longrightarrow> \<not> cn_queue_open s \<Longrightarrow> cn_pending s = [] \<and> cn_batch s = [] \<and> cn_queue s = [] \<and> \<not> cn_alive s"
proof (induction rule: runs.induct)
  case start
  then show ?case by (simp add: async_new_def)
next
  case (more as s a s')
  then show ?case
    by (cases a)
      (auto simp: act_defs Let_def split: option.splits list.splits prod.splits if_splits)
qed

section \<open>Answers match requests\<close>

definition submitted :: "action list \<Rightarrow> (bytes \<times> collector) list" where
  "submitted as = concat (map (\<lambda>a. case a of Submit m c \<Rightarrow> [(m, c)] | _ \<Rightarrow> []) as)"

definition arrivals :: "action list \<Rightarrow> read_event list" where
  "arrivals as = concat (map (\<lambda>a. case a of Arrive ev \<Rightarrow> [ev] | _ \<Rightarrow> []) as)"

definition failure :: "action \<Rightarrow> bool" where
  "failure a \<longleftrightarrow> (case a of WriteFailed _ \<Rightarrow> True | Closed \<Rightarrow> True | _ \<Rightarrow> False)"

lemma submitted_snoc [simp]:
  "submitted (as @ [a]) = submitted as @ (case a of Submit m c \<Rightarrow> [(m, c)] | _ \<Rightarrow> [])"
  by (simp add: submitted_def)

lemma arrivals_snoc [simp]:
  "arrivals (as @ [a]) = arrivals as @ (case a of Arrive ev \<Rightarrow> [ev] | _ \<Rightarrow> [])"
  by (simp add: arrivals_def)

lemma data_events_append:
  "data_events (xs @ ys) =
     (case data_events xs of None \<Rightarrow> None | Some x \<Rightarrow> map_option (\<lambda>y. x @ y) (data_events ys))"
proof (induction xs)
  case (Cons ev xs)
  then show ?case by (cases ev; cases "data_events ys") (auto split: option.splits)
qed (cases "data_events ys"; simp)

lemma on_course_arrive:
  "on_course rh ms (d @ future) \<Longrightarrow> d \<noteq> [] \<Longrightarrow>
   on_course (rh\<lparr>rh_events := rh_events rh @ [Read d]\<rparr>) ms future"
  by (auto simp: on_course_def data_events_append split: option.splits)

lemma collect_nothing:
  "on_course rh [] future \<Longrightarrow> fst (collect_response c rh s) = None"
  using recv_msg_on_course [of rh "[]" future]
  by (cases c) (auto simp: collect_response_def async_collect_rows_def collect_copy_in_response_def
      collect_copy_out_def collect_with_def reply_or_drain_def async_drain_def stream_rows_def msg_loop_waits)

text \<open>What the run has so far, when the server's bytes are the replies in order: \<open>k\<close> answers, each the
  response to the reply of its own request, and the stream standing at reply \<open>k\<close>.\<close>

definition reply_messages :: "backend_msg list \<times> u8 \<Rightarrow> backend_msg list" where
  "reply_messages r = fst r @ [ReadyForQuery (snd r)]"

definition expected ::
  "(bytes \<times> collector) list \<Rightarrow> (backend_msg list \<times> u8) list \<Rightarrow> nat
     \<Rightarrow> (nat \<times> (wire_error, pipeline_response) res) list" where
  "expected subs replies k =
     map (\<lambda>i. (i, response_of (snd (subs ! i)) (fst (replies ! i)))) [0..<k]"

definition in_step ::
  "(bytes \<times> collector) list \<Rightarrow> (backend_msg list \<times> u8) list \<Rightarrow> bytes \<Rightarrow> async_conn \<Rightarrow> bool" where
  "in_step subs replies future s \<longleftrightarrow>
     (let k = length (cn_answers s)
      in cn_answers s = expected subs replies k \<and> k \<le> length replies \<and> k \<le> length subs
         \<and> cn_next s = length subs
         \<and> map (\<lambda>rq. (rq_id rq, rq_messages rq, rq_collector rq)) (unanswered s)
             = map (\<lambda>i. (i, subs ! i)) [k..<length subs]
         \<and> on_course (cn_rh s) (concat (map reply_messages (drop k replies))) future)"

lemma expected_Suc:
  "expected subs replies (Suc k) = expected subs replies k @ [(k, response_of (snd (subs ! k)) (fst (replies ! k)))]"
  by (simp add: expected_def)

lemma expected_more: "k \<le> length subs \<Longrightarrow> expected (subs @ xs) replies k = expected subs replies k"
  by (simp add: expected_def nth_append)

lemma upt_map_more:
  "k \<le> length subs \<Longrightarrow> map (\<lambda>i. (i, (subs @ [x]) ! i)) [k..<Suc (length subs)]
   = map (\<lambda>i. (i, subs ! i)) [k..<length subs] @ [(length subs, x)]"
  by (simp add: nth_append)

lemma in_step_submit:
  assumes "in_step subs replies future s" and "act (Submit m c) s = Some s'"
  shows "in_step (subs @ [(m, c)]) replies future s'"
proof -
  have "unanswered s' = unanswered s @ [\<lparr>rq_id = cn_next s, rq_messages = m, rq_collector = c\<rparr>]
      \<and> cn_answers s' = cn_answers s \<and> cn_next s' = Suc (cn_next s) \<and> cn_rh s' = cn_rh s"
    using assms(2) by (auto simp: act_defs unanswered_def split: if_splits option.splits)
  moreover have "map (\<lambda>i. (i, (subs @ [(m, c)]) ! i)) [length (cn_answers s)..<length (subs @ [(m, c)])]
      = map (\<lambda>i. (i, subs ! i)) [length (cn_answers s)..<length subs] @ [(length subs, (m, c))]"
    if "length (cn_answers s) \<le> length subs"
    using upt_map_more [OF that, of "(m, c)"] by (simp del: upt.simps)
  ultimately show ?thesis
    using assms(1) by (simp add: in_step_def Let_def expected_more del: upt.simps)
qed

lemma in_step_arrive:
  assumes "in_step subs replies (d @ future) s" and "d \<noteq> []" and "act (Arrive (Read d)) s = Some s'"
  shows "in_step subs replies future s'"
  using assms on_course_arrive [of "cn_rh s" _ d future]
  by (auto simp: in_step_def unanswered_def Let_def split: option.splits)

lemma in_step_move:
  assumes "in_step subs replies future s" and "a \<in> {Take, Wrote, Pop}" and "act a s = Some s'"
  shows "in_step subs replies future s'"
proof -
  have "unanswered s' = unanswered s \<and> cn_answers s' = cn_answers s \<and> cn_next s' = cn_next s \<and> cn_rh s' = cn_rh s"
    using assms(2,3) by (auto simp: act_defs unanswered_def split: if_splits option.splits list.splits)
  with assms(1) show ?thesis by (simp add: in_step_def)
qed

lemma in_step_answer:
  assumes step: "in_step subs replies future s" and act: "act Answer s = Some s'"
    and ready: "\<forall>r \<in> set replies. no_ready (fst r)"
  shows "in_step subs replies future s'"
proof -
  let ?k = "length (cn_answers s)"
  obtain rq r ch session rh where rq: "cn_current s = Some rq"
    and c: "collect_response (rq_collector rq) (cn_rh s) (cn_session s) = (Some r, ch, session, rh)"
    and s': "s' = s\<lparr>cn_current := None, cn_rh := rh, cn_session := session,
        cn_answers := cn_answers s @ [(rq_id rq, r)],
        cn_streams := cn_streams s @ (case ch of None \<Rightarrow> [] | Some x \<Rightarrow> [(rq_id rq, x)])\<rparr>"
    using act by (auto simp: reader_answer_def split: option.splits prod.splits)
  have course: "on_course (cn_rh s) (concat (map reply_messages (drop ?k replies))) future"
    and k: "?k \<le> length subs" "?k \<le> length replies"
    and un: "map (\<lambda>rq. (rq_id rq, rq_messages rq, rq_collector rq)) (unanswered s)
      = map (\<lambda>i. (i, subs ! i)) [?k..<length subs]"
    using step by (simp_all add: in_step_def Let_def)
  have uns: "unanswered s = rq # unanswered s'"
    by (simp add: unanswered_def rq s')
  have "?k < length subs" using un uns k by (cases "?k = length subs") auto
  with un uns have sub: "rq_id rq = ?k" "rq_collector rq = snd (subs ! ?k)"
    and un': "map (\<lambda>rq. (rq_id rq, rq_messages rq, rq_collector rq)) (unanswered s')
      = map (\<lambda>i. (i, subs ! i)) [Suc ?k..<length subs]"
    by (auto simp: upt_conv_Cons) (metis snd_conv)
  have "?k < length replies"
  proof (rule ccontr)
    assume "\<not> ?k < length replies"
    with course have "on_course (cn_rh s) [] future" by simp
    from collect_nothing [OF this, of "rq_collector rq" "cn_session s"] c show False by simp
  qed
  then have "drop ?k replies = replies ! ?k # drop (Suc ?k) replies"
    by (rule Cons_nth_drop_Suc [symmetric])
  with course have "on_course (cn_rh s) (fst (replies ! ?k) @ ReadyForQuery (snd (replies ! ?k))
      # concat (map reply_messages (drop (Suc ?k) replies))) future"
    by (simp add: reply_messages_def)
  from collect_response_collected [OF this, of "rq_collector rq" "cn_session s"] c ready \<open>?k < length replies\<close>
  have "r = response_of (rq_collector rq) (fst (replies ! ?k))"
    "on_course rh (concat (map reply_messages (drop (Suc ?k) replies))) future"
    by (auto simp: collected_def)
  with step s' sub un' \<open>?k < length replies\<close> \<open>?k < length subs\<close> show ?thesis
    by (simp add: in_step_def Let_def expected_Suc)
qed

lemma runs_in_step:
  assumes "\<forall>r \<in> set replies. no_ready (fst r)" and "parses bytes (concat (map reply_messages replies)) []"
  shows "runs as s \<Longrightarrow> \<forall>a \<in> set as. \<not> failure a \<Longrightarrow> data_events (arrivals as) = Some d \<Longrightarrow>
    bytes = d @ future \<Longrightarrow> in_step (submitted as) replies future s"
proof (induction arbitrary: d future rule: runs.induct)
  case start
  with assms(2) show ?case
    by (simp add: in_step_def submitted_def arrivals_def async_new_def unanswered_def expected_def
        on_course_def)
next
  case (more as s a s')
  note nofail = more.prems(1)
  show ?case
  proof (cases "\<exists>ev. a = Arrive ev")
    case True
    then obtain ev where a: "a = Arrive ev" by blast
    with more.prems(2) obtain x y where xy: "data_events (arrivals as) = Some x"
      "data_events [ev] = Some y" "d = x @ y"
      by (auto simp: data_events_append split: option.splits)
    then obtain e where e: "ev = Read e" "e \<noteq> []" "y = e" by (cases ev) (auto split: if_splits)
    from more.IH [OF _ xy(1), of "e @ future"] more.prems(3) nofail xy(3) e(3)
    have "in_step (submitted as) replies (e @ future) s" by simp
    from in_step_arrive [OF this e(2)] more.hyps(2) a e(1) show ?thesis by simp
  next
    case False
    then have "data_events (arrivals as) = Some d"
      using more.prems(2) by (cases a) simp_all
    from more.IH [OF _ this more.prems(3)] nofail have IH: "in_step (submitted as) replies future s"
      by simp
    show ?thesis
    proof (cases a)
      case (Submit m c)
      with in_step_submit [OF IH] more.hyps(2) show ?thesis by simp
    next
      case Answer
      with in_step_answer [OF IH _ assms(1)] more.hyps(2) show ?thesis by simp
    qed (use False nofail in_step_move [OF IH _ more.hyps(2)] in \<open>auto simp: failure_def\<close>)
  qed
qed


text \<open>Two requests written together; the server refuses the first, and its reply arrives.\<close>

definition sample_refusal :: bytes where
  "sample_refusal = rh_buf (sample_half [ErrorResponse sample_error, ReadyForQuery 0x45])"

definition sample_pipelining :: "action list" where
  "sample_pipelining = [Submit [1] Rows, Submit [2] Drain, Take, Wrote, Pop, Arrive (Read sample_refusal)]"

lemma sample_refusal_parses:
  "parses sample_refusal ([ErrorResponse sample_error] @ ReadyForQuery 0x45 # []) []"
  using sample_error_course by (simp add: on_course_def sample_half_def sample_refusal_def)

lemma sample_refusal_not_Nil: "sample_refusal \<noteq> []"
  by (simp add: sample_refusal_def sample_half_def server_frame_def frame_def)

lemma sample_pipelining_runs:
  "\<exists>s. runs (sample_pipelining @ [Answer]) s \<and> length (cn_answers s) = 1"
proof -
  obtain s where s: "fold (\<lambda>a s. Option.bind s (act a)) sample_pipelining (Some (async_new [])) = Some s"
    "cn_rh s = \<lparr>rh_buf = [], rh_events = [Read sample_refusal]\<rparr>" "cn_answers s = []"
    "cn_current s = Some \<lparr>rq_id = 0, rq_messages = [1], rq_collector = Rows\<rparr>"
    by (simp add: sample_pipelining_def async_new_def act_defs REQUEST_QUEUE_CAP_def)
  have "on_course (cn_rh s) ([ErrorResponse sample_error] @ ReadyForQuery 0x45 # []) []"
    using sample_refusal_parses sample_refusal_not_Nil by (simp add: s(2) on_course_def)
  from collect_response_collected [OF this, of Rows "cn_session s"]
  obtain s' where "act Answer s = Some s'" "length (cn_answers s') = 1"
    using s(3,4) by (auto simp: reader_answer_def collected_def split: prod.splits)
  moreover have "runs sample_pipelining s"
    using runs_append [OF runs.start s(1)] by simp
  ultimately show ?thesis using runs.more by blast
qed


text \<open>Each reply is answered in finitely many steps once it is there: the step is enabled as soon as the
  reply's bytes have arrived.\<close>

lemma answer_enabled:
  assumes "cn_current s = Some rq" and "on_course (cn_rh s) (ms @ ReadyForQuery st # rest) []" and "no_ready ms"
  shows "\<exists>s'. act Answer s = Some s'"
  using collect_response_collected [OF assms(2,3), of "rq_collector rq" "cn_session s"] assms(1)
  by (auto simp: reader_answer_def collected_def split: prod.splits)

text \<open>At the end of the stream the reader answers \<open>ConnectionClosed\<close> and goes on: it neither exits nor
  clears \<open>alive\<close>, although the spawning code expects it to, so the connection still counts as alive.\<close>

lemma reader_survives_eof:
  assumes "cn_current s = Some rq" and "rq_collector rq = Rows"
    and "cn_rh s = \<lparr>rh_buf = [], rh_events = [Read []]\<rparr>"
  shows "\<exists>s'. act Answer s = Some s' \<and> cn_answers s' = cn_answers s @ [(rq_id rq, Err ConnectionClosed)]
    \<and> cn_alive s' = cn_alive s \<and> cn_queue_open s' = cn_queue_open s \<and> cn_current s' = None"
proof -
  have "recv_msg (cn_rh s) = (Some (Err ConnectionClosed), cn_rh s)"
    using assms(3) by (intro recv_msg_eof [where evs = "[]"]) simp_all
  then have "msg_loop async_rows_step x (cn_rh s) = (Some (Err ConnectionClosed), x, cn_rh s)" for x
    by (subst msg_loop.simps) simp
  with assms(1,2) show ?thesis
    by (simp add: reader_answer_def collect_response_def async_collect_rows_def collect_with_def
        reply_or_drain_def)
qed

end
