(* ===== verification/Async_Client.thy ===== *)
theory Async_Client
  imports Async_Conn
begin

text \<open>
  The callers' side of \<open>pg-wired/src/async_conn.rs\<close>: the prepared-statement cache, the \<open>exec_*\<close> helpers
  with their single retry, queries, pipelined transactions and COPY. How requests travel is the
  parameter \<open>net\<close>: it takes requests that are sent back to back and gives one result for each that the
  channel accepted (theory \<open>Async_Conn\<close> says which); the state is the connection and the rest of the
  world. The theorems: a cached name always stands for its own SQL, the cache is bounded, a stale or
  lost statement is re-prepared transparently, and COPY data arrives unchanged.
\<close>

type_synonym 'w sys = "async_conn \<times> 'w"
type_synonym response = "(wire_error, pipeline_response) res"
type_synonym 'w transport = "(bytes \<times> collector) list \<Rightarrow> 'w sys \<Rightarrow> response list \<times> 'w sys"

section \<open>The statement cache\<close>

definition STMT_CACHE_CAP :: nat where "STMT_CACHE_CAP = 256"

definition stmt_name :: "u64 \<Rightarrow> rstring" where
  "stmt_name n = lit ''s'' @ decimal (unat n)"

definition cached :: "async_conn \<Rightarrow> rstring \<Rightarrow> rstring option" where
  "cached s sql = map_option fst (map_of (cn_cache s) sql)"

text \<open>The name and whether it needs a \<open>Parse\<close>; \<open>fetch_add\<close> wraps.\<close>

definition lookup_or_alloc :: "rstring \<Rightarrow> async_conn \<Rightarrow> (rstring \<times> bool) \<times> async_conn" where
  "lookup_or_alloc sql s =
     (case cached s sql of
        Some name \<Rightarrow> ((name, False), s)
      | None \<Rightarrow> ((stmt_name (cn_counter s), True), s\<lparr>cn_counter := cn_counter s + 1\<rparr>))"

definition name_counter :: "rstring \<Rightarrow> u64 \<Rightarrow> u64" where
  "name_counter name_str counter =
     (case strip_prefix (lit ''s'') name_str of
        None \<Rightarrow> counter
      | Some d \<Rightarrow> (case parse_unsigned (2 ^ 64) d of None \<Rightarrow> counter | Some n \<Rightarrow> word_of_nat n))"

definition close_messages :: "rstring \<Rightarrow> bytes" where
  "close_messages name = encode_message Sync (encode_message (Close 0x53 name) [])"

text \<open>Remove the entry with the least counter and queue a \<open>Close\<close> for it, if the channel has room.\<close>

definition evict_oldest :: "async_conn \<Rightarrow> async_conn" where
  "evict_oldest s =
     (if cn_cache s = [] then s
      else let (oldest_key, oldest_name, _) = arg_min_list (\<lambda>(_, _, counter). counter) (cn_cache s);
               s = s\<lparr>cn_cache := filter (\<lambda>e. fst e \<noteq> oldest_key) (cn_cache s)\<rparr>
           in snd (try_send (close_messages oldest_name) Drain s))"

definition cache_statement :: "rstring \<Rightarrow> bytes \<Rightarrow> async_conn \<Rightarrow> async_conn" where
  "cache_statement sql name s =
     (case from_utf8 name of
        None \<Rightarrow> s
      | Some name_str \<Rightarrow>
          let counter = name_counter name_str (cn_counter s)
          in if cached s sql \<noteq> None then s
             else
               let s = (if length (cn_cache s) \<ge> STMT_CACHE_CAP then evict_oldest s else s)
               in s\<lparr>cn_cache := (sql, name_str, counter) # cn_cache s\<rparr>)"

definition invalidate_statement :: "rstring \<Rightarrow> async_conn \<Rightarrow> async_conn" where
  "invalidate_statement sql s = s\<lparr>cn_cache := filter (\<lambda>e. fst e \<noteq> sql) (cn_cache s)\<rparr>"

definition clear_statement_cache :: "async_conn \<Rightarrow> async_conn" where
  "clear_statement_cache s = s\<lparr>cn_cache := []\<rparr>"

section \<open>Submitting\<close>

definition submit :: "'w transport \<Rightarrow> bytes \<Rightarrow> collector \<Rightarrow> 'w sys \<Rightarrow> response \<times> 'w sys" where
  "submit net messages c sys =
     (case net [(messages, c)] sys of
        (r # _, sys') \<Rightarrow> (r, sys')
      | ([], sys') \<Rightarrow> (Err ConnectionClosed, sys'))"

definition submit_batch ::
  "'w transport \<Rightarrow> (bytes \<times> collector) list \<Rightarrow> 'w sys \<Rightarrow> (wire_error, response list) res \<times> 'w sys" where
  "submit_batch net items sys =
     (case net items sys of
        (rs, sys') \<Rightarrow>
          ((if length rs < length items then Err ConnectionClosed else Ok rs), sys'))"

text \<open>The header decides; the rows are what the reader has sent on the channel.\<close>

definition submit_stream ::
  "'w transport \<Rightarrow> bytes \<Rightarrow> 'w sys
     \<Rightarrow> (wire_error, field_description list \<times> (wire_error, raw_row) res list) res \<times> 'w sys" where
  "submit_stream net messages sys =
     (case net [(messages, StreamTo fresh_chan)] sys of
        ([], sys') \<Rightarrow> (Err ConnectionClosed, sys')
      | (_ # _, (s', w')) \<Rightarrow>
          (case rev (cn_streams s') of
             [] \<Rightarrow> (Err ConnectionClosed, (s', w'))
           | (_, ch) # _ \<Rightarrow>
               (case st_header ch of
                  None \<Rightarrow> (Err ConnectionClosed, (s', w'))
                | Some (Ok fs) \<Rightarrow> (Ok (fs, st_rows ch), (s', w'))
                | Some (Err e) \<Rightarrow> (Err e, (s', w'))
                | Some Panic \<Rightarrow> (Panic, (s', w')))))"

definition async_close :: "'w transport \<Rightarrow> 'w sys \<Rightarrow> (wire_error, unit) res \<times> 'w sys" where
  "async_close net sys =
     (if \<not> is_alive (fst sys) then (Ok (), sys)
      else
        case submit net (encode_message Terminate []) Drain sys of
          (Ok _, sys') \<Rightarrow> (Ok (), sys')
        | (Err ConnectionClosed, sys') \<Rightarrow> (Ok (), sys')
        | (Err (Io BrokenPipe), sys') \<Rightarrow> (Ok (), sys')
        | (Err e, sys') \<Rightarrow> (Err e, sys')
        | (Panic, sys') \<Rightarrow> (Panic, sys'))"

fun response_rows :: "pipeline_response \<Rightarrow> raw_row list" where
  "response_rows (RowsResponse _ rows _) = rows"
| "response_rows Done = []"

section \<open>Queries\<close>

text \<open>\<open>Parse?\<close>, \<open>Bind\<close>, \<open>Execute\<close>, \<open>Sync\<close>.\<close>

definition extended_query ::
  "rstring \<Rightarrow> bytes option list \<Rightarrow> oid list \<Rightarrow> format_code list \<Rightarrow> format_code list \<Rightarrow> bytes \<Rightarrow> bool
     \<Rightarrow> frontend_msg list" where
  "extended_query sql params param_oids pf rf stmt needs_parse =
     (if needs_parse then [Parse stmt sql param_oids] else [])
     @ [Bind [] stmt pf params rf, Execute [] 0, Sync]"

definition query_with_formats ::
  "'w transport \<Rightarrow> rstring \<Rightarrow> bytes option list \<Rightarrow> oid list \<Rightarrow> format_code list \<Rightarrow> format_code list
     \<Rightarrow> bytes \<Rightarrow> bool \<Rightarrow> 'w sys \<Rightarrow> (wire_error, raw_row list) res \<times> 'w sys" where
  "query_with_formats net sql params param_oids param_formats result_formats stmt needs_parse sys =
     (let pf = (if param_formats = []
                then take (length params) (replicate (max (length params) 1) Text)
                else param_formats);
          rf = (if result_formats = [] then [Text] else result_formats);
          buf = encode_messages (extended_query sql params param_oids pf rf stmt needs_parse) []
      in case submit net buf Rows sys of
           (r, sys') \<Rightarrow> (and_then r (\<lambda>resp. Ok (response_rows resp)), sys'))"

definition query ::
  "'w transport \<Rightarrow> rstring \<Rightarrow> bytes option list \<Rightarrow> oid list \<Rightarrow> bytes \<Rightarrow> bool \<Rightarrow> 'w sys
     \<Rightarrow> (wire_error, raw_row list) res \<times> 'w sys" where
  "query net sql params param_oids = query_with_formats net sql params param_oids [] []"

text \<open>Three requests back to back; their results are looked at in order.\<close>

definition pipeline_transaction ::
  "'w transport \<Rightarrow> rstring \<Rightarrow> rstring \<Rightarrow> bytes option list \<Rightarrow> oid list \<Rightarrow> bytes \<Rightarrow> bool \<Rightarrow> 'w sys
     \<Rightarrow> (wire_error, raw_row list) res \<times> 'w sys" where
  "pipeline_transaction net setup_sql query_sql params param_oids stmt needs_parse sys =
     (let setup = encode_message (Query setup_sql) [];
          pf = take (length params) (replicate (max (length params) 1) Text);
          data = encode_messages (extended_query query_sql params param_oids pf [Text] stmt needs_parse) [];
          commit = encode_message (Query (lit ''COMMIT'')) []
      in case net [(setup, Drain), (data, Rows), (commit, Drain)] sys of
           (r0 # r1 # r2 # _, sys') \<Rightarrow>
             (and_then r0 (\<lambda>_. and_then r1 (\<lambda>data_resp. and_then r2 (\<lambda>_. Ok (response_rows data_resp)))),
              sys')
         | (_, sys') \<Rightarrow> (Err ConnectionClosed, sys'))"

definition is_stale_statement_error :: "pg_error \<Rightarrow> bool" where
  "is_stale_statement_error e \<longleftrightarrow> pg_code e = lit ''26000'' \<or> pg_code e = lit ''0A000''"

text \<open>The shape of \<open>exec_query\<close>, \<open>exec_transaction\<close> and \<open>exec_query_with_formats\<close>: look the statement up,
  run, and publish or retry once; \<open>run\<close> is given the name and whether to parse.\<close>

definition exec_with ::
  "(rstring \<Rightarrow> 's \<Rightarrow> (rstring \<times> bool) \<times> 's) \<Rightarrow> (rstring \<Rightarrow> bytes \<Rightarrow> 's \<Rightarrow> 's) \<Rightarrow> (rstring \<Rightarrow> 's \<Rightarrow> 's)
     \<Rightarrow> (bytes \<Rightarrow> bool \<Rightarrow> 's \<Rightarrow> (wire_error, raw_row list) res \<times> 's) \<Rightarrow> rstring
     \<Rightarrow> 's \<Rightarrow> (wire_error, raw_row list) res \<times> 's" where
  "exec_with lookup publish invalidate run sql s =
     (let ((stmt, needs_parse), s) = lookup sql s; (r, s) = run stmt needs_parse s
      in case r of
           Ok rows \<Rightarrow> (Ok rows, if needs_parse then publish sql stmt s else s)
         | Err (Pg e) \<Rightarrow>
             if \<not> needs_parse \<and> is_stale_statement_error e then
               let s = invalidate sql s; ((stmt, _), s) = lookup sql s; (r, s) = run stmt True s
               in (r, if is_ok r then publish sql stmt s else s)
             else (Err (Pg e), s)
         | Err e \<Rightarrow> (Err e, s)
         | Panic \<Rightarrow> (Panic, s))"

definition sys_lookup :: "rstring \<Rightarrow> 'w sys \<Rightarrow> (rstring \<times> bool) \<times> 'w sys" where
  "sys_lookup sql sys = (case lookup_or_alloc sql (fst sys) of (r, s) \<Rightarrow> (r, (s, snd sys)))"

definition sys_publish :: "rstring \<Rightarrow> bytes \<Rightarrow> 'w sys \<Rightarrow> 'w sys" where
  "sys_publish sql name sys = (cache_statement sql name (fst sys), snd sys)"

definition sys_invalidate :: "rstring \<Rightarrow> 'w sys \<Rightarrow> 'w sys" where
  "sys_invalidate sql sys = (invalidate_statement sql (fst sys), snd sys)"

definition exec_query ::
  "'w transport \<Rightarrow> rstring \<Rightarrow> bytes option list \<Rightarrow> oid list \<Rightarrow> 'w sys
     \<Rightarrow> (wire_error, raw_row list) res \<times> 'w sys" where
  "exec_query net sql params param_oids =
     exec_with sys_lookup sys_publish sys_invalidate
       (\<lambda>stmt needs_parse. query net sql params param_oids stmt needs_parse) sql"

definition exec_transaction ::
  "'w transport \<Rightarrow> rstring \<Rightarrow> rstring \<Rightarrow> bytes option list \<Rightarrow> oid list \<Rightarrow> 'w sys
     \<Rightarrow> (wire_error, raw_row list) res \<times> 'w sys" where
  "exec_transaction net setup_sql query_sql params param_oids =
     exec_with sys_lookup sys_publish sys_invalidate
       (\<lambda>stmt needs_parse. pipeline_transaction net setup_sql query_sql params param_oids stmt needs_parse)
       query_sql"

definition exec_query_with_formats ::
  "'w transport \<Rightarrow> rstring \<Rightarrow> bytes option list \<Rightarrow> oid list \<Rightarrow> format_code list \<Rightarrow> format_code list
     \<Rightarrow> 'w sys \<Rightarrow> (wire_error, raw_row list) res \<times> 'w sys" where
  "exec_query_with_formats net sql params param_oids param_formats result_formats =
     exec_with sys_lookup sys_publish sys_invalidate
       (\<lambda>stmt needs_parse.
          query_with_formats net sql params param_oids param_formats result_formats stmt needs_parse) sql"

section \<open>COPY\<close>

definition COPY_CHUNK_SIZE :: nat where "COPY_CHUNK_SIZE = 1024 * 1024"

text \<open>\<open>data.chunks(n)\<close>.\<close>

function chunks :: "nat \<Rightarrow> bytes \<Rightarrow> bytes list" where
  "chunks n bs = (if bs = [] \<or> n = 0 then [] else take n bs # chunks n (drop n bs))"
  by pat_completeness auto
termination
  by (relation "measure (\<lambda>(n, bs). length bs)") auto

declare chunks.simps [simp del]

definition parse_copy_count :: "rstring \<Rightarrow> nat" where
  "parse_copy_count tag =
     (case strip_prefix (lit ''COPY '') tag of
        None \<Rightarrow> 0
      | Some s \<Rightarrow> (case parse_unsigned (2 ^ 64) s of None \<Rightarrow> 0 | Some n \<Rightarrow> n))"

fun copy_count :: "pipeline_response \<Rightarrow> nat" where
  "copy_count (RowsResponse _ _ tag) = parse_copy_count tag"
| "copy_count Done = 0"

definition copy_in_messages :: "rstring \<Rightarrow> bytes list \<Rightarrow> bytes" where
  "copy_in_messages copy_sql pieces =
     encode_message CopyDone
       (fold (\<lambda>piece buf. encode_message (CopyData piece) buf) pieces (encode_message (Query copy_sql) []))"

definition copy_in :: "'w transport \<Rightarrow> rstring \<Rightarrow> bytes \<Rightarrow> 'w sys \<Rightarrow> (wire_error, nat) res \<times> 'w sys" where
  "copy_in net copy_sql data sys =
     (case submit net (copy_in_messages copy_sql (chunks COPY_CHUNK_SIZE data)) (CopyIn []) sys of
        (r, sys') \<Rightarrow> (and_then r (\<lambda>resp. Ok (copy_count resp)), sys'))"

text \<open>The reads of the caller's reader: up to the first that gives nothing, or an error. A read gives at
  most \<open>COPY_CHUNK_SIZE\<close> bytes.\<close>

fun read_pieces :: "read_event list \<Rightarrow> (wire_error, bytes list) res" where
  "read_pieces [] = Ok []"
| "read_pieces (ReadError k # _) = Err (Io k)"
| "read_pieces (Read d # evs) =
     (if d = [] then Ok [] else and_then (read_pieces evs) (\<lambda>ds. Ok (d # ds)))"

definition copy_in_stream ::
  "'w transport \<Rightarrow> rstring \<Rightarrow> read_event list \<Rightarrow> 'w sys \<Rightarrow> (wire_error, nat) res \<times> 'w sys" where
  "copy_in_stream net copy_sql reader sys =
     (case read_pieces reader of
        Err e \<Rightarrow> (Err e, sys)
      | Panic \<Rightarrow> (Panic, sys)
      | Ok pieces \<Rightarrow>
          (case submit net (copy_in_messages copy_sql pieces) (CopyIn []) sys of
             (r, sys') \<Rightarrow> (and_then r (\<lambda>resp. Ok (copy_count resp)), sys')))"

definition copy_out_bytes :: "pipeline_response \<Rightarrow> (wire_error, bytes) res" where
  "copy_out_bytes resp =
     and_then (traverse iter_cells (response_rows resp)) (\<lambda>rows.
       Ok (concat (map (\<lambda>row. concat (List.map_filter (\<lambda>x. x) row)) rows)))"

definition copy_out :: "'w transport \<Rightarrow> rstring \<Rightarrow> 'w sys \<Rightarrow> (wire_error, bytes) res \<times> 'w sys" where
  "copy_out net copy_sql sys =
     (case submit net (encode_message (Query copy_sql) []) CopyOut sys of
        (r, sys') \<Rightarrow> (and_then r copy_out_bytes, sys'))"

section \<open>What a cached name stands for\<close>

text \<open>The cache together with the statements of the server and the names that callers hold between
  \<open>lookup_or_alloc\<close> and \<open>cache_statement\<close>. A caller's \<open>Parse\<close> defines its name on the server; the server
  forgets names at will (a \<open>Close\<close>, \<open>DISCARD ALL\<close>, a new session behind a proxy). The counter is taken not
  to wrap.\<close>

type_synonym cache_world = "async_conn \<times> (rstring \<rightharpoonup> rstring) \<times> (rstring \<times> rstring) set"

inductive cache_step :: "cache_world \<Rightarrow> cache_world \<Rightarrow> bool" where
  alloc: "lookup_or_alloc sql s = ((n, True), s') \<Longrightarrow> unat (cn_counter s) + 1 < 2 ^ 64 \<Longrightarrow>
    cache_step (s, sv, held) (s', sv, insert (n, sql) held)"
| parse: "(n, sql) \<in> held \<Longrightarrow> cache_step (s, sv, held) (s, sv(n \<mapsto> sql), held)"
| publish: "(n, sql) \<in> held \<Longrightarrow>
    cache_step (s, sv, held) (cache_statement sql n s, sv, held - {(n, sql)})"
| give_up: "cache_step (s, sv, held) (s, sv, held - {(n, sql)})"
| forget: "cache_step (s, sv, held) (s, sv(n := None), held)"
| invalidate: "cache_step (s, sv, held) (invalidate_statement sql s, sv, held)"
| clear: "cache_step (s, sv, held) (clear_statement_cache s, sv, held)"

inductive cache_reach :: "cache_world \<Rightarrow> bool" where
  initial: "cache_reach (async_new events, Map.empty, {})"
| step: "cache_reach w \<Longrightarrow> cache_step w w' \<Longrightarrow> cache_reach w'"

text \<open>Who uses a name: a holder or a cache entry.\<close>

definition owns :: "async_conn \<Rightarrow> (rstring \<times> rstring) set \<Rightarrow> rstring \<Rightarrow> rstring \<Rightarrow> bool" where
  "owns s held n q \<longleftrightarrow> (n, q) \<in> held \<or> (\<exists>c. (q, n, c) \<in> set (cn_cache s))"

definition allocated :: "async_conn \<Rightarrow> rstring \<Rightarrow> bool" where
  "allocated s n \<longleftrightarrow> (\<exists>k < cn_counter s. n = stmt_name k)"

definition cache_inv :: "cache_world \<Rightarrow> bool" where
  "cache_inv w \<longleftrightarrow>
     (case w of (s, sv, held) \<Rightarrow>
        (\<forall>n q. owns s held n q \<longrightarrow> allocated s n)
        \<and> (\<forall>n q q'. owns s held n q \<longrightarrow> owns s held n q' \<longrightarrow> q = q')
        \<and> (\<forall>n q q'. sv n = Some q \<longrightarrow> owns s held n q' \<longrightarrow> q' = q)
        \<and> (\<forall>n. sv n \<noteq> None \<longrightarrow> allocated s n)
        \<and> distinct (map fst (cn_cache s)) \<and> length (cn_cache s) \<le> STMT_CACHE_CAP)"

lemma cache_invI:
  assumes "cache_inv (s, sv, held)" and "cn_counter s \<le> cn_counter s'"
    and "\<And>n q. owns s' held' n q \<Longrightarrow> owns s held n q"
    and "\<And>n q. sv' n = Some q \<Longrightarrow> sv n = Some q"
    and "distinct (map fst (cn_cache s'))" and "length (cn_cache s') \<le> STMT_CACHE_CAP"
  shows "cache_inv (s', sv', held')"
proof -
  have "allocated s n \<Longrightarrow> allocated s' n" for n
    using assms(2) by (auto simp: allocated_def intro: less_le_trans)
  with assms show ?thesis
    by (simp add: cache_inv_def) (metis not_None_eq)
qed

lemma stmt_name_inject [simp]: "stmt_name j = stmt_name k \<longleftrightarrow> j = k"
  by (auto simp: stmt_name_def intro: unsigned_word_eqI)

lemma stmt_name_utf8 [simp]: "utf8_valid (stmt_name k)"
proof -
  have "utf8_valid (lit ''s'')" by (simp add: lit_def utf8_valid_ascii)
  from utf8_valid_append [OF this] show ?thesis by (simp add: stmt_name_def decimal_utf8)
qed

lemma cached_iff:
  "distinct (map fst (cn_cache s)) \<Longrightarrow> cached s q = Some n \<longleftrightarrow> (\<exists>c. (q, n, c) \<in> set (cn_cache s))"
  by (auto simp: cached_def)

lemma cached_None_iff: "cached s q = None \<longleftrightarrow> q \<notin> fst ` set (cn_cache s)"
  by (simp add: cached_def map_of_eq_None_iff)

text \<open>Eviction removes at least one entry and nothing else of the cache.\<close>

lemma try_send_cache [simp]:
  "cn_cache (snd (try_send m c s)) = cn_cache s" "cn_counter (snd (try_send m c s)) = cn_counter s"
  by (simp_all add: try_send_def enqueue_def)

lemma evict_oldest_cache:
  assumes "cn_cache s \<noteq> []"
  shows "\<exists>k \<in> fst ` set (cn_cache s). cn_cache (evict_oldest s) = filter (\<lambda>e. fst e \<noteq> k) (cn_cache s)"
proof -
  obtain k n c where e: "arg_min_list (\<lambda>(_, _, counter). counter) (cn_cache s) = (k, n, c)"
    by (cases "arg_min_list (\<lambda>(_, _, counter). counter) (cn_cache s)")
  then have "(k, n, c) \<in> set (cn_cache s)"
    using arg_min_list_in [OF assms, of "\<lambda>(_, _, counter). counter"] by simp
  then have "k \<in> fst ` set (cn_cache s)" by force
  with assms e show ?thesis
    by (intro bexI [of _ k]) (auto simp: evict_oldest_def Let_def)
qed

lemma evict_oldest_counter [simp]: "cn_counter (evict_oldest s) = cn_counter s"
  by (simp add: evict_oldest_def Let_def split_beta)

lemma evict_oldest_shrinks:
  assumes "cn_cache s \<noteq> []" and "distinct (map fst (cn_cache s))"
  shows "length (cn_cache (evict_oldest s)) < length (cn_cache s)"
    and "set (cn_cache (evict_oldest s)) \<subseteq> set (cn_cache s)"
    and "distinct (map fst (cn_cache (evict_oldest s)))"
proof -
  obtain k where k: "k \<in> fst ` set (cn_cache s)"
    "cn_cache (evict_oldest s) = filter (\<lambda>e. fst e \<noteq> k) (cn_cache s)"
    using evict_oldest_cache [OF assms(1)] by blast
  then show "length (cn_cache (evict_oldest s)) < length (cn_cache s)"
    by (auto intro: length_filter_less)
  show "set (cn_cache (evict_oldest s)) \<subseteq> set (cn_cache s)" "distinct (map fst (cn_cache (evict_oldest s)))"
    using k(2) assms(2) by (auto simp: distinct_map_filter)
qed

lemma cache_statement_cases:
  assumes "distinct (map fst (cn_cache s))" and "length (cn_cache s) \<le> STMT_CACHE_CAP"
  shows "cache_statement q n s = s
    \<or> (\<exists>c. cn_cache (cache_statement q n s) = (q, n, c) # tl (cn_cache (cache_statement q n s))
       \<and> set (tl (cn_cache (cache_statement q n s))) \<subseteq> set (cn_cache s)
       \<and> distinct (map fst (cn_cache (cache_statement q n s)))
       \<and> length (cn_cache (cache_statement q n s)) \<le> STMT_CACHE_CAP
       \<and> cn_counter (cache_statement q n s) = cn_counter s)"
proof (cases "utf8_valid n \<and> cached s q = None")
  case False
  then show ?thesis by (auto simp: cache_statement_def from_utf8_def)
next
  case True
  let ?s = "if length (cn_cache s) \<ge> STMT_CACHE_CAP then evict_oldest s else s"
  have full: "cn_cache s \<noteq> []" if "length (cn_cache s) \<ge> STMT_CACHE_CAP"
    using that by (auto simp: STMT_CACHE_CAP_def)
  have "set (cn_cache ?s) \<subseteq> set (cn_cache s)" "distinct (map fst (cn_cache ?s))"
    "length (cn_cache ?s) < STMT_CACHE_CAP" "cn_counter ?s = cn_counter s"
    using evict_oldest_shrinks [OF full assms(1)] assms by (auto split: if_splits)
  moreover from this True have "q \<notin> fst ` set (cn_cache ?s)"
    by (auto simp: cached_None_iff)
  ultimately show ?thesis
    using True by (simp add: cache_statement_def from_utf8_def Let_def)
qed

lemma cache_step_inv: "cache_step w w' \<Longrightarrow> cache_inv w \<Longrightarrow> cache_inv w'"
proof (induction rule: cache_step.induct)
  case (alloc sql s n s' sv held)
  then have n: "n = stmt_name (cn_counter s)" "s' = s\<lparr>cn_counter := cn_counter s + 1\<rparr>"
    by (auto simp: lookup_or_alloc_def split: option.splits)
  have lt: "k < cn_counter s \<Longrightarrow> k < cn_counter s + 1" "cn_counter s < cn_counter s + 1" for k
    using alloc(2) by (auto simp: word_less_nat_alt unat_word_ariths)
  have fresh: "\<not> allocated s n"
    by (auto simp: allocated_def n)
  have "allocated s m \<Longrightarrow> allocated s' m" "allocated s' n" for m
    using lt by (auto simp: allocated_def n)
  with alloc(3) fresh show ?case
    by (auto simp: cache_inv_def owns_def n)
next
  case (parse n sql held s sv)
  then have "owns s held n sql" by (simp add: owns_def)
  with parse show ?case by (auto simp: cache_inv_def)
next
  case (publish n sql held s sv)
  have d: "distinct (map fst (cn_cache s))" "length (cn_cache s) \<le> STMT_CACHE_CAP"
    using publish(2) by (auto simp: cache_inv_def)
  from cache_statement_cases [OF d, of sql n] show ?case
  proof (elim disjE exE conjE)
    assume "cache_statement sql n s = s"
    with publish(2) d show ?thesis by (intro cache_invI [OF publish(2)]) (auto simp: owns_def)
  next
    fix c
    assume c: "cn_cache (cache_statement sql n s) = (sql, n, c) # tl (cn_cache (cache_statement sql n s))"
      "set (tl (cn_cache (cache_statement sql n s))) \<subseteq> set (cn_cache s)"
      "distinct (map fst (cn_cache (cache_statement sql n s)))"
      "length (cn_cache (cache_statement sql n s)) \<le> STMT_CACHE_CAP"
      "cn_counter (cache_statement sql n s) = cn_counter s"
    have "set (cn_cache (cache_statement sql n s)) \<subseteq> insert (sql, n, c) (set (cn_cache s))"
      using c(1,2) by (metis insert_mono list.simps(15))
    with publish(1) have "owns (cache_statement sql n s) (held - {(n, sql)}) m q \<Longrightarrow> owns s held m q" for m q
      by (auto simp: owns_def)
    with c(3-5) show ?thesis by (intro cache_invI [OF publish(2)]) auto
  qed
next
  case (invalidate s sv held sql)
  then show ?case
    by (intro cache_invI [OF invalidate])
      (auto simp: owns_def invalidate_statement_def cache_inv_def distinct_map_filter
        intro: le_trans [OF length_filter_le])
next
  case (clear s sv held)
  then show ?case
    by (intro cache_invI [OF clear]) (auto simp: owns_def clear_statement_cache_def STMT_CACHE_CAP_def)
next
  case (give_up s sv held n sql)
  then show ?case by (intro cache_invI [OF give_up]) (auto simp: owns_def cache_inv_def)
next
  case (forget s sv held n)
  then show ?case by (intro cache_invI [OF forget]) (auto simp: cache_inv_def split: if_splits)
qed

lemma cache_reach_inv: "cache_reach w \<Longrightarrow> cache_inv w"
proof (induction rule: cache_reach.induct)
  case (initial events)
  show ?case by (simp add: cache_inv_def async_new_def owns_def STMT_CACHE_CAP_def)
qed (rule cache_step_inv)

text \<open>C29: The statement cache is sound and bounded: whatever callers do and whatever the server forgets, a
  cached name stands on the server for its own SQL or for nothing, the next name to be allocated is
  unused there, no SQL is cached twice, and there are at most 256 entries.\<close>

theorem statement_cache_sound:
  assumes "cache_reach (s, sv, held)"
  shows "(\<forall>sql n. cached s sql = Some n \<longrightarrow> sv n = None \<or> sv n = Some sql)
    \<and> sv (stmt_name (cn_counter s)) = None
    \<and> distinct (map fst (cn_cache s)) \<and> length (cn_cache s) \<le> STMT_CACHE_CAP"
proof -
  have inv: "cache_inv (s, sv, held)" by (rule cache_reach_inv [OF assms])
  then have "\<not> allocated s (stmt_name (cn_counter s))" by (simp add: allocated_def)
  moreover have "owns s held n sql" if "cached s sql = Some n" for sql n
    using that inv cached_iff [of s sql n] by (auto simp: cache_inv_def owns_def)
  ultimately show ?thesis
    using inv unfolding cache_inv_def prod.case by (metis not_None_eq)
qed

text \<open>A world in which one statement has been prepared and cached.\<close>

definition sample_cached :: cache_world where
  "sample_cached =
     (cache_statement (lit ''SELECT 1'') (stmt_name 0) ((async_new [])\<lparr>cn_counter := 1\<rparr>),
      [stmt_name 0 \<mapsto> lit ''SELECT 1''], {})"

lemma sample_cached_reach: "cache_reach sample_cached"
proof -
  have "cache_step (async_new [], Map.empty, {})
      ((async_new [])\<lparr>cn_counter := 1\<rparr>, Map.empty, insert (stmt_name 0, lit ''SELECT 1'') {})"
    by (rule cache_step.alloc) (simp_all add: lookup_or_alloc_def cached_def async_new_def)
  from cache_reach.step [OF cache_reach.initial this]
  have "cache_reach ((async_new [])\<lparr>cn_counter := 1\<rparr>, Map.empty, {(stmt_name 0, lit ''SELECT 1'')})" .
  from cache_reach.step [OF this cache_step.parse [of "stmt_name 0" "lit ''SELECT 1''"]]
  have "cache_reach ((async_new [])\<lparr>cn_counter := 1\<rparr>, [stmt_name 0 \<mapsto> lit ''SELECT 1''],
      {(stmt_name 0, lit ''SELECT 1'')})" by simp
  from cache_reach.step [OF this cache_step.publish [of "stmt_name 0" "lit ''SELECT 1''"]]
  show ?thesis by (simp add: sample_cached_def)
qed

theorem statement_cache_sound_witness:
  "cached (fst sample_cached) (lit ''SELECT 1'') = Some (stmt_name 0)
   \<and> (fst (snd sample_cached)) (stmt_name 0) \<in> {None, Some (lit ''SELECT 1'')}
   \<and> length (cn_cache (fst sample_cached)) \<le> STMT_CACHE_CAP"
proof -
  have "cached (fst sample_cached) (lit ''SELECT 1'') = Some (stmt_name 0)"
    by (simp add: sample_cached_def cache_statement_def from_utf8_def cached_def async_new_def
        STMT_CACHE_CAP_def Let_def)
  with statement_cache_sound [of "fst sample_cached" "fst (snd sample_cached)" "snd (snd sample_cached)"]
    sample_cached_reach show ?thesis by simp
qed

section \<open>Running with a cache\<close>

text \<open>What the \<open>exec_*\<close> helpers rely on: a cache that answers with the name it holds or allocates a fresh
  one, forgets what is invalidated and keeps what is published.\<close>

locale statement_cache =
  fixes look :: "rstring \<Rightarrow> 's \<Rightarrow> (rstring \<times> bool) \<times> 's"
    and publish :: "rstring \<Rightarrow> bytes \<Rightarrow> 's \<Rightarrow> 's"
    and invalidate :: "rstring \<Rightarrow> 's \<Rightarrow> 's"
    and known :: "'s \<Rightarrow> rstring \<Rightarrow> rstring option"
    and fresh :: "'s \<Rightarrow> rstring"
    and world :: "'s \<Rightarrow> 'w"
  assumes look_hit: "known s q = Some n \<Longrightarrow> look q s = ((n, False), s)"
    and look_miss: "known s q = None \<Longrightarrow>
      \<exists>s'. look q s = ((fresh s, True), s') \<and> known s' = known s \<and> world s' = world s"
    and invalidated: "known (invalidate q s) q = None"
    and invalidate_fresh: "fresh (invalidate q s) = fresh s"
    and invalidate_world: "world (invalidate q s) = world s"
    and published: "known s q = None \<Longrightarrow> utf8_valid n \<Longrightarrow> known (publish q n s) q = Some n"
    and publish_world: "world (publish q n s) = world s"
begin

text \<open>When a run under a name the server knows succeeds, a run under a forgotten name is a stale error that
  changes nothing, and a run with \<open>Parse\<close> under an unused name succeeds and defines it, then the helper
  succeeds whatever the cache holds, and leaves a name the server knows.\<close>

lemma exec_with_heals:
  assumes stale: "\<And>n. known s q = Some n \<Longrightarrow> forgotten (world s) n \<Longrightarrow>
      \<exists>e s'. run n False s = (Err (Pg e), s') \<and> is_stale_statement_error e \<and> fresh s' = fresh s
        \<and> world s' = world s"
    and valid_all: "\<And>n. known s q = Some n \<Longrightarrow> \<not> forgotten (world s) n \<Longrightarrow>
      \<exists>s'. run n False s = (Ok rows, s') \<and> known s' = known s \<and> defined (world s') n"
    and parsed: "\<And>s1. world s1 = world s \<Longrightarrow>
      \<exists>s'. run (fresh s) True s1 = (Ok rows, s') \<and> known s' = known s1 \<and> defined (world s') (fresh s)"
    and utf8: "utf8_valid (fresh s)"
  shows "\<exists>s' n. exec_with look publish invalidate run q s = (Ok rows, s') \<and> known s' q = Some n
    \<and> defined (world s') n"
proof (cases "known s q")
  case None
  then obtain s1 where s1: "look q s = ((fresh s, True), s1)" "known s1 = known s" "world s1 = world s"
    using look_miss by blast
  with parsed obtain s2 where s2: "run (fresh s) True s1 = (Ok rows, s2)" "known s2 = known s1"
    "defined (world s2) (fresh s)" by blast
  with s1 None published [of s2 q "fresh s"] utf8 show ?thesis
    by (intro exI [of _ "publish q (fresh s) s2"] exI [of _ "fresh s"])
      (simp add: exec_with_def publish_world)
next
  case (Some n)
  show ?thesis
  proof (cases "forgotten (world s) n")
    case False
    with valid_all [OF Some] obtain s' where "run n False s = (Ok rows, s')" "known s' = known s"
      "defined (world s') n" by blast
    with Some show ?thesis
      by (intro exI [of _ s'] exI [of _ n]) (simp add: exec_with_def look_hit)
  next
    case True
    with stale [OF Some] obtain e s1 where s1: "run n False s = (Err (Pg e), s1)"
      "is_stale_statement_error e" "fresh s1 = fresh s" "world s1 = world s" by blast
    obtain s2 where s2: "look q (invalidate q s1) = ((fresh s, True), s2)" "known s2 q = None"
      "world s2 = world s"
      using look_miss [of "invalidate q s1" q] invalidated [of q s1] s1(3,4)
      by (auto simp: invalidate_fresh invalidate_world)
    with parsed [of s2] obtain s3 where s3: "run (fresh s) True s2 = (Ok rows, s3)" "known s3 = known s2"
      "defined (world s3) (fresh s)" by auto
    with s1 s2 Some published [of s3 q "fresh s"] utf8 show ?thesis
      by (intro exI [of _ "publish q (fresh s) s3"] exI [of _ "fresh s"])
        (simp add: exec_with_def look_hit publish_world)
  qed
qed

end

lemma cached_invalidate: "cached (invalidate_statement q s) q = None"
  by (auto simp: cached_None_iff invalidate_statement_def)

lemma counter_invalidate [simp]: "cn_counter (invalidate_statement q s) = cn_counter s"
  by (simp add: invalidate_statement_def)

lemma cached_publish:
  "cached s q = None \<Longrightarrow> utf8_valid n \<Longrightarrow> cached (cache_statement q n s) q = Some n"
  by (simp add: cache_statement_def from_utf8_def cached_def Let_def)

interpretation conn_cache: statement_cache sys_lookup sys_publish sys_invalidate
  "\<lambda>sys. cached (fst sys)" "\<lambda>sys. stmt_name (cn_counter (fst sys))" snd
proof unfold_locales
  show "\<exists>s'. sys_lookup q sys = ((stmt_name (cn_counter (fst sys)), True), s')
      \<and> cached (fst s') = cached (fst sys) \<and> snd s' = snd sys"
    if "cached (fst sys) q = None" for sys q
    using that by (auto simp: sys_lookup_def lookup_or_alloc_def cached_def fun_eq_iff)
qed (simp_all add: sys_lookup_def lookup_or_alloc_def sys_publish_def sys_invalidate_def
      cached_invalidate cached_publish)

section \<open>A server that executes the requests\<close>

text \<open>The specification of the other side: it reads the messages of a request, keeps prepared
  statements, runs SQL by \<open>exec\<close>, and stops at the first error until \<open>Sync\<close>.\<close>

definition server_error :: "string \<Rightarrow> pg_error" where
  "server_error code = pg_error_default\<lparr>pg_code := lit code\<rparr>"

fun serve ::
  "(rstring \<Rightarrow> bytes option list \<Rightarrow> pg_error + raw_row list) \<Rightarrow> frontend_msg list
     \<Rightarrow> (rstring \<rightharpoonup> rstring) \<Rightarrow> (rstring \<times> bytes option list) option
     \<Rightarrow> backend_msg list \<times> (rstring \<rightharpoonup> rstring)" where
  "serve exec (Parse n q oids # ms) sv bound =
     (if n \<noteq> [] \<and> sv n \<noteq> None then ([ErrorResponse (server_error ''42P05'')], sv)
      else case serve exec ms (sv(n \<mapsto> q)) bound of (out, sv') \<Rightarrow> (ParseComplete # out, sv'))"
| "serve exec (Bind p n pf ps rf # ms) sv bound =
     (case sv n of
        None \<Rightarrow> ([ErrorResponse (server_error ''26000'')], sv)
      | Some q \<Rightarrow> (case serve exec ms sv (Some (q, ps)) of (out, sv') \<Rightarrow> (BindComplete # out, sv')))"
| "serve exec (Execute p k # ms) sv bound =
     (case bound of
        None \<Rightarrow> ([ErrorResponse (server_error ''34000'')], sv)
      | Some (q, ps) \<Rightarrow>
          (case exec q ps of
             Inl e \<Rightarrow> ([ErrorResponse e], sv)
           | Inr rows \<Rightarrow>
               (case serve exec ms sv bound of
                  (out, sv') \<Rightarrow> (map DataRow rows @ CommandComplete (lit ''SELECT'') # out, sv'))))"
| "serve exec (_ # ms) sv bound = serve exec ms sv bound"
| "serve exec [] sv bound = ([], sv)"

text \<open>All messages of a request, at most \<open>k\<close> of them.\<close>

fun rd_all :: "nat \<Rightarrow> bytes \<Rightarrow> frontend_msg list option" where
  "rd_all k [] = Some []"
| "rd_all 0 _ = None"
| "rd_all (Suc k) bs =
     (case rd_message False bs of None \<Rightarrow> None | Some (m, r) \<Rightarrow> map_option (\<lambda>ms. m # ms) (rd_all k r))"

fun server_net ::
  "(rstring \<Rightarrow> bytes option list \<Rightarrow> pg_error + raw_row list) \<Rightarrow> (rstring \<rightharpoonup> rstring) transport" where
  "server_net exec [] sys = ([], sys)"
| "server_net exec ((messages, c) # items) (s, sv) =
     (case rd_all (length messages) messages of
        None \<Rightarrow> ([], (s, sv))
      | Some ms \<Rightarrow>
          (case serve exec ms sv None of
             (reply, sv') \<Rightarrow>
               (case server_net exec items (s, sv') of (rs, sys') \<Rightarrow> (response_of c reply # rs, sys'))))"

lemma frame_not_Nil [simp]: "frame t b \<noteq> []"
  by (simp add: frame_def)

lemma rd_all_frames:
  "\<forall>m \<in> set ms. sendable False m \<and> fits m \<Longrightarrow> length ms \<le> k \<Longrightarrow>
   rd_all k (concat (map (\<lambda>m. frame (msg_tag m) (msg_body m)) ms)) = Some ms"
proof (induction ms arbitrary: k)
  case (Cons m ms)
  from Cons.prems(2) obtain k' where k: "k = Suc k'" by (cases k) auto
  obtain b bs where b: "concat (map (\<lambda>m. frame (msg_tag m) (msg_body m)) (m # ms)) = b # bs"
    by (simp add: frame_def)
  have "rd_message False (concat (map (\<lambda>m. frame (msg_tag m) (msg_body m)) (m # ms)))
      = Some (m, concat (map (\<lambda>m. frame (msg_tag m) (msg_body m)) ms))"
    using rd_message_encode [of False m "concat (map (\<lambda>m. frame (msg_tag m) (msg_body m)) ms)"] Cons.prems(1)
    by (simp add: encode_message_frame)
  with Cons k b show ?case by (simp del: concat.simps list.map)
qed simp

lemma rd_all_encode:
  assumes "\<forall>m \<in> set ms. sendable False m \<and> fits m"
  shows "rd_all (length (encode_messages ms [])) (encode_messages ms []) = Some ms"
proof -
  have "length ms \<le> length (concat (map (\<lambda>m. frame (msg_tag m) (msg_body m)) ms))"
    by (induction ms) (auto simp: frame_def)
  with rd_all_frames [OF assms] show ?thesis by (simp add: encode_messages_frames)
qed

text \<open>A query whose messages fit the protocol.\<close>

definition query_fits :: "rstring \<Rightarrow> bytes option list \<Rightarrow> oid list \<Rightarrow> bool" where
  "query_fits sql params oids \<longleftrightarrow>
     no_nul sql \<and> length oids < 2 ^ 16 \<and> length params < 2 ^ 16
     \<and> 100 + length sql + 4 * length oids + 2 * length params + sum_list (map param_size params) < 2 ^ 31"

lemma stmt_name_fits: "no_nul (stmt_name k) \<and> length (stmt_name k) \<le> 21 \<and> stmt_name k \<noteq> []"
proof -
  have "unat k < 10 ^ Suc 19"
    using unsigned_less [of k, where ?'a = nat] by simp
  from length_decimal [OF this] decimal_digits [of "unat k"] show ?thesis
    by (auto simp: stmt_name_def lit_def no_nul_def list_all_iff is_digit_def)
qed

lemma length_formats: "length (concat (replicate n (put_fmt f))) = 2 * n"
  by (induction n) simp_all

lemma extended_query_sendable:
  assumes "query_fits sql params oids"
  shows "\<forall>m \<in> set (extended_query sql params oids (replicate (length params) Text) [Text] (stmt_name k) np).
    sendable False m \<and> fits m"
  using assms stmt_name_fits [of k]
  by (auto simp: extended_query_def query_fits_def fits_def put_cstr_def length_concat_params
      length_concat_const [where f = be32 and k = 4] no_nul_def length_formats)

lemma response_of_served_rows:
  "response_of Rows ([ParseComplete, BindComplete] @ map DataRow rows @ [CommandComplete t])
     = Ok (RowsResponse [] rows t)"
  "response_of Rows (BindComplete # map DataRow rows @ [CommandComplete t]) = Ok (RowsResponse [] rows t)"
proof -
  have "first_error (map DataRow rows @ [CommandComplete t]) = None"
    "last_fields [] (map DataRow rows @ [CommandComplete t]) = []"
    "row_list (map DataRow rows @ [CommandComplete t]) = rows"
    "last_tag u (map DataRow rows @ [CommandComplete t]) = t" for u
    by (induction rows arbitrary: u) simp_all
  then show "response_of Rows ([ParseComplete, BindComplete] @ map DataRow rows @ [CommandComplete t])
      = Ok (RowsResponse [] rows t)"
    "response_of Rows (BindComplete # map DataRow rows @ [CommandComplete t]) = Ok (RowsResponse [] rows t)"
    by (simp_all add: or_first_error_def)
qed

lemma query_served:
  assumes "query_fits sql params oids"
  shows "query (server_net exec) sql params oids (stmt_name k) np (s, sv) =
    (case serve exec (extended_query sql params oids (replicate (length params) Text) [Text] (stmt_name k) np) sv None of
       (reply, sv') \<Rightarrow> (and_then (response_of Rows reply) (\<lambda>resp. Ok (response_rows resp)), (s, sv')))"
  using rd_all_encode [OF extended_query_sendable [OF assms, of k np]]
  by (simp add: query_def query_with_formats_def submit_def Let_def split: prod.splits)

lemma is_stale_server_error: "is_stale_statement_error (server_error ''26000'')"
  by (simp add: is_stale_statement_error_def server_error_def)

text \<open>\<open>exec_query\<close> heals itself: whatever the cache holds and whatever statements the server has
  forgotten, a query the server can run succeeds with its rows (a stale name costs one retry), and
  afterwards the cache names a statement of the server for this very SQL.\<close>

theorem exec_query_heals:
  assumes "cache_reach (s, sv, held)" and "query_fits sql params oids" and "exec sql params = Inr rows"
  shows "\<exists>s' sv' n. exec_query (server_net exec) sql params oids (s, sv) = (Ok rows, (s', sv'))
    \<and> cached s' sql = Some n \<and> sv' n = Some sql"
proof -
  have inv: "cache_inv (s, sv, held)" by (rule cache_reach_inv [OF assms(1)])
  have sound: "sv n = None \<or> sv n = Some sql" "\<exists>k. n = stmt_name k" if "cached s sql = Some n" for n
  proof -
    have o: "owns s held n sql"
      using that inv cached_iff [of s sql n] by (auto simp: cache_inv_def owns_def)
    then show "\<exists>k. n = stmt_name k" using inv by (auto simp: cache_inv_def allocated_def)
    from o show "sv n = None \<or> sv n = Some sql"
      using inv unfolding cache_inv_def prod.case by (metis not_None_eq)
  qed
  have unused: "sv (stmt_name (cn_counter s)) = None"
    using inv unfolding cache_inv_def prod.case allocated_def by (metis less_irrefl stmt_name_inject)
  have nonempty: "stmt_name k \<noteq> []" for k
    using stmt_name_fits by blast
  let ?run = "\<lambda>stmt np. query (server_net exec) sql params oids stmt np"
  have "\<exists>sys' n. exec_with sys_lookup sys_publish sys_invalidate ?run sql (s, sv) = (Ok rows, sys')
      \<and> cached (fst sys') sql = Some n \<and> (snd sys') n = Some sql"
  proof (rule conn_cache.exec_with_heals [where forgotten = "\<lambda>sv n. sv n = None" and defined = "\<lambda>sv n. sv n = Some sql"])
    fix n
    assume "cached (fst (s, sv)) sql = Some n" and gone: "snd (s, sv) n = None"
    then obtain k where "n = stmt_name k" using sound(2) by auto
    then show "\<exists>e s'. ?run n False (s, sv) = (Err (Pg e), s') \<and> is_stale_statement_error e
        \<and> stmt_name (cn_counter (fst s')) = stmt_name (cn_counter (fst (s, sv))) \<and> snd s' = snd (s, sv)"
      using gone is_stale_server_error
      by (simp add: query_served [OF assms(2)] extended_query_def or_first_error_def)
  next
    fix n
    assume c: "cached (fst (s, sv)) sql = Some n" "snd (s, sv) n \<noteq> None"
    then obtain k where "n = stmt_name k" "sv n = Some sql" using sound by force
    then show "\<exists>s'. ?run n False (s, sv) = (Ok rows, s') \<and> cached (fst s') = cached (fst (s, sv))
        \<and> snd s' n = Some sql"
      using response_of_served_rows(2) [of rows "lit ''SELECT''"] assms(3)
      by (simp add: query_served [OF assms(2)] extended_query_def del: response_of.simps)
  next
    fix sys :: "async_conn \<times> (rstring \<Rightarrow> rstring option)"
    assume "snd sys = snd (s, sv)"
    then obtain s1 where "sys = (s1, sv)" by (cases sys) simp
    then show "\<exists>s'. ?run (stmt_name (cn_counter (fst (s, sv)))) True sys = (Ok rows, s')
        \<and> cached (fst s') = cached (fst sys) \<and> snd s' (stmt_name (cn_counter (fst (s, sv)))) = Some sql"
      using response_of_served_rows(1) [of rows "lit ''SELECT''"] assms(3) unused nonempty
      by (simp add: query_served [OF assms(2)] extended_query_def del: response_of.simps)
  qed simp
  then show ?thesis by (auto simp: exec_query_def)
qed

text \<open>The sample world, after the server has forgotten its statements: the cached name is stale.\<close>

theorem exec_query_heals_witness:
  "\<exists>s' sv' n. exec_query (server_net (\<lambda>q ps. Inr [raw_row_empty])) (lit ''SELECT 1'') [] []
      (fst sample_cached, Map.empty) = (Ok [raw_row_empty], (s', sv'))
    \<and> cached s' (lit ''SELECT 1'') = Some n \<and> sv' n = Some (lit ''SELECT 1'')"
proof -
  have "cache_step sample_cached (fst sample_cached, (fst (snd sample_cached))(stmt_name 0 := None),
      snd (snd sample_cached))"
    using cache_step.forget [of "fst sample_cached" "fst (snd sample_cached)" "snd (snd sample_cached)"]
    by simp
  moreover have "(fst (snd sample_cached))(stmt_name 0 := None) = Map.empty"
    by (simp add: sample_cached_def)
  ultimately have "cache_reach (fst sample_cached, Map.empty, snd (snd sample_cached))"
    using cache_reach.step [OF sample_cached_reach] by metis
  moreover have "query_fits (lit ''SELECT 1'') [] []"
    by (simp add: query_fits_def no_nul_def lit_def)
  ultimately show ?thesis by (rule exec_query_heals) simp
qed

section \<open>COPY data\<close>

lemma chunks_concat: "0 < n \<Longrightarrow> concat (chunks n bs) = bs"
  by (induction n bs rule: chunks.induct) (subst chunks.simps, auto)

lemma chunks_bounded: "c \<in> set (chunks n bs) \<Longrightarrow> c \<noteq> [] \<and> length c \<le> n"
proof (induction n bs rule: chunks.induct)
  case (1 n bs)
  then show ?case by (subst (asm) chunks.simps) (auto split: if_splits)
qed

lemma copy_in_messages_eq:
  "copy_in_messages sql ps = encode_messages (Query sql # map CopyData ps @ [CopyDone]) []"
proof -
  have "encode_messages (map CopyData ps @ [CopyDone]) buf
      = encode_message CopyDone (fold (\<lambda>p b. encode_message (CopyData p) b) ps buf)" for buf
    by (induction ps arbitrary: buf) (simp_all del: encode_message.simps)
  then show ?thesis by (simp add: copy_in_messages_def del: encode_message.simps)
qed

text \<open>\<open>copy_in\<close> sends the COPY command, the caller's data cut into pieces of at most one megabyte, and
  \<open>CopyDone\<close>: a server reading the request gets exactly these messages, and the pieces put together are
  the data, byte for byte.\<close>

theorem copy_in_sends_data:
  assumes "no_nul sql" and "length sql + 5 < 2 ^ 31"
  shows "\<exists>pieces. rd_all (length (copy_in_messages sql (chunks COPY_CHUNK_SIZE data)))
      (copy_in_messages sql (chunks COPY_CHUNK_SIZE data))
        = Some (Query sql # map CopyData pieces @ [CopyDone])
    \<and> concat pieces = data \<and> (\<forall>p \<in> set pieces. length p \<le> 1048576)"
proof -
  have "\<forall>m \<in> set (Query sql # map CopyData (chunks COPY_CHUNK_SIZE data) @ [CopyDone]).
      sendable False m \<and> fits m"
    using assms chunks_bounded [of _ COPY_CHUNK_SIZE data]
    by (force simp: fits_def put_cstr_def COPY_CHUNK_SIZE_def)
  from rd_all_encode [OF this] show ?thesis
    using chunks_concat [of COPY_CHUNK_SIZE data] chunks_bounded [of _ COPY_CHUNK_SIZE data]
    by (intro exI [of _ "chunks COPY_CHUNK_SIZE data"])
      (simp add: copy_in_messages_eq COPY_CHUNK_SIZE_def)
qed

theorem copy_in_sends_data_witness:
  "\<exists>pieces. rd_all (length (copy_in_messages (lit ''COPY t FROM STDIN'') (chunks COPY_CHUNK_SIZE [1, 2])))
      (copy_in_messages (lit ''COPY t FROM STDIN'') (chunks COPY_CHUNK_SIZE [1, 2]))
        = Some (Query (lit ''COPY t FROM STDIN'') # map CopyData pieces @ [CopyDone])
    \<and> concat pieces = [1, 2] \<and> list_all (\<lambda>p. length p \<le> 1048576) pieces"
  unfolding list_all_iff by (rule copy_in_sends_data) (simp_all add: no_nul_def lit_def)

text \<open>The other direction: the bytes of the copied pieces, and the row count of the tag.\<close>

lemma copy_out_bytes_copied:
  "\<forall>d \<in> set ds. length d < 2 ^ 31 \<Longrightarrow>
   copy_out_bytes (RowsResponse [] (map from_full_body ds) tag) = Ok (concat ds)"
proof -
  assume "\<forall>d \<in> set ds. length d < 2 ^ 31"
  then have "traverse iter_cells (map from_full_body ds) = (Ok (map (\<lambda>d. [Some d]) ds) :: (wire_error, _) res)"
    by (induction ds) (simp_all add: iter_from_full_body)
  then show ?thesis
    by (simp add: copy_out_bytes_def List.map_filter_def comp_def)
qed

lemma parse_copy_count_tag: "n < 2 ^ 64 \<Longrightarrow> parse_copy_count (lit ''COPY '' @ decimal n) = n"
  by (simp add: parse_copy_count_def)

end
