(* ===== verification/Row.thy ===== *)
theory Row
  imports Codec
begin

text \<open>
  \<open>resolute/src/row.rs\<close> and the schema of a result in \<open>resolute/src/query.rs\<close>: a row is the raw row of
  the wire together with the names, types and formats of its columns. A decoded type is its binary and
  its text decoder. The theorem gives every getter on every branch: out of range, NULL, binary, text.
\<close>

section \<open>Rows\<close>

record row_schema =
  rs_columns :: "rstring list"
  rs_type_oids :: "u32 list"
  rs_formats :: "i16 list"

record row =
  r_schema :: row_schema
  r_data :: raw_row

definition schema_empty :: row_schema where
  "schema_empty = \<lparr>rs_columns = [], rs_type_oids = [], rs_formats = []\<rparr>"

text \<open>\<open>slice.get(i)\<close>.\<close>

definition get_at :: "'a list \<Rightarrow> nat \<Rightarrow> 'a option" where
  "get_at xs i = (if i < length xs then Some (xs ! i) else None)"

text \<open>A type with \<open>Decode\<close> and \<open>DecodeText\<close>.\<close>

type_synonym 'a decoders = "'a decoder \<times> (rstring \<Rightarrow> 'a typed)"

definition decode_cell :: "'a decoders \<Rightarrow> row_schema \<Rightarrow> nat \<Rightarrow> bytes \<Rightarrow> 'a typed" where
  "decode_cell t schema i bs =
     (let format = (case get_at (rs_formats schema) i of Some f \<Rightarrow> f | None \<Rightarrow> 0)
      in if format = 1 then fst t bs
         else case from_utf8 bs of
                None \<Rightarrow> Err (Decode i InvalidUtf8)
              | Some s \<Rightarrow> snd t s)"

text \<open>\<open>ok_or\<close> builds its error, and so asks for the length, in any case.\<close>

definition row_get :: "'a decoders \<Rightarrow> row \<Rightarrow> nat \<Rightarrow> 'a typed" where
  "row_get t r i =
     and_then (try_cell (r_data r) i) (\<lambda>found.
     and_then (row_len (r_data r)) (\<lambda>have_len.
       case found of
         None \<Rightarrow> Err (Decode i (ColumnOutOfRange i have_len))
       | Some None \<Rightarrow> Err (UnexpectedNull i)
       | Some (Some bs) \<Rightarrow> decode_cell t (r_schema r) i bs))"

definition row_get_opt :: "'a decoders \<Rightarrow> row \<Rightarrow> nat \<Rightarrow> 'a option typed" where
  "row_get_opt t r i =
     and_then (try_cell (r_data r) i) (\<lambda>found.
       case found of
         None \<Rightarrow> Err (Decode i (NoSuchColumn i))
       | Some None \<Rightarrow> Ok None
       | Some (Some bs) \<Rightarrow> and_then (decode_cell t (r_schema r) i bs) (\<lambda>v. Ok (Some v)))"

definition has_column :: "row \<Rightarrow> rstring \<Rightarrow> bool" where
  "has_column r name = list_ex (\<lambda>c. c = name) (rs_columns (r_schema r))"

fun find_position :: "('a \<Rightarrow> bool) \<Rightarrow> 'a list \<Rightarrow> nat option" where
  "find_position P [] = None"
| "find_position P (x # xs) = (if P x then Some 0 else map_option Suc (find_position P xs))"

definition column_index :: "row \<Rightarrow> rstring \<Rightarrow> nat typed" where
  "column_index r name =
     (case find_position (\<lambda>c. c = name) (rs_columns (r_schema r)) of
        Some i \<Rightarrow> Ok i
      | None \<Rightarrow> Err (ColumnNotFound name))"

definition get_by_name :: "'a decoders \<Rightarrow> row \<Rightarrow> rstring \<Rightarrow> 'a typed" where
  "get_by_name t r name = and_then (column_index r name) (row_get t r)"

definition get_opt_by_name :: "'a decoders \<Rightarrow> row \<Rightarrow> rstring \<Rightarrow> 'a option typed" where
  "get_opt_by_name t r name = and_then (column_index r name) (row_get_opt t r)"

definition row_raw :: "row \<Rightarrow> nat \<Rightarrow> bytes option typed" where
  "row_raw r i = cell (r_data r) i"

definition column_name :: "row \<Rightarrow> nat \<Rightarrow> rstring option" where
  "column_name r i = get_at (rs_columns (r_schema r)) i"

definition column_type_oid :: "row \<Rightarrow> nat \<Rightarrow> u32 option" where
  "column_type_oid r i = get_at (rs_type_oids (r_schema r)) i"

text \<open>\<open>build_row_schema\<close>: from the description, or binary formats for the width of the first row.\<close>

definition build_row_schema :: "field_description list \<Rightarrow> raw_row option \<Rightarrow> row_schema typed" where
  "build_row_schema fs first_row =
     (if fs \<noteq> [] then
        Ok \<lparr>rs_columns = map fd_name fs, rs_type_oids = map fd_type_oid fs,
            rs_formats = map (\<lambda>f. fmt_i16 (fd_format f)) fs\<rparr>
      else case first_row of
             Some row \<Rightarrow> and_then (row_len row) (\<lambda>n. Ok (schema_empty\<lparr>rs_formats := replicate n 1\<rparr>))
           | None \<Rightarrow> Ok schema_empty)"

section \<open>What the getters give\<close>

lemma entries_of_cells:
  assumes "iter_cells d = (Ok cs :: (typed_error, bytes option list) res)"
  obtains es where "entries d = (Ok es :: (typed_error, cell_entry list) res)" "length es = length cs"
    "\<And>i. i < length cs \<Longrightarrow> cell_bytes (row_body d) (es ! i) = (Ok (cs ! i) :: (typed_error, bytes option) res)"
proof -
  obtain es where es: "entries d = (Ok es :: (typed_error, cell_entry list) res)"
    "traverse (cell_bytes (row_body d)) es = (Ok cs :: (typed_error, bytes option list) res)"
    using assms by (auto simp: iter_cells_def outcome_simps)
  then have "list_all2 (\<lambda>e c. cell_bytes (row_body d) e = (Ok c :: (typed_error, bytes option) res)) es cs"
    by (simp add: traverse_eq_Ok)
  then show thesis
    using that [OF es(1)] by (simp add: list_all2_conv_all_nth)
qed

lemma try_cell_cells:
  assumes "iter_cells d = (Ok cs :: (typed_error, bytes option list) res)"
  shows "try_cell d i = (Ok (get_at cs i) :: (typed_error, bytes option option) res)"
    and "row_len d = (Ok (length cs) :: nat typed)"
    and "cell d i = (Ok (case get_at cs i of Some c \<Rightarrow> c | None \<Rightarrow> None) :: bytes option typed)"
proof -
  obtain es where es: "entries d = (Ok es :: (typed_error, cell_entry list) res)" "length es = length cs"
    "\<And>i. i < length cs \<Longrightarrow> cell_bytes (row_body d) (es ! i) = (Ok (cs ! i) :: (typed_error, bytes option) res)"
    using entries_of_cells [OF assms] by blast
  then show "try_cell d i = (Ok (get_at cs i) :: (typed_error, bytes option option) res)"
    "row_len d = (Ok (length cs) :: nat typed)"
    "cell d i = (Ok (case get_at cs i of Some c \<Rightarrow> c | None \<Rightarrow> None) :: bytes option typed)"
    by (simp_all add: try_cell_def row_len_def cell_def get_at_def)
qed

lemma find_position_name:
  "find_position (\<lambda>c. c = name) xs = (if name \<in> set xs then Some (length (takeWhile ((\<noteq>) name) xs)) else None)"
  by (induction xs) auto

text \<open>On a row whose cells are \<open>cs\<close>, \<open>get\<close> and \<open>get_opt\<close> give: beyond the last column a decode error with
  the index; for NULL an error or \<open>None\<close>; otherwise the binary decoder's answer when the column's format
  is 1, and the text decoder's when it is not or is unknown, provided the bytes are UTF-8. The getters by
  name use the first column of that name.\<close>

theorem row_getters:
  assumes "iter_cells (r_data r) = (Ok cs :: (typed_error, bytes option list) res)"
  shows "row_get t r i =
      (case get_at cs i of
         None \<Rightarrow> Err (Decode i (ColumnOutOfRange i (length cs)))
       | Some None \<Rightarrow> Err (UnexpectedNull i)
       | Some (Some b) \<Rightarrow>
           if get_at (rs_formats (r_schema r)) i = Some 1 then fst t b
           else if utf8_valid b then snd t b else Err (Decode i InvalidUtf8))
    \<and> row_get_opt t r i =
      (case get_at cs i of
         None \<Rightarrow> Err (Decode i (NoSuchColumn i))
       | Some None \<Rightarrow> Ok None
       | Some (Some b) \<Rightarrow> and_then (row_get t r i) (\<lambda>v. Ok (Some v)))
    \<and> get_by_name t r name =
      (if name \<in> set (rs_columns (r_schema r))
       then row_get t r (length (takeWhile ((\<noteq>) name) (rs_columns (r_schema r))))
       else Err (ColumnNotFound name))"
proof (intro conjI)
  have cell: "decode_cell t (r_schema r) i b =
      (if get_at (rs_formats (r_schema r)) i = Some 1 then fst t b
       else if utf8_valid b then snd t b else Err (Decode i InvalidUtf8))" for b
    by (simp add: decode_cell_def from_utf8_def split: option.splits)
  show get: "row_get t r i =
      (case get_at cs i of
         None \<Rightarrow> Err (Decode i (ColumnOutOfRange i (length cs)))
       | Some None \<Rightarrow> Err (UnexpectedNull i)
       | Some (Some b) \<Rightarrow>
           if get_at (rs_formats (r_schema r)) i = Some 1 then fst t b
           else if utf8_valid b then snd t b else Err (Decode i InvalidUtf8))"
    using try_cell_cells [OF assms] by (simp add: row_get_def cell split: option.splits)
  show "row_get_opt t r i =
      (case get_at cs i of
         None \<Rightarrow> Err (Decode i (NoSuchColumn i))
       | Some None \<Rightarrow> Ok None
       | Some (Some b) \<Rightarrow> and_then (row_get t r i) (\<lambda>v. Ok (Some v)))"
    unfolding get using try_cell_cells [OF assms] by (simp add: row_get_opt_def cell split: option.splits)
  show "get_by_name t r name =
      (if name \<in> set (rs_columns (r_schema r))
       then row_get t r (length (takeWhile ((\<noteq>) name) (rs_columns (r_schema r))))
       else Err (ColumnNotFound name))"
    by (simp add: get_by_name_def column_index_def find_position_name)
qed

text \<open>A row of an \<open>int4\<close> in binary, a NULL and a text.\<close>

definition sample_row :: row where
  "sample_row =
     \<lparr>r_schema = \<lparr>rs_columns = [lit ''id'', lit ''x'', lit ''note''], rs_type_oids = [23, 23, 25], rs_formats = [1, 1, 0]\<rparr>,
      r_data = from_entries (be32 7 @ lit ''hi'') [(0, 4), (0, - 1), (4, 2)]\<rparr>"

theorem row_getters_witness:
  "row_get (decode_i32, \<lambda>_. Panic) sample_row 0 = Ok 7
    \<and> row_get_opt (decode_i32, \<lambda>_. Panic) sample_row 1 = Ok None
    \<and> get_by_name (\<lambda>_. Panic, Ok) sample_row (lit ''note'') = Ok (lit ''hi'')"
proof -
  have cells: "iter_cells (r_data sample_row)
      = (Ok [Some (be32 7), None, Some (lit ''hi'')] :: (typed_error, bytes option list) res)"
    by code_simp
  have "decode_i32 (be32 7) = Ok 7"
    by (simp add: decode_i32_iff encode_i32_def)
  moreover have "utf8_valid (lit ''hi'')" by code_simp
  moreover have "row_get (\<lambda>_. Panic, Ok) sample_row 2 = Ok (lit ''hi'')"
    using row_getters [OF cells, of "(\<lambda>_. Panic, Ok)" 2] \<open>utf8_valid (lit ''hi'')\<close>
    by (simp add: get_at_def sample_row_def)
  moreover have "get_by_name (\<lambda>_. Panic, Ok) sample_row (lit ''note'') = row_get (\<lambda>_. Panic, Ok) sample_row 2"
  proof -
    have "lit ''note'' \<in> set (rs_columns (r_schema sample_row))"
      "length (takeWhile ((\<noteq>) (lit ''note'')) (rs_columns (r_schema sample_row))) = 2" by code_simp+
    then show ?thesis
      using row_getters [OF cells, of "(\<lambda>_. Panic, Ok)" 2 "lit ''note''"] by metis
  qed
  ultimately show ?thesis
    using row_getters [OF cells, of "(decode_i32, \<lambda>_. Panic)" 0] row_getters [OF cells, of "(decode_i32, \<lambda>_. Panic)" 1]
    by (simp add: get_at_def sample_row_def)
qed

end
