(* ===== verification/Metrics.thy ===== *)
theory Metrics
  imports Rust_Str
begin

text \<open>
  \<open>resolute/src/metrics.rs\<close>: the global counters, which wrap as \<open>fetch_add\<close> does, as one record that the
  client operations thread through, and the text they are rendered to.
\<close>

record metrics =
  m_query_count :: u64
  m_query_error_count :: u64
  m_query_duration_us_sum :: u64
  m_execute_count :: u64
  m_execute_error_count :: u64
  m_pool_checkout_count :: u64
  m_pool_timeout_count :: u64

definition metrics_zero :: metrics where
  "metrics_zero = \<lparr>m_query_count = 0, m_query_error_count = 0, m_query_duration_us_sum = 0,
     m_execute_count = 0, m_execute_error_count = 0, m_pool_checkout_count = 0, m_pool_timeout_count = 0\<rparr>"

definition record_query :: "u64 \<Rightarrow> metrics \<Rightarrow> metrics" where
  "record_query us m =
     m\<lparr>m_query_count := m_query_count m + 1, m_query_duration_us_sum := m_query_duration_us_sum m + us\<rparr>"

definition record_query_error :: "metrics \<Rightarrow> metrics" where
  "record_query_error m =
     m\<lparr>m_query_count := m_query_count m + 1, m_query_error_count := m_query_error_count m + 1\<rparr>"

definition record_execute :: "metrics \<Rightarrow> metrics" where
  "record_execute m = m\<lparr>m_execute_count := m_execute_count m + 1\<rparr>"

definition record_execute_error :: "metrics \<Rightarrow> metrics" where
  "record_execute_error m =
     m\<lparr>m_execute_count := m_execute_count m + 1, m_execute_error_count := m_execute_error_count m + 1\<rparr>"

definition record_pool_checkout :: "metrics \<Rightarrow> metrics" where
  "record_pool_checkout m = m\<lparr>m_pool_checkout_count := m_pool_checkout_count m + 1\<rparr>"

definition record_pool_timeout :: "metrics \<Rightarrow> metrics" where
  "record_pool_timeout m = m\<lparr>m_pool_timeout_count := m_pool_timeout_count m + 1\<rparr>"

text \<open>\<open>snapshot\<close> reads the counters; \<open>gather\<close> renders them, with the mean duration.\<close>

definition snapshot :: "metrics \<Rightarrow> metrics" where "snapshot m = m"

definition metric_line :: "string \<Rightarrow> string \<Rightarrow> string \<Rightarrow> u64 \<Rightarrow> bytes" where
  "metric_line name help kind v =
     lit ''# HELP '' @ lit name @ lit '' '' @ lit help @ [0x0A]
     @ lit ''# TYPE '' @ lit name @ lit '' '' @ lit kind @ [0x0A]
     @ lit name @ lit '' '' @ decimal (unat v) @ [0x0A]"

definition average_us :: "metrics \<Rightarrow> u64" where
  "average_us m = (if m_query_count m = 0 then 0 else m_query_duration_us_sum m div m_query_count m)"

definition gather :: "metrics \<Rightarrow> rstring" where
  "gather m0 =
     (let m = snapshot m0 in
      metric_line ''resolute_queries_total'' ''Total queries executed.'' ''counter'' (m_query_count m)
      @ metric_line ''resolute_query_errors_total'' ''Total query errors.'' ''counter'' (m_query_error_count m)
      @ metric_line ''resolute_query_duration_us_avg'' ''Average query duration in microseconds.'' ''gauge'' (average_us m)
      @ metric_line ''resolute_executes_total'' ''Total execute statements.'' ''counter'' (m_execute_count m)
      @ metric_line ''resolute_execute_errors_total'' ''Total execute errors.'' ''counter'' (m_execute_error_count m)
      @ metric_line ''resolute_pool_checkouts_total'' ''Total pool checkouts.'' ''counter'' (m_pool_checkout_count m)
      @ metric_line ''resolute_pool_timeouts_total'' ''Total pool checkout timeouts.'' ''counter'' (m_pool_timeout_count m))"

text \<open>The comments say \<open>query_count\<close> counts successful queries and that the durations include failed ones. A
  failed query is counted too, adds no duration, and pulls the rendered mean down.\<close>

lemma failed_query_is_counted:
  "m_query_count (record_query_error m) = m_query_count m + 1
    \<and> m_query_duration_us_sum (record_query_error m) = m_query_duration_us_sum m"
  by (simp add: record_query_error_def)

lemma failures_lower_the_mean: "average_us (record_query_error (record_query 100 metrics_zero)) = 50"
  by (simp add: average_us_def record_query_error_def record_query_def metrics_zero_def)

end
