(* ===== verification/Named_Params.thy ===== *)
theory Named_Params
  imports Rust_Std
begin

text \<open>
  \<open>resolute/src/named_params.rs\<close>: the rewriting of \<open>:name\<close> placeholders to positional ones. A string is
  the list of its characters, as in the code, which collects \<open>sql.chars()\<close> first. The theorems: for SQL
  that is a sequence of literals, comments, quoted identifiers, dollar quotes, casts, placeholders and
  plain characters, exactly the placeholders are replaced, each by the position of the first occurrence
  of its name; and where the quick check \<open>has_named_params\<close> agrees with the rewriting.
\<close>

section \<open>Characters\<close>

type_synonym uchar = nat
type_synonym chars = "uchar list"

definition chr_text :: "string \<Rightarrow> chars" where "chr_text s = map of_char s"

text \<open>\<open>char::is_alphabetic\<close> and \<open>is_numeric\<close>: fixed on ASCII, the tables of Unicode are a parameter.\<close>

record unicode =
  uc_alphabetic :: "uchar \<Rightarrow> bool"
  uc_numeric :: "uchar \<Rightarrow> bool"

definition is_alphabetic :: "unicode \<Rightarrow> uchar \<Rightarrow> bool" where
  "is_alphabetic u c = (if c < 128 then 65 \<le> c \<and> c \<le> 90 \<or> 97 \<le> c \<and> c \<le> 122 else uc_alphabetic u c)"

definition is_alphanumeric :: "unicode \<Rightarrow> uchar \<Rightarrow> bool" where
  "is_alphanumeric u c =
     (is_alphabetic u c \<or> (if c < 128 then 48 \<le> c \<and> c \<le> 57 else uc_numeric u c))"

definition name_start :: "unicode \<Rightarrow> uchar \<Rightarrow> bool" where "name_start u c = (is_alphabetic u c \<or> c = 95)"
definition name_char :: "unicode \<Rightarrow> uchar \<Rightarrow> bool" where "name_char u c = (is_alphanumeric u c \<or> c = 95)"

lemma name_start_char: "name_start u c \<Longrightarrow> name_char u c"
  by (auto simp: name_start_def name_char_def is_alphanumeric_def)

lemma not_name_char [simp]:
  "\<not> name_char u 36" "\<not> name_char u 39" "\<not> name_char u 34" "\<not> name_char u 45" "\<not> name_char u 47"
  "\<not> name_char u 58" "\<not> name_start u 58"
  by (simp_all add: name_start_def name_char_def is_alphanumeric_def is_alphabetic_def)

section \<open>The scanner\<close>

text \<open>Each inner loop of the code, as the characters it copies and what it leaves. The code of a character
  is its Unicode scalar value: 39 is a quote, 34 a double quote, 36 a dollar, 58 a colon.\<close>

fun block_comment :: "chars \<Rightarrow> chars \<times> chars" where
  "block_comment (a # b # cs) =
     (if a = 42 \<and> b = 47 then ([a, b], cs)
      else let (v, rest) = block_comment (b # cs) in (a # v, rest))"
| "block_comment cs = ([], cs)"

fun string_literal :: "chars \<Rightarrow> chars \<times> chars" where
  "string_literal [] = ([], [])"
| "string_literal (c # cs) =
     (if c = 39 then
        (case cs of
           d # ds \<Rightarrow>
             if d = 39 then let (v, rest) = string_literal ds in (39 # 39 # v, rest) else ([39], cs)
         | [] \<Rightarrow> ([39], []))
      else let (v, rest) = string_literal cs in (c # v, rest))"

fun quoted_identifier :: "chars \<Rightarrow> chars \<times> chars" where
  "quoted_identifier [] = ([], [])"
| "quoted_identifier (c # cs) =
     (if c = 34 then ([c], cs) else let (v, rest) = quoted_identifier cs in (c # v, rest))"

fun dollar_body :: "chars \<Rightarrow> chars \<Rightarrow> chars \<times> chars" where
  "dollar_body tag [] = ([], [])"
| "dollar_body tag (c # cs) =
     (if c = 36 \<and> length tag \<le> length (c # cs) \<and> take (length tag) (c # cs) = tag
      then (tag, drop (length tag) (c # cs))
      else let (v, rest) = dollar_body tag cs in (c # v, rest))"

text \<open>One round of the outer loop: the text it copies, or the placeholder it meets.\<close>

datatype piece = Verbatim chars | Placeholder chars

definition next_is :: "(uchar \<Rightarrow> bool) \<Rightarrow> chars \<Rightarrow> bool" where
  "next_is P cs = (case cs of [] \<Rightarrow> False | d # _ \<Rightarrow> P d)"

definition verbatim :: "chars \<Rightarrow> chars \<times> chars \<Rightarrow> piece \<times> chars" where
  "verbatim v p = (Verbatim (v @ fst p), snd p)"

fun next_piece :: "unicode \<Rightarrow> chars \<Rightarrow> piece \<times> chars" where
  "next_piece u [] = (Verbatim [], [])"
| "next_piece u (c # cs) =
     (if c = 45 \<and> next_is ((=) 45) cs then
        (Verbatim (takeWhile ((\<noteq>) 10) (c # cs)), dropWhile ((\<noteq>) 10) (c # cs))
      else if c = 47 \<and> next_is ((=) 42) cs then verbatim [47, 42] (block_comment (tl cs))
      else if c = 39 then verbatim [39] (string_literal cs)
      else if c = 34 then verbatim [34] (quoted_identifier cs)
      else if c = 36 then
        let name = takeWhile (name_char u) cs; after = dropWhile (name_char u) cs
        in if next_is ((=) 36) after
           then let tag = 36 # name @ [36] in verbatim tag (dollar_body tag (tl after))
           else (Verbatim [36], cs)
      else if c = 58 \<and> next_is ((=) 58) cs then (Verbatim [58, 58], tl cs)
      else if c = 58 \<and> next_is (name_start u) cs then
        (Placeholder (takeWhile (name_char u) cs), dropWhile (name_char u) cs)
      else (Verbatim [c], cs))"

lemma block_comment_shorter: "length (snd (block_comment cs)) \<le> length cs"
  by (induction cs rule: block_comment.induct) (auto simp: split_beta)

lemma string_literal_shorter: "length (snd (string_literal cs)) \<le> length cs"
proof (induction cs rule: string_literal.induct)
  case (2 c cs)
  show ?case
  proof (cases "c = 39")
    case True
    then show ?thesis
      using 2(1) by (cases cs) (simp_all add: split_beta le_SucI)
  next
    case False
    then show ?thesis
      using 2(2) by (simp add: split_beta)
  qed
qed simp

lemma quoted_identifier_shorter: "length (snd (quoted_identifier cs)) \<le> length cs"
  by (induction cs) (auto simp: split_beta)

lemma dollar_body_shorter: "length (snd (dollar_body tag cs)) \<le> length cs"
proof (induction cs)
  case (Cons c cs)
  then show ?case
    by (simp add: split_beta)
qed simp

lemma next_is_Cons: "next_is P cs \<longleftrightarrow> (\<exists>d ds. cs = d # ds \<and> P d)"
  by (cases cs) (auto simp: next_is_def)

lemma next_piece_shorter: "length (snd (next_piece u (c # cs))) < length (c # cs)"
  using block_comment_shorter [of "tl cs"] string_literal_shorter [of cs] quoted_identifier_shorter [of cs]
    dollar_body_shorter [of "36 # takeWhile (name_char u) cs @ [36]" "tl (dropWhile (name_char u) cs)"]
    length_dropWhile_le [of "name_char u" cs] length_dropWhile_le [of "(\<noteq>) 10" cs]
  by (simp add: verbatim_def Let_def less_Suc_eq_le) linarith

text \<open>The outer loop, with the names and the map of their positions.\<close>

definition note_name :: "chars \<Rightarrow> chars list \<Rightarrow> (chars \<rightharpoonup> nat) \<Rightarrow> nat \<times> chars list \<times> (chars \<rightharpoonup> nat)" where
  "note_name name names positions =
     (case positions name of
        Some existing \<Rightarrow> (existing, names, positions)
      | None \<Rightarrow>
          let names = names @ [name]; pos = length names in (pos, names, positions(name \<mapsto> pos)))"

definition digits_text :: "nat \<Rightarrow> chars" where "digits_text n = map unat (decimal n)"

function rewrite_loop :: "unicode \<Rightarrow> chars \<Rightarrow> chars list \<Rightarrow> (chars \<rightharpoonup> nat) \<Rightarrow> chars \<times> chars list" where
  "rewrite_loop u cs names positions =
     (if cs = [] then ([], names)
      else
        case next_piece u cs of
          (Verbatim v, rest) \<Rightarrow>
            let (result, names) = rewrite_loop u rest names positions in (v @ result, names)
        | (Placeholder name, rest) \<Rightarrow>
            let (pos, names, positions) = note_name name names positions;
                (result, names) = rewrite_loop u rest names positions
            in (36 # digits_text pos @ result, names))"
  by auto
termination
proof (relation "measure (\<lambda>(_, cs, _). length cs)", goal_cases)
  case 1
  show ?case by simp
next
  case (2 u cs names positions x1 x2 v)
  then have "snd (next_piece u cs) = x2"
    by (metis snd_conv)
  then show ?case
    using 2(1) next_piece_shorter [of u "hd cs" "tl cs"] by (simp del: next_piece.simps)
next
  case (3 u cs names positions x1 x2 name x y xa ya)
  then have "snd (next_piece u cs) = x2"
    by (metis snd_conv)
  then show ?case
    using 3(1) next_piece_shorter [of u "hd cs" "tl cs"] by (simp del: next_piece.simps)
qed

declare rewrite_loop.simps [simp del] next_piece.simps [simp del]

definition rewrite :: "unicode \<Rightarrow> chars \<Rightarrow> chars \<times> chars list" where
  "rewrite u sql = rewrite_loop u sql [] Map.empty"

text \<open>\<open>has_named_params\<close> skips string literals and casts only.\<close>

function has_named_params :: "unicode \<Rightarrow> chars \<Rightarrow> bool" where
  "has_named_params u [] = False"
| "has_named_params u (c # cs) =
     (if c = 39 then has_named_params u (snd (string_literal cs))
      else if c = 58 \<and> next_is ((=) 58) cs then has_named_params u (tl cs)
      else if c = 58 \<and> next_is (name_start u) cs then True
      else has_named_params u cs)"
  by pat_completeness auto
termination
  by (relation "measure (\<lambda>(_, cs). length cs)") (auto simp: less_Suc_eq_le string_literal_shorter)

section \<open>SQL as a sequence of tokens\<close>

datatype sql_token =
    Plain uchar
  | LineComment chars
  | BlockComment chars
  | Literal chars
  | Identifier chars
  | DollarQuote chars chars
  | CastOp
  | Named chars

definition doubled :: "chars \<Rightarrow> chars" where
  "doubled b = concat (map (\<lambda>c. if c = 39 then [39, 39] else [c]) b)"

definition dollar_tag :: "chars \<Rightarrow> chars" where "dollar_tag name = 36 # name @ [36]"

fun token_text :: "sql_token \<Rightarrow> chars" where
  "token_text (Plain c) = [c]"
| "token_text (LineComment b) = [45, 45] @ b"
| "token_text (BlockComment b) = [47, 42] @ b @ [42, 47]"
| "token_text (Literal b) = 39 # doubled b @ [39]"
| "token_text (Identifier b) = 34 # b @ [34]"
| "token_text (DollarQuote name b) = dollar_tag name @ b @ dollar_tag name"
| "token_text CastOp = [58, 58]"
| "token_text (Named name) = 58 # name"

definition sql_text :: "sql_token list \<Rightarrow> chars" where "sql_text ts = concat (map token_text ts)"

text \<open>A closing mark that does not occur earlier, and when the text of a token, followed by \<open>rest\<close>, is that
  token and no longer one.\<close>

fun first_at :: "chars \<Rightarrow> chars \<Rightarrow> bool" where
  "first_at mark [] = True"
| "first_at mark (c # b) = (take (length mark) (c # b @ mark) \<noteq> mark \<and> first_at mark b)"

fun token_fits :: "unicode \<Rightarrow> sql_token \<Rightarrow> chars \<Rightarrow> bool" where
  "token_fits u (Plain c) rest =
     (c \<noteq> 39 \<and> c \<noteq> 34 \<and> \<not> (c = 45 \<and> next_is ((=) 45) rest) \<and> \<not> (c = 47 \<and> next_is ((=) 42) rest)
      \<and> \<not> (c = 36 \<and> next_is ((=) 36) (dropWhile (name_char u) rest))
      \<and> \<not> (c = 58 \<and> next_is (\<lambda>d. d = 58 \<or> name_start u d) rest))"
| "token_fits u (LineComment b) rest = (10 \<notin> set b \<and> \<not> next_is ((\<noteq>) 10) rest)"
| "token_fits u (BlockComment b) rest = first_at [42, 47] b"
| "token_fits u (Literal b) rest = (\<not> next_is ((=) 39) rest)"
| "token_fits u (Identifier b) rest = (34 \<notin> set b)"
| "token_fits u (DollarQuote name b) rest = (list_all (name_char u) name \<and> first_at (dollar_tag name) b)"
| "token_fits u CastOp rest = True"
| "token_fits u (Named name) rest =
     (next_is (name_start u) name \<and> list_all (name_char u) name \<and> \<not> next_is (name_char u) rest)"

fun lexed :: "unicode \<Rightarrow> sql_token list \<Rightarrow> bool" where
  "lexed u [] = True"
| "lexed u (t # ts) = (token_fits u t (sql_text ts) \<and> lexed u ts)"

text \<open>What the rewriting has to give: the names in the order of their first use, and every placeholder by
  the position of its name.\<close>

fun first_uses :: "sql_token list \<Rightarrow> chars list" where
  "first_uses [] = []"
| "first_uses (Named name # ts) = name # filter ((\<noteq>) name) (first_uses ts)"
| "first_uses (_ # ts) = first_uses ts"

definition position :: "chars list \<Rightarrow> chars \<Rightarrow> nat" where
  "position names name = Suc (length (takeWhile ((\<noteq>) name) names))"

definition positional :: "chars list \<Rightarrow> sql_token \<Rightarrow> chars" where
  "positional names t = (case t of Named name \<Rightarrow> 36 # digits_text (position names name) | _ \<Rightarrow> token_text t)"

section \<open>One token\<close>

lemma block_comment_closed:
  "first_at [42, 47] b \<Longrightarrow> block_comment (b @ 42 # 47 # rest) = (b @ [42, 47], rest)"
proof (induction b)
  case (Cons c b)
  then have "block_comment (b @ 42 # 47 # rest) = (b @ [42, 47], rest)" "take 2 (c # b @ [42, 47]) \<noteq> [42, 47]"
    by (auto simp: numeral_2_eq_2)
  then show ?case
    by (cases b) (auto simp: split_beta)
qed simp

lemma string_literal_closed:
  "\<not> next_is ((=) 39) rest \<Longrightarrow> string_literal (doubled b @ 39 # rest) = (doubled b @ [39], rest)"
proof (induction b)
  case Nil
  then show ?case
    by (cases rest) (simp_all add: doubled_def next_is_def)
qed (simp add: doubled_def)

lemma quoted_identifier_closed: "34 \<notin> set b \<Longrightarrow> quoted_identifier (b @ 34 # rest) = (b @ [34], rest)"
  by (induction b) auto

lemma dollar_body_closed:
  assumes "hd mark = 36" "mark \<noteq> []"
  shows "first_at mark b \<Longrightarrow> dollar_body mark (b @ mark @ rest) = (b @ mark, rest)"
proof (induction b)
  case Nil
  obtain d ds where "mark = 36 # ds" using assms by (cases mark) auto
  then show ?case by simp
next
  case (Cons c b)
  then have "dollar_body mark (b @ mark @ rest) = (b @ mark, rest)"
    and no: "take (length mark) (c # b @ mark) \<noteq> mark"
    by simp_all
  moreover have "take (length mark) ((c # b @ mark) @ rest) = take (length mark) (c # b @ mark)"
    by (simp only: take_append) simp
  ultimately show ?case
    by simp
qed

lemma name_run: "list_all P name \<Longrightarrow> \<not> next_is P rest \<Longrightarrow>
  takeWhile P (name @ rest) = name \<and> dropWhile P (name @ rest) = rest"
  by (cases rest) (auto simp: list_all_iff next_is_def takeWhile_append2 dropWhile_append2)

lemma next_is_simps [simp]: "next_is P [] = False" "next_is P (c # cs) = P c"
  by (simp_all add: next_is_def)

fun token_piece :: "sql_token \<Rightarrow> piece" where
  "token_piece (Named name) = Placeholder name"
| "token_piece t = Verbatim (token_text t)"

lemma next_piece_token: "token_fits u t rest \<Longrightarrow> next_piece u (token_text t @ rest) = (token_piece t, rest)"
proof (cases t)
  case (LineComment b)
  assume fit: "token_fits u t rest"
  then have "list_all ((\<noteq>) 10) b"
    using LineComment by (auto simp: list_all_iff)
  then have "takeWhile ((\<noteq>) 10) (b @ rest) = b \<and> dropWhile ((\<noteq>) 10) (b @ rest) = rest"
    using LineComment fit by (intro name_run) simp_all
  then show ?thesis
    using LineComment by (simp add: next_piece.simps)
next
  case (DollarQuote name b)
  assume "token_fits u t rest"
  then have "list_all (name_char u) name" "first_at (dollar_tag name) b"
    using DollarQuote by simp_all
  then show ?thesis
    using DollarQuote name_run [of "name_char u" name "36 # b @ dollar_tag name @ rest"]
      dollar_body_closed [of "dollar_tag name" b rest]
    by (simp add: next_piece.simps verbatim_def dollar_tag_def Let_def)
next
  case (Named name)
  assume "token_fits u t rest"
  then show ?thesis
    using Named name_run [of "name_char u" name rest] by (cases name) (auto simp: next_piece.simps)
next
  case (Literal b)
  assume "token_fits u t rest"
  then show ?thesis
    using Literal string_literal_closed [of rest b] by (simp add: next_piece.simps verbatim_def)
next
  case (Plain c)
  assume "token_fits u t rest"
  then show ?thesis
    using Plain by (cases rest) (auto simp: next_piece.simps Let_def)
qed (simp_all add: next_piece.simps verbatim_def block_comment_closed quoted_identifier_closed)

section \<open>The whole statement\<close>

lemma token_text_not_Nil: "token_text t \<noteq> []"
  by (cases t) (simp_all add: dollar_tag_def)

lemma sql_text_not_Nil: "sql_text (t # ts) \<noteq> []"
  by (simp add: sql_text_def token_text_not_Nil)

lemma positional_Named: "positional names (Named name) = 36 # digits_text (position names name)"
  by (simp add: positional_def)

lemma position_append: "name \<in> set names \<Longrightarrow> position (names @ ns) name = position names name"
  by (auto simp: position_def takeWhile_append1)

lemma position_new: "name \<notin> set names \<Longrightarrow> position (names @ name # ns) name = Suc (length names)"
proof -
  assume "name \<notin> set names"
  then have "takeWhile ((\<noteq>) name) (names @ name # ns) = names"
    by (subst takeWhile_append2) auto
  then show ?thesis by (simp add: position_def)
qed

text \<open>The map of the code is always the position in the list of names.\<close>

definition indexed :: "chars list \<Rightarrow> (chars \<rightharpoonup> nat) \<Rightarrow> bool" where
  "indexed names positions \<longleftrightarrow>
     (\<forall>name. positions name = (if name \<in> set names then Some (position names name) else None))"

lemma note_name_indexed:
  assumes "indexed names positions"
  shows "note_name name names positions =
    (let names' = (if name \<in> set names then names else names @ [name])
     in (position names' name, names', if name \<in> set names then positions
           else positions(name \<mapsto> Suc (length names))))"
    and "indexed (fst (snd (note_name name names positions))) (snd (snd (note_name name names positions)))"
proof -
  show "note_name name names positions =
    (let names' = (if name \<in> set names then names else names @ [name])
     in (position names' name, names', if name \<in> set names then positions
           else positions(name \<mapsto> Suc (length names))))"
    using assms by (auto simp: note_name_def indexed_def position_new Let_def)
  then show "indexed (fst (snd (note_name name names positions))) (snd (snd (note_name name names positions)))"
    using assms by (auto simp: indexed_def Let_def position_append position_new)
qed

definition all_names :: "chars list \<Rightarrow> sql_token list \<Rightarrow> chars list" where
  "all_names names ts = names @ filter (\<lambda>n. n \<notin> set names) (first_uses ts)"

lemma all_names_Named:
  "all_names names (Named name # ts) = all_names (if name \<in> set names then names else names @ [name]) ts"
proof -
  have "filter (\<lambda>n. n \<notin> set names) (filter ((\<noteq>) name) xs) = filter (\<lambda>n. n \<notin> set (names @ [name])) xs" for xs
    by (induction xs) auto
  moreover have "filter (\<lambda>n. n \<notin> set names) (filter ((\<noteq>) name) xs) = filter (\<lambda>n. n \<notin> set names) xs"
    if "name \<in> set names" for xs
    using that by (induction xs) auto
  ultimately show ?thesis
    by (simp add: all_names_def)
qed

lemma all_names_other: "(\<And>name. t \<noteq> Named name) \<Longrightarrow> all_names names (t # ts) = all_names names ts"
  by (cases t) (auto simp: all_names_def)

lemma position_all_names: "name \<in> set names \<Longrightarrow> position (all_names names ts) name = position names name"
  by (simp add: all_names_def position_append)

lemma rewrite_loop_lexed:
  "lexed u ts \<Longrightarrow> indexed names positions \<Longrightarrow>
    rewrite_loop u (sql_text ts) names positions
      = (concat (map (positional (all_names names ts)) ts), all_names names ts)"
proof (induction ts arbitrary: names positions)
  case Nil
  then show ?case
    by (simp add: sql_text_def rewrite_loop.simps all_names_def)
next
  case (Cons t ts)
  have whole: "sql_text (t # ts) = token_text t @ sql_text ts"
    by (simp add: sql_text_def)
  have piece: "next_piece u (sql_text (t # ts)) = (token_piece t, sql_text ts)"
    using Cons.prems whole by (simp add: next_piece_token)
  show ?case
  proof (cases "\<exists>name. t = Named name")
    case True
    then obtain name where t: "t = Named name" by blast
    let ?names = "if name \<in> set names then names else names @ [name]"
    have "position (all_names ?names ts) name = position ?names name"
      by (simp add: position_all_names)
    then show ?thesis
      using Cons.IH [of ?names] Cons.prems piece note_name_indexed [of names positions name] t
      by (subst rewrite_loop.simps) (simp add: sql_text_not_Nil all_names_Named positional_Named Let_def)
  next
    case False
    then have "token_piece t = Verbatim (token_text t)" "positional ns t = token_text t" for ns
      by (cases t; simp add: positional_def)+
    then show ?thesis
      using Cons.IH [of names positions] Cons.prems piece False
      by (subst rewrite_loop.simps) (simp add: sql_text_not_Nil all_names_other)
  qed
qed

text \<open>C21: in SQL that is a sequence of tokens, \<open>rewrite\<close> replaces exactly the placeholders, each by \<open>$k\<close> for
  the position \<open>k\<close> of its name among the names in the order of their first use, and copies every other
  token: literals, comments, quoted identifiers, dollar quotes and casts keep what looks like a
  placeholder.\<close>

theorem rewrite_tokens:
  assumes "lexed u ts"
  shows "rewrite u (sql_text ts) = (concat (map (positional (first_uses ts)) ts), first_uses ts)"
proof -
  have "indexed [] Map.empty" by (simp add: indexed_def)
  then show ?thesis
    using rewrite_loop_lexed [OF assms] by (simp add: rewrite_def all_names_def)
qed

definition ascii :: unicode where "ascii = \<lparr>uc_alphabetic = (\<lambda>_. False), uc_numeric = (\<lambda>_. False)\<rparr>"

definition sample_tokens :: "sql_token list" where
  "sample_tokens =
     [Named (chr_text ''b''), CastOp, Plain 116, Plain 32, Literal (chr_text '':x''), Plain 32,
      DollarQuote (chr_text ''q'') (chr_text '':y''), Named (chr_text ''a''), Plain 43, Named (chr_text ''b'')]"

theorem rewrite_tokens_witness:
  "rewrite ascii (sql_text sample_tokens)
    = (chr_text ''$1::t '' @ 39 # chr_text '':x'' @ 39 # chr_text '' $q$:y$q$$2+$1'', [chr_text ''b'', chr_text ''a''])"
proof -
  have "lexed ascii sample_tokens" by code_simp
  moreover have "first_uses sample_tokens = [chr_text ''b'', chr_text ''a'']" by code_simp
  moreover have "concat (map (positional [chr_text ''b'', chr_text ''a'']) sample_tokens)
      = chr_text ''$1::t '' @ 39 # chr_text '':x'' @ 39 # chr_text '' $q$:y$q$$2+$1''" by code_simp
  ultimately show ?thesis
    using rewrite_tokens [of ascii sample_tokens] by simp
qed

section \<open>Any text\<close>

lemma block_comment_copies: "fst (block_comment cs) @ snd (block_comment cs) = cs"
  by (induction cs rule: block_comment.induct) (auto simp: split_beta)

lemma string_literal_copies: "fst (string_literal cs) @ snd (string_literal cs) = cs"
proof (induction cs rule: string_literal.induct)
  case (2 c cs)
  show ?case
  proof (cases "c = 39")
    case True
    then show ?thesis
      using 2(1) by (cases cs) (simp_all add: split_beta)
  next
    case False
    then show ?thesis
      using 2(2) by (simp add: split_beta)
  qed
qed simp

lemma quoted_identifier_copies: "fst (quoted_identifier cs) @ snd (quoted_identifier cs) = cs"
  by (induction cs) (auto simp: split_beta)

lemma dollar_body_copies: "fst (dollar_body tag cs) @ snd (dollar_body tag cs) = cs"
proof (induction cs)
  case (Cons c cs)
  show ?case
  proof (cases "c = 36 \<and> length tag \<le> length (c # cs) \<and> take (length tag) (c # cs) = tag")
    case True
    then have "dollar_body tag (c # cs) = (tag, drop (length tag) (c # cs))"
      unfolding dollar_body.simps by (rule if_P)
    then show ?thesis
      using True by (metis append_take_drop_id fst_conv snd_conv)
  next
    case False
    then have "dollar_body tag (c # cs) = (c # fst (dollar_body tag cs), snd (dollar_body tag cs))"
      unfolding dollar_body.simps by (subst if_not_P) (simp_all add: split_beta)
    then show ?thesis
      using Cons by simp
  qed
qed simp

lemma next_piece_copies: "next_piece u cs = (Verbatim v, rest) \<Longrightarrow> v @ rest = cs"
proof (cases cs)
  case (Cons c ds)
  assume p: "next_piece u cs = (Verbatim v, rest)"
  have tag: "36 # takeWhile (name_char u) ds @ 36 # tl (dropWhile (name_char u) ds) = 36 # ds"
    if "next_is ((=) 36) (dropWhile (name_char u) ds)"
  proof -
    have "36 # tl (dropWhile (name_char u) ds) = dropWhile (name_char u) ds"
      using that by (auto simp: next_is_Cons)
    then show ?thesis by simp
  qed
  show ?thesis
    using p tag unfolding Cons
    by (auto simp: next_piece.simps verbatim_def Let_def block_comment_copies string_literal_copies
      quoted_identifier_copies dollar_body_copies next_is_Cons split: if_splits)
qed (simp add: next_piece.simps)

lemma names_grow: "length names \<le> length (snd (rewrite_loop u cs names positions))"
proof (induction u cs names positions rule: rewrite_loop.induct)
  case (1 u cs names positions)
  show ?case
  proof (cases "cs = []")
    case False
    obtain p rest where piece: "next_piece u cs = (p, rest)" by fastforce
    show ?thesis
    proof (cases p)
      case (Verbatim v)
      then show ?thesis
        using 1(1) False piece by (subst rewrite_loop.simps) (simp add: split_beta)
    next
      case (Placeholder name)
      obtain pos names' positions' where noted: "note_name name names positions = (pos, names', positions')"
        using prod_cases3 by blast
      then have "length names \<le> length names'"
        by (auto simp: note_name_def Let_def split: option.splits)
      also have "\<dots> \<le> length (snd (rewrite_loop u rest names' positions'))"
        using 1(2) False piece Placeholder noted by simp
      finally show ?thesis
        using False piece Placeholder noted by (subst rewrite_loop.simps) (simp add: split_beta)
    qed
  qed (simp add: rewrite_loop.simps)
qed

lemma rewrite_loop_copies:
  "snd (rewrite_loop u cs names Map.empty) = [] \<Longrightarrow> fst (rewrite_loop u cs names Map.empty) = cs"
proof (induction "length cs" arbitrary: cs rule: less_induct)
  case less
  show ?case
  proof (cases "cs = []")
    case False
    obtain p rest where piece: "next_piece u cs = (p, rest)" by fastforce
    have shorter: "length rest < length cs"
      using next_piece_shorter [of u "hd cs" "tl cs"] False piece by simp
    show ?thesis
    proof (cases p)
      case (Verbatim v)
      then have "rewrite_loop u cs names Map.empty
          = (v @ fst (rewrite_loop u rest names Map.empty), snd (rewrite_loop u rest names Map.empty))"
        using False piece by (subst rewrite_loop.simps) (simp add: split_beta)
      then show ?thesis
        using less piece Verbatim shorter next_piece_copies by auto
    next
      case (Placeholder name)
      then have "snd (rewrite_loop u cs names Map.empty)
          = snd (rewrite_loop u rest (names @ [name]) [name \<mapsto> Suc (length names)])"
        using False piece by (subst rewrite_loop.simps) (simp add: note_name_def split_beta Let_def)
      then show ?thesis
        using less.prems names_grow [of "names @ [name]" u rest "[name \<mapsto> Suc (length names)]"] by simp
    qed
  qed (simp add: rewrite_loop.simps)
qed

text \<open>Text without a placeholder is left as it is, unterminated literals and comments included.\<close>

lemma rewrite_without_names: "snd (rewrite u sql) = [] \<Longrightarrow> fst (rewrite u sql) = sql"
  unfolding rewrite_def by (rule rewrite_loop_copies)

section \<open>The quick check\<close>

fun simple :: "sql_token \<Rightarrow> bool" where
  "simple (Plain _) = True"
| "simple (Literal _) = True"
| "simple CastOp = True"
| "simple (Named _) = True"
| "simple _ = False"

lemma has_named_params_lexed:
  "lexed u ts \<Longrightarrow> list_all simple ts \<Longrightarrow> has_named_params u (sql_text ts) \<longleftrightarrow> first_uses ts \<noteq> []"
proof (induction ts)
  case Nil
  then show ?case by (simp add: sql_text_def)
next
  case (Cons t ts)
  have whole: "sql_text (t # ts) = token_text t @ sql_text ts"
    by (simp add: sql_text_def)
  show ?case
    using Cons
  proof (cases t)
    case (Literal b)
    then show ?thesis
      using Cons whole string_literal_closed [of "sql_text ts" b] by simp
  next
    case (Plain c)
    then show ?thesis
      using Cons whole by (cases "sql_text ts") auto
  next
    case (Named name)
    then show ?thesis
      using Cons whole by (cases name) auto
  qed (use whole in simp_all)
qed

text \<open>For SQL of plain characters, string literals, casts and placeholders the quick check
  \<open>has_named_params\<close> says exactly whether \<open>rewrite\<close> finds a name.\<close>

theorem has_named_params_agrees:
  assumes "lexed u ts" and "list_all simple ts"
  shows "has_named_params u (sql_text ts) = (snd (rewrite u (sql_text ts)) \<noteq> [])"
  using has_named_params_lexed [OF assms] rewrite_loop_lexed [OF assms(1), of "[]" Map.empty]
  by (simp add: rewrite_def all_names_def indexed_def)

theorem has_named_params_agrees_witness:
  "has_named_params ascii (chr_text ''a::t=:b'') \<and> snd (rewrite ascii (chr_text ''a::t=:b'')) \<noteq> []"
proof -
  let ?ts = "[Plain 97, CastOp, Plain 116, Plain 61, Named (chr_text ''b'')]"
  have "lexed ascii ?ts" "list_all simple ?ts" "has_named_params ascii (sql_text ?ts)"
    "sql_text ?ts = chr_text ''a::t=:b''" by code_simp+
  then show ?thesis
    using has_named_params_agrees [of ascii ?ts] by simp
qed

text \<open>An apostrophe in a comment or in a quoted identifier hides the placeholders after it from the quick
  check, though not from the rewriting; a nested comment, which PostgreSQL allows, ends too early.\<close>

lemma comment_hides_names:
  "\<not> has_named_params ascii (chr_text ''-- it'' @ [39, 115, 10] @ chr_text '':id'')
    \<and> snd (rewrite ascii (chr_text ''-- it'' @ [39, 115, 10] @ chr_text '':id'')) = [chr_text ''id'']"
  by code_simp

lemma nested_comment_rewritten:
  "rewrite ascii (chr_text ''/* /* */ :id */'') = (chr_text ''/* /* */ $1 */'', [chr_text ''id''])"
  by code_simp

text \<open>With an escape string of PostgreSQL the scanner takes the escaped quote for the end.\<close>

lemma escape_string_rewritten:
  "rewrite ascii (69 # 39 # 92 # 39 # chr_text '' :id'' @ [39])
    = (69 # 39 # 92 # 39 # chr_text '' $1'' @ [39], [chr_text ''id''])"
  by code_simp

end
