(* ===== verification/Chars.thy ===== *)
theory Chars
  imports Named_Params Utf8
begin

text \<open>
  The characters of a string and the string of characters: \<open>str::chars\<close> and \<open>String::push\<close> of the
  standard library, which take the code of \<open>named_params.rs\<close> from bytes to characters and back. Encoding
  and then reading the characters of a text gives the text back.
\<close>

text \<open>\<open>str::chars\<close> and the string of characters.\<close>

fun char_code :: "bytes \<Rightarrow> uchar" where
  "char_code [a] = unat a"
| "char_code [a, b] = unat a mod 32 * 64 + unat b mod 64"
| "char_code [a, b, c] = unat a mod 16 * 4096 + unat b mod 64 * 64 + unat c mod 64"
| "char_code [a, b, c, d] = unat a mod 8 * 262144 + unat b mod 64 * 4096 + unat c mod 64 * 64 + unat d mod 64"
| "char_code _ = 0"

function str_chars :: "rstring \<Rightarrow> chars" where
  "str_chars s =
     (if s = [] then [] else char_code (take (fst (utf8_seq s)) s) # str_chars (drop (fst (utf8_seq s)) s))"
  by auto
termination
  by (relation "measure length") (simp, simp add: utf8_seq_drop_less del: length_drop)

declare str_chars.simps [simp del]

definition char_bytes :: "uchar \<Rightarrow> bytes" where
  "char_bytes c =
     (if c < 0x80 then [word_of_nat c]
      else if c < 0x800 then [word_of_nat (0xC0 + c div 64), word_of_nat (0x80 + c mod 64)]
      else if c < 0x10000 then
        [word_of_nat (0xE0 + c div 4096), word_of_nat (0x80 + c div 64 mod 64), word_of_nat (0x80 + c mod 64)]
      else
        [word_of_nat (0xF0 + c div 262144), word_of_nat (0x80 + c div 4096 mod 64),
         word_of_nat (0x80 + c div 64 mod 64), word_of_nat (0x80 + c mod 64)])"

definition chars_str :: "chars \<Rightarrow> rstring" where "chars_str cs = concat (map char_bytes cs)"

text \<open>A Unicode scalar value.\<close>

definition scalar :: "uchar \<Rightarrow> bool" where
  "scalar c \<longleftrightarrow> c < 0x110000 \<and> \<not> (0xD800 \<le> c \<and> c \<le> 0xDFFF)"

lemma unat_byte: "n < 256 \<Longrightarrow> unat (word_of_nat n :: u8) = n"
  by (simp add: unat_of_nat take_bit_nat_eq_self)

lemma tail_byte: "n < 64 \<Longrightarrow> unat (word_of_nat (128 + n) :: u8) = 128 + n \<and> is_cont (word_of_nat (128 + n))"
  using unat_byte [of "128 + n"] by (simp add: is_cont_def word_le_nat_alt del: of_nat_add)

text \<open>Each length of encoding by its groups of six bits, the first group being what the first byte carries.\<close>

lemma six_bits: "b < 64 \<Longrightarrow> (64 * a + b) div 64 = a \<and> (64 * a + b) mod 64 = (b :: nat)"
  by simp

lemma scalar_cases:
  assumes "scalar c"
  obtains (one) "c < 128"
    | (two) w x where "c = 64 * w + x" "2 \<le> w" "w < 32" "x < 64"
    | (three) w x y where "c = 64 * (64 * w + x) + y" "0x800 \<le> c" "w < 16" "x < 64" "y < 64"
        "w = 0 \<Longrightarrow> 32 \<le> x" "w = 13 \<Longrightarrow> x < 32"
    | (four) w x y z where "c = 64 * (64 * (64 * w + x) + y) + z" "0x10000 \<le> c" "w < 5" "x < 64" "y < 64" "z < 64"
        "w = 0 \<Longrightarrow> 16 \<le> x" "w = 4 \<Longrightarrow> x < 16"
proof -
  define q where "q = c div 64"
  define p where "p = q div 64"
  have c: "c = 64 * q + c mod 64" "q = 64 * p + q mod 64" "p = 64 * (p div 64) + p mod 64"
    by (simp_all add: q_def p_def)
  have small: "c mod 64 < 64" "q mod 64 < 64" "p mod 64 < 64" by simp_all
  have s: "c < 0x110000" "\<not> (0xD800 \<le> c \<and> c \<le> 0xDFFF)"
    using assms by (simp_all add: scalar_def)
  consider "c < 128" | "128 \<le> c" "c < 0x800" | "0x800 \<le> c" "c < 0x10000" | "0x10000 \<le> c" by linarith
  then show thesis
  proof cases
    case 1
    then show ?thesis by (rule one)
  next
    case 2
    then have "2 \<le> q" "q < 32" using c small by linarith+
    then show ?thesis using two c(1) small(1) by blast
  next
    case 3
    then have "p < 16" "p = 0 \<Longrightarrow> 32 \<le> q mod 64" "p = 13 \<Longrightarrow> q mod 64 < 32"
      using c small s by linarith+
    then show ?thesis using three [of p "q mod 64" "c mod 64"] c small 3 by metis
  next
    case 4
    then have "p div 64 < 5" "p div 64 = 0 \<Longrightarrow> 16 \<le> p mod 64" "p div 64 = 4 \<Longrightarrow> p mod 64 < 16"
      using c small s by linarith+
    then show ?thesis using four [of "p div 64" "p mod 64" "q mod 64" "c mod 64"] c small 4 by metis
  qed
qed

lemma char_bytes_two:
  "x < 64 \<Longrightarrow> 2 \<le> w \<Longrightarrow> w < 32 \<Longrightarrow> char_bytes (64 * w + x) = [word_of_nat (192 + w), word_of_nat (128 + x)]"
  using six_bits [of x w] by (simp add: char_bytes_def del: of_nat_add)

lemma char_bytes_three:
  assumes "x < 64" "y < 64" "w < 16" "0x800 \<le> 64 * (64 * w + x) + y"
  shows "char_bytes (64 * (64 * w + x) + y) = [word_of_nat (224 + w), word_of_nat (128 + x), word_of_nat (128 + y)]"
proof -
  let ?c = "64 * (64 * w + x) + y"
  have "?c div 64 = 64 * w + x" "?c mod 64 = y" "(64 * w + x) mod 64 = x" "(64 * w + x) div 64 = w"
    using six_bits assms by blast+
  moreover have "?c div 4096 = ?c div 64 div 64" by (simp only: div_mult2_eq [symmetric]) simp
  moreover have "64 * w + x < 1024" using assms by linarith
  then have "?c < 0x10000" using assms by simp
  moreover have "\<not> ?c < 0x80" "\<not> ?c < 0x800" using assms by linarith+
  ultimately show ?thesis unfolding char_bytes_def by (simp only: if_False if_True)
qed

lemma char_bytes_four:
  assumes "x < 64" "y < 64" "z < 64" "0x10000 \<le> 64 * (64 * (64 * w + x) + y) + z"
  shows "char_bytes (64 * (64 * (64 * w + x) + y) + z)
    = [word_of_nat (240 + w), word_of_nat (128 + x), word_of_nat (128 + y), word_of_nat (128 + z)]"
proof -
  let ?c = "64 * (64 * (64 * w + x) + y) + z"
  have "?c div 64 = 64 * (64 * w + x) + y" "?c mod 64 = z" "(64 * (64 * w + x) + y) mod 64 = y"
    "(64 * (64 * w + x) + y) div 64 = 64 * w + x" "(64 * w + x) mod 64 = x" "(64 * w + x) div 64 = w"
    using six_bits assms by blast+
  moreover have "?c div 4096 = ?c div 64 div 64" "?c div 262144 = ?c div 64 div 64 div 64"
    by (simp_all only: div_mult2_eq [symmetric]) simp_all
  moreover have "\<not> ?c < 0x80" "\<not> ?c < 0x800" "\<not> ?c < 0x10000" using assms by linarith+
  ultimately show ?thesis unfolding char_bytes_def by (simp only: if_False)
qed

lemma first_byte:
  "n < 256 \<Longrightarrow> (word_of_nat n :: u8) < word_of_nat k \<longleftrightarrow> n < k mod 256"
  "n < 256 \<Longrightarrow> (word_of_nat k :: u8) \<le> word_of_nat n \<longleftrightarrow> k mod 256 \<le> n"
  by (simp_all add: word_less_nat_alt word_le_nat_alt unat_of_nat take_bit_eq_mod)

lemma char_read:
  assumes "scalar c"
  shows "utf8_seq (char_bytes c @ rest) = (length (char_bytes c), True) \<and> char_code (char_bytes c) = c"
  using assms
proof (cases rule: scalar_cases)
  case one
  then have "unat (word_of_nat c :: u8) = c" "(word_of_nat c :: u8) < 0x80"
    by (simp_all add: unat_byte word_less_nat_alt)
  then show ?thesis
    using one by (simp add: char_bytes_def)
next
  case (two w x)
  have b: "unat (word_of_nat (192 + w) :: u8) = 192 + w" using two by (intro unat_byte) simp
  have "(192 + w) mod 32 = w" "(128 + x) mod 64 = x" using two by (simp_all add: mod_if)
  then show ?thesis
    using two tail_byte [of x] b
    by (simp add: char_bytes_two word_less_nat_alt word_le_nat_alt utf8_tail_def del: of_nat_add)
next
  case (three w x y)
  have b: "unat (word_of_nat (224 + w) :: u8) = 224 + w" using three by (intro unat_byte) simp
  have m: "(224 + w) mod 16 = w" "(128 + x) mod 64 = x" "(128 + y) mod 64 = y" using three by (simp_all add: mod_if)
  have "utf8_tail (second3 (word_of_nat (224 + w))) 1 (word_of_nat (128 + x) # word_of_nat (128 + y) # rest) = (3, True)"
    using three tail_byte [of x] tail_byte [of y] b
    by (auto simp: utf8_tail_def second3_def word_unat_eq_iff word_le_nat_alt simp del: of_nat_add)
  moreover have "char_bytes c = [word_of_nat (224 + w), word_of_nat (128 + x), word_of_nat (128 + y)]"
    unfolding three(1) using three by (intro char_bytes_three) simp_all
  ultimately show ?thesis
    using three(1,3) tail_byte [of x] tail_byte [of y] three(4,5) b m
    by (simp add: word_less_nat_alt word_le_nat_alt del: of_nat_add)
next
  case (four w x y z)
  have b: "unat (word_of_nat (240 + w) :: u8) = 240 + w" using four by (intro unat_byte) simp
  have m: "(240 + w) mod 8 = w" "(128 + x) mod 64 = x" "(128 + y) mod 64 = y" "(128 + z) mod 64 = z"
    using four by (simp_all add: mod_if)
  have "utf8_tail (second4 (word_of_nat (240 + w))) 2
      (word_of_nat (128 + x) # word_of_nat (128 + y) # word_of_nat (128 + z) # rest) = (4, True)"
  proof -
    have "second4 (word_of_nat (240 + w)) (word_of_nat (128 + x))"
      using four tail_byte [of x] b
      by (simp add: second4_def word_unat_eq_iff word_le_nat_alt del: of_nat_add) linarith
    moreover have "conts 2 (word_of_nat (128 + y) # word_of_nat (128 + z) # rest) = 2"
      using tail_byte four(5,6) by (simp add: numeral_2_eq_2 del: of_nat_add)
    ultimately show ?thesis
      by (simp add: utf8_tail_def del: of_nat_add)
  qed
  moreover have "char_bytes c = [word_of_nat (240 + w), word_of_nat (128 + x), word_of_nat (128 + y), word_of_nat (128 + z)]"
    unfolding four(1) using four by (intro char_bytes_four) simp_all
  ultimately show ?thesis
    using four(1,3) tail_byte [of x] tail_byte [of y] tail_byte [of z] four(4-6) b m
    by (simp add: word_less_nat_alt word_le_nat_alt del: of_nat_add)
qed

lemma char_bytes_not_Nil: "char_bytes c \<noteq> []"
  by (simp add: char_bytes_def)

lemma str_chars_bytes: "list_all scalar cs \<Longrightarrow> str_chars (chars_str cs) = cs"
proof (induction cs)
  case Nil
  then show ?case by (simp add: chars_str_def str_chars.simps)
next
  case (Cons c cs)
  then show ?case
    using char_read [of c "chars_str cs"] char_bytes_not_Nil [of c]
    by (subst str_chars.simps) (simp add: chars_str_def)
qed

lemma chars_str_inject: "list_all scalar cs \<Longrightarrow> list_all scalar ds \<Longrightarrow> chars_str cs = chars_str ds \<longleftrightarrow> cs = ds"
  using str_chars_bytes by metis

end
