(* ===== verification/Codec_Text.thy ===== *)
theory Codec_Text
  imports Codec
begin

text \<open>
  The text half of \<open>resolute/src/decode.rs\<close> and \<open>range.rs\<close> and the checked constructors of
  \<open>resolute/src/newtypes.rs\<close>. Text is handled as UTF-8 bytes: every character the code looks for is
  ASCII, so going byte by byte is going character by character. The theorems: text arrays read back
  whatever the server quotes, integers and ranges read back from their text, and the numeric check
  accepts exactly the grammar of its comment.
\<close>

section \<open>Scalars\<close>

abbreviation bad_text :: "string \<Rightarrow> rstring \<Rightarrow> 'a typed" where
  "bad_text name s \<equiv> decode_err (BadText name s)"

definition decode_text_bool :: "rstring \<Rightarrow> bool typed" where
  "decode_text_bool s =
     (if s = lit ''t'' \<or> s = lit ''true'' \<or> s = lit ''1'' then Ok True
      else if s = lit ''f'' \<or> s = lit ''false'' \<or> s = lit ''0'' then Ok False
      else bad_text ''bool'' s)"

definition decode_text_i16 :: "rstring \<Rightarrow> i16 typed" where
  "decode_text_i16 s = (case parse_signed 16 s of Some n \<Rightarrow> Ok (word_of_int n) | None \<Rightarrow> bad_text ''i16'' s)"

definition decode_text_i32 :: "rstring \<Rightarrow> i32 typed" where
  "decode_text_i32 s = (case parse_signed 32 s of Some n \<Rightarrow> Ok (word_of_int n) | None \<Rightarrow> bad_text ''i32'' s)"

definition decode_text_i64 :: "rstring \<Rightarrow> i64 typed" where
  "decode_text_i64 s = (case parse_signed 64 s of Some n \<Rightarrow> Ok (word_of_int n) | None \<Rightarrow> bad_text ''i64'' s)"

definition decode_text_string :: "rstring \<Rightarrow> rstring typed" where
  "decode_text_string s = Ok s"

definition decode_text_timestamp :: "rstring \<Rightarrow> pg_timestamp typed" where
  "decode_text_timestamp s =
     (if s = lit ''infinity'' then Ok TsInfinity
      else if s = lit ''-infinity'' then Ok TsNegInfinity
      else case parse_signed 64 s of Some n \<Rightarrow> Ok (TsValue (word_of_int n)) | None \<Rightarrow> bad_text ''PgTimestamp'' s)"

definition decode_text_date :: "rstring \<Rightarrow> pg_date typed" where
  "decode_text_date s =
     (if s = lit ''infinity'' then Ok DateInfinity
      else if s = lit ''-infinity'' then Ok DateNegInfinity
      else case parse_signed 32 s of Some n \<Rightarrow> Ok (DateValue (word_of_int n)) | None \<Rightarrow> bad_text ''PgDate'' s)"

definition decode_text_numeric :: "rstring \<Rightarrow> rstring typed" where "decode_text_numeric s = Ok s"
definition decode_text_inet :: "rstring \<Rightarrow> rstring typed" where "decode_text_inet s = Ok s"

text \<open>\<open>Display\<close> of the two infinite-able types.\<close>

fun show_timestamp :: "pg_timestamp \<Rightarrow> rstring" where
  "show_timestamp (TsValue us) = decimal_int (sint us)"
| "show_timestamp TsInfinity = lit ''infinity''"
| "show_timestamp TsNegInfinity = lit ''-infinity''"

fun show_date :: "pg_date \<Rightarrow> rstring" where
  "show_date (DateValue d) = decimal_int (sint d)"
| "show_date DateInfinity = lit ''infinity''"
| "show_date DateNegInfinity = lit ''-infinity''"

section \<open>Bytea\<close>

definition hex_val :: "u8 \<Rightarrow> nat option" where
  "hex_val c =
     (if 0x30 \<le> c \<and> c \<le> 0x39 then Some (unat c - 48)
      else if 0x61 \<le> c \<and> c \<le> 0x66 then Some (unat c - 87)
      else if 0x41 \<le> c \<and> c \<le> 0x46 then Some (unat c - 55)
      else None)"

text \<open>\<open>u8::from_str_radix(t, 16)\<close> of two characters; a plus sign is allowed.\<close>

fun radix16_u8 :: "rstring \<Rightarrow> u8 option" where
  "radix16_u8 [a, b] =
     (if a = 0x2B then map_option word_of_nat (hex_val b)
      else case (hex_val a, hex_val b) of
             (Some x, Some y) \<Rightarrow> Some (word_of_nat (16 * x + y))
           | _ \<Rightarrow> None)"
| "radix16_u8 _ = None"

function hex_pairs :: "rstring \<Rightarrow> nat \<Rightarrow> bytes typed" where
  "hex_pairs hex i =
     (if i \<ge> length hex then Ok []
      else
        and_then (str_slice hex i (i + 2)) (\<lambda>p.
          case radix16_u8 p of
            None \<Rightarrow> decode_err (BadHex i)
          | Some b \<Rightarrow> and_then (hex_pairs hex (i + 2)) (\<lambda>bs. Ok (b # bs))))"
  by auto
termination
  by (relation "measure (\<lambda>(hex, i). length hex - i)") auto

declare hex_pairs.simps [simp del]

definition decode_text_bytea :: "rstring \<Rightarrow> bytes typed" where
  "decode_text_bytea s = (case strip_prefix [0x5C, 0x78] s of Some hex \<Rightarrow> hex_pairs hex 0 | None \<Rightarrow> Ok s)"

section \<open>Arrays\<close>

text \<open>A quoted element, after the opening quote, and what follows its closing quote.\<close>

fun quoted_element :: "bytes \<Rightarrow> (bytes \<times> bytes) typed" where
  "quoted_element [] = decode_err UnterminatedElement"
| "quoted_element (c # cs) =
     (if c = 0x5C then
        (case cs of
           [] \<Rightarrow> decode_err UnterminatedElement
         | d # ds \<Rightarrow> and_then (quoted_element ds) (\<lambda>(e, rest). Ok (d # e, rest)))
      else if c = 0x22 then Ok ([], cs)
      else and_then (quoted_element cs) (\<lambda>(e, rest). Ok (c # e, rest)))"

lemma quoted_element_shorter: "quoted_element s = Ok (e, rest) \<Longrightarrow> length rest < length s"
  by (induction s arbitrary: e rest rule: quoted_element.induct)
     (fastforce simp: outcome_simps split: if_splits list.splits)+

definition skip_comma :: "bytes \<Rightarrow> bytes" where
  "skip_comma s = (case s of c # cs \<Rightarrow> if c = 0x2C then cs else s | [] \<Rightarrow> [])"

lemma length_skip_comma: "length (skip_comma s) \<le> length s"
  by (cases s) (simp_all add: skip_comma_def)

lemma skipped_shorter: "dropWhile P s = c # cs \<Longrightarrow> length cs < length s"
  using length_dropWhile_le [of P s] by simp

lemma unquoted_shorter: "length (skip_comma (dropWhile (\<lambda>b. b \<noteq> 0x2C) (c # cs))) < length (c # cs)"
proof (cases "c = 0x2C")
  case True
  then show ?thesis by (simp add: skip_comma_def)
next
  case False
  then show ?thesis
    using length_skip_comma [of "dropWhile (\<lambda>b. b \<noteq> 0x2C) cs"] length_dropWhile_le [of "\<lambda>b. b \<noteq> 0x2C" cs]
    by simp
qed

function array_elements :: "bytes \<Rightarrow> bytes list typed" where
  "array_elements s =
     (case dropWhile (\<lambda>b. b = 0x20) s of
        [] \<Rightarrow> Ok []
      | c # cs \<Rightarrow>
          if c = 0x22 then
            (case quoted_element cs of
               Ok (e, rest) \<Rightarrow> and_then (array_elements (skip_comma rest)) (\<lambda>es. Ok (e # es))
             | Err err \<Rightarrow> Err err
             | Panic \<Rightarrow> Panic)
          else
            let raw = takeWhile (\<lambda>b. b \<noteq> 0x2C) (c # cs);
                rest = dropWhile (\<lambda>b. b \<noteq> 0x2C) (c # cs);
                e = trim raw
            in if e = lit ''NULL'' then decode_err NullElement
               else and_then (array_elements (skip_comma rest)) (\<lambda>es. Ok (e # es)))"
  by pat_completeness auto

termination
proof (relation "measure length", goal_cases)
  case 1
  show ?case by simp
next
  case (2 s c cs p e rest)
  then have "length rest < length cs" "length cs < length s"
    using quoted_element_shorter skipped_shorter by metis+
  then show ?case
    using length_skip_comma [of rest] by simp
next
  case (3 s c cs raw rest e)
  then have "length (c # cs) \<le> length s"
    by (metis length_dropWhile_le)
  then show ?case
    using unquoted_shorter [of c cs] 3 by simp
qed

declare array_elements.simps [simp del]

definition parse_pg_text_array :: "rstring \<Rightarrow> rstring list typed" where
  "parse_pg_text_array s0 =
     (let s = trim s0
      in if \<not> starts_with (lit ''{'') s \<or> \<not> ends_with (lit ''}'') s then decode_err (BadText ''array'' s)
         else
           and_then (str_slice s 1 (length s - 1)) (\<lambda>inner.
             if trim inner = [] then Ok [] else array_elements inner))"

definition decode_text_array :: "(rstring \<Rightarrow> 'a typed) \<Rightarrow> rstring \<Rightarrow> 'a list typed" where
  "decode_text_array dec s = and_then (parse_pg_text_array s) (traverse dec)"

section \<open>Ranges\<close>

definition text_bound :: "(rstring \<Rightarrow> 'a typed) \<Rightarrow> rstring \<Rightarrow> 'a option typed" where
  "text_bound dec s = (if s = [] then Ok None else and_then (dec s) (\<lambda>v. Ok (Some v)))"

definition decode_text_range :: "(rstring \<Rightarrow> 'a typed) \<Rightarrow> rstring \<Rightarrow> 'a pg_range typed" where
  "decode_text_range dec s0 =
     (let s = trim s0
      in if s = lit ''empty'' then Ok EmptyRange
         else if length s < 3 then bad_text ''range'' s
         else
           and_then (str_slice s 1 (length s - 1)) (\<lambda>inner.
             case split_once 0x2C inner of
               None \<Rightarrow> decode_err (MissingComma s)
             | Some (lower_str, upper_str) \<Rightarrow>
                 and_then (text_bound dec lower_str) (\<lambda>lower.
                 and_then (text_bound dec upper_str) (\<lambda>upper.
                   Ok (Range lower upper (starts_with (lit ''['') s) (ends_with (lit '']'') s))))))"

section \<open>Checked constructors\<close>

datatype newtype_error = EmptyNewtype | InvalidNumeric | InvalidExponent | UnexpectedCharacter nat
  | InvalidPrefix rstring | PrefixTooLong nat | InvalidAddress rstring | Ipv4PrefixTooLong nat

definition skip_sign :: "bytes \<Rightarrow> bytes" where
  "skip_sign s = (case s of c # cs \<Rightarrow> if c = 0x2B \<or> c = 0x2D then cs else s | [] \<Rightarrow> [])"

definition skip_fraction :: "bytes \<Rightarrow> bytes" where
  "skip_fraction s = (case s of c # cs \<Rightarrow> if c = 0x2E then dropWhile is_digit cs else s | [] \<Rightarrow> [])"

text \<open>What is left is compared by length: the index \<open>i\<close> of the code is \<open>length s - length rest\<close>.\<close>

definition numeric_exponent :: "rstring \<Rightarrow> bytes \<Rightarrow> (newtype_error, rstring) res" where
  "numeric_exponent s rest0 =
     (let exponent = (rest0 \<noteq> [] \<and> (hd rest0 = 0x65 \<or> hd rest0 = 0x45));
          digits = skip_sign (tl rest0);
          rest = (if exponent then dropWhile is_digit digits else rest0)
      in if exponent \<and> length rest = length digits then Err InvalidExponent
         else if rest \<noteq> [] then Err (UnexpectedCharacter (length s - length rest))
         else Ok s)"

definition numeric_try_from :: "rstring \<Rightarrow> (newtype_error, rstring) res" where
  "numeric_try_from s0 =
     (let s = trim s0
      in if s = [] then Err EmptyNewtype
         else if s = lit ''NaN'' \<or> s = lit ''Infinity'' \<or> s = lit ''-Infinity'' then Ok s
         else
           let body = skip_sign s;
               rest = skip_fraction (dropWhile is_digit body);
               used = length body - length rest
           in if used = 0 \<or> (used = 1 \<and> hd body = 0x2E) then Err InvalidNumeric
              else numeric_exponent s rest)"

text \<open>\<open>str::parse::<IpAddr>\<close> of the standard library is the parameter \<open>is_ip\<close>.\<close>

definition inet_try_from :: "(rstring \<Rightarrow> bool) \<Rightarrow> rstring \<Rightarrow> (newtype_error, rstring) res" where
  "inet_try_from is_ip s0 =
     (let s = trim s0
      in if s = [] then Err EmptyNewtype
         else
           and_then
             (case rsplit_once 0x2F s of
                Some (addr, prefix) \<Rightarrow>
                  (case parse_unsigned 256 prefix of
                     None \<Rightarrow> Err (InvalidPrefix prefix)
                   | Some prefix_len \<Rightarrow>
                       if prefix_len > 128 then Err (PrefixTooLong prefix_len) else Ok (addr, Some prefix_len))
              | None \<Rightarrow> Ok (s, None))
             (\<lambda>(addr_part, prefix_part).
                if \<not> is_ip addr_part then Err (InvalidAddress addr_part)
                else
                  case prefix_part of
                    Some prefix_len \<Rightarrow>
                      if 0x2E \<in> set addr_part \<and> prefix_len > 32 then Err (Ipv4PrefixTooLong prefix_len) else Ok s
                  | None \<Rightarrow> Ok s))"


section \<open>Text arrays\<close>

text \<open>How a server writes an array: elements between commas, each quoted, with backslashes before quotes
  and backslashes, or, when it is plain, as it is. \<open>quote\<close> says which ones it quotes.\<close>

definition escape :: "bytes \<Rightarrow> bytes" where
  "escape s = concat (map (\<lambda>b. if b = 0x22 \<or> b = 0x5C then [0x5C, b] else [b]) s)"

definition plain :: "bytes \<Rightarrow> bool" where
  "plain s \<longleftrightarrow> s \<noteq> [] \<and> graphic (hd s) \<and> graphic (last s) \<and> hd s \<noteq> 0x22 \<and> 0x2C \<notin> set s \<and> s \<noteq> lit ''NULL''"

definition element_text :: "(bytes \<Rightarrow> bool) \<Rightarrow> bytes \<Rightarrow> bytes" where
  "element_text quote s = (if quote s then 0x22 # escape s @ [0x22] else s)"

fun commas :: "bytes list \<Rightarrow> bytes" where
  "commas [] = []"
| "commas [x] = x"
| "commas (x # y # ys) = x @ 0x2C # commas (y # ys)"

definition array_text :: "(bytes \<Rightarrow> bool) \<Rightarrow> bytes list \<Rightarrow> bytes" where
  "array_text quote ss = 0x7B # commas (map (element_text quote) ss) @ [0x7D]"

lemma quoted_element_escape: "quoted_element (escape s @ 0x22 # rest) = Ok (s, rest)"
  by (induction s) (simp_all add: escape_def)

lemma array_element_read:
  assumes "\<not> quote s \<Longrightarrow> plain s" and "rest = [] \<or> hd rest = 0x2C"
  shows "array_elements (element_text quote s @ rest)
    = and_then (array_elements (skip_comma rest)) (\<lambda>es. Ok (s # es))"
proof (cases "quote s")
  case True
  then show ?thesis
    by (subst array_elements.simps) (simp add: element_text_def quoted_element_escape)
next
  case False
  then have p: "plain s"
    by (rule assms(1))
  then obtain c cs where s: "s = c # cs" "c \<noteq> 0x20" "c \<noteq> 0x22"
    by (cases s) (auto simp: plain_def graphic_def)
  have "takeWhile (\<lambda>b. b \<noteq> 0x2C) (s @ rest) = s" "dropWhile (\<lambda>b. b \<noteq> 0x2C) (s @ rest) = rest"
    using p assms(2) by (cases rest; auto simp: plain_def takeWhile_append dropWhile_append)+
  moreover have "trim s = s" "s \<noteq> lit ''NULL''"
    using p by (simp_all add: plain_def trim_graphic)
  ultimately show ?thesis
    using False s by (subst array_elements.simps) (simp add: element_text_def Let_def)
qed

lemma array_elements_Nil [simp]: "array_elements [] = Ok []"
  by (subst array_elements.simps) simp

lemma array_elements_commas:
  "\<forall>s \<in> set ss. quote s \<or> plain s \<Longrightarrow> array_elements (commas (map (element_text quote) ss)) = Ok ss"
proof (induction ss rule: commas.induct)
  case (2 x)
  then show ?case
    using array_element_read [of quote x "[]"] by (auto simp: skip_comma_def)
next
  case (3 x y ys)
  then show ?case
    using array_element_read [of quote x "0x2C # commas (map (element_text quote) (y # ys))"]
    by (auto simp: skip_comma_def)
qed simp

lemma trim_end_not_Nil: "s \<noteq> [] \<Longrightarrow> graphic (hd s) \<Longrightarrow> trim_end s \<noteq> []"
proof (induction s rule: trim_end.induct)
  case (1 s)
  show ?case
  proof (cases "space_at_end s = 0")
    case True
    then show ?thesis
      using 1(2) by (subst trim_end.simps) simp
  next
    case False
    then obtain w where w: "find (\<lambda>w. ends_with w s) white_space = Some w" "space_at_end s = length w"
      by (auto simp: space_at_end_def split: option.splits)
    then have mem: "w \<in> set white_space" and ends: "ends_with w s"
      by (auto simp: find_Some_iff)
    then obtain t where "rev s = rev w @ t"
      by (auto simp: ends_with_def starts_with_iff)
    then have s: "s = rev t @ w"
      by (metis rev_append rev_rev_ident)
    have "t \<noteq> []"
      using s 1(3) white_space_hd [OF mem] by (auto simp: graphic_def)
    then have "take (length s - space_at_end s) s \<noteq> []" "hd (take (length s - space_at_end s) s) = hd s"
      using s w(2) by simp_all
    then show ?thesis
      using 1 False by (subst trim_end.simps) simp
  qed
qed

lemma trim_not_Nil: "s \<noteq> [] \<Longrightarrow> graphic (hd s) \<Longrightarrow> trim s \<noteq> []"
  by (simp add: trim_def trim_start.simps [of s] space_at_start_graphic trim_end_not_Nil)

lemma graphic_not_cont: "graphic b \<Longrightarrow> \<not> is_cont b"
  by (auto simp: graphic_def is_cont_def not_le)

lemma commas_hd: "commas (x # xs) \<noteq> [] \<longleftrightarrow> x \<noteq> [] \<or> xs \<noteq> []" "x \<noteq> [] \<Longrightarrow> hd (commas (x # xs)) = hd x"
  by (cases xs; simp)+

lemma element_text_hd:
  assumes "quote s \<or> plain s"
  shows "element_text quote s \<noteq> [] \<and> graphic (hd (element_text quote s))"
  using assms by (auto simp: element_text_def plain_def graphic_def)

text \<open>The inside of a bracketed text.\<close>

lemma str_slice_inner:
  assumes "graphic a" "graphic b" "inner = [] \<or> graphic (hd inner)"
  shows "str_slice (a # inner @ [b]) 1 (length (a # inner @ [b]) - 1) = (Ok inner :: rstring typed)"
proof -
  have "\<not> is_cont ((inner @ [b]) ! 0)"
    using assms graphic_not_cont by (cases inner) auto
  then show ?thesis
    using assms(2) graphic_not_cont by (simp add: str_slice_def char_boundary_def nth_append)
qed

lemma parse_array_text:
  assumes "\<forall>s \<in> set ss. quote s \<or> plain s"
  shows "parse_pg_text_array (array_text quote ss) = Ok ss"
proof -
  let ?inner = "commas (map (element_text quote) ss)"
  have trimmed: "trim (array_text quote ss) = array_text quote ss"
    by (intro trim_graphic) (simp_all add: array_text_def graphic_def)
  have brackets: "starts_with (lit ''{'') (array_text quote ss)" "ends_with (lit ''}'') (array_text quote ss)"
    by (simp_all add: array_text_def starts_with_def ends_with_def lit_def)
  have inner: "?inner = [] \<longleftrightarrow> ss = []" "ss \<noteq> [] \<Longrightarrow> graphic (hd ?inner)"
    using assms element_text_hd [of quote "hd ss"] by (cases ss; auto simp: commas_hd)+
  then have slice: "str_slice (array_text quote ss) 1 (length (array_text quote ss) - 1) = (Ok ?inner :: rstring typed)"
    unfolding array_text_def by (intro str_slice_inner) (auto simp: graphic_def)
  show ?thesis
  proof (cases "ss = []")
    case False
    then have "trim ?inner \<noteq> []"
      using inner by (intro trim_not_Nil) auto
    then show ?thesis
      using trimmed brackets slice array_elements_commas [OF assms] by (simp add: parse_pg_text_array_def Let_def)
  qed (use trimmed brackets slice inner in \<open>simp add: parse_pg_text_array_def Let_def\<close>)
qed

section \<open>Integers\<close>

lemma decimal_int_bytes: "b \<in> set (decimal_int n) \<Longrightarrow> b = 0x2D \<or> is_digit b"
  using decimal_digits by (auto simp: decimal_int_def list_all_iff split: if_splits)

lemma digit_graphic: "is_digit b \<Longrightarrow> graphic b \<and> b \<noteq> 0x22 \<and> b \<noteq> 0x2C"
  using less_le_trans [of "0x20" "0x30" b] le_less_trans [of b "0x39" "0x80"]
  by (auto simp: is_digit_def graphic_def)

lemma decimal_int_graphic: "b \<in> set (decimal_int n) \<Longrightarrow> graphic b \<and> b \<noteq> 0x22 \<and> b \<noteq> 0x2C"
  using decimal_int_bytes [of b n] digit_graphic [of b] by (auto simp: graphic_def)

lemma plain_decimal_int: "plain (decimal_int n)"
proof -
  have "graphic (hd (decimal_int n))" "graphic (last (decimal_int n))" "hd (decimal_int n) \<noteq> 0x22"
    using decimal_int_graphic [of "hd (decimal_int n)" n] decimal_int_graphic [of "last (decimal_int n)" n]
    by simp_all
  moreover have "decimal_int n \<noteq> lit ''NULL''"
    using decimal_int_bytes [of "0x4E" n] by (auto simp: lit_def is_digit_def)
  ultimately show ?thesis
    using decimal_int_graphic by (auto simp: plain_def)
qed

lemma decode_text_i64_decimal: "decode_text_i64 (decimal_int (sint n)) = Ok n"
proof -
  have "- (2 ^ 63) \<le> sint n \<and> sint n < 2 ^ 63"
    using sint_greater_eq [where w = n] sint_less [where w = n] by simp
  then show ?thesis
    using parse_signed_decimal [of 64 "sint n"] by (simp add: decode_text_i64_def)
qed

lemma decode_text_i32_decimal: "decode_text_i32 (decimal_int (sint n)) = Ok n"
proof -
  have "- (2 ^ 31) \<le> sint n \<and> sint n < 2 ^ 31"
    by (rule sint_i32_range)
  then show ?thesis
    using parse_signed_decimal [of 32 "sint n"] by (simp add: decode_text_i32_def)
qed

lemma decode_text_i16_decimal: "decode_text_i16 (decimal_int (sint n)) = Ok n"
proof -
  have "- (2 ^ 15) \<le> sint n \<and> sint n < 2 ^ 15"
    by (rule sint_i16_range)
  then show ?thesis
    using parse_signed_decimal [of 16 "sint n"] by (simp add: decode_text_i16_def)
qed




section \<open>Text ranges\<close>

definition bound_text :: "i64 option \<Rightarrow> rstring" where
  "bound_text b = (case b of None \<Rightarrow> [] | Some n \<Rightarrow> decimal_int (sint n))"

text \<open>How a server writes a range of integers.\<close>

fun range_text :: "i64 pg_range \<Rightarrow> rstring" where
  "range_text EmptyRange = lit ''empty''"
| "range_text (Range l u li ui) =
     (if li then 0x5B else 0x28) # (bound_text l @ 0x2C # bound_text u) @ [if ui then 0x5D else 0x29]"

lemma bound_text_bytes: "b \<in> set (bound_text l) \<Longrightarrow> graphic b \<and> b \<noteq> 0x2C"
  using decimal_int_graphic [of b] by (auto simp: bound_text_def split: option.splits)

lemma text_bound_text: "text_bound decode_text_i64 (bound_text l) = Ok l"
  by (cases l) (simp_all add: bound_text_def text_bound_def decode_text_i64_decimal)

text \<open>Every \<open>int8range\<close> reads back from the server's text: empty, unbounded on either side, and with
  either bracket on either side.\<close>

theorem text_range_roundtrip: "decode_text_range decode_text_i64 (range_text r) = Ok r"
proof (cases r)
  case EmptyRange
  have "trim (lit ''empty'') = lit ''empty''"
    by (intro trim_graphic) (simp_all add: lit_def graphic_def)
  then show ?thesis
    by (simp add: EmptyRange decode_text_range_def)
next
  case (Range l u li ui)
  let ?inner = "bound_text l @ 0x2C # bound_text u"
  let ?a = "if li then 0x5B else 0x28 :: u8" and ?b = "if ui then 0x5D else 0x29 :: u8"
  have trimmed: "trim (range_text r) = range_text r"
    by (intro trim_graphic) (simp_all add: Range graphic_def)
  have "hd ?inner \<in> set (bound_text l) \<or> hd ?inner = 0x2C"
    by (cases "bound_text l") simp_all
  then have slice: "str_slice (range_text r) 1 (length (range_text r) - 1) = (Ok ?inner :: rstring typed)"
    unfolding Range range_text.simps using bound_text_bytes [of "hd ?inner" l]
    by (intro str_slice_inner) (auto simp: graphic_def)
  have "0x2C \<notin> set (bound_text l)"
    using bound_text_bytes [of "0x2C" l] by blast
  then have parts: "split_once 0x2C ?inner = Some (bound_text l, bound_text u)"
    by (rule split_once_append)
  have brackets: "starts_with (lit ''['') (range_text r) = li" "ends_with (lit '']'') (range_text r) = ui"
    "range_text r \<noteq> lit ''empty''" "3 \<le> length (range_text r)"
    by (simp_all add: Range starts_with_def ends_with_def lit_def)
  show ?thesis
    using trimmed slice parts brackets
    by (simp add: decode_text_range_def text_bound_text Let_def) (simp add: Range)
qed

section \<open>Hexadecimal bytea\<close>

definition hex_digit :: "nat \<Rightarrow> u8" where
  "hex_digit k = (if k < 10 then word_of_nat (48 + k) else word_of_nat (87 + k))"

definition hex_text :: "bytes \<Rightarrow> rstring" where
  "hex_text bs = concat (map (\<lambda>b. [hex_digit (unat b div 16), hex_digit (unat b mod 16)]) bs)"

lemma hex_digit_table:
  "list_all (\<lambda>k. hex_val (hex_digit k) = Some k \<and> hex_digit k \<noteq> 0x2B \<and> hex_digit k < 0x80) [0 ..< 16]"
  by (simp add: upt_rec hex_digit_def hex_val_def)

lemma hex_digit_val: "k < 16 \<Longrightarrow> hex_val (hex_digit k) = Some k \<and> hex_digit k \<noteq> 0x2B \<and> hex_digit k < 0x80"
  using hex_digit_table unfolding list_all_iff by (metis atLeastLessThan_iff le0 set_upt)

lemma radix16_hex: "radix16_u8 [hex_digit (unat b div 16), hex_digit (unat b mod 16)] = Some b"
proof -
  have "unat b < 256"
    using unsigned_less [of b, where ?'a = nat] by simp
  then have "unat b div 16 < 16" "unat b mod 16 < 16" "16 * (unat b div 16) + unat b mod 16 = unat b"
    by simp_all
  then show ?thesis
    using hex_digit_val [of "unat b div 16"] hex_digit_val [of "unat b mod 16"]
    by (simp del: mult_div_mod_eq add: div_mod_decomp [symmetric])
qed

lemma hex_text_ascii: "c \<in> set (hex_text bs) \<Longrightarrow> \<not> is_cont c"
proof -
  assume "c \<in> set (hex_text bs)"
  then have "\<exists>k < 16. c = hex_digit k"
  proof -
    have "\<exists>b \<in> set bs. c = hex_digit (unat b div 16) \<or> c = hex_digit (unat b mod 16)"
      using \<open>c \<in> set (hex_text bs)\<close> by (induction bs) (auto simp: hex_text_def)
    then obtain b :: "8 word" where "c = hex_digit (unat b div 16) \<or> c = hex_digit (unat b mod 16)" by blast
    moreover have "unat b div 16 < 16" "unat b mod 16 < 16"
      using unsigned_less [of b, where ?'a = nat] by simp_all
    ultimately show ?thesis by blast
  qed
  then have "c < 0x80"
    using hex_digit_val by auto
  then show ?thesis
    by (simp add: is_cont_def not_le)
qed

lemma hex_pairs_text:
  "hex_pairs (hex_text pre @ hex_text bs) (length (hex_text pre)) = Ok bs"
proof (induction bs arbitrary: pre)
  case Nil
  then show ?case by (subst hex_pairs.simps) (simp add: hex_text_def)
next
  case (Cons b bs)
  let ?p = "[hex_digit (unat b div 16), hex_digit (unat b mod 16)]"
  let ?s = "hex_text pre @ ?p @ hex_text bs"
  have s: "hex_text pre @ hex_text (b # bs) = ?s" "hex_text (pre @ [b]) @ hex_text bs = ?s"
    "length (hex_text (pre @ [b])) = length (hex_text pre) + 2"
    by (simp_all add: hex_text_def)
  have "\<not> is_cont c" if "c \<in> set ?s" for c
    using hex_text_ascii [of c "pre @ b # bs"] that by (simp add: hex_text_def)
  then have "char_boundary ?s i" if "i \<le> length ?s" for i
    using that nth_mem [of i ?s] by (auto simp: char_boundary_def le_less simp del: set_append)
  then have "str_slice ?s (length (hex_text pre)) (length (hex_text pre) + 2) = (Ok ?p :: rstring typed)"
    by (simp add: str_slice_def)
  then show ?case
    using Cons.IH [of "pre @ [b]"] s radix16_hex [of b]
    by (subst hex_pairs.simps) (simp del: radix16_u8.simps)
qed

text \<open>A bytea in the server's hexadecimal text form reads back byte for byte, and text that does not start
  with a backslash and an x is taken as it is.\<close>

theorem bytea_hex_roundtrip:
  "decode_text_bytea ([0x5C, 0x78] @ hex_text bs) = Ok bs
   \<and> (\<not> starts_with [0x5C, 0x78] s \<longrightarrow> decode_text_bytea s = Ok s)"
  using hex_pairs_text [of "[]" bs] strip_prefix_append [of "[0x5C, 0x78]" "hex_text bs"]
  by (auto simp: decode_text_bytea_def strip_prefix_def hex_text_def [of "[]"])

theorem bytea_hex_roundtrip_witness:
  "decode_text_bytea (lit ''abc'') = Ok (lit ''abc'')"
  using bytea_hex_roundtrip [of "[]" "lit ''abc''"] by (simp add: starts_with_def lit_def)

section \<open>Numeric literals\<close>

text \<open>The grammar of the comment in \<open>newtypes.rs\<close>, with at least one digit in the mantissa.\<close>

definition digits :: "bytes \<Rightarrow> bool" where "digits ds = list_all is_digit ds"

definition sign_part :: "bytes \<Rightarrow> bool" where "sign_part s \<longleftrightarrow> s = [] \<or> s = lit ''+'' \<or> s = lit ''-''"

inductive fraction_part :: "bytes \<Rightarrow> bytes \<Rightarrow> bool" where
  none: "fraction_part [] []"
| point: "digits ds \<Longrightarrow> fraction_part (0x2E # ds) ds"

inductive exponent_part :: "bytes \<Rightarrow> bool" where
  none: "exponent_part []"
| exponent: "e = 0x65 \<or> e = 0x45 \<Longrightarrow> sign_part sg \<Longrightarrow> digits ds \<Longrightarrow> ds \<noteq> [] \<Longrightarrow> exponent_part (e # sg @ ds)"

inductive numeric_literal :: "bytes \<Rightarrow> bool" where
  special: "s = lit ''NaN'' \<or> s = lit ''Infinity'' \<or> s = lit ''-Infinity'' \<Longrightarrow> numeric_literal s"
| finite: "sign_part sg \<Longrightarrow> digits ints \<Longrightarrow> fraction_part frac ds \<Longrightarrow> ints @ ds \<noteq> [] \<Longrightarrow> exponent_part ex
    \<Longrightarrow> numeric_literal (sg @ ints @ frac @ ex)"

lemma skip_sign_cases: "\<exists>sg. sign_part sg \<and> s = sg @ skip_sign s"
proof (cases s)
  case (Cons c cs)
  then show ?thesis
    by (intro exI [of _ "if c = 0x2B \<or> c = 0x2D then [c] else []"])
       (auto simp: skip_sign_def sign_part_def lit_def)
qed (simp add: skip_sign_def sign_part_def)

lemma skip_sign_append:
  assumes "sign_part sg" "r = [] \<or> hd r \<noteq> 0x2B \<and> hd r \<noteq> 0x2D"
  shows "skip_sign (sg @ r) = r"
  using assms by (cases r) (auto simp: skip_sign_def sign_part_def lit_def)

lemma digits_dropWhile: "digits ds \<Longrightarrow> r = [] \<or> \<not> is_digit (hd r) \<Longrightarrow> dropWhile is_digit (ds @ r) = r"
  by (cases r) (simp_all add: digits_def list_all_iff dropWhile_append2 takeWhile_eq_all_conv del: split_paired_All)

lemma digit_run: "\<exists>ds. digits ds \<and> s = ds @ dropWhile is_digit s"
proof (intro exI conjI)
  show "digits (takeWhile is_digit s)"
    by (auto simp: digits_def list_all_iff dest: set_takeWhileD)
qed simp

lemma skip_fraction_cases: "\<exists>frac ds. fraction_part frac ds \<and> s = frac @ skip_fraction s"
proof (cases "\<exists>cs. s = 0x2E # cs")
  case True
  then obtain cs where s: "s = 0x2E # cs" by blast
  obtain ds where "digits ds" "cs = ds @ dropWhile is_digit cs"
    using digit_run by blast
  then have "fraction_part (0x2E # ds) ds \<and> s = (0x2E # ds) @ skip_fraction s"
    using s fraction_part.point by (simp add: skip_fraction_def)
  then show ?thesis by blast
next
  case False
  then have "skip_fraction s = s"
    by (cases s) (auto simp: skip_fraction_def)
  then show ?thesis
    using fraction_part.none by (metis append_Nil)
qed

lemma digits_Nil: "dropWhile is_digit ds = [] \<longleftrightarrow> digits ds"
  by (simp add: digits_def list_all_iff)

lemma exponent_iff:
  "exponent_part ex \<longleftrightarrow> ex = [] \<or> (hd ex = 0x65 \<or> hd ex = 0x45) \<and> skip_sign (tl ex) \<noteq> []
     \<and> dropWhile is_digit (skip_sign (tl ex)) = []" (is "_ \<longleftrightarrow> ?r")
proof
  assume "exponent_part ex"
  then show ?r
  proof cases
    case (exponent e sg ds)
    then have "ds = [] \<or> hd ds \<noteq> 0x2B \<and> hd ds \<noteq> 0x2D"
      by (cases ds) (auto simp: digits_def is_digit_def)
    then show ?thesis
      using exponent skip_sign_append [of sg ds] digits_Nil [of ds] by auto
  qed simp
next
  assume r: ?r
  show "exponent_part ex"
  proof (cases ex)
    case (Cons e cs)
    obtain sg where "sign_part sg" "cs = sg @ skip_sign cs"
      using skip_sign_cases by blast
    then show ?thesis
      using r Cons exponent_part.exponent [of e sg "skip_sign cs"]
      by (auto simp: digits_def list_all_iff)
  qed (simp add: exponent_part.none)
qed

lemma exponent_start: "exponent_part ex \<Longrightarrow> ex = [] \<or> \<not> is_digit (hd ex) \<and> hd ex \<noteq> 0x2E"
  by (auto simp: exponent_iff is_digit_def)

lemma fraction_then: "fraction_part frac ds \<Longrightarrow> exponent_part ex \<Longrightarrow> skip_fraction (frac @ ex) = ex"
  using exponent_start [of ex] digits_dropWhile [of ds ex]
  by (cases ex) (auto elim!: fraction_part.cases simp: skip_fraction_def)

lemma fraction_not_digit:
  "fraction_part frac ds \<Longrightarrow> exponent_part ex \<Longrightarrow> frac @ ex = [] \<or> \<not> is_digit (hd (frac @ ex))"
  using exponent_start [of ex] by (auto elim!: fraction_part.cases simp: is_digit_def)

lemma mantissa_start:
  assumes "digits ints" "fraction_part frac ds" "ints @ ds \<noteq> []"
  shows "ints @ frac @ ex \<noteq> [] \<and> (hd (ints @ frac @ ex) = 0x2E \<or> is_digit (hd (ints @ frac @ ex)))"
  using assms by (cases ints) (auto elim!: fraction_part.cases simp: digits_def)

definition mantissa :: "bytes \<Rightarrow> bool" where
  "mantissa t \<longleftrightarrow>
     (let body = skip_sign t; used = length body - length (skip_fraction (dropWhile is_digit body))
      in \<not> (used = 0 \<or> used = 1 \<and> hd body = 0x2E))"

lemma dropWhile_same_length: "length (dropWhile P s) = length s \<longleftrightarrow> s = [] \<or> \<not> P (hd s)"
proof (cases s)
  case (Cons c cs)
  then show ?thesis
    using length_dropWhile_le [of P cs] by auto
qed simp

lemma numeric_exponent_ok: "numeric_exponent s rest = Ok t \<longleftrightarrow> t = s \<and> exponent_part rest"
  by (cases "rest = []"; cases "hd rest = 0x65 \<or> hd rest = 0x45"; cases "skip_sign (tl rest) = []")
     (auto simp: numeric_exponent_def exponent_iff Let_def dropWhile_same_length hd_conv_nth)

lemma numeric_try_from_ok:
  "numeric_try_from s = Ok t \<longleftrightarrow>
     trim s = t \<and> (t = lit ''NaN'' \<or> t = lit ''Infinity'' \<or> t = lit ''-Infinity''
       \<or> mantissa t \<and> exponent_part (skip_fraction (dropWhile is_digit (skip_sign t))))"
proof (cases "trim s = []")
  case True
  then show ?thesis
    by (auto simp: numeric_try_from_def lit_def mantissa_def skip_sign_def)
next
  case False
  show ?thesis
  proof (cases "trim s = lit ''NaN'' \<or> trim s = lit ''Infinity'' \<or> trim s = lit ''-Infinity''")
    case True
    then show ?thesis
      using False by (auto simp: numeric_try_from_def)
  next
    case not_special: False
    then have "numeric_try_from s = (if mantissa (trim s)
        then numeric_exponent (trim s) (skip_fraction (dropWhile is_digit (skip_sign (trim s))))
        else Err InvalidNumeric)"
      using False by (auto simp: numeric_try_from_def mantissa_def Let_def)
    then show ?thesis
      using not_special numeric_exponent_ok by auto
  qed
qed

lemma literal_parts:
  assumes "sign_part sg" "digits ints" "fraction_part frac ds" "ints @ ds \<noteq> []" "exponent_part ex"
  shows "mantissa (sg @ ints @ frac @ ex)" "skip_fraction (dropWhile is_digit (skip_sign (sg @ ints @ frac @ ex))) = ex"
proof -
  let ?m = "ints @ frac @ ex"
  have start: "?m \<noteq> []" "hd ?m = 0x2E \<or> is_digit (hd ?m)"
    using mantissa_start [of ints frac ds ex] assms by auto
  then have body: "skip_sign (sg @ ?m) = ?m"
    using assms(1) by (intro skip_sign_append) (auto simp: is_digit_def)
  show rest: "skip_fraction (dropWhile is_digit (skip_sign (sg @ ?m))) = ex"
    unfolding body using assms fraction_then digits_dropWhile [OF _ fraction_not_digit] by simp
  have "\<not> (length (ints @ frac) = 0 \<or> length (ints @ frac) = 1 \<and> hd ?m = 0x2E)"
    using assms by (cases ints) (auto elim!: fraction_part.cases simp: digits_def is_digit_def)
  then show "mantissa (sg @ ?m)"
    using rest body by (simp add: mantissa_def)
qed

lemma parts_literal:
  assumes "mantissa t" "exponent_part (skip_fraction (dropWhile is_digit (skip_sign t)))"
  shows "numeric_literal t"
proof -
  obtain sg where sg: "sign_part sg" "t = sg @ skip_sign t"
    using skip_sign_cases by blast
  obtain ints where ints: "digits ints" "skip_sign t = ints @ dropWhile is_digit (skip_sign t)"
    using digit_run by blast
  let ?f = "dropWhile is_digit (skip_sign t)"
  obtain frac ds where frac: "fraction_part frac ds" "?f = frac @ skip_fraction ?f"
    using skip_fraction_cases by blast
  have m: "skip_sign t = ints @ frac @ skip_fraction ?f" using ints frac by simp
  have "length (skip_sign t) = length ints + length frac + length (skip_fraction ?f)"
    by (subst m) simp
  moreover have "hd (skip_sign t) = 0x2E" if "ints = []" "frac = [0x2E]"
    using that by (subst m) simp
  ultimately have "ints @ ds \<noteq> []"
    using assms(1) frac(1) by (auto simp: mantissa_def Let_def elim!: fraction_part.cases)
  moreover have "t = sg @ ints @ frac @ skip_fraction ?f" using sg m by simp
  ultimately show ?thesis
    using numeric_literal.finite [OF sg(1) ints(1) frac(1) _ assms(2)] by metis
qed

text \<open>The checked constructor of \<open>PgNumeric\<close> accepts exactly the numeric literals of its comment, with at
  least one digit in the mantissa, and keeps the trimmed text.\<close>

theorem numeric_try_from_grammar: "numeric_try_from s = Ok t \<longleftrightarrow> trim s = t \<and> numeric_literal t"
proof
  assume "numeric_try_from s = Ok t"
  then show "trim s = t \<and> numeric_literal t"
    unfolding numeric_try_from_ok by (auto intro: numeric_literal.special parts_literal)
next
  assume "trim s = t \<and> numeric_literal t"
  then show "numeric_try_from s = Ok t"
    unfolding numeric_try_from_ok using literal_parts
    by (elim conjE numeric_literal.cases) (blast, simp)
qed

section \<open>Where the text decoders stop the program\<close>

text \<open>A bytea text with an odd number of hexadecimal digits slices past its end, and one that has a
  multi-byte character slices inside it; a range text that begins with a multi-byte character does too.\<close>

lemma odd_bytea_panics: "decode_text_bytea [0x5C, 0x78, 0x30] = Panic"
  by (simp add: decode_text_bytea_def hex_pairs.simps str_slice_def strip_prefix_def starts_with_def)

lemma multibyte_range_panics: "decode_text_range dec [0xC3, 0xA9, 0x2C, 0x5D] = Panic"
proof -
  have "trim [0xC3, 0xA9, 0x2C, 0x5D] = [0xC3, 0xA9, 0x2C, 0x5D]" by code_simp
  then show ?thesis
    by (simp add: decode_text_range_def str_slice_def char_boundary_def is_cont_def lit_def)
qed

text \<open>What the two infinite-able types display, their text decoders read.\<close>

lemma decimal_int_not_word:
  "s \<in> {lit ''infinity'', lit ''-infinity''} \<Longrightarrow> decimal_int n \<noteq> s"
proof
  assume s: "s \<in> {lit ''infinity'', lit ''-infinity''}" "decimal_int n = s"
  then have "0x79 \<in> set (decimal_int n)" by (auto simp: lit_def)
  then show False
    using decimal_int_bytes [of "0x79" n] by (simp add: is_digit_def)
qed

lemma timestamp_text_roundtrip: "decode_text_timestamp (show_timestamp t) = Ok t"
proof (cases t)
  case (TsValue us)
  have "parse_signed 64 (decimal_int (sint us)) = Some (sint us)"
    using sint_range_size [of us] by (intro parse_signed_decimal) (simp_all add: word_size)
  then show ?thesis
    by (simp add: TsValue decode_text_timestamp_def decimal_int_not_word)
qed (simp_all add: decode_text_timestamp_def lit_def)

lemma date_text_roundtrip: "decode_text_date (show_date t) = Ok t"
proof (cases t)
  case (DateValue d)
  have "parse_signed 32 (decimal_int (sint d)) = Some (sint d)"
    using sint_range_size [of d] by (intro parse_signed_decimal) (simp_all add: word_size)
  then show ?thesis
    by (simp add: DateValue decode_text_date_def decimal_int_not_word)
qed (simp_all add: decode_text_date_def lit_def)

end
