(* ===== verification/Client.thy ===== *)
theory Client
  imports Async_Client Row Metrics Chars Codec_Text
begin

text \<open>
  The typed client of \<open>resolute/src/query.rs\<close>: queries and statements in binary format over the
  connection of \<open>Async_Client\<close>, with the retry of a stale statement, the metrics and the log; named
  parameters, streams, batches, transaction guards and advisory locks. The state is the metrics with
  the connection and the world behind it. The theorems: what a query gives against a server that
  keeps prepared statements, also when the server has lost them, and what a dropped transaction
  leaves behind.
\<close>

section \<open>State and environment\<close>

type_synonym 'w client = "metrics \<times> 'w sys"

text \<open>What one call finds around it: the elapsed time it measures and whether its outcome is logged.\<close>

record call_env =
  ce_elapsed :: u64
  ce_log_ok :: bool
  ce_log_err :: bool

text \<open>A parameter: \<open>param_oid()\<close> and \<open>encode_param_value()\<close>.\<close>

record sql_param =
  sp_oid :: u32
  sp_value :: "bytes option"

definition param_of :: "u32 \<Rightarrow> 'a encoder \<Rightarrow> 'a \<Rightarrow> sql_param" where
  "param_of oid enc v = \<lparr>sp_oid = oid, sp_value = encode_param_value enc v\<rparr>"

datatype isolation_level = ReadCommitted | RepeatableRead | Serializable

fun as_sql :: "isolation_level \<Rightarrow> rstring" where
  "as_sql ReadCommitted = lit ''READ COMMITTED''"
| "as_sql RepeatableRead = lit ''REPEATABLE READ''"
| "as_sql Serializable = lit ''SERIALIZABLE''"

definition wired :: "(wire_error, 'a) res \<Rightarrow> 'a typed" where "wired r = map_err WireError r"

text \<open>\<open>map_err(|e| e.with_sql(sql))\<close>.\<close>

definition in_sql :: "rstring \<Rightarrow> 'a typed \<Rightarrow> 'a typed" where
  "in_sql sql r = (case r of Err e \<Rightarrow> and_then (with_sql e sql) Err | _ \<Rightarrow> r)"

text \<open>\<open>truncate_sql\<close> is evaluated only when the message is logged; it cuts at byte 100.\<close>

definition truncate_sql :: "rstring \<Rightarrow> rstring typed" where
  "truncate_sql sql =
     (if length sql \<le> 100 then Ok sql else and_then (str_slice sql 0 100) (\<lambda>t. Ok (t @ lit ''...'')))"

definition log_sql :: "bool \<Rightarrow> rstring \<Rightarrow> unit typed" where
  "log_sql on sql = (if on then and_then (truncate_sql sql) (\<lambda>_. Ok ()) else Ok ())"

definition parse_row_count :: "rstring \<Rightarrow> nat" where
  "parse_row_count tag =
     (case rsplit_once 0x20 tag of
        None \<Rightarrow> 0
      | Some (_, number) \<Rightarrow> (case parse_unsigned (2 ^ 64) number of None \<Rightarrow> 0 | Some n \<Rightarrow> n))"

section \<open>One statement\<close>

text \<open>\<open>Parse?\<close>, \<open>Bind\<close>, \<open>Describe?\<close>, \<open>Execute\<close>, \<open>Sync\<close>; \<open>query\<close> describes the portal, \<open>execute\<close> does not.\<close>

definition statement_messages ::
  "bool \<Rightarrow> rstring \<Rightarrow> sql_param list \<Rightarrow> bytes \<Rightarrow> bool \<Rightarrow> frontend_msg list" where
  "statement_messages describe sql ps stmt needs_parse =
     (if needs_parse then [Parse stmt sql (map sp_oid ps)] else [])
     @ [Bind [] stmt (replicate (length ps) Binary) (map sp_value ps) [Binary]]
     @ (if describe then [Describe 0x50 []] else [])
     @ [Execute [] 0, Sync]"

text \<open>The first half of \<open>query_inner_on\<close>, \<open>execute_inner_on\<close>: up to the answer of the connection.\<close>

definition cached_run ::
  "(rstring \<Rightarrow> 's \<Rightarrow> (rstring \<times> bool) \<times> 's) \<Rightarrow> (rstring \<Rightarrow> bytes \<Rightarrow> 's \<Rightarrow> 's)
     \<Rightarrow> (bytes \<Rightarrow> bool \<Rightarrow> 's \<Rightarrow> (wire_error, 'a) res \<times> 's) \<Rightarrow> rstring \<Rightarrow> 's \<Rightarrow> (wire_error, 'a) res \<times> 's" where
  "cached_run lookup publish run sql s =
     (let ((stmt, needs_parse), s) = lookup sql s; (r, s) = run stmt needs_parse s
      in (r, if is_ok r \<and> needs_parse then publish sql stmt s else s))"

definition submit_statement ::
  "'w transport \<Rightarrow> bool \<Rightarrow> rstring \<Rightarrow> sql_param list \<Rightarrow> bytes \<Rightarrow> bool \<Rightarrow> 'w sys
     \<Rightarrow> (wire_error, pipeline_response) res \<times> 'w sys" where
  "submit_statement net describe sql ps stmt needs_parse =
     submit net (encode_messages (statement_messages describe sql ps stmt needs_parse) []) Rows"

definition run_statement ::
  "'w transport \<Rightarrow> bool \<Rightarrow> rstring \<Rightarrow> sql_param list \<Rightarrow> 'w sys \<Rightarrow> (wire_error, pipeline_response) res \<times> 'w sys" where
  "run_statement net describe sql ps =
     cached_run sys_lookup sys_publish (submit_statement net describe sql ps) sql"

fun typed_rows :: "pipeline_response \<Rightarrow> row list typed" where
  "typed_rows (RowsResponse fs raw_rows _) =
     and_then (build_row_schema fs (case raw_rows of [] \<Rightarrow> None | d # _ \<Rightarrow> Some d)) (\<lambda>schema.
       Ok (map (\<lambda>d. \<lparr>r_schema = schema, r_data = d\<rparr>) raw_rows))"
| "typed_rows Done = Ok []"

fun affected :: "pipeline_response \<Rightarrow> nat" where
  "affected (RowsResponse _ _ tag) = parse_row_count tag"
| "affected Done = 0"

definition query_inner_on ::
  "'w transport \<Rightarrow> rstring \<Rightarrow> sql_param list \<Rightarrow> 'w sys \<Rightarrow> row list typed \<times> 'w sys" where
  "query_inner_on net sql ps sys =
     (case run_statement net True sql ps sys of (r, sys') \<Rightarrow> (and_then (wired r) typed_rows, sys'))"

definition execute_inner_on ::
  "'w transport \<Rightarrow> rstring \<Rightarrow> sql_param list \<Rightarrow> 'w sys \<Rightarrow> nat typed \<times> 'w sys" where
  "execute_inner_on net sql ps sys =
     (case run_statement net False sql ps sys of (r, sys') \<Rightarrow> (and_then (wired r) (\<lambda>resp. Ok (affected resp)), sys'))"

text \<open>A stale statement is forgotten and the call runs once more.\<close>

definition is_stale :: "'a typed \<Rightarrow> bool" where
  "is_stale r = (case r of Err (WireError (Pg e)) \<Rightarrow> is_stale_statement_error e | _ \<Rightarrow> False)"

definition with_retry :: "rstring \<Rightarrow> ('w sys \<Rightarrow> 'a typed \<times> 'w sys) \<Rightarrow> 'w sys \<Rightarrow> 'a typed \<times> 'w sys" where
  "with_retry sql inner sys =
     (case inner sys of (r, sys') \<Rightarrow>
        if is_stale r then inner (sys_invalidate sql sys') else (r, sys'))"

text \<open>Metrics, the log and the SQL of an error.\<close>

definition finish_call ::
  "call_env \<Rightarrow> (metrics \<Rightarrow> metrics) \<Rightarrow> (metrics \<Rightarrow> metrics) \<Rightarrow> rstring \<Rightarrow> metrics
     \<Rightarrow> 'a typed \<times> 'w sys \<Rightarrow> 'a typed \<times> 'w client" where
  "finish_call env on_ok on_err sql m p =
     (case p of
        (Ok a, sys) \<Rightarrow> (and_then (log_sql (ce_log_ok env) sql) (\<lambda>_. Ok a), (on_ok m, sys))
      | (Err e, sys) \<Rightarrow> (and_then (log_sql (ce_log_err env) sql) (\<lambda>_. in_sql sql (Err e)), (on_err m, sys))
      | (Panic, sys) \<Rightarrow> (Panic, (m, sys)))"

definition client_query ::
  "'w transport \<Rightarrow> call_env \<Rightarrow> rstring \<Rightarrow> sql_param list \<Rightarrow> 'w client \<Rightarrow> row list typed \<times> 'w client" where
  "client_query net env sql ps c =
     finish_call env (record_query (ce_elapsed env)) record_query_error sql (fst c)
       (with_retry sql (query_inner_on net sql ps) (snd c))"

definition client_execute ::
  "'w transport \<Rightarrow> call_env \<Rightarrow> rstring \<Rightarrow> sql_param list \<Rightarrow> 'w client \<Rightarrow> nat typed \<times> 'w client" where
  "client_execute net env sql ps c =
     finish_call env record_execute record_execute_error sql (fst c)
       (with_retry sql (execute_inner_on net sql ps) (snd c))"

definition exactly_one :: "row list \<Rightarrow> row typed" where
  "exactly_one rows = (case rows of [r] \<Rightarrow> Ok r | _ \<Rightarrow> Err (NotExactlyOne (length rows)))"

definition at_most_one :: "row list \<Rightarrow> row option typed" where
  "at_most_one rows =
     (case rows of [] \<Rightarrow> Ok None | [r] \<Rightarrow> Ok (Some r) | _ \<Rightarrow> Err (NotExactlyOne (length rows)))"

definition query_one ::
  "'w transport \<Rightarrow> call_env \<Rightarrow> rstring \<Rightarrow> sql_param list \<Rightarrow> 'w client \<Rightarrow> row typed \<times> 'w client" where
  "query_one net env sql ps c =
     (case client_query net env sql ps c of (r, c') \<Rightarrow> (and_then r exactly_one, c'))"

definition query_opt ::
  "'w transport \<Rightarrow> call_env \<Rightarrow> rstring \<Rightarrow> sql_param list \<Rightarrow> 'w client \<Rightarrow> row option typed \<times> 'w client" where
  "query_opt net env sql ps c =
     (case client_query net env sql ps c of (r, c') \<Rightarrow> (and_then r at_most_one, c'))"

definition ping :: "'w transport \<Rightarrow> call_env \<Rightarrow> 'w client \<Rightarrow> unit typed \<times> 'w client" where
  "ping net env c =
     (case client_query net env (lit ''SELECT 1'') [] c of (r, c') \<Rightarrow> (and_then r (\<lambda>_. Ok ()), c'))"

definition simple_query_on_conn :: "'w transport \<Rightarrow> rstring \<Rightarrow> 'w sys \<Rightarrow> unit typed \<times> 'w sys" where
  "simple_query_on_conn net sql sys =
     (case submit net (encode_message (Query sql) []) Drain sys of
        (r, sys') \<Rightarrow> (and_then (wired r) (\<lambda>_. Ok ()), sys'))"

definition simple_query :: "'w transport \<Rightarrow> rstring \<Rightarrow> 'w client \<Rightarrow> unit typed \<times> 'w client" where
  "simple_query net sql c =
     (case simple_query_on_conn net sql (snd c) of (r, sys') \<Rightarrow> (r, (fst c, sys')))"

definition client_copy_in ::
  "'w transport \<Rightarrow> rstring \<Rightarrow> bytes \<Rightarrow> 'w client \<Rightarrow> nat typed \<times> 'w client" where
  "client_copy_in net copy_sql data c =
     (case copy_in net copy_sql data (snd c) of (r, sys') \<Rightarrow> (in_sql copy_sql (wired r), (fst c, sys')))"

definition client_copy_out ::
  "'w transport \<Rightarrow> rstring \<Rightarrow> 'w client \<Rightarrow> bytes typed \<times> 'w client" where
  "client_copy_out net copy_sql c =
     (case copy_out net copy_sql (snd c) of (r, sys') \<Rightarrow> (in_sql copy_sql (wired r), (fst c, sys')))"

section \<open>Named parameters\<close>

definition resolve_named_params :: "rstring list \<Rightarrow> (rstring \<times> 'p) list \<Rightarrow> 'p list typed" where
  "resolve_named_params names ps =
     traverse (\<lambda>name. case find (\<lambda>(n, _). n = name) ps of Some (_, p) \<Rightarrow> Ok p | None \<Rightarrow> Err (MissingParam name)) names"

definition named_call ::
  "unicode \<Rightarrow> (rstring \<Rightarrow> 'p list \<Rightarrow> 'c \<Rightarrow> 'a typed \<times> 'c) \<Rightarrow> rstring \<Rightarrow> (rstring \<times> 'p) list \<Rightarrow> 'c
     \<Rightarrow> 'a typed \<times> 'c" where
  "named_call u call sql ps c =
     (let (rewritten, names) = rewrite u (str_chars sql)
      in case resolve_named_params (map chars_str names) ps of
           Ok ordered \<Rightarrow> call (chars_str rewritten) ordered c
         | Err e \<Rightarrow> (Err e, c)
         | Panic \<Rightarrow> (Panic, c))"

definition query_named ::
  "'w transport \<Rightarrow> unicode \<Rightarrow> call_env \<Rightarrow> rstring \<Rightarrow> (rstring \<times> sql_param) list \<Rightarrow> 'w client
     \<Rightarrow> row list typed \<times> 'w client" where
  "query_named net u env = named_call u (client_query net env)"

definition execute_named ::
  "'w transport \<Rightarrow> unicode \<Rightarrow> call_env \<Rightarrow> rstring \<Rightarrow> (rstring \<times> sql_param) list \<Rightarrow> 'w client
     \<Rightarrow> nat typed \<times> 'w client" where
  "execute_named net u env = named_call u (client_execute net env)"

section \<open>Streams\<close>

record row_stream =
  rst_rows :: "(wire_error, raw_row) res list"
  rst_schema :: row_schema
  rst_has_desc :: bool

definition query_stream ::
  "'w transport \<Rightarrow> rstring \<Rightarrow> sql_param list \<Rightarrow> 'w client \<Rightarrow> row_stream typed \<times> 'w client" where
  "query_stream net sql ps c =
     (let ((stmt, needs_parse), sys) = sys_lookup sql (snd c);
          (r, sys) = submit_stream net (encode_messages (statement_messages True sql ps stmt needs_parse) []) sys;
          sys = (if is_ok r \<and> needs_parse then sys_publish sql stmt sys else sys)
      in (and_then (wired r) (\<lambda>(fs, rows).
            and_then (build_row_schema fs None) (\<lambda>schema.
              Ok \<lparr>rst_rows = rows, rst_schema = schema, rst_has_desc = (fs \<noteq> [])\<rparr>)), (fst c, sys)))"

text \<open>\<open>poll_next\<close> on what the channel holds; \<open>None\<close> is the end of the stream.\<close>

definition stream_next :: "row_stream \<Rightarrow> row typed option \<times> row_stream" where
  "stream_next st =
     (case rst_rows st of
        [] \<Rightarrow> (None, st)
      | Ok d # rest \<Rightarrow>
          (case row_len d :: nat typed of
             Ok n \<Rightarrow>
               let st = st\<lparr>rst_rows := rest\<rparr>;
                   st = (if \<not> rst_has_desc st \<and> length (rs_formats (rst_schema st)) \<noteq> n
                         then st\<lparr>rst_schema := schema_empty\<lparr>rs_formats := replicate n 1\<rparr>, rst_has_desc := True\<rparr>
                         else st)
               in (Some (Ok \<lparr>r_schema = rst_schema st, r_data = d\<rparr>), st)
           | _ \<Rightarrow> (Some Panic, st))
      | Err e # rest \<Rightarrow> (Some (Err (WireError e)), st\<lparr>rst_rows := rest\<rparr>)
      | Panic # rest \<Rightarrow> (Some Panic, st\<lparr>rst_rows := rest\<rparr>))"

section \<open>Batches\<close>

record batch =
  bt_buffers :: "bytes list"
  bt_pending_cache :: "(rstring \<times> bytes) list"

datatype pipeline_result = RowsResult "row list" | ExecuteResult nat

definition pipeline :: batch where "pipeline = \<lparr>bt_buffers = [], bt_pending_cache = []\<rparr>"

text \<open>\<open>Pipeline::query\<close> and \<open>Pipeline::execute\<close> are the same.\<close>

definition encode_query :: "rstring \<Rightarrow> sql_param list \<Rightarrow> batch \<times> 'w client \<Rightarrow> batch \<times> 'w client" where
  "encode_query sql ps p =
     (let (b, (m, sys)) = p; ((stmt, needs_parse), sys) = sys_lookup sql sys
      in (b\<lparr>bt_buffers := bt_buffers b @ [encode_messages (statement_messages True sql ps stmt needs_parse) []],
            bt_pending_cache := bt_pending_cache b @ (if needs_parse then [(sql, stmt)] else [])\<rparr>, (m, sys)))"

fun pipeline_result_of :: "pipeline_response \<Rightarrow> pipeline_result typed" where
  "pipeline_result_of (RowsResponse fs rows tag) =
     (if rows = [] \<and> tag \<noteq> [] then Ok (ExecuteResult (parse_row_count tag))
      else and_then (typed_rows (RowsResponse fs rows tag)) (\<lambda>rs. Ok (RowsResult rs)))"
| "pipeline_result_of Done = Ok (ExecuteResult 0)"

definition pipeline_run ::
  "'w transport \<Rightarrow> batch \<Rightarrow> 'w client \<Rightarrow> pipeline_result list typed \<times> 'w client" where
  "pipeline_run net b c =
     (if bt_buffers b = [] then (Ok [], c)
      else case submit_batch net (map (\<lambda>buf. (buf, Rows)) (bt_buffers b)) (snd c) of
             (Ok responses, sys) \<Rightarrow>
               let sys = fold (\<lambda>(sql, name). sys_publish sql name) (bt_pending_cache b) sys
               in (traverse (\<lambda>r. and_then (wired r) pipeline_result_of) responses, (fst c, sys))
           | (Err e, sys) \<Rightarrow> (Err (WireError e), (fst c, sys))
           | (Panic, sys) \<Rightarrow> (Panic, (fst c, sys)))"

section \<open>Transactions and locks\<close>

text \<open>A guard is its \<open>done\<close> flag; commit and rollback consume it with the flag set.\<close>

definition client_begin :: "'w transport \<Rightarrow> 'w client \<Rightarrow> bool typed \<times> 'w client" where
  "client_begin net c =
     (case simple_query net (lit ''BEGIN'') c of (r, c') \<Rightarrow> (and_then r (\<lambda>_. Ok False), c'))"

definition client_begin_with :: "'w transport \<Rightarrow> isolation_level \<Rightarrow> 'w client \<Rightarrow> bool typed \<times> 'w client" where
  "client_begin_with net level c =
     (case simple_query net (lit ''BEGIN ISOLATION LEVEL '' @ as_sql level) c of
        (r, c') \<Rightarrow> (and_then r (\<lambda>_. Ok False), c'))"

definition txn_drop :: "bool \<Rightarrow> 'w client \<Rightarrow> 'w client" where
  "txn_drop finished c =
     (case c of (m, s, w) \<Rightarrow>
        if \<not> finished \<and> is_alive s then
          case enqueue_rollback s of
            (True, s') \<Rightarrow> (m, s', w)
          | (False, s') \<Rightarrow> (m, mark_broken s', w)
        else c)"

definition txn_commit :: "'w transport \<Rightarrow> 'w client \<Rightarrow> unit typed \<times> 'w client" where
  "txn_commit net c =
     (case simple_query net (lit ''COMMIT'') c of (r, c') \<Rightarrow> (r, txn_drop True c'))"

definition txn_rollback :: "'w transport \<Rightarrow> 'w client \<Rightarrow> unit typed \<times> 'w client" where
  "txn_rollback net c =
     (case simple_query net (lit ''ROLLBACK'') c of (r, c') \<Rightarrow> (r, txn_drop True c'))"

definition int8_param :: "i64 \<Rightarrow> sql_param" where "int8_param key = param_of (as_u32 OidInt8) encode_i64 key"

definition first_bool :: "string \<Rightarrow> row list \<Rightarrow> bool typed" where
  "first_bool fn rows =
     (case rows of [] \<Rightarrow> Err (Decode 0 (NoRows fn)) | row # _ \<Rightarrow> row_get (decode_bool, decode_text_bool) row 0)"

definition advisory_lock :: "'w transport \<Rightarrow> i64 \<Rightarrow> 'w client \<Rightarrow> unit typed \<times> 'w client" where
  "advisory_lock net key =
     simple_query net (lit ''SELECT pg_advisory_lock('' @ decimal_int (sint key) @ lit '')'')"

definition try_advisory_lock :: "'w transport \<Rightarrow> call_env \<Rightarrow> i64 \<Rightarrow> 'w client \<Rightarrow> bool typed \<times> 'w client" where
  "try_advisory_lock net env key c =
     (case client_query net env (lit ''SELECT pg_try_advisory_lock($1::int8) AS acquired'') [int8_param key] c of
        (r, c') \<Rightarrow> (and_then r (first_bool ''pg_try_advisory_lock''), c'))"

definition advisory_unlock :: "'w transport \<Rightarrow> call_env \<Rightarrow> i64 \<Rightarrow> 'w client \<Rightarrow> bool typed \<times> 'w client" where
  "advisory_unlock net env key c =
     (case client_query net env (lit ''SELECT pg_advisory_unlock($1::int8) AS released'') [int8_param key] c of
        (r, c') \<Rightarrow> (and_then r (first_bool ''pg_advisory_unlock''), c'))"

definition advisory_xact_lock :: "'w transport \<Rightarrow> call_env \<Rightarrow> i64 \<Rightarrow> 'w client \<Rightarrow> unit typed \<times> 'w client" where
  "advisory_xact_lock net env key c =
     (case client_query net env (lit ''SELECT pg_advisory_xact_lock($1::int8)'') [int8_param key] c of
        (r, c') \<Rightarrow> (and_then r (\<lambda>_. Ok ()), c'))"

definition try_advisory_xact_lock :: "'w transport \<Rightarrow> call_env \<Rightarrow> i64 \<Rightarrow> 'w client \<Rightarrow> bool typed \<times> 'w client" where
  "try_advisory_xact_lock net env key c =
     (case client_query net env (lit ''SELECT pg_try_advisory_xact_lock($1::int8) AS acquired'') [int8_param key] c of
        (r, c') \<Rightarrow> (and_then r (first_bool ''pg_try_advisory_xact_lock''), c'))"

text \<open>Custom types.\<close>

definition text_param :: "rstring \<Rightarrow> sql_param" where "text_param s = param_of (as_u32 OidText) encode_str s"

definition get_i32 :: "row \<Rightarrow> nat \<Rightarrow> i32 typed" where "get_i32 = row_get (decode_i32, decode_text_i32)"

definition lookup_type_oid ::
  "'w transport \<Rightarrow> call_env \<Rightarrow> rstring \<Rightarrow> 'w client \<Rightarrow> u32 option typed \<times> 'w client" where
  "lookup_type_oid net env type_name c =
     (case client_query net env (lit ''SELECT oid::int4 FROM pg_type WHERE typname = $1'') [text_param type_name] c of
        (r, c') \<Rightarrow>
          (and_then r (\<lambda>rows. case rows of
              [] \<Rightarrow> Ok None
            | row # _ \<Rightarrow> and_then (get_i32 row 0) (\<lambda>oid. Ok (Some oid))), c'))"

definition lookup_type_oids ::
  "'w transport \<Rightarrow> call_env \<Rightarrow> rstring \<Rightarrow> 'w client \<Rightarrow> (u32 \<times> u32) typed \<times> 'w client" where
  "lookup_type_oids net env type_name c =
     (case client_query net env
         (lit ''SELECT t.oid::int4, COALESCE(t.typarray, 0)::int4 FROM pg_type t WHERE t.typname = $1'')
         [text_param type_name] c of
        (r, c') \<Rightarrow>
          (and_then r (\<lambda>rows. case rows of
              [] \<Rightarrow> Err (Config (lit ''type not found: '' @ type_name))
            | row # _ \<Rightarrow>
                and_then (get_i32 row 0) (\<lambda>oid. and_then (get_i32 row 1) (\<lambda>array_oid. Ok (oid, array_oid)))), c'))"

section \<open>A server with typed statements\<close>

text \<open>The specification of the other side, as in \<open>Async_Client\<close>, with what the typed client asks for: a
  statement keeps the parameter types of its \<open>Parse\<close>, a portal is described by its columns, and \<open>exec\<close> runs
  the SQL under these types.\<close>

type_synonym prepared = "rstring \<rightharpoonup> (rstring \<times> oid list)"
type_synonym sql_exec = "rstring \<Rightarrow> oid list \<Rightarrow> bytes option list \<Rightarrow> pg_error + (raw_row list \<times> rstring)"

fun serve_typed ::
  "(rstring \<Rightarrow> field_description list) \<Rightarrow> sql_exec \<Rightarrow> frontend_msg list \<Rightarrow> prepared
     \<Rightarrow> (rstring \<times> oid list \<times> bytes option list) option \<Rightarrow> backend_msg list \<times> prepared" where
  "serve_typed cols exec (Parse n q oids # ms) sv bound =
     (if n \<noteq> [] \<and> sv n \<noteq> None then ([ErrorResponse (server_error ''42P05'')], sv)
      else case serve_typed cols exec ms (sv(n \<mapsto> (q, oids))) bound of (out, sv') \<Rightarrow> (ParseComplete # out, sv'))"
| "serve_typed cols exec (Bind p n pf ps rf # ms) sv bound =
     (case sv n of
        None \<Rightarrow> ([ErrorResponse (server_error ''26000'')], sv)
      | Some (q, oids) \<Rightarrow>
          (case serve_typed cols exec ms sv (Some (q, oids, ps)) of (out, sv') \<Rightarrow> (BindComplete # out, sv')))"
| "serve_typed cols exec (Describe k p # ms) sv bound =
     (case bound of
        None \<Rightarrow> ([ErrorResponse (server_error ''34000'')], sv)
      | Some (q, oids, ps) \<Rightarrow>
          (case serve_typed cols exec ms sv bound of
             (out, sv') \<Rightarrow> ((if cols q = [] then NoData else RowDescription (cols q)) # out, sv')))"
| "serve_typed cols exec (Execute p k # ms) sv bound =
     (case bound of
        None \<Rightarrow> ([ErrorResponse (server_error ''34000'')], sv)
      | Some (q, oids, ps) \<Rightarrow>
          (case exec q oids ps of
             Inl e \<Rightarrow> ([ErrorResponse e], sv)
           | Inr (rows, tag) \<Rightarrow>
               (case serve_typed cols exec ms sv bound of
                  (out, sv') \<Rightarrow> (map DataRow rows @ CommandComplete tag # out, sv'))))"
| "serve_typed cols exec (_ # ms) sv bound = serve_typed cols exec ms sv bound"
| "serve_typed cols exec [] sv bound = ([], sv)"

fun typed_net :: "(rstring \<Rightarrow> field_description list) \<Rightarrow> sql_exec \<Rightarrow> prepared transport" where
  "typed_net cols exec [] sys = ([], sys)"
| "typed_net cols exec ((messages, c) # items) (s, sv) =
     (case rd_all (length messages) messages of
        None \<Rightarrow> ([], (s, sv))
      | Some ms \<Rightarrow>
          (case serve_typed cols exec ms sv None of
             (reply, sv') \<Rightarrow>
               (case typed_net cols exec items (s, sv') of (rs, sys') \<Rightarrow> (response_of c reply # rs, sys'))))"

text \<open>A statement whose messages fit the protocol.\<close>

definition statement_fits :: "rstring \<Rightarrow> sql_param list \<Rightarrow> bool" where
  "statement_fits sql ps \<longleftrightarrow> query_fits sql (map sp_value ps) (map sp_oid ps)"

lemma statement_sendable:
  assumes "statement_fits sql ps"
  shows "\<forall>m \<in> set (statement_messages describe sql ps (stmt_name k) np). sendable False m \<and> fits m"
  using assms stmt_name_fits [of k]
  by (auto simp: statement_messages_def statement_fits_def query_fits_def fits_def put_cstr_def
      length_concat_params length_concat_const [where f = be32 and k = 4] no_nul_def length_formats
      simp del: map_map)

lemma submit_typed:
  assumes "statement_fits sql ps"
  shows "submit_statement (typed_net cols exec) d sql ps (stmt_name k) np (s, sv) =
    (case serve_typed cols exec (statement_messages d sql ps (stmt_name k) np) sv None of
       (reply, sv') \<Rightarrow> (response_of Rows reply, (s, sv')))"
  using rd_all_encode [OF statement_sendable [OF assms, of d k np]]
  by (simp add: submit_statement_def submit_def split: prod.splits)

section \<open>Running with the cache\<close>

context statement_cache
begin

text \<open>The counterpart of \<open>exec_with_heals\<close> for the typed client, whose retry runs the whole call again: either
  the first run succeeds, or it is a stale error and the run after the invalidation succeeds.\<close>

lemma cached_run_heals:
  assumes stale: "\<And>n. known s q = Some n \<Longrightarrow> forgotten (world s) n \<Longrightarrow>
      \<exists>e s'. run n False s = (Err (Pg e), s') \<and> is_stale_statement_error e \<and> fresh s' = fresh s
        \<and> world s' = world s"
    and valid: "\<And>n. known s q = Some n \<Longrightarrow> \<not> forgotten (world s) n \<Longrightarrow>
      \<exists>s'. run n False s = (Ok r, s') \<and> known s' = known s \<and> defined (world s') n"
    and parsed: "\<And>s1. world s1 = world s \<Longrightarrow>
      \<exists>s'. run (fresh s) True s1 = (Ok r, s') \<and> known s' = known s1 \<and> defined (world s') (fresh s)"
    and utf8: "utf8_valid (fresh s)"
  shows "(\<exists>s' n. cached_run look publish run q s = (Ok r, s') \<and> known s' q = Some n \<and> defined (world s') n)
    \<or> (\<exists>e s1. cached_run look publish run q s = (Err (Pg e), s1) \<and> is_stale_statement_error e
        \<and> (\<exists>s' n. cached_run look publish run q (invalidate q s1) = (Ok r, s') \<and> known s' q = Some n
              \<and> defined (world s') n))"
proof -
  have miss: "\<exists>s' n. cached_run look publish run q s0 = (Ok r, s') \<and> known s' q = Some n \<and> defined (world s') n"
    if none: "known s0 q = None" "fresh s0 = fresh s" "world s0 = world s" for s0
  proof -
    obtain s1 where s1: "look q s0 = ((fresh s, True), s1)" "known s1 = known s0" "world s1 = world s"
      using look_miss [OF none(1)] none by auto
    obtain s2 where s2: "run (fresh s) True s1 = (Ok r, s2)" "known s2 = known s1" "defined (world s2) (fresh s)"
      using parsed [OF s1(3)] by blast
    then show ?thesis
      using s1 none published [of s2 q "fresh s"] utf8
      by (intro exI [of _ "publish q (fresh s) s2"] exI [of _ "fresh s"]) (simp add: cached_run_def publish_world)
  qed
  show ?thesis
  proof (cases "known s q")
    case None
    then show ?thesis using miss by blast
  next
    case (Some n)
    show ?thesis
    proof (cases "forgotten (world s) n")
      case False
      then obtain s' where "run n False s = (Ok r, s')" "known s' = known s" "defined (world s') n"
        using valid [OF Some] by blast
      then have "cached_run look publish run q s = (Ok r, s') \<and> known s' q = Some n \<and> defined (world s') n"
        using Some by (simp add: cached_run_def look_hit)
      then show ?thesis by blast
    next
      case True
      then obtain e s1 where s1: "run n False s = (Err (Pg e), s1)" "is_stale_statement_error e"
        "fresh s1 = fresh s" "world s1 = world s"
        using stale [OF Some] by blast
      then have "cached_run look publish run q s = (Err (Pg e), s1)"
        using Some by (simp add: cached_run_def look_hit)
      moreover have "\<exists>s' n. cached_run look publish run q (invalidate q s1) = (Ok r, s') \<and> known s' q = Some n
          \<and> defined (world s') n"
        using s1 by (intro miss) (simp_all add: invalidated invalidate_fresh invalidate_world)
      ultimately show ?thesis using s1(2) by blast
    qed
  qed
qed

end

section \<open>What a query gives\<close>

definition schema_of :: "field_description list \<Rightarrow> row_schema" where
  "schema_of fs = \<lparr>rs_columns = map fd_name fs, rs_type_oids = map fd_type_oid fs,
     rs_formats = map (\<lambda>f. fmt_i16 (fd_format f)) fs\<rparr>"

lemma reply_collected:
  "response_of Rows (BindComplete # RowDescription fs # map DataRow rows @ [CommandComplete t])
     = Ok (RowsResponse fs rows t)"
  "response_of Rows (ParseComplete # BindComplete # RowDescription fs # map DataRow rows @ [CommandComplete t])
     = Ok (RowsResponse fs rows t)"
proof -
  have "first_error (map DataRow rows @ [CommandComplete t]) = None"
    "last_fields f (map DataRow rows @ [CommandComplete t]) = f"
    "row_list (map DataRow rows @ [CommandComplete t]) = rows"
    "last_tag u (map DataRow rows @ [CommandComplete t]) = t" for u f
    by (induction rows arbitrary: u) simp_all
  then show "response_of Rows (BindComplete # RowDescription fs # map DataRow rows @ [CommandComplete t])
     = Ok (RowsResponse fs rows t)"
    "response_of Rows (ParseComplete # BindComplete # RowDescription fs # map DataRow rows @ [CommandComplete t])
     = Ok (RowsResponse fs rows t)"
    by (simp_all add: or_first_error_def)
qed

lemma statement_cache_sound':
  assumes "cache_reach (s, sv, held)"
  shows "(\<forall>sql n. cached s sql = Some n \<longrightarrow> sv n = None \<or> sv n = Some sql) \<and> sv (stmt_name (cn_counter s)) = None"
proof -
  have inv: "cache_inv (s, sv, held)" by (rule cache_reach_inv [OF assms])
  then have "\<not> allocated s (stmt_name (cn_counter s))" by (simp add: allocated_def)
  moreover have "owns s held n sql" if "cached s sql = Some n" for sql n
    using that inv cached_iff [of s sql n] by (auto simp: cache_inv_def owns_def)
  ultimately show ?thesis
    using inv unfolding cache_inv_def prod.case by (metis not_None_eq)
qed

definition healthy_reply ::
  "rstring \<Rightarrow> oid list \<Rightarrow> pipeline_response \<Rightarrow> (wire_error, pipeline_response) res \<times> async_conn \<times> prepared \<Rightarrow> bool" where
  "healthy_reply sql oids reply x \<longleftrightarrow>
     (\<exists>sys' n. x = (Ok reply, sys') \<and> cached (fst sys') sql = Some n \<and> (snd sys') n = Some (sql, oids))"

text \<open>The first attempt gives the reply, or fails as stale and the second one gives it.\<close>

lemma statement_heals:
  assumes "cache_reach (s, \<lambda>n. map_option fst (sv n), held)"
    and types: "\<And>n q oids. cached s sql = Some n \<Longrightarrow> sv n = Some (q, oids) \<Longrightarrow> oids = map sp_oid ps"
    and fit: "statement_fits sql ps" and cols: "cols sql \<noteq> []"
    and exec: "exec sql (map sp_oid ps) (map sp_value ps) = Inr (rows, tag)"
  defines "run \<equiv> submit_statement (typed_net cols exec) True sql ps"
    and "reply \<equiv> RowsResponse (cols sql) rows tag"
  shows "healthy_reply sql (map sp_oid ps) reply (cached_run sys_lookup sys_publish run sql (s, sv))
    \<or> (\<exists>e s1. cached_run sys_lookup sys_publish run sql (s, sv) = (Err (Pg e), s1) \<and> is_stale_statement_error e
      \<and> healthy_reply sql (map sp_oid ps) reply (cached_run sys_lookup sys_publish run sql (sys_invalidate sql s1)))"
proof -
  let ?oids = "map sp_oid ps"
  let ?run = "submit_statement (typed_net cols exec) True sql ps"
  let ?reply = "RowsResponse (cols sql) rows tag"
  have inv: "cache_inv (s, \<lambda>n. map_option fst (sv n), held)" by (rule cache_reach_inv [OF assms(1)])
  have sound: "sv n = None \<or> sv n = Some (sql, ?oids)" "\<exists>k. n = stmt_name k" if "cached s sql = Some n" for n
  proof -
    have o: "owns s held n sql"
      using that inv cached_iff [of s sql n] by (auto simp: cache_inv_def owns_def)
    then show "\<exists>k. n = stmt_name k" using inv by (auto simp: cache_inv_def allocated_def)
    from statement_cache_sound' [OF assms(1)] that have "map_option fst (sv n) = None \<or> map_option fst (sv n) = Some sql"
      by blast
    then show "sv n = None \<or> sv n = Some (sql, ?oids)"
      using types [OF that] by fastforce
  qed
  have unused: "sv (stmt_name (cn_counter s)) = None"
    using statement_cache_sound' [OF assms(1)] by blast
  have nonempty: "stmt_name k \<noteq> []" for k
    using stmt_name_fits by blast
  show ?thesis
    unfolding run_def reply_def healthy_reply_def
  proof (rule conn_cache.cached_run_heals [where forgotten = "\<lambda>sv n. sv n = None"
        and defined = "\<lambda>sv n. sv n = Some (sql, ?oids)"])
    fix n
    assume "cached (fst (s, sv)) sql = Some n" and gone: "snd (s, sv) n = None"
    then obtain k where "n = stmt_name k" using sound(2) by auto
    then show "\<exists>e s'. ?run n False (s, sv) = (Err (Pg e), s') \<and> is_stale_statement_error e
        \<and> stmt_name (cn_counter (fst s')) = stmt_name (cn_counter (fst (s, sv))) \<and> snd s' = snd (s, sv)"
      using gone is_stale_server_error
      by (simp add: submit_typed [OF fit] statement_messages_def or_first_error_def)
  next
    fix n
    assume c: "cached (fst (s, sv)) sql = Some n" "snd (s, sv) n \<noteq> None"
    then obtain k where "n = stmt_name k" "sv n = Some (sql, ?oids)" using sound by force
    then show "\<exists>s'. ?run n False (s, sv) = (Ok ?reply, s') \<and> cached (fst s') = cached (fst (s, sv))
        \<and> snd s' n = Some (sql, ?oids)"
      using exec cols
      by (simp add: submit_typed [OF fit] statement_messages_def reply_collected del: response_of.simps)
  next
    fix sys :: "async_conn \<times> prepared"
    assume "snd sys = snd (s, sv)"
    then obtain s1 where "sys = (s1, sv)" by (cases sys) simp
    then show "\<exists>s'. ?run (stmt_name (cn_counter (fst (s, sv)))) True sys = (Ok ?reply, s')
        \<and> cached (fst s') = cached (fst sys) \<and> snd s' (stmt_name (cn_counter (fst (s, sv)))) = Some (sql, ?oids)"
      using exec cols unused nonempty
      by (simp add: submit_typed [OF fit] statement_messages_def reply_collected del: response_of.simps)
  qed simp
qed

lemma query_heals:
  assumes "cache_reach (s, \<lambda>n. map_option fst (sv n), held)"
    and "\<And>n q oids. cached s sql = Some n \<Longrightarrow> sv n = Some (q, oids) \<Longrightarrow> oids = map sp_oid ps"
    and "statement_fits sql ps" and cols: "cols sql \<noteq> []"
    and "exec sql (map sp_oid ps) (map sp_value ps) = Inr (rows, tag)"
  shows "\<exists>s' sv' n. with_retry sql (query_inner_on (typed_net cols exec) sql ps) (s, sv)
      = (Ok (map (\<lambda>d. \<lparr>r_schema = schema_of (cols sql), r_data = d\<rparr>) rows), (s', sv'))
    \<and> cached s' sql = Some n \<and> sv' n = Some (sql, map sp_oid ps)"
proof -
  let ?oids = "map sp_oid ps"
  let ?run = "submit_statement (typed_net cols exec) True sql ps"
  let ?reply = "RowsResponse (cols sql) rows tag"
  have "healthy_reply sql ?oids ?reply (cached_run sys_lookup sys_publish ?run sql (s, sv))
    \<or> (\<exists>e s1. cached_run sys_lookup sys_publish ?run sql (s, sv) = (Err (Pg e), s1) \<and> is_stale_statement_error e
      \<and> healthy_reply sql ?oids ?reply (cached_run sys_lookup sys_publish ?run sql (sys_invalidate sql s1)))"
    by (rule statement_heals [where cols = cols and exec = exec and held = held and rows = rows and tag = tag])
      (use assms in blast)+
  then show ?thesis
    unfolding healthy_reply_def
  proof (elim disjE exE conjE)
    fix sys' n
    assume r: "cached_run sys_lookup sys_publish ?run sql (s, sv) = (Ok ?reply, sys')"
      "cached (fst sys') sql = Some n" "(snd sys') n = Some (sql, ?oids)"
    then show ?thesis
      by (intro exI [of _ "fst sys'"] exI [of _ "snd sys'"] exI [of _ n])
        (simp add: with_retry_def query_inner_on_def run_statement_def wired_def is_stale_def build_row_schema_def
          schema_of_def cols)
  next
    fix e s1 sys' n
    assume r: "cached_run sys_lookup sys_publish ?run sql (s, sv) = (Err (Pg e), s1)" "is_stale_statement_error e"
      "cached_run sys_lookup sys_publish ?run sql (sys_invalidate sql s1) = (Ok ?reply, sys')"
      "cached (fst sys') sql = Some n" "(snd sys') n = Some (sql, ?oids)"
    then show ?thesis
      by (intro exI [of _ "fst sys'"] exI [of _ "snd sys'"] exI [of _ n])
        (simp add: with_retry_def query_inner_on_def run_statement_def wired_def is_stale_def build_row_schema_def
          schema_of_def cols)
  qed
qed


definition sample_cols :: "field_description list" where
  "sample_cols = [\<lparr>fd_name = lit ''n'', fd_table_oid = 0, fd_column_id = 0, fd_type_oid = 23, fd_type_size = 4,
     fd_type_modifier = - 1, fd_format = Binary\<rparr>]"


section \<open>What callers see of errors\<close>

text \<open>Every error of \<open>query\<close> and \<open>execute\<close> is wrapped with its SQL.\<close>

lemma finish_call_error:
  "fst (finish_call env f g sql m p) = Err e \<Longrightarrow> \<exists>e' t. e = QueryFailed e' t"
  by (auto simp: finish_call_def in_sql_def with_sql_def log_sql_def truncate_sql_def str_slice_def
      split: prod.splits res.splits if_splits)

lemma client_query_error: "fst (client_query net env sql ps c) = Err e \<Longrightarrow> \<exists>e' t. e = QueryFailed e' t"
  unfolding client_query_def by (rule finish_call_error)

lemma client_execute_error: "fst (client_execute net env sql ps c) = Err e \<Longrightarrow> \<exists>e' t. e = QueryFailed e' t"
  unfolding client_execute_def by (rule finish_call_error)

text \<open>A simple query answers with the collector that skips errors: \<open>BEGIN\<close>, \<open>COMMIT\<close> and any statement sent
  this way succeed whatever the server replies.\<close>

lemma simple_query_hides_errors:
  assumes "net [(encode_message (Query sql) [], Drain)] (snd c) = ([response_of Drain reply], sys')"
  shows "simple_query net sql c = (Ok (), (fst c, sys'))"
  using assms by (simp add: simple_query_def simple_query_on_conn_def submit_def wired_def)

lemma commit_hides_refusal:
  assumes "net [(encode_message (Query (lit ''COMMIT'')) [], Drain)] (snd c)
    = ([response_of Drain [ErrorResponse (server_error ''23503'')]], sys')"
  shows "fst (txn_commit net c) = Ok ()"
  using simple_query_hides_errors [of net "lit ''COMMIT''" c "[ErrorResponse (server_error ''23503'')]" sys'] assms
  by (simp add: txn_commit_def)

text \<open>A batch publishes its statements before it looks at the answers, so a statement whose \<open>Parse\<close> was
  refused is cached too.\<close>

lemma pipeline_publishes_refused:
  assumes "net [(buf, Rows)] (s, w) = ([Err (Pg e)], (s', w'))" and "cached s' sql = None" and "utf8_valid name"
  shows "pipeline_run net \<lparr>bt_buffers = [buf], bt_pending_cache = [(sql, name)]\<rparr> (m, s, w)
      = (Err (WireError (Pg e)), (m, cache_statement sql name s', w'))
    \<and> cached (cache_statement sql name s') sql = Some name"
  using assms by (simp add: pipeline_run_def submit_batch_def wired_def sys_publish_def cached_publish)

text \<open>The cache key is the SQL alone: a call with other parameter types runs under the types of the first.\<close>

lemma statement_keeps_first_types:
  assumes "cached s sql = Some n" and "sv n = Some (sql, oids)" and "n = stmt_name k" and "statement_fits sql ps"
    and "cols sql \<noteq> []" and "exec sql oids (map sp_value ps) = Inr (rows, tag)"
  shows "fst (query_inner_on (typed_net cols exec) sql ps (s, sv))
    = Ok (map (\<lambda>d. \<lparr>r_schema = schema_of (cols sql), r_data = d\<rparr>) rows)"
proof -
  have "sys_lookup sql (s, sv) = ((n, False), (s, sv))"
    using assms(1) by (simp add: sys_lookup_def lookup_or_alloc_def)
  then show ?thesis
    using assms(2-6)
    by (simp add: query_inner_on_def run_statement_def cached_run_def submit_typed [OF assms(4)]
        statement_messages_def reply_collected wired_def build_row_schema_def schema_of_def del: response_of.simps)
qed

text \<open>A statement the server refuses with code 0A000 on its own account is run twice; inside a transaction the
  second answer, that the transaction is aborted, replaces the first.\<close>

lemma refusal_masked_by_retry:
  assumes "\<And>sys. inner sys = (if sys = sys0 then (Err (WireError (Pg (server_error ''0A000''))), sys1)
      else (Err (WireError (Pg (server_error ''25P02''))), sys2))"
    and "sys_invalidate sql sys1 \<noteq> sys0"
  shows "with_retry sql inner sys0 = (Err (WireError (Pg (server_error ''25P02''))), sys2)"
  using assms by (simp add: with_retry_def is_stale_def is_stale_statement_error_def server_error_def)

section \<open>Dropped transactions\<close>

text \<open>Dropping an unfinished transaction on a live connection queues the \<open>ROLLBACK\<close> behind everything queued
  so far, and so before anything queued later, or marks the connection broken; a finished one changes
  nothing.\<close>

lemma txn_drop_rolls_back:
  "txn_drop True c = c
    \<and> (is_alive s \<longrightarrow> (case txn_drop False (m, s, w) of (m', s', w') \<Rightarrow>
         m' = m \<and> w' = w \<and> (is_broken s' \<and> cn_queue s' = cn_queue s
           \<or> (\<exists>rq. cn_queue s' = cn_queue s @ [rq] \<and> rq_messages rq = encode_message (Query (lit ''ROLLBACK'')) []
               \<and> rq_collector rq = Drain))))"
  by (simp add: txn_drop_def enqueue_rollback_def try_enqueue_rollback_def try_send_def enqueue_def mark_broken_def
      is_broken_def split: prod.splits)

section \<open>Calls with named parameters\<close>

lemma find_map_of: "find (\<lambda>(n, _). n = name) ps = (case map_of ps name of None \<Rightarrow> None | Some p \<Rightarrow> Some (name, p))"
  by (induction ps) (auto split: option.splits)

lemma resolve_named_params_eq:
  "resolve_named_params names ps =
    (case find (\<lambda>n. map_of ps n = None) names of
       Some n \<Rightarrow> Err (MissingParam n)
     | None \<Rightarrow> Ok (map (\<lambda>n. the (map_of ps n)) names))"
  unfolding resolve_named_params_def find_map_of
  by (induction names) (auto split: option.splits)

lemma find_mapped: "find P (map f xs) = map_option f (find (\<lambda>x. P (f x)) xs)"
  by (induction xs) auto

lemma named_call_tokens:
  assumes "lexed u ts" and "list_all scalar (sql_text ts)"
  shows "named_call u call (chars_str (sql_text ts)) ps c =
    (case find (\<lambda>n. map_of ps (chars_str n) = None) (first_uses ts) of
       Some n \<Rightarrow> (Err (MissingParam (chars_str n)), c)
     | None \<Rightarrow> call (chars_str (concat (map (positional (first_uses ts)) ts)))
         (map (\<lambda>n. the (map_of ps (chars_str n))) (first_uses ts)) c)"
proof -
  have "rewrite u (str_chars (chars_str (sql_text ts)))
      = (concat (map (positional (first_uses ts)) ts), first_uses ts)"
    unfolding str_chars_bytes [OF assms(2)] using rewrite_loop_lexed [OF assms(1), of "[]" Map.empty]
    by (simp add: rewrite_def all_names_def indexed_def)
  then show ?thesis
    by (cases "find (\<lambda>n. map_of ps (chars_str n) = None) (first_uses ts)")
      (simp_all add: named_call_def resolve_named_params_eq find_mapped comp_def)
qed

text \<open>C16: a named query or statement on SQL that is a sequence of tokens runs the positional SQL with the
  caller's values in the order of the names' first use; when a name has no value the call fails with that
  name, and nothing is sent.\<close>

theorem named_calls_positional:
  assumes "lexed u ts" and "list_all scalar (sql_text ts)"
  shows "query_named net u env (chars_str (sql_text ts)) ps c =
      (case find (\<lambda>n. map_of ps (chars_str n) = None) (first_uses ts) of
         Some n \<Rightarrow> (Err (MissingParam (chars_str n)), c)
       | None \<Rightarrow> client_query net env (chars_str (concat (map (positional (first_uses ts)) ts)))
           (map (\<lambda>n. the (map_of ps (chars_str n))) (first_uses ts)) c)
    \<and> execute_named net u env (chars_str (sql_text ts)) ps c =
      (case find (\<lambda>n. map_of ps (chars_str n) = None) (first_uses ts) of
         Some n \<Rightarrow> (Err (MissingParam (chars_str n)), c)
       | None \<Rightarrow> client_execute net env (chars_str (concat (map (positional (first_uses ts)) ts)))
           (map (\<lambda>n. the (map_of ps (chars_str n))) (first_uses ts)) c)"
  unfolding query_named_def execute_named_def by (intro conjI named_call_tokens [OF assms])

theorem named_calls_positional_witness:
  "let net = typed_net (\<lambda>_. []) (\<lambda>_ _ _. Inr ([], lit ''SELECT 0''));
       env = \<lparr>ce_elapsed = 1, ce_log_ok = False, ce_log_err = True\<rparr>;
       c = (metrics_zero, async_new [], Map.empty)
   in query_named net ascii env (lit ''SELECT :b::t+:a'') [(lit ''a'', int8_param 1), (lit ''b'', int8_param 2)] c
     = client_query net env (lit ''SELECT $1::t+$2'') [int8_param 2, int8_param 1] c
   \<and> execute_named net ascii env (lit ''SELECT :b::t+:a'') [(lit ''b'', int8_param 2)] c
     = (Err (MissingParam (lit ''a'')), c)"
proof -
  let ?net = "typed_net (\<lambda>_. []) (\<lambda>_ _ _. Inr ([], lit ''SELECT 0''))"
  let ?env = "\<lparr>ce_elapsed = 1, ce_log_ok = False, ce_log_err = True\<rparr>"
  let ?c = "(metrics_zero, async_new [], Map.empty)"
  let ?ts = "map Plain (chr_text ''SELECT '') @ [Named (chr_text ''b''), CastOp, Plain 116, Plain 43, Named (chr_text ''a'')]"
  have "lexed ascii ?ts" "first_uses ?ts = [chr_text ''b'', chr_text ''a'']"
    by code_simp+
  moreover have "list_all scalar (sql_text ?ts)"
    by (simp add: sql_text_def chr_text_def scalar_def)
  moreover have sql: "concat (map (positional [chr_text ''b'', chr_text ''a'']) ?ts) = chr_text ''SELECT $1::t+$2''"
    "sql_text ?ts = chr_text ''SELECT :b::t+:a''"
    by code_simp+
  moreover have "chars_str (chr_text ''SELECT :b::t+:a'') = lit ''SELECT :b::t+:a''"
    "chars_str (chr_text ''SELECT $1::t+$2'') = lit ''SELECT $1::t+$2''"
    "chars_str (chr_text ''a'') = lit ''a''" "chars_str (chr_text ''b'') = lit ''b''"
    by (simp_all add: chars_str_def chr_text_def lit_def char_bytes_def)
  moreover have "lit ''a'' \<noteq> lit ''b''" by (simp add: lit_def)
  ultimately show ?thesis
    using named_calls_positional [of ascii ?ts ?net ?env "[(lit ''a'', int8_param 1), (lit ''b'', int8_param 2)]" ?c]
      named_calls_positional [of ascii ?ts ?net ?env "[(lit ''b'', int8_param 2)]" ?c] by (simp add: Let_def)
qed

end
