(* ===== verification/Recovery.thy ===== *)
theory Recovery
  imports Client
begin

text \<open>
  Acting on failures: the retry loop of \<open>resolute/src/retry.rs\<close> and the reconnecting client of
  \<open>resolute/src/reconnect.rs\<close>. Time is the argument \<open>sleep\<close>, what a pause does to the world; opening a
  connection is the argument \<open>dial\<close>. The theorems: the loop makes one attempt more than it may retry and
  returns the outcome of the first that does not fail transiently, at the stated pauses; and neither the
  loop nor the reconnecting client ever acts on an error of the typed client.
\<close>

section \<open>Retry\<close>

text \<open>A \<open>Duration\<close> is its nanoseconds; doubling past the largest panics.\<close>

definition DURATION_MAX :: nat where "DURATION_MAX = 2 ^ 64 * 10 ^ 9 - 1"

definition duration_double :: "nat \<Rightarrow> nat typed" where
  "duration_double d = (if 2 * d \<le> DURATION_MAX then Ok (2 * d) else Panic)"

record retry_policy =
  rp_max_retries :: u32
  rp_initial_backoff :: nat
  rp_max_backoff :: nat

definition retry_new :: "u32 \<Rightarrow> nat \<Rightarrow> retry_policy" where
  "retry_new n initial = \<lparr>rp_max_retries = n, rp_initial_backoff = initial, rp_max_backoff = 30 * 10 ^ 9\<rparr>"

definition with_max_backoff :: "nat \<Rightarrow> retry_policy \<Rightarrow> retry_policy" where
  "with_max_backoff m p = p\<lparr>rp_max_backoff := m\<rparr>"

definition retry_default :: retry_policy where
  "retry_default = \<lparr>rp_max_retries = 3, rp_initial_backoff = 100 * 10 ^ 6, rp_max_backoff = 30 * 10 ^ 9\<rparr>"

definition transient_codes :: "rstring list" where
  "transient_codes = map lit [''08000'', ''08001'', ''08003'', ''08004'', ''08006'', ''40001'', ''40P01'',
     ''57P01'', ''57P02'', ''57P03'']"

definition is_transient_pg_code :: "rstring \<Rightarrow> bool" where
  "is_transient_pg_code code \<longleftrightarrow> code \<in> set transient_codes"

fun is_transient :: "typed_error \<Rightarrow> bool" where
  "is_transient (WireError (Io _)) \<longleftrightarrow> True"
| "is_transient (WireError ConnectionClosed) \<longleftrightarrow> True"
| "is_transient (WireError (Pg e)) \<longleftrightarrow> is_transient_pg_code (pg_code e)"
| "is_transient _ \<longleftrightarrow> False"

text \<open>The loop over \<open>0..=max_retries\<close>: \<open>left\<close> iterations remain. \<open>last_err\<close> is used after the last one only.\<close>

fun retry_loop ::
  "(nat \<Rightarrow> 's \<Rightarrow> 's) \<Rightarrow> retry_policy \<Rightarrow> ('s \<Rightarrow> 'a typed \<times> 's) \<Rightarrow> nat \<Rightarrow> nat \<Rightarrow> nat \<Rightarrow> typed_error option \<Rightarrow> 's
     \<Rightarrow> 'a typed \<times> 's" where
  "retry_loop sleep p f 0 attempt backoff last_err s = ((case last_err of Some e \<Rightarrow> Err e | None \<Rightarrow> Panic), s)"
| "retry_loop sleep p f (Suc left) attempt backoff last_err s =
     (let s = (if attempt > 0 then sleep backoff s else s);
          next_backoff = (if attempt > 0
            then and_then (duration_double backoff) (\<lambda>d. Ok (min d (rp_max_backoff p))) else Ok backoff)
      in case next_backoff of
           Ok backoff \<Rightarrow>
             (case f s of
                (Err e, s') \<Rightarrow>
                  if is_transient e \<and> attempt < unat (rp_max_retries p)
                  then retry_loop sleep p f left (attempt + 1) backoff (Some e) s'
                  else (Err e, s')
              | (r, s') \<Rightarrow> (r, s'))
         | _ \<Rightarrow> (Panic, s))"

definition retry_execute ::
  "(nat \<Rightarrow> 's \<Rightarrow> 's) \<Rightarrow> retry_policy \<Rightarrow> ('s \<Rightarrow> 'a typed \<times> 's) \<Rightarrow> 's \<Rightarrow> 'a typed \<times> 's" where
  "retry_execute sleep p f s =
     retry_loop sleep p f (unat (rp_max_retries p) + 1) 0 (rp_initial_backoff p) None s"

section \<open>What the loop does\<close>

text \<open>The pause before attempt \<open>k\<close> (the first attempt has none) and the state in which it starts.\<close>

definition pause :: "retry_policy \<Rightarrow> nat \<Rightarrow> nat" where
  "pause p k = (if k = 1 then rp_initial_backoff p else min (2 ^ (k - 1) * rp_initial_backoff p) (rp_max_backoff p))"

fun before_attempt :: "(nat \<Rightarrow> 's \<Rightarrow> 's) \<Rightarrow> retry_policy \<Rightarrow> ('s \<Rightarrow> 'a typed \<times> 's) \<Rightarrow> 's \<Rightarrow> nat \<Rightarrow> 's" where
  "before_attempt sleep p f s 0 = s"
| "before_attempt sleep p f s (Suc k) = sleep (pause p (Suc k)) (snd (f (before_attempt sleep p f s k)))"

definition failed_transiently :: "'a typed \<Rightarrow> bool" where
  "failed_transiently r \<longleftrightarrow> (case r of Err e \<Rightarrow> is_transient e | _ \<Rightarrow> False)"

lemma pause_next: "0 < k \<Longrightarrow> pause p (Suc k) = min (2 * pause p k) (rp_max_backoff p)"
proof (cases "k = 1")
  case False
  moreover assume "0 < k"
  ultimately obtain j where "k = Suc (Suc j)" by (cases k; cases "k - 1") auto
  then show ?thesis by (simp add: pause_def min_def)
qed (simp add: pause_def)

lemma retry_loop_attempts:
  assumes fits: "2 * rp_initial_backoff p \<le> DURATION_MAX" "2 * rp_max_backoff p \<le> DURATION_MAX"
    and "attempt + left = unat (rp_max_retries p) + 1" and "0 < left"
    and "0 < attempt \<Longrightarrow> s1 = snd (f (before_attempt sleep p f s (attempt - 1))) \<and> backoff = pause p attempt"
    and "attempt = 0 \<Longrightarrow> s1 = s \<and> backoff = pause p 1"
  shows "\<exists>n. attempt \<le> n \<and> n \<le> unat (rp_max_retries p)
    \<and> (\<forall>k \<in> {attempt..<n}. failed_transiently (fst (f (before_attempt sleep p f s k))))
    \<and> (n = unat (rp_max_retries p) \<or> \<not> failed_transiently (fst (f (before_attempt sleep p f s n))))
    \<and> retry_loop sleep p f left attempt backoff last_err s1 = f (before_attempt sleep p f s n)"
  using assms(3-)
proof (induction left arbitrary: attempt backoff last_err s1)
  case (Suc left)
  let ?s = "if attempt > 0 then sleep backoff s1 else s1"
  have s: "?s = before_attempt sleep p f s attempt"
    using Suc.prems(3,4) by (cases attempt) auto
  have small: "2 * pause p k \<le> DURATION_MAX" for k
    using fits by (simp add: pause_def min_def)
  define b where "b = (if attempt > 0 then min (2 * backoff) (rp_max_backoff p) else backoff)"
  have b: "(if attempt > 0 then and_then (duration_double backoff) (\<lambda>d. Ok (min d (rp_max_backoff p))) else Ok backoff)
      = (Ok b :: nat typed)" "b = pause p (Suc attempt)"
    using Suc.prems(3,4) small [of attempt] pause_next [of attempt p] by (auto simp: b_def duration_double_def)
  obtain r s2 where f: "f (before_attempt sleep p f s attempt) = (r, s2)" by fastforce
  show ?case
  proof (cases "failed_transiently r \<and> attempt < unat (rp_max_retries p)")
    case False
    then have "retry_loop sleep p f (Suc left) attempt backoff last_err s1 = (r, s2)"
      using f by (cases r) (auto simp: Let_def s b(1) failed_transiently_def)
    with False Suc.prems f show ?thesis
      by (intro exI [of _ attempt]) (auto simp: not_less)
  next
    case True
    then obtain e where e: "r = Err e" "is_transient e" by (cases r) (auto simp: failed_transiently_def)
    have run: "retry_loop sleep p f (Suc left) attempt backoff last_err s1
        = retry_loop sleep p f left (attempt + 1) b (Some e) s2"
      using f e True by (simp add: Let_def s b(1))
    have "attempt + 1 + left = unat (rp_max_retries p) + 1" "0 < left" using Suc.prems True by auto
    from Suc.IH [OF this, of s2 b "Some e"] f b obtain n where n: "attempt + 1 \<le> n" "n \<le> unat (rp_max_retries p)"
      "\<forall>k \<in> {attempt + 1..<n}. failed_transiently (fst (f (before_attempt sleep p f s k)))"
      "n = unat (rp_max_retries p) \<or> \<not> failed_transiently (fst (f (before_attempt sleep p f s n)))"
      "retry_loop sleep p f left (attempt + 1) b (Some e) s2 = f (before_attempt sleep p f s n)"
      by auto
    have "failed_transiently (fst (f (before_attempt sleep p f s k)))" if "k \<in> {attempt..<n}" for k
      using that n(3) f True by (cases "k = attempt") auto
    with n run show ?thesis by (intro exI [of _ n]) auto
  qed
qed simp

text \<open>C24: the retry loop ends after at most \<open>max_retries + 1\<close> attempts, with the pauses of \<open>pause\<close> between
  them, and returns the outcome of the first attempt that does not fail transiently, or of the last one;
  it never reaches its final \<open>expect\<close>.\<close>

theorem retry_bounded:
  assumes "2 * rp_initial_backoff p \<le> DURATION_MAX" and "2 * rp_max_backoff p \<le> DURATION_MAX"
  shows "\<exists>n \<le> unat (rp_max_retries p).
      (\<forall>k < n. failed_transiently (fst (f (before_attempt sleep p f s k))))
    \<and> (n = unat (rp_max_retries p) \<or> \<not> failed_transiently (fst (f (before_attempt sleep p f s n))))
    \<and> retry_execute sleep p f s = f (before_attempt sleep p f s n)"
  using retry_loop_attempts [OF assms, of 0 "unat (rp_max_retries p) + 1" s f sleep s "pause p 1" None]
  by (auto simp: retry_execute_def pause_def)

text \<open>Two failures to connect, then success: three attempts with pauses of 100 and 200 ms in between.\<close>

definition flaky :: "nat list \<times> nat \<Rightarrow> nat typed \<times> (nat list \<times> nat)" where
  "flaky s = (if snd s < 2 then Err (WireError ConnectionClosed) else Ok (snd s), (fst s, snd s + 1))"

definition note_pause :: "nat \<Rightarrow> nat list \<times> nat \<Rightarrow> nat list \<times> nat" where
  "note_pause d s = (fst s @ [d div 10 ^ 6], snd s)"

theorem retry_bounded_witness:
  "\<exists>n \<le> 3. retry_execute note_pause retry_default flaky ([], 0)
      = flaky (before_attempt note_pause retry_default flaky ([], 0) n)
    \<and> retry_execute note_pause retry_default flaky ([], 0) = (Ok 2, ([100, 200], 3))"
proof -
  have "2 * rp_initial_backoff retry_default \<le> DURATION_MAX" "2 * rp_max_backoff retry_default \<le> DURATION_MAX"
    by (simp_all add: retry_default_def DURATION_MAX_def)
  from retry_bounded [OF this, of flaky note_pause "([], 0)"] obtain n where
    "n \<le> unat (rp_max_retries retry_default)"
    "retry_execute note_pause retry_default flaky ([], 0) = flaky (before_attempt note_pause retry_default flaky ([], 0) n)"
    by blast
  moreover have "retry_execute note_pause retry_default flaky ([], 0) = (Ok 2, ([100, 200], 3))"
  proof -
    have d: "unat (rp_max_retries retry_default) = 3" "rp_initial_backoff retry_default = 100000000"
      "rp_max_backoff retry_default = 30000000000" by (simp_all add: retry_default_def)
    have four: "3 + 1 = Suc (Suc (Suc (Suc 0)))" by simp
    show ?thesis
      unfolding retry_execute_def d four by (simp add: d flaky_def note_pause_def duration_double_def DURATION_MAX_def)
  qed
  ultimately show ?thesis by (auto simp: retry_default_def)
qed

text \<open>The first pause is not limited by \<open>max_backoff\<close>.\<close>

lemma first_pause_unlimited: "pause (with_max_backoff 1 (retry_new n 5)) 1 = 5"
  by (simp add: pause_def retry_new_def with_max_backoff_def)

section \<open>Reconnecting\<close>

definition connect_with_init ::
  "'w transport \<Rightarrow> ('w client \<Rightarrow> 'w client typed) \<Rightarrow> rstring list \<Rightarrow> 'w client \<Rightarrow> 'w client typed" where
  "connect_with_init net dial init_sql old =
     and_then (dial old) (\<lambda>client.
       case foldl (\<lambda>(r, c) sql. case r of Ok _ \<Rightarrow> simple_query net sql c | _ \<Rightarrow> (r, c)) (Ok (), client) init_sql of
         (Ok _, c) \<Rightarrow> Ok c
       | (Err e, _) \<Rightarrow> Err e
       | (Panic, _) \<Rightarrow> Panic)"

fun is_connection_error :: "typed_error \<Rightarrow> bool" where
  "is_connection_error (WireError (Io _)) \<longleftrightarrow> True"
| "is_connection_error (WireError ConnectionClosed) \<longleftrightarrow> True"
| "is_connection_error _ \<longleftrightarrow> False"

definition reconnect ::
  "'w transport \<Rightarrow> ('w client \<Rightarrow> 'w client typed) \<Rightarrow> rstring list \<Rightarrow> 'w client \<Rightarrow> unit typed \<times> 'w client" where
  "reconnect net dial init_sql c =
     (if is_alive (fst (snd c)) then (Ok (), c)
      else case connect_with_init net dial init_sql c of
             Ok c' \<Rightarrow> (Ok (), c') | Err e \<Rightarrow> (Err e, c) | Panic \<Rightarrow> (Panic, c))"

definition reconnecting ::
  "'w transport \<Rightarrow> ('w client \<Rightarrow> 'w client typed) \<Rightarrow> rstring list \<Rightarrow> ('w client \<Rightarrow> 'a typed \<times> 'w client) \<Rightarrow> 'w client
     \<Rightarrow> 'a typed \<times> 'w client" where
  "reconnecting net dial init_sql call c =
     (case call c of
        (Err e, c') \<Rightarrow>
          if is_connection_error e
          then (case reconnect net dial init_sql c' of
                  (Ok _, c) \<Rightarrow> call c | (Err e, c) \<Rightarrow> (Err e, c) | (Panic, c) \<Rightarrow> (Panic, c))
          else (Err e, c')
      | p \<Rightarrow> p)"

definition reconnecting_query ::
  "'w transport \<Rightarrow> call_env \<Rightarrow> ('w client \<Rightarrow> 'w client typed) \<Rightarrow> rstring list \<Rightarrow> rstring \<Rightarrow> sql_param list \<Rightarrow> 'w client
     \<Rightarrow> row list typed \<times> 'w client" where
  "reconnecting_query net env dial init_sql sql ps = reconnecting net dial init_sql (client_query net env sql ps)"

definition reconnecting_execute ::
  "'w transport \<Rightarrow> call_env \<Rightarrow> ('w client \<Rightarrow> 'w client typed) \<Rightarrow> rstring list \<Rightarrow> rstring \<Rightarrow> sql_param list \<Rightarrow> 'w client
     \<Rightarrow> nat typed \<times> 'w client" where
  "reconnecting_execute net env dial init_sql sql ps = reconnecting net dial init_sql (client_execute net env sql ps)"

text \<open>On a call whose connection error is not wrapped, the client reconnects and tries once more.\<close>

lemma reconnecting_recovers:
  assumes "call c = (Err (WireError ConnectionClosed), c1)" and "\<not> is_alive (fst (snd c1))"
    and "connect_with_init net dial init_sql c1 = Ok c2"
  shows "reconnecting net dial init_sql call c = call c2"
  using assms by (simp add: reconnecting_def reconnect_def)

lemma reconnecting_plain:
  "(\<And>e. fst (call c) = Err e \<Longrightarrow> \<not> is_connection_error e) \<Longrightarrow> reconnecting net dial init_sql call c = call c"
  by (cases "call c"; cases "fst (call c)") (simp_all add: reconnecting_def)

lemma retry_single:
  "(\<And>e. fst (f s) = Err e \<Longrightarrow> \<not> is_transient e) \<Longrightarrow> retry_execute sleep p f s = f s"
  by (cases "f s"; cases "fst (f s)") (simp_all add: retry_execute_def)

lemma client_query_not_recoverable:
  "fst (client_query net env sql ps c) = Err e \<Longrightarrow> \<not> is_connection_error e"
  "fst (client_query net env sql ps c) = Err e \<Longrightarrow> \<not> is_transient e"
  using client_query_error by fastforce+

lemma client_execute_not_recoverable:
  "fst (client_execute net env sql ps c) = Err e \<Longrightarrow> \<not> is_connection_error e"
  "fst (client_execute net env sql ps c) = Err e \<Longrightarrow> \<not> is_transient e"
  using client_execute_error by fastforce+

text \<open>The errors of the typed client come wrapped with their SQL, and neither the reconnecting client nor
  the retry loop looks inside: a reconnecting query or statement is just the plain one, on a dead
  connection too, and the retry loop makes a single attempt.\<close>

theorem client_errors_never_recovered:
  "reconnecting_query net env dial init_sql sql ps c = client_query net env sql ps c
   \<and> reconnecting_execute net env dial init_sql sql ps c = client_execute net env sql ps c
   \<and> retry_execute sleep p (client_query net env sql ps) c = client_query net env sql ps c
   \<and> retry_execute sleep p (client_execute net env sql ps) c = client_execute net env sql ps c"
  by (simp add: reconnecting_query_def reconnecting_execute_def reconnecting_plain retry_single
      client_query_not_recoverable client_execute_not_recoverable)

end
