(* ===== verification/Executor.thy ===== *)
theory Executor
  imports Client
begin

text \<open>
  \<open>resolute/src/executor.rs\<close>: the \<open>Executor\<close> trait. Its default methods are functions of the two
  required ones; \<open>atomic\<close> brackets a closure with \<open>BEGIN\<close> and \<open>COMMIT\<close> or, inside a transaction, with a
  savepoint. A closure is a function on the state of the process: the counter of savepoint names, which
  is a static of the program, and the client. The specification of the other side is a server with a
  transaction block, savepoints and deferred constraints; the theorems show that \<open>atomic\<close> on it is the
  all-or-nothing run of the closure, that nested savepoints compose, and where the guarantee ends.
\<close>

section \<open>Default methods\<close>

type_synonym ('c, 'a) call = "rstring \<Rightarrow> sql_param list \<Rightarrow> 'c \<Rightarrow> 'a typed \<times> 'c"

definition exec_query_one :: "('c, row list) call \<Rightarrow> ('c, row) call" where
  "exec_query_one query_fn sql ps c = (case query_fn sql ps c of (r, c') \<Rightarrow> (and_then r exactly_one, c'))"

definition exec_query_opt :: "('c, row list) call \<Rightarrow> ('c, row option) call" where
  "exec_query_opt query_fn sql ps c = (case query_fn sql ps c of (r, c') \<Rightarrow> (and_then r at_most_one, c'))"

definition resolve_named :: "rstring list \<Rightarrow> (rstring \<times> 'p) list \<Rightarrow> 'p list typed" where
  "resolve_named names ps =
     traverse (\<lambda>name. case find (\<lambda>(n, _). n = name) ps of
        Some (_, p) \<Rightarrow> Ok p | None \<Rightarrow> Err (MissingParam name)) names"

definition exec_named :: "unicode \<Rightarrow> ('c, 'a) call \<Rightarrow> rstring \<Rightarrow> (rstring \<times> sql_param) list \<Rightarrow> 'c \<Rightarrow> 'a typed \<times> 'c" where
  "exec_named u call sql ps c =
     (let (rewritten, names) = rewrite u (str_chars sql)
      in case resolve_named (map chars_str names) ps of
           Ok ordered \<Rightarrow> call (chars_str rewritten) ordered c
         | Err e \<Rightarrow> (Err e, c)
         | Panic \<Rightarrow> (Panic, c))"

definition exec_ping :: "('c, row list) call \<Rightarrow> 'c \<Rightarrow> unit typed \<times> 'c" where
  "exec_ping query_fn c = (case query_fn (lit ''SELECT 1'') [] c of (r, c') \<Rightarrow> (and_then r (\<lambda>_. Ok ()), c'))"

section \<open>Atomic blocks\<close>

type_synonym 'w process = "u64 \<times> 'w client"

definition on_client :: "('w client \<Rightarrow> 'a \<times> 'w client) \<Rightarrow> 'w process \<Rightarrow> 'a \<times> 'w process" where
  "on_client f p = (case f (snd p) of (r, c) \<Rightarrow> (r, (fst p, c)))"

text \<open>The common shape: an opening statement, the closure, and a closing statement on \<open>Ok\<close> or an undoing
  one, whose error is only logged, on \<open>Err\<close>. A panic unwinds through the block.\<close>

definition bracket ::
  "(rstring \<Rightarrow> 'c \<Rightarrow> unit typed \<times> 'c) \<Rightarrow> rstring \<Rightarrow> rstring \<Rightarrow> rstring \<Rightarrow> ('c \<Rightarrow> 'a typed \<times> 'c) \<Rightarrow> 'c \<Rightarrow> 'a typed \<times> 'c" where
  "bracket run opening closing undoing f c =
     (case run opening c of
        (Ok _, c) \<Rightarrow>
          (case f c of
             (Ok v, c) \<Rightarrow> (case run closing c of (r, c) \<Rightarrow> (and_then r (\<lambda>_. Ok v), c))
           | (Err e, c) \<Rightarrow> (case run undoing c of (Panic, c) \<Rightarrow> (Panic, c) | (_, c) \<Rightarrow> (Err e, c))
           | (Panic, c) \<Rightarrow> (Panic, c))
      | (Err e, c) \<Rightarrow> (Err e, c)
      | (Panic, c) \<Rightarrow> (Panic, c))"

definition run_simple :: "'w transport \<Rightarrow> rstring \<Rightarrow> 'w process \<Rightarrow> unit typed \<times> 'w process" where
  "run_simple net sql = on_client (simple_query net sql)"

definition atomic_client ::
  "'w transport \<Rightarrow> ('w process \<Rightarrow> 'a typed \<times> 'w process) \<Rightarrow> 'w process \<Rightarrow> 'a typed \<times> 'w process" where
  "atomic_client net = bracket (run_simple net) (lit ''BEGIN'') (lit ''COMMIT'') (lit ''ROLLBACK'')"

definition savepoint_name :: "u64 \<Rightarrow> rstring" where "savepoint_name k = lit ''resolute_sp_'' @ decimal (unat k)"

definition atomic_transaction ::
  "'w transport \<Rightarrow> ('w process \<Rightarrow> 'a typed \<times> 'w process) \<Rightarrow> 'w process \<Rightarrow> 'a typed \<times> 'w process" where
  "atomic_transaction net f p =
     (let sp = savepoint_name (fst p)
      in bracket (run_simple net) (lit ''SAVEPOINT '' @ sp) (lit ''RELEASE SAVEPOINT '' @ sp)
           (lit ''ROLLBACK TO SAVEPOINT '' @ sp) f (fst p + 1, snd p))"

definition with_transaction ::
  "'w transport \<Rightarrow> ('w client \<Rightarrow> 'a typed \<times> 'w client) \<Rightarrow> 'w client \<Rightarrow> 'a typed \<times> 'w client" where
  "with_transaction net f c =
     (case simple_query net (lit ''BEGIN'') c of
        (Ok _, c) \<Rightarrow>
          (case f c of
             (Ok v, c) \<Rightarrow> (case simple_query net (lit ''COMMIT'') c of (r, c) \<Rightarrow> (and_then r (\<lambda>_. Ok v), c))
           | (Err e, c) \<Rightarrow> (case simple_query net (lit ''ROLLBACK'') c of (Panic, c) \<Rightarrow> (Panic, c) | (_, c) \<Rightarrow> (Err e, c))
           | (Panic, c) \<Rightarrow> (Panic, c))
      | (Err e, c) \<Rightarrow> (Err e, c)
      | (Panic, c) \<Rightarrow> (Panic, c))"

section \<open>A server with transactions\<close>

text \<open>The block keeps the working copy of the database and the savepoints, the newest first.\<close>

record 'd tx_block =
  tx_db :: 'd
  tx_saved :: "(rstring \<times> 'd) list"
  tx_aborted :: bool

record 'd session =
  se_db :: 'd
  se_block :: "'d tx_block option"

record 'd database =
  da_exec :: "rstring \<Rightarrow> bytes option list \<Rightarrow> 'd \<Rightarrow> pg_error + (raw_row list \<times> rstring) \<times> 'd"
  da_deferred :: "'d \<Rightarrow> pg_error option"

datatype sql_command =
  Begin | Commit | Rollback | Savepoint rstring | Release rstring | RollbackTo rstring | Ordinary rstring

definition command_of :: "rstring \<Rightarrow> sql_command" where
  "command_of sql =
     (if sql = lit ''BEGIN'' then Begin
      else if sql = lit ''COMMIT'' then Commit
      else if sql = lit ''ROLLBACK'' then Rollback
      else case strip_prefix (lit ''SAVEPOINT '') sql of Some n \<Rightarrow> Savepoint n
      | None \<Rightarrow> (case strip_prefix (lit ''RELEASE SAVEPOINT '') sql of Some n \<Rightarrow> Release n
      | None \<Rightarrow> (case strip_prefix (lit ''ROLLBACK TO SAVEPOINT '') sql of Some n \<Rightarrow> RollbackTo n
      | None \<Rightarrow> Ordinary sql)))"

type_synonym sql_result = "pg_error + raw_row list \<times> rstring"

definition abort_block :: "'d session \<Rightarrow> 'd session" where
  "abort_block se = se\<lparr>se_block := map_option (\<lambda>b. b\<lparr>tx_aborted := True\<rparr>) (se_block se)\<rparr>"

definition fails :: "string \<Rightarrow> 'd session \<Rightarrow> sql_result \<times> 'd session" where
  "fails code se = (Inl (server_error code), abort_block se)"

definition done_as :: "string \<Rightarrow> 'd session \<Rightarrow> sql_result \<times> 'd session" where
  "done_as tag se = (Inr ([], lit tag), se)"

text \<open>Savepoints from the newest one called \<open>n\<close> on.\<close>

definition from_savepoint :: "rstring \<Rightarrow> (rstring \<times> 'd) list \<Rightarrow> (rstring \<times> 'd) list" where
  "from_savepoint n saved = dropWhile (\<lambda>(m, _). m \<noteq> n) saved"

definition in_block :: "'d database \<Rightarrow> sql_command \<Rightarrow> bytes option list \<Rightarrow> 'd tx_block \<Rightarrow> 'd session
    \<Rightarrow> sql_result \<times> 'd session" where
  "in_block db cmd ps b se =
     (case cmd of
        Commit \<Rightarrow>
          if tx_aborted b then done_as ''ROLLBACK'' (se\<lparr>se_block := None\<rparr>)
          else (case da_deferred db (tx_db b) of
                  None \<Rightarrow> done_as ''COMMIT'' (se\<lparr>se_db := tx_db b, se_block := None\<rparr>)
                | Some e \<Rightarrow> (Inl e, se\<lparr>se_block := None\<rparr>))
      | Rollback \<Rightarrow> done_as ''ROLLBACK'' (se\<lparr>se_block := None\<rparr>)
      | RollbackTo n \<Rightarrow>
          (case from_savepoint n (tx_saved b) of
             [] \<Rightarrow> fails ''3B001'' se
           | (m, d) # older \<Rightarrow>
               done_as ''ROLLBACK'' (se\<lparr>se_block := Some \<lparr>tx_db = d, tx_saved = (m, d) # older, tx_aborted = False\<rparr>\<rparr>))
      | _ \<Rightarrow>
          if tx_aborted b then fails ''25P02'' se
          else (case cmd of
             Begin \<Rightarrow> done_as ''BEGIN'' se
           | Savepoint n \<Rightarrow> done_as ''SAVEPOINT'' (se\<lparr>se_block := Some (b\<lparr>tx_saved := (n, tx_db b) # tx_saved b\<rparr>)\<rparr>)
           | Release n \<Rightarrow>
               (case from_savepoint n (tx_saved b) of
                  [] \<Rightarrow> fails ''3B001'' se
                | _ # older \<Rightarrow> done_as ''RELEASE'' (se\<lparr>se_block := Some (b\<lparr>tx_saved := older\<rparr>)\<rparr>))
           | Ordinary sql \<Rightarrow>
               (case da_exec db sql ps (tx_db b) of
                  Inl e \<Rightarrow> (Inl e, abort_block se)
                | Inr (out, d) \<Rightarrow> (Inr out, se\<lparr>se_block := Some (b\<lparr>tx_db := d\<rparr>)\<rparr>))))"

definition run_sql :: "'d database \<Rightarrow> rstring \<Rightarrow> bytes option list \<Rightarrow> 'd session \<Rightarrow> sql_result \<times> 'd session" where
  "run_sql db sql ps se =
     (case se_block se of
        Some b \<Rightarrow> in_block db (command_of sql) ps b se
      | None \<Rightarrow>
          (case command_of sql of
             Begin \<Rightarrow> done_as ''BEGIN'' (se\<lparr>se_block := Some \<lparr>tx_db = se_db se, tx_saved = [], tx_aborted = False\<rparr>\<rparr>)
           | Commit \<Rightarrow> done_as ''COMMIT'' se
           | Rollback \<Rightarrow> done_as ''ROLLBACK'' se
           | Ordinary sql \<Rightarrow>
               (case da_exec db sql ps (se_db se) of
                  Inl e \<Rightarrow> (Inl e, se)
                | Inr (out, d) \<Rightarrow>
                    (case da_deferred db d of None \<Rightarrow> (Inr out, se\<lparr>se_db := d\<rparr>) | Some e \<Rightarrow> (Inl e, se)))
           | _ \<Rightarrow> fails ''25P01'' se))"

text \<open>The messages of one request; an error skips the rest and aborts an open block.\<close>

type_synonym 'd server = "(rstring \<rightharpoonup> rstring) \<times> 'd session"

definition refuse :: "string \<Rightarrow> 'd server \<Rightarrow> backend_msg list \<times> 'd server" where
  "refuse code s = ([ErrorResponse (server_error code)], (fst s, abort_block (snd s)))"

definition usable :: "rstring \<Rightarrow> 'd session \<Rightarrow> bool" where
  "usable sql se = (case se_block se of Some b \<Rightarrow> \<not> tx_aborted b \<or> command_of sql \<in> {Commit, Rollback} | None \<Rightarrow> True)"

fun serve_session ::
  "'d database \<Rightarrow> frontend_msg list \<Rightarrow> 'd server \<Rightarrow> (rstring \<times> bytes option list) option
     \<Rightarrow> backend_msg list \<times> 'd server" where
  "serve_session db (Query q # ms) (sv, se) bound =
     (case run_sql db q [] se of
        (Inl e, se') \<Rightarrow> ([ErrorResponse e], (sv, se'))
      | (Inr (rows, tag), se') \<Rightarrow>
          (case serve_session db ms (sv, se') None of
             (out, s') \<Rightarrow> (map DataRow rows @ CommandComplete tag # out, s')))"
| "serve_session db (Parse n q oids # ms) (sv, se) bound =
     (if n \<noteq> [] \<and> sv n \<noteq> None then refuse ''42P05'' (sv, se)
      else if \<not> usable q se then refuse ''25P02'' (sv, se)
      else case serve_session db ms (sv(n \<mapsto> q), se) bound of (out, s') \<Rightarrow> (ParseComplete # out, s'))"
| "serve_session db (Bind p n pf ps rf # ms) (sv, se) bound =
     (case sv n of
        None \<Rightarrow> refuse ''26000'' (sv, se)
      | Some q \<Rightarrow>
          if \<not> usable q se then refuse ''25P02'' (sv, se)
          else case serve_session db ms (sv, se) (Some (q, ps)) of (out, s') \<Rightarrow> (BindComplete # out, s'))"
| "serve_session db (Execute p k # ms) (sv, se) bound =
     (case bound of
        None \<Rightarrow> refuse ''34000'' (sv, se)
      | Some (q, ps) \<Rightarrow>
          (case run_sql db q ps se of
             (Inl e, se') \<Rightarrow> ([ErrorResponse e], (sv, se'))
           | (Inr (rows, tag), se') \<Rightarrow>
               (case serve_session db ms (sv, se') bound of
                  (out, s') \<Rightarrow> (map DataRow rows @ CommandComplete tag # out, s'))))"
| "serve_session db (_ # ms) s bound = serve_session db ms s bound"
| "serve_session db [] s bound = ([], s)"

fun session_net :: "'d database \<Rightarrow> 'd server transport" where
  "session_net db [] sys = ([], sys)"
| "session_net db ((messages, c) # items) (s, sv) =
     (case rd_all (length messages) messages of
        None \<Rightarrow> ([], (s, sv))
      | Some ms \<Rightarrow>
          (case serve_session db ms sv None of
             (reply, sv') \<Rightarrow>
               (case session_net db items (s, sv') of (rs, sys') \<Rightarrow> (response_of c reply # rs, sys'))))"

section \<open>All or nothing\<close>

text \<open>The reference: run a computation on the database and keep its effect only when it succeeds.\<close>

definition atomically :: "('d \<Rightarrow> 'a typed \<times> 'd) \<Rightarrow> 'd \<Rightarrow> 'a typed \<times> 'd" where
  "atomically g d = (case g d of (Ok v, d') \<Rightarrow> (Ok v, d') | (r, _) \<Rightarrow> (r, d))"

text \<open>What a well-behaved closure may do to a session with an open block: it leaves the committed database
  and the savepoints it found, and adds savepoints that are the user's own or bear numbers it drew.\<close>

definition within :: "u64 \<Rightarrow> 'd session \<Rightarrow> u64 \<Rightarrow> 'd session \<Rightarrow> bool" where
  "within k se k' se' \<longleftrightarrow>
     k \<le> k' \<and> se_db se' = se_db se
     \<and> (\<exists>b b' new. se_block se = Some b \<and> se_block se' = Some b' \<and> tx_saved b' = new @ tx_saved b
          \<and> list_all (\<lambda>(n, _). \<forall>j. n = savepoint_name j \<longrightarrow> k \<le> j \<and> j < k') new)"

text \<open>A closure implements a computation on the database when, in a healthy block and with at most \<open>n\<close>
  savepoint numbers, it returns its result, stays within the block, and on success leaves its database.\<close>

definition implements ::
  "('c \<Rightarrow> 'd session) \<Rightarrow> ('c \<Rightarrow> u64) \<Rightarrow> nat \<Rightarrow> ('c \<Rightarrow> 'a typed \<times> 'c) \<Rightarrow> ('d \<Rightarrow> 'a typed \<times> 'd) \<Rightarrow> bool" where
  "implements view tick n f g \<longleftrightarrow>
     (\<forall>c b. se_block (view c) = Some b \<longrightarrow> \<not> tx_aborted b \<longrightarrow> unat (tick c) + n < 2 ^ 64 \<longrightarrow>
        (case f c of (r, c') \<Rightarrow>
           r = fst (g (tx_db b)) \<and> within (tick c) (view c) (tick c') (view c')
           \<and> unat (tick c') \<le> unat (tick c) + n
           \<and> (is_ok r \<longrightarrow> (\<exists>b'. se_block (view c') = Some b' \<and> \<not> tx_aborted b' \<and> tx_db b' = snd (g (tx_db b))))))"

lemma implementsD:
  assumes "implements view tick n f g" and "se_block (view c) = Some b" and "\<not> tx_aborted b"
    and "unat (tick c) + n < 2 ^ 64" and "f c = (r, c')"
  shows "r = fst (g (tx_db b))" and "within (tick c) (view c) (tick c') (view c')"
    and "unat (tick c') \<le> unat (tick c) + n"
    and "r = Ok v \<Longrightarrow> \<exists>b'. se_block (view c') = Some b' \<and> \<not> tx_aborted b' \<and> tx_db b' = snd (g (tx_db b))"
  using assms unfolding implements_def by (fastforce split: prod.splits)+

text \<open>Closures are put together with \<open>?\<close>.\<close>

definition then_run :: "('c \<Rightarrow> 'a typed \<times> 'c) \<Rightarrow> ('a \<Rightarrow> 'c \<Rightarrow> 'b typed \<times> 'c) \<Rightarrow> 'c \<Rightarrow> 'b typed \<times> 'c" where
  "then_run f h c = (case f c of (Ok a, c') \<Rightarrow> h a c' | (Err e, c') \<Rightarrow> (Err e, c') | (Panic, c') \<Rightarrow> (Panic, c'))"

lemma within_refl: "se_block se = Some b \<Longrightarrow> within k se k se"
  by (simp add: within_def)

lemma within_trans:
  assumes "within k se k1 se1" and "within k1 se1 k2 se2"
  shows "within k se k2 se2"
proof -
  obtain b b1 new b2 new2 where *: "se_block se = Some b" "se_block se1 = Some b1" "tx_saved b1 = new @ tx_saved b"
    "se_block se2 = Some b2" "tx_saved b2 = new2 @ tx_saved b1"
    "list_all (\<lambda>(n, _). \<forall>j. n = savepoint_name j \<longrightarrow> k \<le> j \<and> j < k1) new"
    "list_all (\<lambda>(n, _). \<forall>j. n = savepoint_name j \<longrightarrow> k1 \<le> j \<and> j < k2) new2"
    using assms unfolding within_def by force
  have le: "k \<le> k1" "k1 \<le> k2" using assms by (auto simp: within_def)
  have "list_all (\<lambda>(n, _). \<forall>j. n = savepoint_name j \<longrightarrow> k \<le> j \<and> j < k2) (new2 @ new)"
    using *(6,7) le by (fastforce simp: list_all_iff)
  with * le assms show ?thesis
    unfolding within_def by (intro conjI exI [of _ b] exI [of _ b2] exI [of _ "new2 @ new"]) auto
qed

lemma implements_return: "implements view tick 0 (\<lambda>c. (r, c)) (\<lambda>d. (r, d))"
  by (auto simp: implements_def intro: within_refl)

lemma implements_mono: "implements view tick m f g \<Longrightarrow> m \<le> n \<Longrightarrow> implements view tick n f g"
  unfolding implements_def by (fastforce split: prod.splits)

lemma implements_then:
  assumes f: "implements view tick m f g" and h: "\<And>a. implements view tick n (h a) (k a)"
  shows "implements view tick (m + n) (then_run f h) (then_run g k)"
  unfolding implements_def
proof (intro allI impI)
  fix c b
  assume b: "se_block (view c) = Some b" "\<not> tx_aborted b" and room: "unat (tick c) + (m + n) < 2 ^ 64"
  obtain r1 c1 where f1: "f c = (r1, c1)" by (cases "f c")
  have "unat (tick c) + m < 2 ^ 64" using room by simp
  note fD = implementsD [OF f b this f1]
  obtain d where g: "g (tx_db b) = (r1, d)" using fD(1) by (cases "g (tx_db b)") simp
  show "case then_run f h c of (r, c') \<Rightarrow>
      r = fst (then_run g k (tx_db b)) \<and> within (tick c) (view c) (tick c') (view c')
      \<and> unat (tick c') \<le> unat (tick c) + (m + n)
      \<and> (is_ok r \<longrightarrow> (\<exists>b'. se_block (view c') = Some b' \<and> \<not> tx_aborted b'
            \<and> tx_db b' = snd (then_run g k (tx_db b))))"
  proof (cases r1)
    case (Ok a)
    from fD(4) [OF Ok] g obtain b1 where b1: "se_block (view c1) = Some b1" "\<not> tx_aborted b1" "tx_db b1 = d" by auto
    obtain r2 c2 where h2: "h a c1 = (r2, c2)" by (cases "h a c1")
    have "unat (tick c1) + n < 2 ^ 64" using fD(3) room by simp
    note hD = implementsD [OF h b1(1,2) this h2]
    have "is_ok r2 \<Longrightarrow> \<exists>b'. se_block (view c2) = Some b' \<and> \<not> tx_aborted b' \<and> tx_db b' = snd (k a d)"
      using hD(4) b1(3) by (cases r2) auto
    then show ?thesis
      using f1 g Ok h2 hD(1,3) b1(3) fD(3) within_trans [OF fD(2) hD(2)] by (simp add: then_run_def)
  next
    case (Err e)
    then show ?thesis using f1 g fD(2,3) by (simp add: then_run_def)
  next
    case Panic
    then show ?thesis using f1 g fD(2,3) by (simp add: then_run_def)
  qed
qed

lemma savepoint_name_inject [simp]: "savepoint_name j = savepoint_name k \<longleftrightarrow> j = k"
  by (auto simp: savepoint_name_def intro: unsigned_word_eqI)

lemma from_savepoint_found:
  assumes "list_all (\<lambda>(m, _). m \<noteq> n) new"
  shows "from_savepoint n (new @ (n, d) # older) = (n, d) # older"
  using assms by (induction new) (auto simp: from_savepoint_def)

text \<open>The control statements are recognised.\<close>

lemma command_of_control [simp]:
  "command_of (lit ''BEGIN'') = Begin" "command_of (lit ''COMMIT'') = Commit" "command_of (lit ''ROLLBACK'') = Rollback"
  "command_of (lit ''SAVEPOINT '' @ n) = Savepoint n" "command_of (lit ''RELEASE SAVEPOINT '' @ n) = Release n"
  "command_of (lit ''ROLLBACK TO SAVEPOINT '' @ n) = RollbackTo n"
  by (simp_all add: command_of_def lit_def strip_prefix_def starts_with_def)

text \<open>What \<open>atomic\<close> relies on: a simple statement reaches the session and its errors do not come back.\<close>

locale sql_session =
  fixes run :: "rstring \<Rightarrow> 'c \<Rightarrow> unit typed \<times> 'c"
    and view :: "'c \<Rightarrow> 'd session"
    and tick :: "'c \<Rightarrow> u64"
    and db :: "'d database"
  assumes run_ok: "no_nul sql \<Longrightarrow> length sql < 2 ^ 20 \<Longrightarrow> fst (run sql c) = Ok ()"
    and run_view: "no_nul sql \<Longrightarrow> length sql < 2 ^ 20 \<Longrightarrow> view (snd (run sql c)) = snd (run_sql db sql [] (view c))"
    and run_tick: "no_nul sql \<Longrightarrow> length sql < 2 ^ 20 \<Longrightarrow> tick (snd (run sql c)) = tick c"
begin

lemma run_statement:
  assumes "no_nul sql" and "length sql < 2 ^ 20"
  shows "\<exists>c'. run sql c = (Ok (), c') \<and> view c' = snd (run_sql db sql [] (view c)) \<and> tick c' = tick c"
  using run_ok [OF assms] run_view [OF assms] run_tick [OF assms] by (cases "run sql c") (metis fst_conv snd_conv)

lemma block_atomic:
  assumes impl: "implements view tick n f g" and idle: "se_block (view c) = None"
    and room: "unat (tick c) + n < 2 ^ 64"
    and valid: "\<And>v d. g (se_db (view c)) = (Ok v, d) \<Longrightarrow> da_deferred db d = None"
    and res: "bracket run (lit ''BEGIN'') (lit ''COMMIT'') (lit ''ROLLBACK'') f c = (r, c')"
  shows "(r, se_db (view c')) = atomically g (se_db (view c))" and "r \<noteq> Panic \<Longrightarrow> se_block (view c') = None"
proof -
  have ctl: "no_nul (lit ''BEGIN'')" "no_nul (lit ''COMMIT'')" "no_nul (lit ''ROLLBACK'')"
    "length (lit ''BEGIN'') < 2 ^ 20" "length (lit ''COMMIT'') < 2 ^ 20" "length (lit ''ROLLBACK'') < 2 ^ 20"
    by (simp_all add: lit_def no_nul_def)
  let ?b = "\<lparr>tx_db = se_db (view c), tx_saved = [], tx_aborted = False\<rparr>"
  obtain c1 where c1: "run (lit ''BEGIN'') c = (Ok (), c1)" "tick c1 = tick c"
    "view c1 = (view c)\<lparr>se_block := Some ?b\<rparr>"
    using run_statement [OF ctl(1,4), of c] idle by (auto simp: run_sql_def done_as_def)
  obtain r2 c2 where f: "f c1 = (r2, c2)" by (cases "f c1")
  have "se_block (view c1) = Some ?b" "\<not> tx_aborted ?b" "unat (tick c1) + n < 2 ^ 64"
    using c1 room by simp_all
  note fD = implementsD [OF impl this f, simplified]
  from fD(2) c1 obtain b2 where b2: "se_block (view c2) = Some b2" "se_db (view c2) = se_db (view c)"
    by (auto simp: within_def)
  have "(r, se_db (view c')) = atomically g (se_db (view c)) \<and> (r \<noteq> Panic \<longrightarrow> se_block (view c') = None)"
  proof (cases r2)
    case (Ok v)
    from fD(4) [OF Ok] b2 have good: "\<not> tx_aborted b2" "tx_db b2 = snd (g (se_db (view c)))" by auto
    have g: "g (se_db (view c)) = (Ok v, tx_db b2)"
      using fD(1) Ok good(2) by (metis prod.collapse)
    obtain c3 where c3: "run (lit ''COMMIT'') c2 = (Ok (), c3)"
      "view c3 = snd (run_sql db (lit ''COMMIT'') [] (view c2))"
      using run_statement [OF ctl(2,5), of c2] by blast
    have "view c3 = (view c2)\<lparr>se_db := tx_db b2, se_block := None\<rparr>"
      using c3(2) b2 good valid [OF g] by (simp add: run_sql_def in_block_def done_as_def)
    then show ?thesis
      using c3(1) res Ok f c1(1) g by (auto simp: bracket_def atomically_def)
  next
    case (Err e)
    then have fst_g: "fst (g (se_db (view c))) = Err e" using fD(1) by simp
    obtain c3 where c3: "run (lit ''ROLLBACK'') c2 = (Ok (), c3)"
      "view c3 = snd (run_sql db (lit ''ROLLBACK'') [] (view c2))"
      using run_statement [OF ctl(3,6), of c2] by blast
    have "view c3 = (view c2)\<lparr>se_block := None\<rparr>"
      using c3(2) b2 by (simp add: run_sql_def in_block_def done_as_def)
    then show ?thesis
      using fst_g c3(1) res Err f c1(1) b2 by (cases "g (se_db (view c))") (auto simp: bracket_def atomically_def)
  next
    case Panic
    then have "fst (g (se_db (view c))) = Panic" using fD(1) by simp
    then show ?thesis
      using b2 res Panic f c1(1) by (cases "g (se_db (view c))") (auto simp: bracket_def atomically_def)
  qed
  then show "(r, se_db (view c')) = atomically g (se_db (view c))" "r \<noteq> Panic \<Longrightarrow> se_block (view c') = None"
    by auto
qed

lemma savepoint_controls:
  "no_nul (lit ''SAVEPOINT '' @ savepoint_name k)" "no_nul (lit ''RELEASE SAVEPOINT '' @ savepoint_name k)"
  "no_nul (lit ''ROLLBACK TO SAVEPOINT '' @ savepoint_name k)" "length (lit ''SAVEPOINT '' @ savepoint_name k) < 2 ^ 20"
  "length (lit ''RELEASE SAVEPOINT '' @ savepoint_name k) < 2 ^ 20"
  "length (lit ''ROLLBACK TO SAVEPOINT '' @ savepoint_name k) < 2 ^ 20"
  using decimal_digits [of "unat k"] length_decimal [of "unat k" 19] unsigned_less [of k, where ?'a = nat]
  by (auto simp: savepoint_name_def lit_def no_nul_def list_all_iff is_digit_def)

text \<open>The three statements of a nested \<open>atomic\<close>: \<open>SAVEPOINT\<close> pushes the state, \<open>RELEASE\<close> drops the savepoint
  and those above it, \<open>ROLLBACK TO\<close> restores its state and keeps it on the stack.\<close>

lemma run_savepoint:
  assumes "se_block (view c) = Some b" "\<not> tx_aborted b"
  obtains c' where "run (lit ''SAVEPOINT '' @ savepoint_name k) c = (Ok (), c')" "tick c' = tick c"
    "view c' = (view c)\<lparr>se_block := Some (b\<lparr>tx_saved := (savepoint_name k, tx_db b) # tx_saved b\<rparr>)\<rparr>"
  using run_statement [OF savepoint_controls(1,4), of k c] assms by (auto simp: run_sql_def in_block_def done_as_def)

lemma run_release:
  assumes "se_block (view c) = Some b" "\<not> tx_aborted b"
    and "from_savepoint (savepoint_name k) (tx_saved b) = (savepoint_name k, d) # rest"
  obtains c' where "run (lit ''RELEASE SAVEPOINT '' @ savepoint_name k) c = (Ok (), c')" "tick c' = tick c"
    "view c' = (view c)\<lparr>se_block := Some (b\<lparr>tx_saved := rest\<rparr>)\<rparr>"
  using run_statement [OF savepoint_controls(2,5), of k c] assms by (auto simp: run_sql_def in_block_def done_as_def)

lemma run_rollback_to:
  assumes "se_block (view c) = Some b"
    and "from_savepoint (savepoint_name k) (tx_saved b) = (savepoint_name k, d) # rest"
  obtains c' where "run (lit ''ROLLBACK TO SAVEPOINT '' @ savepoint_name k) c = (Ok (), c')" "tick c' = tick c"
    "view c' = (view c)\<lparr>se_block := Some \<lparr>tx_db = d, tx_saved = (savepoint_name k, d) # rest, tx_aborted = False\<rparr>\<rparr>"
  using run_statement [OF savepoint_controls(3,6), of k c] assms by (auto simp: run_sql_def in_block_def done_as_def)

lemma savepoint_atomic:
  fixes f :: "'c \<Rightarrow> 'a typed \<times> 'c"
  assumes impl: "implements view tick n f g"
    and open_block: "se_block (view c) = Some b" "\<not> tx_aborted b"
    and bumped: "view c0 = view c" "tick c0 = tick c + 1" and room: "unat (tick c) + Suc n < 2 ^ 64"
    and res: "bracket run (lit ''SAVEPOINT '' @ savepoint_name (tick c)) (lit ''RELEASE SAVEPOINT '' @ savepoint_name (tick c))
      (lit ''ROLLBACK TO SAVEPOINT '' @ savepoint_name (tick c)) f c0 = (r, c')"
  shows "r = fst (atomically g (tx_db b)) \<and> within (tick c) (view c) (tick c') (view c')
    \<and> unat (tick c') \<le> unat (tick c) + Suc n
    \<and> (r \<noteq> Panic \<longrightarrow> (\<exists>b'. se_block (view c') = Some b' \<and> \<not> tx_aborted b' \<and> tx_db b' = snd (atomically g (tx_db b))))"
proof -
  let ?sp = "savepoint_name (tick c)"
  let ?b1 = "b\<lparr>tx_saved := (?sp, tx_db b) # tx_saved b\<rparr>"
  obtain c1 where c1: "run (lit ''SAVEPOINT '' @ ?sp) c0 = (Ok (), c1)" "tick c1 = tick c + 1"
    "view c1 = (view c)\<lparr>se_block := Some ?b1\<rparr>"
    using run_savepoint [of c0 b "tick c"] open_block bumped by auto
  have next_tick: "unat (tick c + 1) = unat (tick c) + 1"
    using room by (simp add: unat_word_ariths)
  obtain r2 c2 where f: "f c1 = (r2, c2)" by (cases "f c1")
  have "se_block (view c1) = Some ?b1" "\<not> tx_aborted ?b1" "unat (tick c1) + n < 2 ^ 64"
    using c1 room open_block next_tick by simp_all
  note fD = implementsD [OF impl this f, simplified]
  from fD(2) c1 obtain b2 new where b2: "se_block (view c2) = Some b2" "se_db (view c2) = se_db (view c)"
    "tick c + 1 \<le> tick c2" "tx_saved b2 = new @ (?sp, tx_db b) # tx_saved b"
    "list_all (\<lambda>(m, _). \<forall>j. m = savepoint_name j \<longrightarrow> tick c + 1 \<le> j \<and> j < tick c2) new"
    by (auto simp: within_def)
  have less: "tick c < tick c + 1"
    using next_tick by (simp add: word_less_nat_alt)
  then have ticks: "tick c \<le> tick c2" "tick c < tick c2" "unat (tick c2) \<le> unat (tick c) + Suc n"
    using b2(3) fD(3) c1(2) next_tick by auto
  have kept: "list_all (\<lambda>(m, _). \<forall>j. m = savepoint_name j \<longrightarrow> tick c \<le> j \<and> j < tick c2) new"
    using b2(5) less by (fastforce simp: list_all_iff dest: less_le_trans)
  have found: "from_savepoint ?sp (tx_saved b2) = (?sp, tx_db b) # tx_saved b"
    unfolding b2(4) by (rule from_savepoint_found) (use b2(5) less in \<open>fastforce simp: list_all_iff dest: leD\<close>)
  show ?thesis
  proof (cases r2)
    case (Ok v)
    from fD(4) [OF Ok] b2 have good: "\<not> tx_aborted b2" "tx_db b2 = snd (g (tx_db b))" by auto
    obtain c3 where c3: "run (lit ''RELEASE SAVEPOINT '' @ ?sp) c2 = (Ok (), c3)" "tick c3 = tick c2"
      "view c3 = (view c2)\<lparr>se_block := Some (b2\<lparr>tx_saved := tx_saved b\<rparr>)\<rparr>"
      using run_release [OF b2(1) good(1) found] by blast
    have "g (tx_db b) = (Ok v, tx_db b2)"
      using fD(1) Ok good(2) by (metis prod.collapse)
    then show ?thesis
      using c3 res Ok f c1(1) open_block b2(1,2) good(1) ticks by (auto simp: bracket_def atomically_def within_def)
  next
    case (Err e)
    then have fst_g: "fst (g (tx_db b)) = Err e" using fD(1) by simp
    obtain c3 where c3: "run (lit ''ROLLBACK TO SAVEPOINT '' @ ?sp) c2 = (Ok (), c3)" "tick c3 = tick c2"
      "view c3 = (view c2)\<lparr>se_block := Some \<lparr>tx_db = tx_db b, tx_saved = (?sp, tx_db b) # tx_saved b, tx_aborted = False\<rparr>\<rparr>"
      using run_rollback_to [OF b2(1) found] by blast
    then show ?thesis
      using fst_g res Err f c1(1) open_block b2(1,2) ticks
      by (cases "g (tx_db b)") (auto simp: bracket_def atomically_def within_def intro!: exI [of _ "[(?sp, tx_db b)]"])
  next
    case Panic
    then have "fst (g (tx_db b)) = Panic" using fD(1) by simp
    moreover have "within (tick c) (view c) (tick c2) (view c2)"
      using b2 ticks kept open_block(1) unfolding within_def
      by (intro conjI exI [of _ b] exI [of _ b2] exI [of _ "new @ [(?sp, tx_db b)]"]) simp_all
    ultimately show ?thesis
      using Panic res f c1(1) ticks by (cases "g (tx_db b)") (auto simp: bracket_def atomically_def)
  qed
qed

text \<open>A bracket of \<open>BEGIN\<close> and \<open>COMMIT\<close> inside an open block: \<open>BEGIN\<close> is only a warning there, and \<open>COMMIT\<close>
  ends the block it did not open.\<close>

lemma nested_commits:
  assumes impl: "implements view tick n f g" and blk: "se_block (view c) = Some b" "\<not> tx_aborted b"
    and room: "unat (tick c) + n < 2 ^ 64" and g: "g (tx_db b) = (Ok v, d)" and valid: "da_deferred db d = None"
    and res: "bracket run (lit ''BEGIN'') (lit ''COMMIT'') (lit ''ROLLBACK'') f c = (r, c')"
  shows "r = Ok v \<and> view c' = \<lparr>se_db = d, se_block = None\<rparr>"
proof -
  have ctl: "no_nul (lit ''BEGIN'')" "no_nul (lit ''COMMIT'')" "length (lit ''BEGIN'') < 2 ^ 20" "length (lit ''COMMIT'') < 2 ^ 20"
    by (simp_all add: lit_def no_nul_def)
  obtain c1 where c1: "run (lit ''BEGIN'') c = (Ok (), c1)" "tick c1 = tick c" "view c1 = view c"
    using run_statement [OF ctl(1,3), of c] blk by (auto simp: run_sql_def in_block_def done_as_def)
  obtain r2 c2 where f: "f c1 = (r2, c2)" by (cases "f c1")
  have "se_block (view c1) = Some b" "unat (tick c1) + n < 2 ^ 64"
    using c1 blk room by simp_all
  note fD = implementsD [OF impl this(1) blk(2) this(2) f, simplified]
  have r2: "r2 = Ok v" using fD(1) g by simp
  from fD(4) [OF r2] g obtain b2 where b2: "se_block (view c2) = Some b2" "\<not> tx_aborted b2" "tx_db b2 = d" by auto
  obtain c3 where c3: "run (lit ''COMMIT'') c2 = (Ok (), c3)" "view c3 = snd (run_sql db (lit ''COMMIT'') [] (view c2))"
    using run_statement [OF ctl(2,4), of c2] by blast
  have "view c3 = \<lparr>se_db = d, se_block = None\<rparr>"
    using c3(2) b2 valid by (simp add: run_sql_def in_block_def done_as_def)
  then show ?thesis
    using c3(1) res r2 f c1(1) by (simp add: bracket_def)
qed

lemma nested_failure_commits:
  assumes impl: "implements view tick n f g" and idle: "se_block (view c) = None"
    and room: "unat (tick c) + n < 2 ^ 64" and g: "g (se_db (view c)) = (Ok v, d)" and valid: "da_deferred db d = None"
    and res: "bracket run (lit ''BEGIN'') (lit ''COMMIT'') (lit ''ROLLBACK'')
      (\<lambda>c. case bracket run (lit ''BEGIN'') (lit ''COMMIT'') (lit ''ROLLBACK'') f c of (_, c') \<Rightarrow> (Err e, c')) c = (r, c')"
  shows "r = Err e \<and> se_db (view c') = d"
proof -
  have ctl: "no_nul (lit ''BEGIN'')" "no_nul (lit ''ROLLBACK'')" "length (lit ''BEGIN'') < 2 ^ 20"
    "length (lit ''ROLLBACK'') < 2 ^ 20"
    by (simp_all add: lit_def no_nul_def)
  let ?b = "\<lparr>tx_db = se_db (view c), tx_saved = [], tx_aborted = False\<rparr>"
  obtain c1 where c1: "run (lit ''BEGIN'') c = (Ok (), c1)" "tick c1 = tick c"
    "view c1 = (view c)\<lparr>se_block := Some ?b\<rparr>"
    using run_statement [OF ctl(1,3), of c] idle by (auto simp: run_sql_def done_as_def)
  obtain r2 c2 where inner: "bracket run (lit ''BEGIN'') (lit ''COMMIT'') (lit ''ROLLBACK'') f c1 = (r2, c2)"
    by (cases "bracket run (lit ''BEGIN'') (lit ''COMMIT'') (lit ''ROLLBACK'') f c1") simp
  have "se_block (view c1) = Some ?b" "\<not> tx_aborted ?b" "unat (tick c1) + n < 2 ^ 64" "g (tx_db ?b) = (Ok v, d)"
    using c1 room g by simp_all
  from nested_commits [OF impl this valid inner] have v2: "view c2 = \<lparr>se_db = d, se_block = None\<rparr>" by simp
  obtain c3 where c3: "run (lit ''ROLLBACK'') c2 = (Ok (), c3)" "view c3 = snd (run_sql db (lit ''ROLLBACK'') [] (view c2))"
    using run_statement [OF ctl(2,4), of c2] by blast
  have "se_db (view c3) = d"
    using c3(2) v2 by (simp add: run_sql_def done_as_def)
  moreover have "(r, c') = (Err e, c3)"
    unfolding res [symmetric] bracket_def [of run _ _ _ "\<lambda>c. case bracket run (lit ''BEGIN'') (lit ''COMMIT'')
      (lit ''ROLLBACK'') f c of (_, c') \<Rightarrow> (Err e, c')"]
    using c1(1) inner c3(1) by simp
  ultimately show ?thesis by simp
qed

end

section \<open>The client on the server\<close>

definition process_session :: "'d server process \<Rightarrow> 'd session" where
  "process_session p = snd (snd (snd (snd p)))"

lemma query_sendable: "no_nul sql \<Longrightarrow> length sql < 2 ^ 20 \<Longrightarrow> \<forall>m \<in> set [Query sql]. sendable False m \<and> fits m"
  by (simp add: fits_def put_cstr_def)

lemma run_simple_session:
  assumes "no_nul sql" and "length sql < 2 ^ 20"
  shows "run_simple (session_net db) sql (k, (m, s, (sv, se)))
    = (Ok (), (k, (m, s, (sv, snd (run_sql db sql [] se)))))"
  using rd_all_encode [OF query_sendable [OF assms]]
  by (auto simp: run_simple_def on_client_def simple_query_def simple_query_on_conn_def submit_def wired_def
      split: prod.splits sum.splits)

interpretation client_session: sql_session "run_simple (session_net db)" process_session fst db
  for db :: "'d database"
proof unfold_locales
  fix sql :: rstring and p :: "'d server process"
  assume ok: "no_nul sql" "length sql < 2 ^ 20"
  obtain k m s sv se where p: "p = (k, (m, s, (sv, se)))" by (metis prod.collapse)
  show "fst (run_simple (session_net db) sql p) = Ok ()"
    "process_session (snd (run_simple (session_net db) sql p)) = snd (run_sql db sql [] (process_session p))"
    "fst (snd (run_simple (session_net db) sql p)) = fst p"
    by (simp_all add: p run_simple_session [OF ok] process_session_def)
qed

text \<open>C5: on a client outside a transaction, \<open>atomic\<close> refines the all-or-nothing run of its closure on the
  committed database: the result is the closure's, its effect is committed when it succeeds and nothing
  remains of it when it fails, and no block is left open, provided the deferred constraints of a
  successful result hold.\<close>

theorem atomic_all_or_nothing:
  assumes "implements process_session fst n f g" and "se_block (process_session p) = None"
    and "unat (fst p) + n < 2 ^ 64"
    and "\<forall>v d. g (se_db (process_session p)) = (Ok v, d) \<longrightarrow> da_deferred db d = None"
  shows "case atomic_client (session_net db) f p of (r, p') \<Rightarrow>
    (r, se_db (process_session p')) = atomically g (se_db (process_session p))
    \<and> (r \<noteq> Panic \<longrightarrow> se_block (process_session p') = None)"
proof -
  obtain r p' where "bracket (run_simple (session_net db)) (lit ''BEGIN'') (lit ''COMMIT'') (lit ''ROLLBACK'') f p = (r, p')"
    by (cases "bracket (run_simple (session_net db)) (lit ''BEGIN'') (lit ''COMMIT'') (lit ''ROLLBACK'') f p") simp
  from client_session.block_atomic [OF assms(1-3) _ this] assms(4) this show ?thesis
    unfolding atomic_client_def by (simp del: split_paired_All)
qed

text \<open>C14: inside a healthy transaction, \<open>atomic\<close> refines the same all-or-nothing run on the working copy, so
  savepoints nest: a closure made of further \<open>atomic\<close> blocks is again well-behaved, its failures undo its own
  work only, and the transaction stays usable.\<close>

theorem savepoints_nest:
  assumes "implements process_session fst n f g"
  shows "implements process_session fst (Suc n) (atomic_transaction (session_net db) f) (atomically g)
    \<and> (\<forall>p b. se_block (process_session p) = Some b \<longrightarrow> \<not> tx_aborted b \<longrightarrow> unat (fst p) + Suc n < 2 ^ 64 \<longrightarrow>
         (case atomic_transaction (session_net db) f p of (r, p') \<Rightarrow>
            r \<noteq> Panic \<longrightarrow> (\<exists>b'. se_block (process_session p') = Some b' \<and> \<not> tx_aborted b'
              \<and> (r, tx_db b') = atomically g (tx_db b))))"
proof -
  have "case atomic_transaction (session_net db) f p of (r, p') \<Rightarrow>
      r = fst (atomically g (tx_db b)) \<and> within (fst p) (process_session p) (fst p') (process_session p')
      \<and> unat (fst p') \<le> unat (fst p) + Suc n
      \<and> (r \<noteq> Panic \<longrightarrow> (\<exists>b'. se_block (process_session p') = Some b' \<and> \<not> tx_aborted b'
            \<and> tx_db b' = snd (atomically g (tx_db b))))"
    if "se_block (process_session p) = Some b" "\<not> tx_aborted b" "unat (fst p) + Suc n < 2 ^ 64" for p b
  proof -
    have "process_session (fst p + 1, snd p) = process_session p" "fst (fst p + 1, snd p) = fst p + 1"
      by (simp_all add: process_session_def)
    from client_session.savepoint_atomic [OF assms that(1,2) this that(3)] show ?thesis
      unfolding atomic_transaction_def Let_def by (simp split: prod.splits)
  qed
  then show ?thesis
    unfolding implements_def by (fastforce split: prod.splits)
qed

text \<open>An ordinary statement that the database always accepts is well-behaved.\<close>

lemma run_simple_implements:
  assumes "no_nul sql" and "length sql < 2 ^ 20" and "command_of sql = Ordinary sql"
    and "\<And>d. da_exec db sql [] d = Inr (out d, eff d)"
  shows "implements process_session fst 0 (run_simple (session_net db) sql) (\<lambda>d. (Ok (), eff d))"
  unfolding implements_def
proof (intro allI impI)
  fix p :: "'a server process" and b
  assume b: "se_block (process_session p) = Some b" "\<not> tx_aborted b"
  obtain k m s sv se where p: "p = (k, (m, s, (sv, se)))" by (metis prod.collapse)
  have "run_sql db sql [] se = (Inr (out (tx_db b)), se\<lparr>se_block := Some (b\<lparr>tx_db := eff (tx_db b)\<rparr>)\<rparr>)"
    using b assms(3,4) by (simp add: p process_session_def run_sql_def in_block_def)
  then show "case run_simple (session_net db) sql p of (r, c') \<Rightarrow>
      r = fst (Ok (), eff (tx_db b)) \<and> within (fst p) (process_session p) (fst c') (process_session c')
      \<and> unat (fst c') \<le> unat (fst p) + 0
      \<and> (is_ok r \<longrightarrow> (\<exists>b'. se_block (process_session c') = Some b' \<and> \<not> tx_aborted b'
            \<and> tx_db b' = snd (Ok (), eff (tx_db b))))"
    using b by (simp add: p run_simple_session [OF assms(1,2)] process_session_def within_def)
qed

text \<open>A database that counts updates; a closure that updates and then fails.\<close>

definition sample_db :: "nat database" where
  "sample_db = \<lparr>da_exec = (\<lambda>sql ps d. Inr (([], lit ''UPDATE 1''), d + 1)), da_deferred = (\<lambda>_. None)\<rparr>"

definition sample_update :: "nat server process \<Rightarrow> unit typed \<times> nat server process" where
  "sample_update = run_simple (session_net sample_db) (lit ''UPDATE t'')"

definition sample_failure :: "nat server process \<Rightarrow> unit typed \<times> nat server process" where
  "sample_failure = then_run sample_update (\<lambda>_ p. (Err (Config []), p))"

definition sample_process :: "nat server process" where
  "sample_process = (0, (metrics_zero, (async_new [], (Map.empty, \<lparr>se_db = 7, se_block = None\<rparr>))))"

lemma sample_update_implements: "implements process_session fst 0 sample_update (\<lambda>d. (Ok (), d + 1))"
  unfolding sample_update_def
  by (rule run_simple_implements)
    (simp_all add: sample_db_def lit_def no_nul_def command_of_def strip_prefix_def starts_with_def)

lemma sample_failure_implements:
  "implements process_session fst 0 sample_failure (then_run (\<lambda>d. (Ok (), d + 1)) (\<lambda>_ d. (Err (Config []), d)))"
  using implements_then [OF sample_update_implements implements_return] by (simp add: sample_failure_def)

theorem atomic_all_or_nothing_witness:
  "case atomic_client (session_net sample_db) sample_failure sample_process of (r, p') \<Rightarrow>
     r = Err (Config []) \<and> se_db (process_session p') = 7 \<and> se_block (process_session p') = None"
  using atomic_all_or_nothing [OF sample_failure_implements, of sample_process sample_db]
  by (auto simp: sample_process_def process_session_def then_run_def atomically_def split: prod.splits)

theorem savepoints_nest_witness:
  "implements process_session fst 1 (atomic_transaction (session_net sample_db) sample_failure)
     (atomically (then_run (\<lambda>d. (Ok (), d + 1)) (\<lambda>_ d. (Err (Config []), d))))"
  using savepoints_nest [OF sample_failure_implements, of sample_db] by simp

text \<open>Nested on the same client, \<open>atomic\<close> is not atomic: the inner \<open>COMMIT\<close> commits the outer block, whose
  failure then undoes nothing.\<close>

lemma nested_atomic_keeps_failure:
  assumes "implements process_session fst n f g" and "se_block (process_session p) = None"
    and "unat (fst p) + n < 2 ^ 64" and "g (se_db (process_session p)) = (Ok v, d)" and "da_deferred db d = None"
    and "atomic_client (session_net db)
      (\<lambda>p. case atomic_client (session_net db) f p of (_, p') \<Rightarrow> (Err e, p')) p = (r, p')"
  shows "r = Err e \<and> se_db (process_session p') = d"
  using client_session.nested_failure_commits [OF assms(1-5) assms(6) [unfolded atomic_client_def]] .

text \<open>A \<open>COMMIT\<close> that the server refuses is reported as success.\<close>

lemma refused_commit_unnoticed:
  assumes "bracket run opening closing undoing f c = (r, c')" and "run opening c = (Ok (), c1)" and "f c1 = (Ok v, c2)"
    and "run closing c2 = (Ok (), c3)"
  shows "r = Ok v"
  using assms by (simp add: bracket_def)

end
