(* ===== verification/Civil_Date.thy ===== *)
theory Civil_Date
  imports Rust_Str
begin

text \<open>
  The timestamp prefix of migration files, \<open>format_yyyymmddhhmmss\<close> of \<open>resolute/src/migrate.rs\<close>: the
  days since the epoch are turned into a civil date by arithmetic on eras of 400 years. The theorem
  compares it with a calendar that counts the days of years and months.
\<close>

section \<open>The code\<close>

text \<open>The values are far below the limits of their types: seconds below \<open>2 ^ 64\<close> give fewer than \<open>2 ^ 48\<close> days.\<close>

definition civil_from_days :: "nat \<Rightarrow> nat \<times> nat \<times> nat" where
  "civil_from_days days =
     (let z = days + 719468;
          era = z div 146097;
          doe = z - era * 146097;
          yoe = (doe - doe div 1460 + doe div 36524 - doe div 146096) div 365;
          y = yoe + era * 400;
          doy = doe - (365 * yoe + yoe div 4 - yoe div 100);
          mp = (5 * doy + 2) div 153;
          d = doy - (153 * mp + 2) div 5 + 1;
          m = (if mp < 10 then mp + 3 else mp - 9)
      in (y + (if m \<le> 2 then 1 else 0), m, d))"

definition pad_zero :: "nat \<Rightarrow> nat \<Rightarrow> bytes" where
  "pad_zero k n = (let s = decimal n in replicate (k - length s) 0x30 @ s)"

definition format_yyyymmddhhmmss :: "nat \<Rightarrow> rstring" where
  "format_yyyymmddhhmmss secs =
     (let tod = secs mod 86400; (year, m, d) = civil_from_days (secs div 86400)
      in pad_zero 4 year @ pad_zero 2 m @ pad_zero 2 d @ pad_zero 2 (tod div 3600)
         @ pad_zero 2 (tod mod 3600 div 60) @ pad_zero 2 (tod mod 60))"

section \<open>The calendar\<close>

definition leap :: "nat \<Rightarrow> bool" where
  "leap y \<longleftrightarrow> y mod 4 = 0 \<and> (y mod 100 \<noteq> 0 \<or> y mod 400 = 0)"

definition month_length :: "nat \<Rightarrow> nat \<Rightarrow> nat" where
  "month_length y m =
     (if m = 2 then (if leap y then 29 else 28) else if m \<in> {4, 6, 9, 11} then 30 else 31)"

definition days_before_year :: "nat \<Rightarrow> nat" where
  "days_before_year y = (\<Sum>i = 1970..<y. if leap i then 366 else 365)"

definition days_before_month :: "nat \<Rightarrow> nat \<Rightarrow> nat" where
  "days_before_month y m = (\<Sum>i = 1..<m. month_length y i)"

definition day_number :: "nat \<times> nat \<times> nat \<Rightarrow> nat" where
  "day_number t = (case t of (y, m, d) \<Rightarrow> days_before_year y + days_before_month y m + (d - 1))"

definition valid_date :: "nat \<times> nat \<times> nat \<Rightarrow> bool" where
  "valid_date t \<longleftrightarrow> (case t of (y, m, d) \<Rightarrow> 1970 \<le> y \<and> 1 \<le> m \<and> m \<le> 12 \<and> 1 \<le> d \<and> d \<le> month_length y m)"

section \<open>Counting leap years\<close>

lemma ceil_step:
  fixes k y :: nat
  assumes "0 < k"
  shows "(y + k) div k = (y + (k - 1)) div k + (if y mod k = 0 then 1 else 0)"
proof -
  obtain j where j: "k = Suc j" using assms by (cases k) simp_all
  have "Suc (y + j) mod Suc j = y mod Suc j"
    using mod_add_self2 [of y "Suc j"] by (simp del: mod_add_self2)
  with div_Suc [of "y + j" "Suc j"] show ?thesis by (simp add: j del: div_add_self2)
qed

lemma ceil_floor:
  fixes k y :: nat
  assumes "0 < k"
  shows "(y + (k - 1)) div k + (if y mod k = 0 then 1 else 0) = y div k + 1"
  using ceil_step [OF assms, of y] assms by (simp only: div_add_self2)

definition leaps_before :: "nat \<Rightarrow> nat" where
  "leaps_before y = (y + 3) div 4 + (y + 399) div 400 - (y + 99) div 100"

lemma centuries_le: "(y + 99) div 100 \<le> (y + 3) div 4" for y :: nat
proof -
  have "100 * ((y + 99) div 100) \<le> y + 99" by simp
  then have "(y + 99) div 100 * 4 \<le> y + 3" by (cases "(y + 99) div 100 = 0") linarith+
  then show ?thesis by (simp add: less_eq_div_iff_mult_less_eq)
qed

lemma leap_count: "y mod 400 = 0 \<Longrightarrow> y mod 100 = 0" "y mod 100 = 0 \<Longrightarrow> y mod 4 = 0" for y :: nat
  using mod_mod_cancel [of 100 400 y] mod_mod_cancel [of 4 100 y] by auto

lemma count_through:
  fixes a b c :: nat
  assumes "a + (if p then 1 else 0) = a' + 1" "c + (if q then 1 else 0) = c' + 1" "b + (if r then 1 else 0) = b' + 1"
    and "c \<le> a" "r \<Longrightarrow> q" "q \<Longrightarrow> p"
  shows "a + b - c + (if p \<and> (\<not> q \<or> r) then 1 else 0) + c' = a' + b' + 1"
  using assms by (cases p; cases q; cases r) simp_all

lemma count_next:
  fixes a b c :: nat
  assumes "a' = a + (if p then 1 else 0)" "c' = c + (if q then 1 else 0)" "b' = b + (if r then 1 else 0)"
    and "c \<le> a" "r \<Longrightarrow> q" "q \<Longrightarrow> p"
  shows "a' + b' - c' = a + b - c + (if p \<and> (\<not> q \<or> r) then 1 else 0)"
  using assms by (cases p; cases q; cases r) simp_all

lemma leaps_before_Suc: "leaps_before (Suc y) = leaps_before y + (if leap y then 1 else 0)"
proof -
  have "(Suc y + (k - 1)) div k = (y + (k - 1)) div k + (if y mod k = 0 then 1 else 0)" if "0 < k" for k
    using ceil_step [OF that, of y] that by (cases k) simp_all
  from this [of 4] this [of 100] this [of 400] have
    "(Suc y + 3) div 4 = (y + 3) div 4 + (if y mod 4 = 0 then 1 else 0)"
    "(Suc y + 99) div 100 = (y + 99) div 100 + (if y mod 100 = 0 then 1 else 0)"
    "(Suc y + 399) div 400 = (y + 399) div 400 + (if y mod 400 = 0 then 1 else 0)"
    by simp_all
  from count_next [OF this centuries_le leap_count] show ?thesis
    unfolding leaps_before_def leap_def .
qed

lemma days_before_year_closed: "1970 \<le> y \<Longrightarrow> days_before_year y + 719528 = 365 * y + leaps_before y"
proof (induction y rule: dec_induct)
  case base
  show ?case by (simp add: days_before_year_def leaps_before_def)
next
  case (step n)
  have "days_before_year (Suc n) = days_before_year n + (if leap n then 366 else 365)"
    using step(1) by (simp add: days_before_year_def)
  with step show ?case by (simp add: leaps_before_Suc)
qed

text \<open>Leap years before the March of \<open>y\<close>, counting \<open>y\<close> itself.\<close>

lemma leaps_through: "leaps_before y + (if leap y then 1 else 0) + y div 100 = y div 4 + y div 400 + 1"
proof -
  from ceil_floor [of 4 y] ceil_floor [of 100 y] ceil_floor [of 400 y] have
    "(y + 3) div 4 + (if y mod 4 = 0 then 1 else 0) = y div 4 + 1"
    "(y + 99) div 100 + (if y mod 100 = 0 then 1 else 0) = y div 100 + 1"
    "(y + 399) div 400 + (if y mod 400 = 0 then 1 else 0) = y div 400 + 1"
    by (simp_all del: One_nat_def)
  from count_through [OF this centuries_le leap_count] show ?thesis
    unfolding leaps_before_def leap_def .
qed

section \<open>The year of the era\<close>

text \<open>A day of an era of 400 years: its century, four-year cycle and day in the cycle; the last day of the era
  is a 1461st day that its short last cycle does not have otherwise.\<close>

lemma era_parts:
  assumes "doe < (146097 :: nat)"
  shows "\<exists>c q s. doe = 36524 * c + 1461 * q + s \<and> c \<le> 3 \<and> q \<le> 24 \<and> s \<le> 1460 \<and> (s = 1460 \<and> q = 24 \<longrightarrow> c = 3)"
proof (cases "doe = 146096")
  case True
  then show ?thesis by (intro exI [of _ 3] exI [of _ 24] exI [of _ 1460]) simp
next
  case False
  define c where "c = doe div 36524"
  define r where "r = doe mod 36524"
  define q where "q = r div 1461"
  define s where "s = r mod 1461"
  have doe: "doe = 36524 * c + r" "r < 36524" by (simp_all add: c_def r_def)
  have r: "r = 1461 * q + s" "s < 1461" by (simp_all add: q_def s_def)
  have "c \<le> 3" using doe assms False by linarith
  moreover have "q \<le> 24" using doe r by linarith
  moreover have "\<not> (s = 1460 \<and> q = 24)" using doe r by auto
  ultimately show ?thesis
    using doe r by (intro exI [of _ c] exI [of _ q] exI [of _ s]) auto
qed

definition year_in_era :: "nat \<Rightarrow> nat" where
  "year_in_era doe = (doe - doe div 1460 + doe div 36524 - doe div 146096) div 365"

lemma year_in_era_parts:
  assumes doe: "doe = 36524 * c + 1461 * q + s" "c \<le> 3" "q \<le> 24" "s \<le> 1460" "s = 1460 \<and> q = 24 \<longrightarrow> c = 3"
  shows "year_in_era doe = 100 * c + 4 * q + (if s = 1460 then 3 else s div 365)"
proof -
  define t where "t = (24 * c + q + s) div 1460"
  have t: "1460 * t \<le> 24 * c + q + s" "24 * c + q + s < 1460 * t + 1460"
    unfolding t_def using div_mult_mod_eq [of "24 * c + q + s" 1460] mod_less_divisor [of 1460 "24 * c + q + s"] by linarith+
  then have t1: "t \<le> 1" using doe by linarith
  have a: "doe div 1460 = 25 * c + q + t"
    using doe(1) t by (intro div_nat_eqI) simp_all
  have last: "doe div 36524 - doe div 146096 = c" "doe div 146096 \<le> doe div 36524"
  proof -
    have "doe div 36524 - doe div 146096 = c \<and> doe div 146096 \<le> doe div 36524"
    proof (cases "s = 1460 \<and> q = 24")
      case True
      then have "doe = 146096" using doe by simp
      then show ?thesis using True doe(5) by simp
    next
      case False
      then have "1461 * q + s < 36524" using doe by (cases "q = 24") auto
      then have "doe div 36524 = c" using doe(1) by (intro div_nat_eqI) simp_all
      moreover have "doe div 146096 = 0" using \<open>1461 * q + s < 36524\<close> doe(1,2) by simp
      ultimately show ?thesis by simp
    qed
    then show "doe div 36524 - doe div 146096 = c" "doe div 146096 \<le> doe div 36524" by auto
  qed
  have s: "t = 1 \<Longrightarrow> 1364 \<le> s" "s = 1460 \<Longrightarrow> t = 1" using doe t t1 by auto
  have "doe - doe div 1460 + doe div 36524 - doe div 146096 = doe - (25 * c + q + t) + c"
    using last unfolding a by linarith
  also have "\<dots> = 365 * (100 * c + 4 * q) + (s - t)"
    using doe(1) t1 s by (cases "t = 0") auto
  finally have "year_in_era doe = 100 * c + 4 * q + (s - t) div 365"
    by (simp add: year_in_era_def)
  moreover have "(s - t) div 365 = (if s = 1460 then 3 else s div 365)"
  proof (cases "t = 0")
    case False
    then have "t = 1" using t1 by simp
    then have "(s - t) div 365 = 3" using s(1) doe(4) by (intro div_nat_eqI) auto
    moreover have "s div 365 = 3" if "s \<noteq> 1460" using s(1) \<open>t = 1\<close> doe(4) that by (intro div_nat_eqI) auto
    ultimately show ?thesis by simp
  qed (use s in auto)
  ultimately show ?thesis by simp
qed

lemma year_of_era:
  assumes "doe < 146097"
  shows "\<exists>doy. doe + year_in_era doe div 100 = 365 * year_in_era doe + year_in_era doe div 4 + doy
    \<and> year_in_era doe \<le> 399 \<and> doy \<le> 365 \<and> (doy = 365 \<longrightarrow> leap (year_in_era doe + 1))"
proof -
  obtain c q s where p: "doe = 36524 * c + 1461 * q + s" "c \<le> 3" "q \<le> 24" "s \<le> 1460" "s = 1460 \<and> q = 24 \<longrightarrow> c = 3"
    using era_parts [OF assms] by blast
  define j where "j = (if s = 1460 then 3 else s div 365)"
  have y: "year_in_era doe = 100 * c + 4 * q + j" unfolding j_def by (rule year_in_era_parts [OF p])
  have j: "j \<le> 3" "365 * j \<le> s" "s \<le> 365 * j + 365" "s = 365 * j + 365 \<Longrightarrow> s = 1460 \<and> j = 3"
    using p(4) by (auto simp: j_def split: if_splits)
  have y4: "(100 * c + 4 * q + j) div 4 = 25 * c + q" using j(1) by (intro div_nat_eqI) simp_all
  have y100: "(100 * c + 4 * q + j) div 100 = c" using j(1) p(3) by (intro div_nat_eqI) simp_all
  have leap4: "leap (100 * c + 4 * q + 4)" if "s = 1460"
  proof (cases "q = 24")
    case True
    then show ?thesis using that p(5) by (simp add: leap_def)
  next
    case False
    then have "4 * q + 4 < 100" "0 < 4 * q + 4" using p(3) by auto
    then have "(100 * c + (4 * q + 4)) mod 100 \<noteq> 0" by (simp only: mod_mult_self4 mod_less)
    moreover have "(100 * c + 4 * q + 4) mod 4 = 0"
    proof -
      have "100 * c + 4 * q + 4 = 4 * (25 * c + q + 1)" by simp
      then show ?thesis by (metis mod_mult_self1_is_0)
    qed
    ultimately show ?thesis by (simp add: leap_def add.assoc)
  qed
  show ?thesis
    unfolding y y4 y100
  proof (intro exI [of _ "s - 365 * j"] conjI impI)
    show "doe + c = 365 * (100 * c + 4 * q + j) + (25 * c + q) + (s - 365 * j)"
      using p(1) j(2) by simp
    show "100 * c + 4 * q + j \<le> 399" "s - 365 * j \<le> 365" using p(2,3) j by simp_all
    assume "s - 365 * j = 365"
    then have "s = 365 * j + 365" using j(2) by simp
    then have "s = 1460" "j = 3" using j(4) by simp_all
    then show "leap (100 * c + 4 * q + j + 1)" using leap4 by (simp add: add.commute add.left_commute)
  qed
qed

section \<open>The month\<close>

lemma days_before_month_Suc: "1 \<le> m \<Longrightarrow> days_before_month y (Suc m) = days_before_month y m + month_length y m"
  by (simp add: days_before_month_def)

lemma days_before_month_1: "days_before_month y 1 = 0"
  by (simp add: days_before_month_def)

lemma days_before_months:
  "days_before_month y 2 = 31" "days_before_month y 3 = 59 + (if leap y then 1 else 0)"
  "mp \<le> 9 \<Longrightarrow> days_before_month y (mp + 3) = 59 + (if leap y then 1 else 0) + (153 * mp + 2) div 5"
proof -
  show two: "days_before_month y 2 = 31"
    using days_before_month_Suc [of 1 y] days_before_month_1 [of y] by (simp add: month_length_def numeral_2_eq_2)
  show three: "days_before_month y 3 = 59 + (if leap y then 1 else 0)"
    using days_before_month_Suc [of 2 y] two by (simp add: month_length_def numeral_3_eq_3)
  have next_month: "days_before_month y (k + 4) = days_before_month y (k + 3) + month_length y (k + 3)" for k
    using days_before_month_Suc [of "k + 3" y] by (simp add: numeral_eq_Suc)
  have ml: "month_length y 3 = 31" "month_length y 4 = 30" "month_length y 5 = 31" "month_length y 6 = 30"
    "month_length y 7 = 31" "month_length y 8 = 31" "month_length y 9 = 30" "month_length y 10 = 31" "month_length y 11 = 30"
    by (simp_all add: month_length_def)
  assume "mp \<le> 9"
  then have "mp \<in> {0, 1, 2, 3, 4, 5, 6, 7, 8, 9}" by (simp only: insert_iff empty_iff) presburger
  then show "days_before_month y (mp + 3) = 59 + (if leap y then 1 else 0) + (153 * mp + 2) div 5"
    using three next_month [of 0] next_month [of 1] next_month [of 2] next_month [of 3] next_month [of 4]
      next_month [of 5] next_month [of 6] next_month [of 7] next_month [of 8] ml
    by auto
qed

lemma month_length_march:
  "mp \<le> 9 \<Longrightarrow> month_length y (mp + 3) = (153 * (mp + 1) + 2) div 5 - (153 * mp + 2) div 5"
proof -
  assume "mp \<le> 9"
  then have "mp \<in> {0, 1, 2, 3, 4, 5, 6, 7, 8, 9}" by (simp only: insert_iff empty_iff) presburger
  then show ?thesis by (elim insertE emptyE) (simp_all add: month_length_def)
qed

lemma month_of_doy:
  fixes doy :: nat
  assumes "doy \<le> 365"
  defines "mp \<equiv> (5 * doy + 2) div 153"
  shows "mp \<le> 11" and "(153 * mp + 2) div 5 \<le> doy"
    and "mp \<le> 9 \<Longrightarrow> doy - (153 * mp + 2) div 5 + 1 \<le> month_length y (mp + 3)"
    and "mp = 10 \<Longrightarrow> doy - (153 * mp + 2) div 5 + 1 \<le> month_length y 1"
    and "mp = 11 \<Longrightarrow> doy < 365 \<or> leap y \<Longrightarrow> doy - (153 * mp + 2) div 5 + 1 \<le> month_length y 2"
proof -
  have m: "153 * mp \<le> 5 * doy + 2" "5 * doy + 2 < 153 * mp + 153"
    unfolding mp_def using div_mult_mod_eq [of "5 * doy + 2" 153] mod_less_divisor [of 153 "5 * doy + 2"] by linarith+
  then show "mp \<le> 11" using assms by linarith
  have "153 * mp + 2 < 5 * (doy + 1)" using m(1) by simp
  then have "(153 * mp + 2) div 5 < doy + 1" by (simp add: less_mult_imp_div_less mult.commute)
  then show first: "(153 * mp + 2) div 5 \<le> doy" by simp
  have "(doy + 1) * 5 \<le> 153 * (mp + 1) + 2" using m(2) by simp
  then have last: "doy + 1 \<le> (153 * (mp + 1) + 2) div 5" by (simp only: less_eq_div_iff_mult_less_eq zero_less_numeral)
  show "mp \<le> 9 \<Longrightarrow> doy - (153 * mp + 2) div 5 + 1 \<le> month_length y (mp + 3)"
    using first last by (simp only: month_length_march)
  show "mp = 10 \<Longrightarrow> doy - (153 * mp + 2) div 5 + 1 \<le> month_length y 1"
    using m(2) by (simp add: month_length_def)
  show "mp = 11 \<Longrightarrow> doy < 365 \<or> leap y \<Longrightarrow> doy - (153 * mp + 2) div 5 + 1 \<le> month_length y 2"
    using assms(1) by (cases "leap y") (auto simp: month_length_def)
qed

lemma leap_era: "leap (n + 400 * e) = leap n"
proof -
  have "n + 400 * e = n + 100 * (4 * e)" "n + 400 * e = n + 4 * (100 * e)" by simp_all
  then have "(n + 400 * e) mod 100 = n mod 100" "(n + 400 * e) mod 4 = n mod 4"
    by (metis mod_mult_self2)+
  then show ?thesis by (simp add: leap_def)
qed

text \<open>What the code computes for a day: the year \<open>Y\<close> that begins in March, the day of that year, the month
  counted from March and the day of the month.\<close>

lemma march_year_late:
  fixes Y :: nat
  assumes count: "365 * Y + Y div 4 + Y div 400 + doy = days + 719468 + Y div 100"
    and parts: "Y div 400 * 4 \<le> Y div 100" and "doy \<le> 365"
  shows "1970 \<le> Y \<or> 1969 = Y \<and> 306 \<le> doy"
proof (rule ccontr)
  assume "\<not> ?thesis"
  then consider "Y \<le> 1968" | "Y = 1969" "doy < 306" by linarith
  then show False
  proof cases
    case 1
    then have "Y div 4 \<le> 492" "Y div 400 \<le> 4" using div_le_mono [OF 1, of 4] div_le_mono [OF 1, of 400] by simp_all
    moreover have "719468 \<le> 365 * Y + Y div 4 + Y div 400 + doy - Y div 100" using count by simp
    moreover have "365 * Y + Y div 4 + 365 \<le> 365 * 1968 + 492 + 365" using 1 \<open>Y div 4 \<le> 492\<close> by linarith
    ultimately show False using assms(2,3) by linarith
  next
    case 2
    then show False using count by simp
  qed
qed

lemma civil_parts:
  obtains Y doy mp d where
    "civil_from_days days = (Y + (if (if mp < 10 then mp + 3 else mp - 9) \<le> 2 then 1 else 0), if mp < 10 then mp + 3 else mp - 9, d)"
    and "365 * Y + Y div 4 + Y div 400 + doy = days + 719468 + Y div 100" and "doy \<le> 365" and "doy = 365 \<longrightarrow> leap (Y + 1)"
    and "1970 \<le> Y \<or> 1969 = Y \<and> 306 \<le> doy"
    and "mp = (5 * doy + 2) div 153" and "d = doy - (153 * mp + 2) div 5 + 1"
proof -
  define z where "z = days + 719468"
  define era where "era = z div 146097"
  define doe where "doe = z - era * 146097"
  have z: "z = 146097 * era + doe" "doe < 146097"
    unfolding doe_def era_def using div_mult_mod_eq [of z 146097] mod_less_divisor [of 146097 z]
    by (simp_all add: minus_div_mult_eq_mod)
  define yoe where "yoe = year_in_era doe"
  obtain doy where doy: "doe + yoe div 100 = 365 * yoe + yoe div 4 + doy" "yoe \<le> 399" "doy \<le> 365"
    "doy = 365 \<longrightarrow> leap (yoe + 1)"
    using year_of_era [OF z(2)] unfolding yoe_def by blast
  define Y where "Y = yoe + era * 400"
  define mp where "mp = (5 * doy + 2) div 153"
  define d where "d = doy - (153 * mp + 2) div 5 + 1"
  have doy_eq: "doe - (365 * yoe + yoe div 4 - yoe div 100) = doy"
  proof -
    have "yoe div 100 \<le> yoe div 4" by (rule div_le_mono2) simp_all
    then show ?thesis using doy(1) by linarith
  qed
  have code: "civil_from_days days = (Y + (if (if mp < 10 then mp + 3 else mp - 9) \<le> 2 then 1 else 0),
      if mp < 10 then mp + 3 else mp - 9, d)"
    unfolding civil_from_days_def Let_def z_def [symmetric] era_def [symmetric] doe_def [symmetric]
      year_in_era_def [symmetric] yoe_def [symmetric] doy_eq mp_def [symmetric] d_def [symmetric] Y_def [symmetric] ..
  have parts: "Y div 4 = yoe div 4 + 100 * era" "Y div 100 = yoe div 100 + 4 * era" "Y div 400 = era"
    using doy(2) by (simp_all add: Y_def)
  have count: "365 * Y + Y div 4 + Y div 400 + doy = z + Y div 100"
    using doy(1) z(1) unfolding parts by (simp add: Y_def)
  have leap: "doy = 365 \<longrightarrow> leap (Y + 1)"
    using doy(4) leap_era [of "yoe + 1" era] by (simp add: Y_def algebra_simps)
  have count': "365 * Y + Y div 4 + Y div 400 + doy = days + 719468 + Y div 100" using count z_def by simp
  moreover have "Y div 400 * 4 \<le> Y div 100" unfolding parts(2,3) by simp
  ultimately show thesis
    using that [OF code _ doy(3) leap march_year_late [OF _ _ doy(3)] mp_def d_def] by simp
qed

text \<open>C34: the date that the code computes for a day since the epoch is a date of the calendar, and the
  calendar counts just as many days before it.\<close>

theorem civil_from_days_correct:
  "valid_date (civil_from_days days) \<and> day_number (civil_from_days days) = days"
proof -
  obtain Y doy mp d where
    code: "civil_from_days days = (Y + (if (if mp < 10 then mp + 3 else mp - 9) \<le> 2 then 1 else 0), if mp < 10 then mp + 3 else mp - 9, d)"
    and count: "365 * Y + Y div 4 + Y div 400 + doy = days + 719468 + Y div 100" and doy: "doy \<le> 365" "doy = 365 \<longrightarrow> leap (Y + 1)"
    and late: "1970 \<le> Y \<or> 1969 = Y \<and> 306 \<le> doy"
    and mp_def: "mp = (5 * doy + 2) div 153" and d_def: "d = doy - (153 * mp + 2) div 5 + 1"
    by (rule civil_parts)
  note month = month_of_doy [OF doy(1), folded mp_def, folded d_def]
  have d: "1 \<le> d" "doy + 1 = (153 * mp + 2) div 5 + d" using month(2) by (simp_all add: d_def)
  show ?thesis
  proof (cases "mp < 10")
    case True
    have "1970 \<le> Y"
    proof (rule ccontr)
      assume "\<not> 1970 \<le> Y"
      then have "306 \<le> doy" using late by simp
      then have "10 \<le> mp" unfolding mp_def by (simp add: less_eq_div_iff_mult_less_eq)
      with True show False by simp
    qed
    from days_before_year_closed [OF this] leaps_through [of Y]
    have "days_before_year Y + days_before_month Y (mp + 3) + (d - 1) = days"
      using True days_before_months(3) [of mp Y] count d by (cases "leap Y") simp_all
    moreover have "d \<le> month_length Y (mp + 3)" using month(3) True by simp
    ultimately show ?thesis
      using True \<open>1970 \<le> Y\<close> d(1) by (simp add: code valid_date_def day_number_def)
  next
    case False
    then have mp: "mp = 10 \<or> mp = 11" using month(1) by linarith
    have "1970 \<le> Y + 1" using late by linarith
    have through: "leaps_before (Y + 1) + Y div 100 = Y div 4 + Y div 400 + 1"
      using leaps_before_Suc [of Y] leaps_through [of Y] by (cases "leap Y") simp_all
    have "doy < 365 \<or> leap (Y + 1)" using doy by linarith
    then have "d \<le> month_length (Y + 1) (mp - 9)" using mp month(4,5) [of "Y + 1"] by auto
    moreover have "days_before_year (Y + 1) + days_before_month (Y + 1) (mp - 9) + (d - 1) = days"
      using mp days_before_year_closed [OF \<open>1970 \<le> Y + 1\<close>] through days_before_month_1 [of "Y + 1"]
        days_before_months(1) [of "Y + 1"] count d by auto
    ultimately show ?thesis
      using mp \<open>1970 \<le> Y + 1\<close> d(1) by (auto simp: code valid_date_def day_number_def)
  qed
qed

end
