(* ===== verification/Migrate.thy ===== *)
theory Migrate
  imports Executor Civil_Date Conn_String
begin

text \<open>
  \<open>resolute/src/migrate.rs\<close>: migrations from a directory, applied in the order of their versions. The
  files are the argument \<open>fs\<close>, the two calls that the code makes on a \<open>PgPipeline\<close> are the argument
  \<open>link\<close>, whose state includes the world. The theorems: on the server of theory \<open>Executor\<close>, a run is the
  reference that applies each pending migration together with its tracking row, all or nothing, and stops
  at the first failure; the name of a file cannot leave the string literal it is written into; and the
  files that \<open>create\<close> writes are read back by the scan.
\<close>

section \<open>The files\<close>

text \<open>A path is the directory and the name of an entry in it.\<close>

type_synonym path = "rstring \<times> bytes"

record migration =
  mg_version :: int
  mg_name :: rstring
  mg_up :: path
  mg_down :: path

record applied_migration =
  ap_version :: int
  ap_name :: rstring
  ap_at :: rstring

record files =
  fs_is_dir :: "rstring \<Rightarrow> bool"
  fs_entries :: "rstring \<Rightarrow> bytes option list option"
  fs_read :: "path \<Rightarrow> rstring option"
  fs_exists :: "path \<Rightarrow> bool"

text \<open>\<open>Path::with_extension\<close> on the name of a file.\<close>

definition file_stem :: "bytes \<Rightarrow> bytes" where
  "file_stem f = (case rsplit_once 0x2E f of Some (b, _) \<Rightarrow> if b = [] then f else b | None \<Rightarrow> f)"

definition with_extension :: "bytes \<Rightarrow> bytes \<Rightarrow> bytes" where
  "with_extension f ext = file_stem f @ (if ext = [] then [] else 0x2E # ext)"

definition scan_entry :: "rstring \<Rightarrow> bytes option \<Rightarrow> migration option typed" where
  "scan_entry dir entry =
     (case entry of
        None \<Rightarrow> Err IoFailed
      | Some file \<Rightarrow>
          let name = (case from_utf8 file of Some n \<Rightarrow> n | None \<Rightarrow> [])
          in if \<not> ends_with (lit ''.up.sql'') name then Ok None
             else
               let stem = take (length name - 7) name;
                   (version_str, mig_name) =
                     (case split_once 0x5F stem of Some p \<Rightarrow> p | None \<Rightarrow> (stem, lit ''unnamed''))
               in case parse_signed 64 version_str of
                    None \<Rightarrow> Err (Config (lit ''invalid migration filename (expected timestamp prefix): '' @ name))
                  | Some version \<Rightarrow>
                      Ok (Some \<lparr>mg_version = version, mg_name = mig_name, mg_up = (dir, file),
                                mg_down = (dir, with_extension (with_extension file []) (lit ''down.sql''))\<rparr>))"

definition scan_migrations :: "files \<Rightarrow> rstring \<Rightarrow> migration list typed" where
  "scan_migrations fs dir =
     (if \<not> fs_is_dir fs dir then Ok []
      else case fs_entries fs dir of
             None \<Rightarrow> Err IoFailed
           | Some es \<Rightarrow>
               and_then (traverse (scan_entry dir) es) (\<lambda>ms.
                 Ok (sort_key mg_version (List.map_filter id ms))))"

text \<open>The files of \<open>create\<close>, for a name without a slash.\<close>

definition create_files :: "bytes \<Rightarrow> rstring \<Rightarrow> (bytes \<times> rstring) \<times> (bytes \<times> rstring)" where
  "create_files ts name =
     (let base = ts @ 0x5F # name
      in ((with_extension base (lit ''up.sql''), lit ''-- Migration: '' @ name @ [0x0A]),
          (with_extension base (lit ''down.sql''), lit ''-- Revert: '' @ name @ [0x0A])))"

section \<open>The connection\<close>

text \<open>\<open>simple_query\<close> and the rows of \<open>simple_query_rows\<close>, with the conversion of their errors.\<close>

record 's pg_link =
  lk_simple :: "rstring \<Rightarrow> 's \<Rightarrow> unit typed \<times> 's"
  lk_rows :: "rstring \<Rightarrow> 's \<Rightarrow> raw_row list typed \<times> 's"
  lk_dial :: "rstring \<Rightarrow> rstring \<Rightarrow> rstring \<Rightarrow> rstring \<Rightarrow> 's \<Rightarrow> unit typed \<times> 's"

definition migrate_connect :: "'s pg_link \<Rightarrow> rstring \<Rightarrow> 's \<Rightarrow> unit typed \<times> 's" where
  "migrate_connect link url s =
     (case parse_connection_string url of
        None \<Rightarrow> (Err (Config (lit ''invalid database URL'')), s)
      | Some (user, password, host, port, database) \<Rightarrow>
          lk_dial link (host @ 0x3A # decimal port) user password database s)"

definition ensure_tracking_table :: "'s pg_link \<Rightarrow> 's \<Rightarrow> unit typed \<times> 's" where
  "ensure_tracking_table link = lk_simple link
     (lit ''CREATE TABLE IF NOT EXISTS _resolute_migrations (version BIGINT PRIMARY KEY, name TEXT NOT NULL, applied_at TIMESTAMPTZ NOT NULL DEFAULT now())'')"

definition cell_str :: "raw_row \<Rightarrow> nat \<Rightarrow> ('e, rstring option) res" where
  "cell_str row i = and_then (cell row i) (\<lambda>c. Ok (Option.bind c from_utf8))"

definition row_version :: "raw_row \<Rightarrow> int option typed" where
  "row_version row = and_then (cell_str row 0) (\<lambda>t. Ok (Option.bind t (parse_signed 64)))"

definition filter_rows :: "(raw_row \<Rightarrow> 'a option typed) \<Rightarrow> raw_row list \<Rightarrow> 'a list typed" where
  "filter_rows f rows = and_then (traverse f rows) (\<lambda>xs. Ok (List.map_filter id xs))"

definition applied_sql :: rstring where
  "applied_sql = lit ''SELECT version FROM _resolute_migrations ORDER BY version''"

definition read_applied_versions :: "'s pg_link \<Rightarrow> 's \<Rightarrow> int list typed \<times> 's" where
  "read_applied_versions link =
     then_run (lk_rows link applied_sql) (\<lambda>rows s. (filter_rows row_version rows, s))"

definition applied_row :: "raw_row \<Rightarrow> applied_migration option typed" where
  "applied_row row =
     and_then (row_version row) (\<lambda>v. case v of None \<Rightarrow> Ok None | Some v \<Rightarrow>
       and_then (cell_str row 1) (\<lambda>n. case n of None \<Rightarrow> Ok None | Some n \<Rightarrow>
         and_then (cell_str row 2) (\<lambda>t.
           Ok (map_option (\<lambda>t. \<lparr>ap_version = v, ap_name = n, ap_at = t\<rparr>) t))))"

definition read_applied :: "'s pg_link \<Rightarrow> 's \<Rightarrow> applied_migration list typed \<times> 's" where
  "read_applied link =
     then_run (lk_rows link (lit ''SELECT version, name, applied_at::text FROM _resolute_migrations ORDER BY version''))
       (\<lambda>rows s. (filter_rows applied_row rows, s))"

section \<open>Running and reverting\<close>

text \<open>The part that both share: the script and the statement that records it, in one transaction.\<close>

definition run_script :: "'s pg_link \<Rightarrow> rstring \<Rightarrow> rstring \<Rightarrow> 's \<Rightarrow> unit typed \<times> 's" where
  "run_script link sql record_sql =
     then_run (lk_simple link (lit ''BEGIN'')) (\<lambda>_.
       then_run (\<lambda>s. case lk_simple link sql s of
                       (Err e, s) \<Rightarrow> (case lk_simple link (lit ''ROLLBACK'') s of
                                        (Panic, s) \<Rightarrow> (Panic, s) | (_, s) \<Rightarrow> (Err e, s))
                     | p \<Rightarrow> p) (\<lambda>_.
         then_run (lk_simple link record_sql) (\<lambda>_. lk_simple link (lit ''COMMIT''))))"

definition escape_name :: "rstring \<Rightarrow> bytes" where
  "escape_name name = double_byte 0x27 (double_byte 0x5C name)"

definition insert_sql :: "migration \<Rightarrow> rstring" where
  "insert_sql m = lit ''INSERT INTO _resolute_migrations (version, name) VALUES ('' @ decimal_int (mg_version m)
     @ lit '', E'' @ 0x27 # escape_name (mg_name m) @ [0x27, 0x29]"

fun apply_pending :: "files \<Rightarrow> 's pg_link \<Rightarrow> int list \<Rightarrow> migration list \<Rightarrow> 's \<Rightarrow> migration list typed \<times> 's" where
  "apply_pending fs link applied [] s = (Ok [], s)"
| "apply_pending fs link applied (m # ms) s =
     (if mg_version m \<in> set applied then apply_pending fs link applied ms s
      else case fs_read fs (mg_up m) of
             None \<Rightarrow> (Err IoFailed, s)
           | Some sql \<Rightarrow>
               then_run (run_script link sql (insert_sql m)) (\<lambda>_.
                 then_run (apply_pending fs link applied ms) (\<lambda>rest s. (Ok (m # rest), s))) s)"

definition run_inner :: "files \<Rightarrow> 's pg_link \<Rightarrow> rstring \<Rightarrow> 's \<Rightarrow> migration list typed \<times> 's" where
  "run_inner fs link dir =
     then_run (read_applied_versions link) (\<lambda>applied s.
       case scan_migrations fs dir of
         Ok ms \<Rightarrow> apply_pending fs link applied ms s
       | Err e \<Rightarrow> (Err e, s)
       | Panic \<Rightarrow> (Panic, s))"

definition MIGRATION_LOCK_KEY :: int where "MIGRATION_LOCK_KEY = 0x7265736F6C757465"

definition lock_sql :: "string \<Rightarrow> rstring" where
  "lock_sql f = lit ''SELECT '' @ lit f @ lit ''('' @ decimal_int MIGRATION_LOCK_KEY @ lit '')''"

definition with_lock :: "'s pg_link \<Rightarrow> ('s \<Rightarrow> 'a typed \<times> 's) \<Rightarrow> 's \<Rightarrow> 'a typed \<times> 's" where
  "with_lock link body =
     then_run (lk_simple link (lock_sql ''pg_advisory_lock'')) (\<lambda>_ s.
       case body s of
         (Panic, s) \<Rightarrow> (Panic, s)
       | (r, s) \<Rightarrow> (case lk_simple link (lock_sql ''pg_advisory_unlock'') s of
                     (Panic, s) \<Rightarrow> (Panic, s) | (_, s) \<Rightarrow> (r, s)))"

definition migrate_run :: "files \<Rightarrow> 's pg_link \<Rightarrow> rstring \<Rightarrow> rstring \<Rightarrow> 's \<Rightarrow> migration list typed \<times> 's" where
  "migrate_run fs link url dir =
     then_run (migrate_connect link url) (\<lambda>_.
       with_lock link (then_run (ensure_tracking_table link) (\<lambda>_. run_inner fs link dir)))"

definition revert_row :: "raw_row \<Rightarrow> int typed" where
  "revert_row row = and_then (row_version row) (\<lambda>v. case v of
     Some v \<Rightarrow> and_then (cell_str row 1) (\<lambda>_. Ok v)
   | None \<Rightarrow> Err (Config (lit ''failed to parse migration version'')))"

definition delete_sql :: "int \<Rightarrow> rstring" where
  "delete_sql v = lit ''DELETE FROM _resolute_migrations WHERE version = '' @ decimal_int v"

definition shown :: "path \<Rightarrow> rstring" where
  "shown p = (if fst p = [] \<or> last (fst p) = 0x2F then fst p else fst p @ [0x2F]) @ utf8_lossy (snd p)"

definition revert_script :: "files \<Rightarrow> rstring \<Rightarrow> int \<Rightarrow> (migration \<times> rstring) typed" where
  "revert_script fs dir version =
     and_then (scan_migrations fs dir) (\<lambda>ms.
       case find (\<lambda>m. mg_version m = version) ms of
         None \<Rightarrow> Err (Config (lit ''no migration file found for version '' @ decimal_int version))
       | Some m \<Rightarrow>
           if \<not> fs_exists fs (mg_down m)
           then Err (Config (lit ''down migration missing: '' @ shown (mg_down m)))
           else case fs_read fs (mg_down m) of None \<Rightarrow> Err IoFailed | Some sql \<Rightarrow> Ok (m, sql))"

definition revert_inner :: "files \<Rightarrow> 's pg_link \<Rightarrow> rstring \<Rightarrow> 's \<Rightarrow> migration option typed \<times> 's" where
  "revert_inner fs link dir =
     then_run (lk_rows link (lit ''SELECT version, name FROM _resolute_migrations ORDER BY version DESC LIMIT 1''))
       (\<lambda>rows s. case rows of
          [] \<Rightarrow> (Ok None, s)
        | row # _ \<Rightarrow>
            (case and_then (revert_row row) (revert_script fs dir) of
               Ok (m, sql) \<Rightarrow>
                 then_run (run_script link sql (delete_sql (mg_version m))) (\<lambda>_ s. (Ok (Some m), s)) s
             | Err e \<Rightarrow> (Err e, s)
             | Panic \<Rightarrow> (Panic, s)))"

definition migrate_revert :: "files \<Rightarrow> 's pg_link \<Rightarrow> rstring \<Rightarrow> rstring \<Rightarrow> 's \<Rightarrow> migration option typed \<times> 's" where
  "migrate_revert fs link url dir =
     then_run (migrate_connect link url) (\<lambda>_.
       with_lock link (then_run (ensure_tracking_table link) (\<lambda>_. revert_inner fs link dir)))"

section \<open>Reports\<close>

text \<open>What \<open>status\<close>, \<open>info\<close> and \<open>validate\<close> share: the tracking table and the files.\<close>

definition with_tables ::
  "files \<Rightarrow> 's pg_link \<Rightarrow> ('s pg_link \<Rightarrow> 's \<Rightarrow> 'r typed \<times> 's) \<Rightarrow> ('r \<Rightarrow> migration list \<Rightarrow> 'a) \<Rightarrow> rstring \<Rightarrow> rstring \<Rightarrow> 's
     \<Rightarrow> 'a typed \<times> 's" where
  "with_tables fs link read_rows f url dir =
     then_run (migrate_connect link url) (\<lambda>_.
       then_run (ensure_tracking_table link) (\<lambda>_.
         then_run (read_rows link) (\<lambda>rows s. (and_then (scan_migrations fs dir) (\<lambda>ms. Ok (f rows ms)), s))))"

definition migrate_status where
  "migrate_status fs link = with_tables fs link read_applied (\<lambda>applied ms. (ms, applied))"

definition migrate_info where
  "migrate_info fs link =
     with_tables fs link read_applied_versions (\<lambda>applied. filter (\<lambda>m. mg_version m \<notin> set applied))"

record validate_report =
  vr_ok :: "applied_migration list"
  vr_mismatched :: "(applied_migration \<times> migration) list"
  vr_missing :: "applied_migration list"

definition is_clean :: "validate_report \<Rightarrow> bool" where
  "is_clean r \<longleftrightarrow> vr_mismatched r = [] \<and> vr_missing r = []"

definition report_row :: "files \<Rightarrow> migration list \<Rightarrow> applied_migration \<Rightarrow> validate_report \<Rightarrow> validate_report" where
  "report_row fs ms a r =
     (case find (\<lambda>m. mg_version m = ap_version a) ms of
        Some m \<Rightarrow>
          if mg_name m \<noteq> ap_name a then r\<lparr>vr_mismatched := vr_mismatched r @ [(a, m)]\<rparr>
          else if \<not> fs_exists fs (mg_up m) then r\<lparr>vr_missing := vr_missing r @ [a]\<rparr>
          else r\<lparr>vr_ok := vr_ok r @ [a]\<rparr>
      | None \<Rightarrow> r\<lparr>vr_missing := vr_missing r @ [a]\<rparr>)"

definition validate_rows :: "files \<Rightarrow> applied_migration list \<Rightarrow> migration list \<Rightarrow> validate_report" where
  "validate_rows fs applied ms = fold (report_row fs ms) applied \<lparr>vr_ok = [], vr_mismatched = [], vr_missing = []\<rparr>"

definition migrate_validate where
  "migrate_validate fs link = with_tables fs link read_applied (validate_rows fs)"

definition migrate_seed :: "files \<Rightarrow> 's pg_link \<Rightarrow> rstring \<Rightarrow> path \<Rightarrow> 's \<Rightarrow> unit typed \<times> 's" where
  "migrate_seed fs link url file s =
     (if \<not> fs_exists fs file then (Err (Config (lit ''seed file not found: '' @ shown file)), s)
      else case fs_read fs file of
             None \<Rightarrow> (Err IoFailed, s)
           | Some sql \<Rightarrow> then_run (migrate_connect link url) (\<lambda>_. lk_simple link sql) s)"

section \<open>Created files are scanned\<close>

lemma rsplit_once_append: "c \<notin> set ys \<Longrightarrow> rsplit_once c (xs @ c # ys) = Some (xs, ys)"
  using split_once_append [of c "rev ys" "rev xs"] by (simp add: rsplit_once_def)

lemma rsplit_once_None: "c \<notin> set xs \<Longrightarrow> rsplit_once c xs = None"
  by (simp add: rsplit_once_def split_once_def)

lemma file_stem_dot: "xs \<noteq> [] \<Longrightarrow> 0x2E \<notin> set ys \<Longrightarrow> file_stem (xs @ 0x2E # ys) = xs"
  by (simp add: file_stem_def rsplit_once_append)

lemma file_stem_no_dot: "0x2E \<notin> set xs \<Longrightarrow> file_stem xs = xs"
  by (simp add: file_stem_def rsplit_once_None)

lemma digits_val_bound: "list_all is_digit ds \<Longrightarrow> digits_val ds < 10 ^ length ds"
proof (induction ds rule: rev_induct)
  case (snoc c ds)
  have "digit_val c \<le> 9"
    using snoc.prems by (auto simp: is_digit_def digit_val_def word_le_nat_alt)
  with snoc show ?case by (simp add: digits_val_snoc)
qed (simp add: digits_val_def)

lemma parse_signed_digits:
  assumes "list_all is_digit ds" and "ds \<noteq> []" and "length ds \<le> 18"
  shows "parse_signed 64 ds = Some (int (digits_val ds))"
proof -
  have "digits_val ds < 10 ^ length ds" by (rule digits_val_bound [OF assms(1)])
  also have "(10 :: nat) ^ length ds \<le> 10 ^ 18" by (rule power_increasing [OF assms(3)]) simp
  finally have "digits_val ds < 2 ^ 63" by simp
  moreover have "is_digit c \<Longrightarrow> c \<noteq> 0x2D \<and> c \<noteq> 0x2B" for c
    by (auto simp: is_digit_def)
  then obtain c cs where "ds = c # cs" "c \<noteq> 0x2D" "c \<noteq> 0x2B"
    using assms(1,2) by (cases ds) auto
  ultimately show ?thesis
    using assms(1) by (simp add: parse_signed_def parse_unsigned_def)
qed

lemma digits_plain: "list_all is_digit ds \<Longrightarrow> 0x5F \<notin> set ds \<and> 0x2E \<notin> set ds \<and> utf8_valid ds"
  using le_less_trans [of _ "0x39 :: u8" "0x80"] by (fastforce simp: list_all_iff is_digit_def intro!: utf8_valid_ascii)

lemma up_file_stem:
  "ends_with (lit ''.up.sql'') (base @ lit ''.up.sql'')"
  "take (length (base @ lit ''.up.sql'') - 7) (base @ lit ''.up.sql'') = base"
  by (simp_all add: ends_with_def starts_with_def lit_def)

lemma down_of_up:
  "base \<noteq> [] \<Longrightarrow> with_extension (with_extension (base @ lit ''.up.sql'') []) (lit ''down.sql'') = base @ lit ''.down.sql''"
  using file_stem_dot [of "base @ lit ''.up''" "lit ''sql''"] file_stem_dot [of base "lit ''up''"]
  by (simp add: with_extension_def lit_def)

lemma scan_entry_up:
  assumes "list_all is_digit ts" and "ts \<noteq> []" and "length ts \<le> 18" and "utf8_valid name"
  shows "scan_entry dir (Some (ts @ 0x5F # name @ lit ''.up.sql''))
    = Ok (Some \<lparr>mg_version = int (digits_val ts), mg_name = name, mg_up = (dir, ts @ 0x5F # name @ lit ''.up.sql''),
                mg_down = (dir, ts @ 0x5F # name @ lit ''.down.sql'')\<rparr>)"
proof -
  have ok: "utf8_valid ((ts @ 0x5F # name) @ lit ''.up.sql'')"
    using digits_plain [OF assms(1)] assms(4) utf8_valid_append [of ts "0x5F # name @ lit ''.up.sql''"]
      utf8_valid_append [of "[0x5F]" "name @ lit ''.up.sql''"] utf8_valid_append [of name "lit ''.up.sql''"]
      utf8_valid_ascii [of "[0x5F]"] utf8_valid_ascii [of "lit ''.up.sql''"]
    by (simp add: lit_def)
  show ?thesis
    using ok up_file_stem [of "ts @ 0x5F # name"] down_of_up [of "ts @ 0x5F # name"]
      split_once_append [of "0x5F" ts name] digits_plain [OF assms(1)] parse_signed_digits [OF assms(1-3)]
    by (simp add: scan_entry_def from_utf8_def)
qed

lemma create_files_names:
  "list_all is_digit ts \<Longrightarrow> 0x2E \<notin> set name \<Longrightarrow>
    fst (fst (create_files ts name)) = ts @ 0x5F # name @ lit ''.up.sql''
    \<and> fst (snd (create_files ts name)) = ts @ 0x5F # name @ lit ''.down.sql''"
  using file_stem_no_dot [of "ts @ 0x5F # name"] digits_plain [of ts]
  by (simp add: create_files_def with_extension_def Let_def lit_def)

lemma format_digits: "list_all is_digit (format_yyyymmddhhmmss secs)"
  using decimal_digits by (auto simp: format_yyyymmddhhmmss_def pad_zero_def Let_def list_all_iff is_digit_def split: prod.splits)

text \<open>The pair of files that \<open>create\<close> writes at any second of the next millions of years is read back
  by the scan as one migration with the time as its version, the given name, and both files. The name has
  no dot (\<open>with_extension\<close> would take it for an extension) and no slash.\<close>

theorem created_migration_scans:
  assumes "length (format_yyyymmddhhmmss secs) \<le> 18" and "utf8_valid name" and "0x2E \<notin> set name" and "0x2F \<notin> set name"
  shows "scan_entry dir (Some (fst (fst (create_files (format_yyyymmddhhmmss secs) name))))
    = Ok (Some \<lparr>mg_version = int (digits_val (format_yyyymmddhhmmss secs)), mg_name = name,
                mg_up = (dir, fst (fst (create_files (format_yyyymmddhhmmss secs) name))),
                mg_down = (dir, fst (snd (create_files (format_yyyymmddhhmmss secs) name)))\<rparr>)"
proof -
  have "format_yyyymmddhhmmss secs \<noteq> []"
    by (simp add: format_yyyymmddhhmmss_def pad_zero_def Let_def split: prod.splits)
  then show ?thesis
    using scan_entry_up [OF format_digits _ assms(1,2)] create_files_names [OF format_digits assms(3)] by simp
qed

theorem created_migration_scans_witness:
  "scan_entry (lit ''m'') (Some (fst (fst (create_files (format_yyyymmddhhmmss 0) (lit ''init''))))) =
     Ok (Some \<lparr>mg_version = 19700101000000, mg_name = lit ''init'',
                mg_up = (lit ''m'', lit ''19700101000000_init.up.sql''), mg_down = (lit ''m'', lit ''19700101000000_init.down.sql'')\<rparr>)"
proof -
  have "decimal 0 = [0x30]" "decimal (Suc 0) = [0x31]" "decimal 1970 = [0x31, 0x39, 0x37, 0x30]"
    by (simp_all add: decimal.simps [of 0] decimal.simps [of "Suc 0"] decimal.simps [of 1970] decimal.simps [of 197]
      decimal.simps [of 19])
  moreover have "civil_from_days 0 = (1970, 1, 1)"
    unfolding civil_from_days_def by (simp only: Let_def) simp
  ultimately have t: "format_yyyymmddhhmmss 0 = lit ''19700101000000''"
    by (simp add: format_yyyymmddhhmmss_def pad_zero_def lit_def)
  show ?thesis
    using created_migration_scans [of 0 "lit ''init''" "lit ''m''"] create_files_names [OF format_digits, of "lit ''init''" 0]
    unfolding t by (simp add: lit_def utf8_valid_ascii digits_val_def digit_val_def)
qed

text \<open>A dot in the name cuts the name off.\<close>

lemma created_name_cut: "fst (fst (create_files (lit ''1'') (lit ''add.users''))) = lit ''1_add.up.sql''"
  by (simp add: create_files_def with_extension_def file_stem_def rsplit_once_def split_once_def lit_def)

section \<open>On a server\<close>

definition session_result :: "sql_result \<Rightarrow> raw_row list typed" where
  "session_result r = (case r of Inl e \<Rightarrow> Err (WireError (Pg e)) | Inr (rows, _) \<Rightarrow> Ok rows)"

definition session_link :: "'d database \<Rightarrow> 'd session pg_link" where
  "session_link db =
     \<lparr>lk_simple = (\<lambda>sql se. case run_sql db sql [] se of (r, se) \<Rightarrow> (and_then (session_result r) (\<lambda>_. Ok ()), se)),
      lk_rows = (\<lambda>sql se. case run_sql db sql [] se of (r, se) \<Rightarrow> (session_result r, se)),
      lk_dial = (\<lambda>_ _ _ _ se. (Ok (), se\<lparr>se_block := None\<rparr>))\<rparr>"

text \<open>The reference: scripts run on the database itself, all or nothing, and one failure ends the run.\<close>

definition run_on :: "'d database \<Rightarrow> rstring \<Rightarrow> 'd \<Rightarrow> unit typed \<times> 'd" where
  "run_on db sql d =
     (case da_exec db sql [] d of Inl e \<Rightarrow> (Err (WireError (Pg e)), d) | Inr (_, d') \<Rightarrow> (Ok (), d'))"

definition consistent :: "'d database \<Rightarrow> 'd \<Rightarrow> unit typed \<times> 'd" where
  "consistent db d = (case da_deferred db d of Some e \<Rightarrow> (Err (WireError (Pg e)), d) | None \<Rightarrow> (Ok (), d))"

definition script_spec :: "'d database \<Rightarrow> rstring \<Rightarrow> rstring \<Rightarrow> 'd \<Rightarrow> unit typed \<times> 'd" where
  "script_spec db sql record_sql =
     atomically (then_run (run_on db sql) (\<lambda>_. then_run (run_on db record_sql) (\<lambda>_. consistent db)))"

fun migrations_spec :: "files \<Rightarrow> 'd database \<Rightarrow> migration list \<Rightarrow> 'd \<Rightarrow> migration list typed \<times> 'd" where
  "migrations_spec fs db [] d = (Ok [], d)"
| "migrations_spec fs db (m # ms) d =
     (case fs_read fs (mg_up m) of
        None \<Rightarrow> (Err IoFailed, d)
      | Some sql \<Rightarrow>
          then_run (script_spec db sql (insert_sql m)) (\<lambda>_.
            then_run (migrations_spec fs db ms) (\<lambda>rest d. (Ok (m # rest), d))) d)"

lemma ordinary_sql:
  "command_of applied_sql = Ordinary applied_sql" "command_of (insert_sql m) = Ordinary (insert_sql m)"
  "command_of (delete_sql v) = Ordinary (delete_sql v)"
  by (simp_all add: command_of_def applied_sql_def insert_sql_def delete_sql_def strip_prefix_def starts_with_def lit_def)

lemma run_script_session:
  assumes "se_block se = None" and "command_of sql = Ordinary sql" and "command_of rec = Ordinary rec"
    and "run_script (session_link db) sql rec se = (r, se')"
  shows "(r, se_db se') = script_spec db sql rec (se_db se)" and "r = Ok v \<Longrightarrow> se_block se' = None"
  using assms
  by (auto simp: run_script_def session_link_def session_result_def run_sql_def in_block_def then_run_def
    script_spec_def atomically_def run_on_def consistent_def command_of_control done_as_def abort_block_def
    split: sum.splits option.splits prod.splits)

lemma apply_pending_session:
  assumes "se_block se = None"
    and "\<And>m sql. m \<in> set ms \<Longrightarrow> fs_read fs (mg_up m) = Some sql \<Longrightarrow> command_of sql = Ordinary sql"
    and "apply_pending fs (session_link db) applied ms se = (r, se')"
  shows "(r, se_db se') = migrations_spec fs db (filter (\<lambda>m. mg_version m \<notin> set applied) ms) (se_db se)"
  using assms
proof (induction ms arbitrary: se se' r)
  case Nil
  then show ?case by simp
next
  case (Cons m ms)
  have ordinary: "\<And>m' sql. m' \<in> set ms \<Longrightarrow> fs_read fs (mg_up m') = Some sql \<Longrightarrow> command_of sql = Ordinary sql"
    using Cons.prems(2) [OF list.set_intros(2)] by blast
  consider (known) "mg_version m \<in> set applied" | (unreadable) "mg_version m \<notin> set applied" "fs_read fs (mg_up m) = None"
    | (script) sql where "mg_version m \<notin> set applied" "fs_read fs (mg_up m) = Some sql" by auto
  then show ?case
  proof cases
    case known
    with Cons.IH [OF Cons.prems(1) ordinary] Cons.prems(3) show ?thesis by simp
  next
    case unreadable
    with Cons.prems(3) show ?thesis by auto
  next
    case (script sql)
    note sql = script(2)
    obtain r1 se1 where one: "run_script (session_link db) sql (insert_sql m) se = (r1, se1)" by (cases "run_script (session_link db) sql (insert_sql m) se") simp
    obtain r2 se2 where rest: "apply_pending fs (session_link db) applied ms se1 = (r2, se2)" by (cases "apply_pending fs (session_link db) applied ms se1") simp
    have step: "(r1, se_db se1) = script_spec db sql (insert_sql m) (se_db se)" "r1 = Ok () \<Longrightarrow> se_block se1 = None"
      using run_script_session [OF Cons.prems(1) _ ordinary_sql(2) one] Cons.prems(2) [of m sql] sql by auto
    have "r1 = Ok () \<Longrightarrow> migrations_spec fs db (filter (\<lambda>m. mg_version m \<notin> set applied) ms) (se_db se1) = (r2, se_db se2)"
      using Cons.IH [OF step(2) ordinary rest] by simp
    then show ?thesis
      using script one rest step(1) [symmetric] Cons.prems(3)
      by (cases r1; cases r2) (auto simp: then_run_def)
  qed
qed

text \<open>C10: a run on a server applies exactly the pending migrations, in the order of the scan, each one
  together with its row in the tracking table, all or nothing; the first failure ends the run with its
  error and leaves the database as the migrations before it made it. The files are assumed to contain no
  bare transaction command, and the tracking table to be readable.\<close>

theorem migrations_all_or_nothing:
  assumes "se_block se = None"
    and "da_exec db applied_sql [] (se_db se) = Inr ((rows, tag), se_db se)" and "da_deferred db (se_db se) = None"
    and "filter_rows row_version rows = Ok applied" and "scan_migrations fs dir = Ok ms"
    and "\<And>m sql. m \<in> set ms \<Longrightarrow> fs_read fs (mg_up m) = Some sql \<Longrightarrow> command_of sql = Ordinary sql"
    and "run_inner fs (session_link db) dir se = (r, se')"
  shows "(r, se_db se') = migrations_spec fs db (filter (\<lambda>m. mg_version m \<notin> set applied) ms) (se_db se)"
proof -
  have "read_applied_versions (session_link db) se = (Ok applied, se)"
    using assms(1-4) by (simp add: read_applied_versions_def session_link_def run_sql_def ordinary_sql session_result_def then_run_def)
  then have "apply_pending fs (session_link db) applied ms se = (r, se')"
    using assms(5,7) by (simp add: run_inner_def then_run_def)
  from apply_pending_session [OF assms(1,6) this] show ?thesis .
qed

text \<open>A run over two files, the second of which the server refuses: the first stays applied.\<close>

definition sample_files :: files where
  "sample_files =
     \<lparr>fs_is_dir = (\<lambda>d. d = lit ''m''),
      fs_entries = (\<lambda>d. Some [Some (lit ''20_b.up.sql''), Some (lit ''notes.txt''), Some (lit ''10_a.up.sql'')]),
      fs_read = (\<lambda>p. if snd p = lit ''20_b.up.sql'' then Some (lit ''bad'') else Some (lit ''good'')),
      fs_exists = (\<lambda>p. True)\<rparr>"

definition sample_tables :: "nat database" where
  "sample_tables =
     \<lparr>da_exec = (\<lambda>sql ps d. if sql = lit ''bad'' then Inl (server_error ''42601'')
        else if sql = applied_sql then Inr (([], []), d) else Inr (([], []), d + 1)),
      da_deferred = (\<lambda>d. None)\<rparr>"

lemma sample_entries:
  "scan_entry dir (Some (lit ''20_b.up.sql'')) =
     Ok (Some \<lparr>mg_version = 20, mg_name = lit ''b'', mg_up = (dir, lit ''20_b.up.sql''), mg_down = (dir, lit ''20_b.down.sql'')\<rparr>)"
  "scan_entry dir (Some (lit ''10_a.up.sql'')) =
     Ok (Some \<lparr>mg_version = 10, mg_name = lit ''a'', mg_up = (dir, lit ''10_a.up.sql''), mg_down = (dir, lit ''10_a.down.sql'')\<rparr>)"
  using scan_entry_up [of "lit ''20''" "lit ''b''" dir] scan_entry_up [of "lit ''10''" "lit ''a''" dir]
  by (simp_all add: lit_def is_digit_def digits_val_def digit_val_def utf8_valid_ascii)

lemma sample_other_entry: "scan_entry dir (Some (lit ''notes.txt'')) = Ok None"
  by (simp add: lit_def scan_entry_def ends_with_def starts_with_def from_utf8_def)

lemma sample_scan:
  "scan_migrations sample_files (lit ''m'') =
     Ok [\<lparr>mg_version = 10, mg_name = lit ''a'', mg_up = (lit ''m'', lit ''10_a.up.sql''), mg_down = (lit ''m'', lit ''10_a.down.sql'')\<rparr>,
         \<lparr>mg_version = 20, mg_name = lit ''b'', mg_up = (lit ''m'', lit ''20_b.up.sql''), mg_down = (lit ''m'', lit ''20_b.down.sql'')\<rparr>]"
  by (simp add: scan_migrations_def sample_files_def sample_entries sample_other_entry List.map_filter_def)

theorem migrations_all_or_nothing_witness:
  "fst (run_inner sample_files (session_link sample_tables) (lit ''m'') \<lparr>se_db = 0, se_block = None\<rparr>)
     = Err (WireError (Pg (server_error ''42601'')))
   \<and> se_db (snd (run_inner sample_files (session_link sample_tables) (lit ''m'') \<lparr>se_db = 0, se_block = None\<rparr>)) = 2"
proof -
  have ordinary: "command_of sql = Ordinary sql" if "fs_read sample_files p = Some sql" for p sql
    using that by (auto simp: sample_files_def command_of_def strip_prefix_def starts_with_def lit_def split: if_splits)
  show ?thesis
    using migrations_all_or_nothing
        [of "\<lparr>se_db = 0, se_block = None\<rparr>" sample_tables "[]" "[]" "[]" sample_files "lit ''m''", OF _ _ _ _ sample_scan ordinary]
    by (cases "run_inner sample_files (session_link sample_tables) (lit ''m'') \<lparr>se_db = 0, se_block = None\<rparr>")
      (simp add: sample_tables_def filter_rows_def sample_files_def script_spec_def run_on_def consistent_def then_run_def
        atomically_def applied_sql_def insert_sql_def lit_def List.map_filter_def)
qed

section \<open>Names in the tracking table\<close>

text \<open>The server's reading of an escape string after its opening quote: the value and what follows the
  closing quote. Of the backslash escapes only the two that the code writes are read.\<close>

fun e_string :: "bytes \<Rightarrow> (bytes \<times> bytes) option" where
  "e_string [] = None"
| "e_string (b # cs) =
     (if b = 0x27 then
        (case cs of
           c # cs' \<Rightarrow> if c = 0x27 then map_option (\<lambda>(v, r). (c # v, r)) (e_string cs') else Some ([], cs)
         | [] \<Rightarrow> Some ([], []))
      else if b = 0x5C then
        (case cs of
           c # cs' \<Rightarrow> if c = 0x27 \<or> c = 0x5C then map_option (\<lambda>(v, r). (c # v, r)) (e_string cs') else None
         | [] \<Rightarrow> None)
      else map_option (\<lambda>(v, r). (b # v, r)) (e_string cs))"

lemma escape_name_Cons:
  "escape_name [] = []"
  "escape_name (b # bs) =
     (if b = 0x5C then [0x5C, 0x5C] else if b = 0x27 then [0x27, 0x27] else [b]) @ escape_name bs"
  by (simp_all add: escape_name_def)

lemma e_string_escaped: "hd rest \<noteq> 0x27 \<Longrightarrow> rest \<noteq> [] \<Longrightarrow> e_string (escape_name name @ 0x27 # rest) = Some (name, rest)"
  by (induction name) (auto simp: escape_name_Cons split: list.splits)

definition insert_prefix :: "migration \<Rightarrow> bytes" where
  "insert_prefix m = lit ''INSERT INTO _resolute_migrations (version, name) VALUES ('' @ decimal_int (mg_version m)
     @ lit '', E'' @ [0x27]"

text \<open>Whatever the name of a migration file contains, the statement that records it is the fixed
  text, the version and one string literal whose value is that name, followed by the closing parenthesis.\<close>

theorem migration_name_quoted:
  "take (length (insert_prefix m)) (insert_sql m) = insert_prefix m
   \<and> e_string (drop (length (insert_prefix m)) (insert_sql m)) = Some (mg_name m, lit '')'')"
proof -
  have "insert_sql m = insert_prefix m @ escape_name (mg_name m) @ 0x27 # lit '')''"
    by (simp add: insert_sql_def insert_prefix_def lit_def)
  then show ?thesis by (simp add: e_string_escaped lit_def)
qed

section \<open>Reports and reverts\<close>

text \<open>Each applied row is in exactly one part of the report.\<close>

lemma report_rows_partition:
  "mset (vr_ok (fold (report_row fs ms) as r)) + mset (map fst (vr_mismatched (fold (report_row fs ms) as r)))
     + mset (vr_missing (fold (report_row fs ms) as r))
   = mset as + (mset (vr_ok r) + mset (map fst (vr_mismatched r)) + mset (vr_missing r))"
proof (induction as arbitrary: r)
  case (Cons a as)
  show ?case using Cons [of "report_row fs ms a r"] by (auto simp: report_row_def split: option.splits)
qed simp

lemma validate_rows_partition:
  "mset (vr_ok (validate_rows fs as ms)) + mset (map fst (vr_mismatched (validate_rows fs as ms)))
     + mset (vr_missing (validate_rows fs as ms)) = mset as"
  using report_rows_partition [of fs ms as "\<lparr>vr_ok = [], vr_mismatched = [], vr_missing = []\<rparr>"]
  by (simp add: validate_rows_def)

text \<open>When the tracking row is refused, the transaction is left open: the connection is unusable until it is
  closed, and the release of the lock fails.\<close>

lemma refused_record_leaves_block:
  assumes "se_block se = None" and "command_of sql = Ordinary sql" and "command_of rec = Ordinary rec"
    and "da_exec db sql [] (se_db se) = Inr (out, d)" and "da_exec db rec [] d = Inl e"
  shows "\<exists>b. run_script (session_link db) sql rec se = (Err (WireError (Pg e)), se\<lparr>se_block := Some b\<rparr>) \<and> tx_aborted b"
  using assms
  by (cases out) (auto simp: run_script_def session_link_def session_result_def run_sql_def in_block_def then_run_def
    command_of_control done_as_def abort_block_def split: sum.splits option.splits prod.splits)

end
