(* ===== verification/Queries.thy ===== *)
theory Queries
  imports Executor
begin

text \<open>
  Queries as values: the fluent builder of \<open>resolute/src/query_builder.rs\<close>, the checked and unchecked
  queries that the macros of \<open>resolute/src/checked.rs\<close> expand to, the oids that Rust types stand for
  (\<open>resolute/src/pg_type.rs\<close>) and the table of type information (\<open>resolute/src/types.rs\<close>). An executor is
  its two required methods. The theorems: a chain of binds is the positional or the named call with the
  same parameters, or the recorded misuse; and the oids of the Rust types are those of the type table.
\<close>

section \<open>The builder\<close>

datatype builder_params =
    NoParams
  | PosParams "sql_param list"
  | NamedParams "(rstring \<times> sql_param) list"
  | InvalidParams rstring

record query_builder =
  qb_sql :: rstring
  qb_params :: builder_params

definition sql_builder :: "rstring \<Rightarrow> query_builder" where
  "sql_builder sql = \<lparr>qb_sql = sql, qb_params = NoParams\<rparr>"

definition mixed_binds :: rstring where
  "mixed_binds = lit ''cannot mix bind() and bind_named() on the same QueryBuilder''"

definition bind_param :: "sql_param \<Rightarrow> query_builder \<Rightarrow> query_builder" where
  "bind_param v b = b\<lparr>qb_params :=
     (case qb_params b of
        NoParams \<Rightarrow> PosParams [v]
      | PosParams vs \<Rightarrow> PosParams (vs @ [v])
      | NamedParams _ \<Rightarrow> InvalidParams mixed_binds
      | InvalidParams msg \<Rightarrow> InvalidParams msg)\<rparr>"

definition bind_named :: "rstring \<Rightarrow> sql_param \<Rightarrow> query_builder \<Rightarrow> query_builder" where
  "bind_named n v b = b\<lparr>qb_params :=
     (case qb_params b of
        NoParams \<Rightarrow> NamedParams [(n, v)]
      | NamedParams vs \<Rightarrow> NamedParams (vs @ [(n, v)])
      | PosParams _ \<Rightarrow> InvalidParams mixed_binds
      | InvalidParams msg \<Rightarrow> InvalidParams msg)\<rparr>"

definition materialize :: "unicode \<Rightarrow> query_builder \<Rightarrow> (rstring \<times> sql_param list) typed" where
  "materialize u b =
     (case qb_params b of
        NoParams \<Rightarrow> Ok (qb_sql b, [])
      | PosParams vs \<Rightarrow> Ok (qb_sql b, vs)
      | NamedParams vs \<Rightarrow>
          (let (rewritten, names) = rewrite u (str_chars (qb_sql b))
           in and_then (resolve_named (map chars_str names) vs) (\<lambda>ordered. Ok (chars_str rewritten, ordered)))
      | InvalidParams msg \<Rightarrow> Err (Config msg))"

text \<open>The four terminators differ in the method of the executor only.\<close>

definition terminate :: "unicode \<Rightarrow> ('c, 'a) call \<Rightarrow> query_builder \<Rightarrow> 'c \<Rightarrow> 'a typed \<times> 'c" where
  "terminate u call b c =
     (case materialize u b of
        Ok (sql, ps) \<Rightarrow> call sql ps c
      | Err e \<Rightarrow> (Err e, c)
      | Panic \<Rightarrow> (Panic, c))"

record 'c executor =
  ex_query :: "('c, row list) call"
  ex_execute :: "('c, nat) call"

definition fetch_all :: "unicode \<Rightarrow> 'c executor \<Rightarrow> query_builder \<Rightarrow> 'c \<Rightarrow> row list typed \<times> 'c" where
  "fetch_all u ex = terminate u (ex_query ex)"

definition fetch_one :: "unicode \<Rightarrow> 'c executor \<Rightarrow> query_builder \<Rightarrow> 'c \<Rightarrow> row typed \<times> 'c" where
  "fetch_one u ex = terminate u (exec_query_one (ex_query ex))"

definition fetch_opt :: "unicode \<Rightarrow> 'c executor \<Rightarrow> query_builder \<Rightarrow> 'c \<Rightarrow> row option typed \<times> 'c" where
  "fetch_opt u ex = terminate u (exec_query_opt (ex_query ex))"

definition builder_execute :: "unicode \<Rightarrow> 'c executor \<Rightarrow> query_builder \<Rightarrow> 'c \<Rightarrow> nat typed \<times> 'c" where
  "builder_execute u ex = terminate u (ex_execute ex)"

section \<open>Checked queries\<close>

record 'a checked_query =
  cq_sql :: rstring
  cq_params :: "sql_param list"
  cq_mapper :: "row \<Rightarrow> 'a typed"

definition checked_fetch_all :: "'c executor \<Rightarrow> 'a checked_query \<Rightarrow> 'c \<Rightarrow> 'a list typed \<times> 'c" where
  "checked_fetch_all ex q =
     then_run (ex_query ex (cq_sql q) (cq_params q)) (\<lambda>rows c. (traverse (cq_mapper q) rows, c))"

definition checked_fetch_one :: "'c executor \<Rightarrow> 'a checked_query \<Rightarrow> 'c \<Rightarrow> 'a typed \<times> 'c" where
  "checked_fetch_one ex q =
     then_run (exec_query_one (ex_query ex) (cq_sql q) (cq_params q)) (\<lambda>row c. (cq_mapper q row, c))"

definition checked_fetch_opt :: "'c executor \<Rightarrow> 'a checked_query \<Rightarrow> 'c \<Rightarrow> 'a option typed \<times> 'c" where
  "checked_fetch_opt ex q =
     then_run (exec_query_opt (ex_query ex) (cq_sql q) (cq_params q)) (\<lambda>row c.
       (case row of Some r \<Rightarrow> and_then (cq_mapper q r) (\<lambda>a. Ok (Some a)) | None \<Rightarrow> Ok None, c))"

definition checked_execute :: "'c executor \<Rightarrow> 'a checked_query \<Rightarrow> 'c \<Rightarrow> nat typed \<times> 'c" where
  "checked_execute ex q = ex_execute ex (cq_sql q) (cq_params q)"

record unchecked_query =
  uq_sql :: rstring
  uq_params :: "sql_param list"

definition unchecked_fetch_all :: "'c executor \<Rightarrow> unchecked_query \<Rightarrow> 'c \<Rightarrow> row list typed \<times> 'c" where
  "unchecked_fetch_all ex q = ex_query ex (uq_sql q) (uq_params q)"

definition unchecked_fetch_one :: "'c executor \<Rightarrow> unchecked_query \<Rightarrow> 'c \<Rightarrow> row typed \<times> 'c" where
  "unchecked_fetch_one ex q = exec_query_one (ex_query ex) (uq_sql q) (uq_params q)"

definition unchecked_fetch_opt :: "'c executor \<Rightarrow> unchecked_query \<Rightarrow> 'c \<Rightarrow> row option typed \<times> 'c" where
  "unchecked_fetch_opt ex q = exec_query_opt (ex_query ex) (uq_sql q) (uq_params q)"

definition unchecked_execute :: "'c executor \<Rightarrow> unchecked_query \<Rightarrow> 'c \<Rightarrow> nat typed \<times> 'c" where
  "unchecked_execute ex q = ex_execute ex (uq_sql q) (uq_params q)"

text \<open>The executor of a client.\<close>

definition client_executor :: "'w transport \<Rightarrow> call_env \<Rightarrow> 'w client executor" where
  "client_executor net env = \<lparr>ex_query = client_query net env, ex_execute = client_execute net env\<rparr>"

section \<open>The three forms agree\<close>

datatype bound = ByPosition sql_param | ByName rstring sql_param

definition built :: "rstring \<Rightarrow> bound list \<Rightarrow> query_builder" where
  "built sql bs =
     foldl (\<lambda>b x. case x of ByPosition v \<Rightarrow> bind_param v b | ByName n v \<Rightarrow> bind_named n v b) (sql_builder sql) bs"

fun by_position :: "bound \<Rightarrow> bool" where "by_position (ByPosition _) = True" | "by_position (ByName _ _) = False"
fun bound_value :: "bound \<Rightarrow> sql_param" where "bound_value (ByPosition v) = v" | "bound_value (ByName _ v) = v"
fun bound_name :: "bound \<Rightarrow> rstring" where "bound_name (ByPosition _) = []" | "bound_name (ByName n _) = n"

lemma built_snoc:
  "built sql [] = sql_builder sql"
  "built sql (bs @ [ByPosition v]) = bind_param v (built sql bs)"
  "built sql (bs @ [ByName n v]) = bind_named n v (built sql bs)"
  by (simp_all add: built_def)

lemma built_params:
  "qb_sql (built sql bs) = sql \<and> qb_params (built sql bs) =
     (if bs = [] then NoParams
      else if list_all by_position bs then PosParams (map bound_value bs)
      else if list_all (\<lambda>b. \<not> by_position b) bs then NamedParams (map (\<lambda>b. (bound_name b, bound_value b)) bs)
      else InvalidParams mixed_binds)"
proof (induction bs rule: rev_induct)
  case (snoc b bs)
  have "\<not> (list_all by_position bs \<and> list_all (\<lambda>b. \<not> by_position b) bs)" if "bs \<noteq> []"
    using that by (cases bs) auto
  with snoc show ?case
    by (cases b) (auto simp: built_snoc bind_param_def bind_named_def)
qed (simp add: built_snoc sql_builder_def)

text \<open>How a call with the collected binds should go: positional, named, or refused without a call.\<close>

definition bound_call :: "unicode \<Rightarrow> ('c, 'a) call \<Rightarrow> rstring \<Rightarrow> bound list \<Rightarrow> 'c \<Rightarrow> 'a typed \<times> 'c" where
  "bound_call u call sql bs c =
     (if list_all by_position bs then call sql (map bound_value bs) c
      else if list_all (\<lambda>b. \<not> by_position b) bs
      then exec_named u call sql (map (\<lambda>b. (bound_name b, bound_value b)) bs) c
      else (Err (Config mixed_binds), c))"

lemma terminate_built: "terminate u call (built sql bs) c = bound_call u call sql bs c"
  using built_params [of sql bs]
  by (auto simp: terminate_def materialize_def bound_call_def exec_named_def split: prod.splits res.splits)

text \<open>Whatever is bound, in whatever order, each terminator of the builder is the positional call with
  the values in the order of the binds, or the named call with the same pairs, on the same executor; a
  chain that mixes the two is refused with the error of the misuse and the executor is not touched.\<close>

theorem builder_forms_agree:
  "fetch_all u ex (built sql bs) c = bound_call u (ex_query ex) sql bs c
   \<and> fetch_one u ex (built sql bs) c = bound_call u (exec_query_one (ex_query ex)) sql bs c
   \<and> fetch_opt u ex (built sql bs) c = bound_call u (exec_query_opt (ex_query ex)) sql bs c
   \<and> builder_execute u ex (built sql bs) c = bound_call u (ex_execute ex) sql bs c"
  by (simp add: fetch_all_def fetch_one_def fetch_opt_def builder_execute_def terminate_built)

section \<open>Oids of Rust types\<close>

datatype pg_scalar =
    PgBool | PgI16 | PgI32 | PgI64 | PgF32 | PgF64 | PgString | PgBytes | PgNumericType | PgInetType
  | PgNaiveDate | PgNaiveTime | PgNaiveDateTime | PgDateTimeUtc | PgUuid | PgJson

fun pg_oid :: "pg_scalar \<Rightarrow> u32" where
  "pg_oid PgBool = 16" | "pg_oid PgI16 = 21" | "pg_oid PgI32 = 23" | "pg_oid PgI64 = 20"
| "pg_oid PgF32 = 700" | "pg_oid PgF64 = 701" | "pg_oid PgString = 25" | "pg_oid PgBytes = 17"
| "pg_oid PgNumericType = 1700" | "pg_oid PgInetType = 869" | "pg_oid PgNaiveDate = 1082"
| "pg_oid PgNaiveTime = 1083" | "pg_oid PgNaiveDateTime = 1114" | "pg_oid PgDateTimeUtc = 1184"
| "pg_oid PgUuid = 2950" | "pg_oid PgJson = 3802"

fun pg_array_oid :: "pg_scalar \<Rightarrow> u32" where
  "pg_array_oid PgBool = 1000" | "pg_array_oid PgI16 = 1005" | "pg_array_oid PgI32 = 1007" | "pg_array_oid PgI64 = 1016"
| "pg_array_oid PgF32 = 1021" | "pg_array_oid PgF64 = 1022" | "pg_array_oid PgString = 1009" | "pg_array_oid PgBytes = 1001"
| "pg_array_oid PgNumericType = 1231" | "pg_array_oid PgInetType = 1041" | "pg_array_oid PgNaiveDate = 1182"
| "pg_array_oid PgNaiveTime = 1183" | "pg_array_oid PgNaiveDateTime = 1115" | "pg_array_oid PgDateTimeUtc = 1185"
| "pg_array_oid PgUuid = 2951" | "pg_array_oid PgJson = 3807"

text \<open>Vectors implement the trait too, except vectors of byte vectors.\<close>

definition vec_oids :: "pg_scalar \<Rightarrow> (u32 \<times> u32) option" where
  "vec_oids s = (if s = PgBytes then None else Some (pg_array_oid s, 0))"

text \<open>The type of the elements of an array type, by the names of the type table.\<close>

fun element_of :: "type_oid \<Rightarrow> type_oid option" where
  "element_of OidBoolArray = Some OidBool" | "element_of OidByteaArray = Some OidBytea"
| "element_of OidInt2Array = Some OidInt2" | "element_of OidInt4Array = Some OidInt4"
| "element_of OidTextArray = Some OidText" | "element_of OidVarcharArray = Some OidVarchar"
| "element_of OidInt8Array = Some OidInt8" | "element_of OidFloat4Array = Some OidFloat4"
| "element_of OidFloat8Array = Some OidFloat8" | "element_of OidInetArray = Some OidInet"
| "element_of OidTimestampArray = Some OidTimestamp" | "element_of OidDateArray = Some OidDate"
| "element_of OidTimeArray = Some OidTime" | "element_of OidTimestamptzArray = Some OidTimestamptz"
| "element_of OidNumericArray = Some OidNumeric" | "element_of OidUuidArray = Some OidUuid"
| "element_of OidJsonbArray = Some OidJsonb" | "element_of _ = None"

text \<open>The two tables agree: the array oid of a Rust type names the array of the type its oid names.\<close>

lemma pg_type_oids_agree:
  "\<exists>t a. from_u32 (pg_oid s) = Some t \<and> from_u32 (pg_array_oid s) = Some a \<and> element_of a = Some t"
  by (cases s) (simp_all add: from_u32_def oid_table_def)

section \<open>Type information\<close>

record type_info =
  ti_oid :: u32
  ti_name :: rstring
  ti_size :: int

definition type_infos :: "(u32 \<times> string \<times> int) list" where
  "type_infos =
     [(16, ''bool'', 1), (17, ''bytea'', - 1), (18, ''char'', 1), (19, ''name'', 64), (20, ''int8'', 8),
      (21, ''int2'', 2), (23, ''int4'', 4), (25, ''text'', - 1), (26, ''oid'', 4), (114, ''json'', - 1),
      (700, ''float4'', 4), (701, ''float8'', 8), (1043, ''varchar'', - 1), (1082, ''date'', 4), (1083, ''time'', 8),
      (1114, ''timestamp'', 8), (1184, ''timestamptz'', 8), (1186, ''interval'', 16), (2950, ''uuid'', 16),
      (3802, ''jsonb'', - 1)]"

definition type_info_of :: "u32 \<Rightarrow> type_info option" where
  "type_info_of oid = map_option (\<lambda>(n, k). \<lparr>ti_oid = oid, ti_name = lit n, ti_size = k\<rparr>) (map_of type_infos oid)"

definition rust_type_for_oid :: "u32 \<Rightarrow> rstring" where
  "rust_type_for_oid oid =
     (if oid = 16 then lit ''bool'' else if oid = 20 then lit ''i64'' else if oid = 21 then lit ''i16''
      else if oid = 23 then lit ''i32'' else if oid = 25 \<or> oid = 1043 then lit ''String''
      else if oid = 700 then lit ''f32'' else if oid = 701 then lit ''f64'' else if oid = 17 then lit ''Vec<u8>''
      else lit ''unknown'')"

text \<open>The sizes of the table are the sizes that the binary codecs write.\<close>

lemma type_sizes_match:
  "map_option ti_size (type_info_of (pg_oid PgI16)) = Some (int (length (be16 a)))"
  "map_option ti_size (type_info_of (pg_oid PgI32)) = Some (int (length (be32 b)))"
  "map_option ti_size (type_info_of (pg_oid PgI64)) = Some (int (length (be64 c)))"
  by (simp_all add: type_info_of_def type_infos_def)

end
