(* ===== verification/Listener.thy ===== *)
theory Listener
  imports Wire_Pipeline Rust_Str
begin

text \<open>
  \<open>resolute/src/listener.rs\<close>: the listener for notifications, on the \<open>PgPipeline\<close> of theory
  \<open>Wire_Pipeline\<close>. Opening a connection, sleeping and the random source are arguments that act on the
  state \<open>'w\<close> of the world. The loops that the code leaves unbounded are partial functions, so that a
  reconnect that never ends is \<open>None\<close>. The theorems: the channel list is what the server listens on after
  any sequence of commands; a reconnect returns as soon as one attempt succeeds, with every channel
  listened on again over the new connection; the pauses are bounded.
\<close>

section \<open>State\<close>

record notification =
  no_pid :: i32
  no_channel :: rstring
  no_payload :: rstring

datatype listener_event = Notified notification | Reconnected

record listener =
  ln_pipe :: pg_pipeline
  ln_channels :: "rstring list"

text \<open>\<open>WireConn::connect\<close> with the address and the credentials of the listener, \<open>random_range(0..=max)\<close> and
  \<open>sleep\<close> in milliseconds.\<close>

record 'w redial =
  rd_dial :: "'w \<Rightarrow> wire_conn awaited \<times> 'w"
  rd_draw :: "nat \<Rightarrow> 'w \<Rightarrow> nat \<times> 'w"
  rd_sleep :: "nat \<Rightarrow> 'w \<Rightarrow> 'w"

definition listener_connect :: "'w redial \<Rightarrow> 'w \<Rightarrow> listener awaited \<times> 'w" where
  "listener_connect env w =
     aw_then (rd_dial env w) (\<lambda>c w. (Some (Ok \<lparr>ln_pipe = pipeline_new c, ln_channels = []\<rparr>), w))"

section \<open>Channels\<close>

definition quote_ident :: "rstring \<Rightarrow> rstring" where
  "quote_ident ident = 0x22 # double_byte 0x22 ident @ [0x22]"

definition listen_sql :: "rstring \<Rightarrow> rstring" where "listen_sql ch = lit ''LISTEN '' @ quote_ident ch"

definition on_pipe :: "rstring \<Rightarrow> (rstring list \<Rightarrow> rstring list) \<Rightarrow> listener \<Rightarrow> unit awaited \<times> listener" where
  "on_pipe sql f l =
     (case pipeline_simple_query sql (ln_pipe l) of
        (Some (Ok _), p) \<Rightarrow> (Some (Ok ()), l\<lparr>ln_pipe := p, ln_channels := f (ln_channels l)\<rparr>)
      | (r, p) \<Rightarrow> (r, l\<lparr>ln_pipe := p\<rparr>))"

definition listen :: "rstring \<Rightarrow> listener \<Rightarrow> unit awaited \<times> listener" where
  "listen ch = on_pipe (listen_sql ch) (\<lambda>chs. if ch \<in> set chs then chs else chs @ [ch])"

definition unlisten :: "rstring \<Rightarrow> listener \<Rightarrow> unit awaited \<times> listener" where
  "unlisten ch = on_pipe (lit ''UNLISTEN '' @ quote_ident ch) (filter (\<lambda>c. c \<noteq> ch))"

definition unlisten_all :: "listener \<Rightarrow> unit awaited \<times> listener" where
  "unlisten_all = on_pipe (lit ''UNLISTEN *'') (\<lambda>_. [])"

section \<open>Reconnecting\<close>

definition jitter :: "'w redial \<Rightarrow> nat \<Rightarrow> 'w \<Rightarrow> nat \<times> 'w" where
  "jitter env max_ms w = (if max_ms = 0 then (0, w) else rd_draw env max_ms w)"

definition INITIAL_MS :: nat where "INITIAL_MS = 50"
definition MAX_MS :: nat where "MAX_MS = 30000"

definition next_delay :: "nat \<Rightarrow> nat" where "next_delay d = min (min (2 * d) (2 ^ 64 - 1)) MAX_MS"

text \<open>Listening again stops at the first channel that the server refuses.\<close>

fun relisten :: "rstring list \<Rightarrow> pg_pipeline \<Rightarrow> bool awaited \<times> pg_pipeline" where
  "relisten [] p = (Some (Ok True), p)"
| "relisten (ch # chs) p =
     (case pipeline_simple_query (listen_sql ch) p of
        (Some (Ok _), p) \<Rightarrow> relisten chs p
      | (Some (Err _), p) \<Rightarrow> (Some (Ok False), p)
      | (Some Panic, p) \<Rightarrow> (Some Panic, p)
      | (None, p) \<Rightarrow> (None, p))"

text \<open>One attempt: the pause, the connection, the channels. \<open>Ok None\<close> is a failure that is tried again.\<close>

definition attempt_now :: "'w redial \<Rightarrow> rstring list \<Rightarrow> 'w \<Rightarrow> pg_pipeline option awaited \<times> 'w" where
  "attempt_now env chs w =
     (case rd_dial env w of
        (Some (Ok c), w) \<Rightarrow>
          (case relisten chs (pipeline_new c) of
             (Some (Ok True), p) \<Rightarrow> (Some (Ok (Some p)), w)
           | (Some Panic, p) \<Rightarrow> (Some Panic, w)
           | (None, p) \<Rightarrow> (None, w)
           | _ \<Rightarrow> (Some (Ok None), w))
      | (Some (Err _), w) \<Rightarrow> (Some (Ok None), w)
      | (Some Panic, w) \<Rightarrow> (Some Panic, w)
      | (None, w) \<Rightarrow> (None, w))"

definition after_pause :: "'w redial \<Rightarrow> nat \<Rightarrow> 'w \<Rightarrow> 'w" where
  "after_pause env delay w = (case jitter env delay w of (ms, w) \<Rightarrow> rd_sleep env ms w)"

partial_function (option) reconnect_loop ::
  "'w redial \<Rightarrow> rstring list \<Rightarrow> nat \<Rightarrow> 'w \<Rightarrow> (pg_pipeline awaited \<times> 'w) option" where
  "reconnect_loop env chs delay w =
     (case attempt_now env chs (after_pause env delay w) of
        (Some (Ok None), w) \<Rightarrow> reconnect_loop env chs (next_delay delay) w
      | (Some (Ok (Some p)), w) \<Rightarrow> Some (Some (Ok p), w)
      | (Some (Err e), w) \<Rightarrow> Some (Some (Err e), w)
      | (Some Panic, w) \<Rightarrow> Some (Some Panic, w)
      | (None, w) \<Rightarrow> Some (None, w))"

definition reconnect_with_backoff ::
  "'w redial \<Rightarrow> rstring list \<Rightarrow> 'w \<Rightarrow> (pg_pipeline awaited \<times> 'w) option" where
  "reconnect_with_backoff env chs w = reconnect_loop env chs INITIAL_MS w"

section \<open>Receiving\<close>

fun is_disconnect :: "wire_error \<Rightarrow> bool" where
  "is_disconnect ConnectionClosed \<longleftrightarrow> True"
| "is_disconnect (Io k) \<longleftrightarrow>
     k \<in> {UnexpectedEof, BrokenPipe, ConnectionReset, ConnectionAborted, NotConnected, IoTimedOut}"
| "is_disconnect _ \<longleftrightarrow> False"

fun notification_step :: "unit \<Rightarrow> backend_msg \<Rightarrow> unit \<times> notification option" where
  "notification_step _ (NotificationResponse pid channel payload) =
     ((), Some \<lparr>no_pid = pid, no_channel = channel, no_payload = payload\<rparr>)"
| "notification_step _ _ = ((), None)"

definition recv_event :: "'w redial \<Rightarrow> listener \<times> 'w \<Rightarrow> (listener_event awaited \<times> listener \<times> 'w) option" where
  "recv_event env lw =
     (case lw of (l, w) \<Rightarrow>
        case on_conn (conn_loop notification_step ()) (ln_pipe l) of
          (Some (Ok n), p) \<Rightarrow> Some (Some (Ok (Notified n)), l\<lparr>ln_pipe := p\<rparr>, w)
        | (Some (Err e), p) \<Rightarrow>
            if is_disconnect e then
              (case reconnect_with_backoff env (ln_channels l) w of
                 None \<Rightarrow> None
               | Some (Some (Ok p'), w) \<Rightarrow> Some (Some (Ok Reconnected), l\<lparr>ln_pipe := p'\<rparr>, w)
               | Some (Some (Err e), w) \<Rightarrow> Some (Some (Err e), l\<lparr>ln_pipe := p\<rparr>, w)
               | Some (Some Panic, w) \<Rightarrow> Some (Some Panic, l\<lparr>ln_pipe := p\<rparr>, w)
               | Some (None, w) \<Rightarrow> Some (None, l\<lparr>ln_pipe := p\<rparr>, w))
            else Some (Some (Err e), l\<lparr>ln_pipe := p\<rparr>, w)
        | (Some Panic, p) \<Rightarrow> Some (Some Panic, l\<lparr>ln_pipe := p\<rparr>, w)
        | (None, p) \<Rightarrow> Some (None, l\<lparr>ln_pipe := p\<rparr>, w))"

partial_function (option) listener_recv ::
  "'w redial \<Rightarrow> listener \<times> 'w \<Rightarrow> (notification awaited \<times> listener \<times> 'w) option" where
  "listener_recv env lw =
     (case recv_event env lw of
        None \<Rightarrow> None
      | Some (r, lw) \<Rightarrow>
          (case r of
             Some (Ok (Notified n)) \<Rightarrow> Some (Some (Ok n), lw)
           | Some (Ok Reconnected) \<Rightarrow> listener_recv env lw
           | Some (Err e) \<Rightarrow> Some (Some (Err e), lw)
           | Some Panic \<Rightarrow> Some (Some Panic, lw)
           | None \<Rightarrow> Some (None, lw)))"

section \<open>What a command leaves behind\<close>

text \<open>A quoted channel is one identifier, whatever it contains.\<close>

lemma quote_ident_reads: "quoted_read 0x22 (tl (quote_ident ch)) = Some (ch, [])"
  using quoted_read_double [of "[]" "0x22" ch] by (simp add: quote_ident_def)

datatype channel_op = Listen rstring | Unlisten rstring | UnlistenAll

fun run_op :: "channel_op \<Rightarrow> listener \<Rightarrow> unit awaited \<times> listener" where
  "run_op (Listen ch) = listen ch"
| "run_op (Unlisten ch) = unlisten ch"
| "run_op UnlistenAll = unlisten_all"

definition run_ops :: "channel_op list \<Rightarrow> listener \<Rightarrow> listener" where
  "run_ops ops l = foldl (\<lambda>l op. snd (run_op op l)) l ops"

text \<open>The channels of the session: a command counts when its reply has no error.\<close>

fun op_effect :: "channel_op \<Rightarrow> rstring set \<Rightarrow> rstring set" where
  "op_effect (Listen ch) S = insert ch S"
| "op_effect (Unlisten ch) S = S - {ch}"
| "op_effect UnlistenAll S = {}"

definition server_channels :: "(channel_op \<times> backend_msg list) list \<Rightarrow> rstring set \<Rightarrow> rstring set" where
  "server_channels oms S = foldl (\<lambda>S (op, ms). if first_error ms = None then op_effect op S else S) S oms"

lemma on_pipe_takes:
  assumes "holds_replies (ln_pipe l) (ms # replies) tail" and "wc_faults (pp_conn (ln_pipe l)) = []"
  shows "\<exists>p'. on_pipe sql f l = (Some (case first_error ms of None \<Rightarrow> Ok () | Some e \<Rightarrow> Err (Pg e)),
      l\<lparr>ln_pipe := p', ln_channels := if first_error ms = None then f (ln_channels l) else ln_channels l\<rparr>)
    \<and> holds_replies p' replies tail \<and> wc_faults (pp_conn p') = []"
proof -
  obtain p' where "pipeline_simple_query sql (ln_pipe l) = (Some (case first_error ms of None \<Rightarrow> Ok () | Some e \<Rightarrow> Err (Pg e)), p')"
    "holds_replies p' replies tail" "wc_faults (pp_conn p') = []"
    using simple_query_reports [OF assms] by blast
  then show ?thesis by (cases "first_error ms") (auto simp: on_pipe_def)
qed

lemma run_op_on_pipe:
  "\<exists>sql f. run_op op = on_pipe sql f \<and> (\<forall>chs. distinct chs \<longrightarrow> distinct (f chs) \<and> set (f chs) = op_effect op (set chs))"
proof (cases op)
  case (Listen ch)
  then show ?thesis
    by (intro exI [of _ "listen_sql ch"] exI [of _ "\<lambda>chs. if ch \<in> set chs then chs else chs @ [ch]"])
      (auto simp: listen_def fun_eq_iff)
next
  case (Unlisten ch)
  then show ?thesis
    by (intro exI [of _ "lit ''UNLISTEN '' @ quote_ident ch"] exI [of _ "filter (\<lambda>c. c \<noteq> ch)"])
      (auto simp: unlisten_def fun_eq_iff)
next
  case UnlistenAll
  then show ?thesis
    by (intro exI [of _ "lit ''UNLISTEN *''"] exI [of _ "\<lambda>_. []"]) (auto simp: unlisten_all_def fun_eq_iff)
qed

lemma run_op_tracks:
  assumes "holds_replies (ln_pipe l) (ms # replies) tail" and "wc_faults (pp_conn (ln_pipe l)) = []"
    and "distinct (ln_channels l)" and "run_op op l = (r, l')"
  shows "distinct (ln_channels l')"
    and "set (ln_channels l') = (if first_error ms = None then op_effect op (set (ln_channels l)) else set (ln_channels l))"
    and "holds_replies (ln_pipe l') replies tail" and "wc_faults (pp_conn (ln_pipe l')) = []"
proof -
  obtain sql f where f: "run_op op = on_pipe sql f"
    "\<And>chs. distinct chs \<Longrightarrow> distinct (f chs) \<and> set (f chs) = op_effect op (set chs)"
    using run_op_on_pipe [of op] by blast
  with on_pipe_takes [OF assms(1,2), of sql f] assms(3,4)
  show "distinct (ln_channels l')"
    "set (ln_channels l') = (if first_error ms = None then op_effect op (set (ln_channels l)) else set (ln_channels l))"
    "holds_replies (ln_pipe l') replies tail" "wc_faults (pp_conn (ln_pipe l')) = []"
    by auto
qed

text \<open>After any sequence of subscriptions and cancellations the channel list has no duplicates and
  holds exactly the channels that the server listens on, refused commands included.\<close>

theorem channels_tracked:
  assumes "holds_replies (ln_pipe l) replies tail" and "wc_faults (pp_conn (ln_pipe l)) = []"
    and "distinct (ln_channels l)" and "length replies = length ops"
  shows "distinct (ln_channels (run_ops ops l))
    \<and> set (ln_channels (run_ops ops l)) = server_channels (zip ops replies) (set (ln_channels l))"
  using assms
proof (induction ops arbitrary: l replies)
  case Nil
  then show ?case by (simp add: run_ops_def server_channels_def)
next
  case (Cons op ops)
  then obtain ms rest where replies: "replies = ms # rest" by (cases replies) auto
  obtain r l' where op: "run_op op l = (r, l')" by (cases "run_op op l") simp
  note tracks = run_op_tracks [OF Cons.prems(1) [unfolded replies] Cons.prems(2,3) op]
  have "length rest = length ops" using Cons.prems(4) replies by simp
  from Cons.IH [OF tracks(3,4,1) this] tracks(2) op replies show ?case
    by (simp add: run_ops_def server_channels_def)
qed

section \<open>Reconnecting ends\<close>

text \<open>The pause and the world of each attempt.\<close>

fun delay_at :: "nat \<Rightarrow> nat" where
  "delay_at 0 = INITIAL_MS" | "delay_at (Suc k) = next_delay (delay_at k)"

fun redial_state :: "'w redial \<Rightarrow> rstring list \<Rightarrow> 'w \<Rightarrow> nat \<Rightarrow> 'w" where
  "redial_state env chs w 0 = w"
| "redial_state env chs w (Suc k) =
     snd (attempt_now env chs (after_pause env (delay_at k) (redial_state env chs w k)))"

definition redial_before :: "'w redial \<Rightarrow> rstring list \<Rightarrow> 'w \<Rightarrow> nat \<Rightarrow> 'w" where
  "redial_before env chs w k = after_pause env (delay_at k) (redial_state env chs w k)"

lemma delay_at_closed: "delay_at k = min (50 * 2 ^ k) 30000"
proof (induction k)
  case (Suc k)
  then show ?case by (auto simp: next_delay_def MAX_MS_def min_def)
qed (simp add: INITIAL_MS_def)

lemma reconnect_loop_after:
  "(\<And>j. j < k \<Longrightarrow> fst (attempt_now env chs (redial_before env chs w j)) = Some (Ok None)) \<Longrightarrow>
   reconnect_with_backoff env chs w = reconnect_loop env chs (delay_at k) (redial_state env chs w k)"
proof (induction k)
  case (Suc k)
  obtain w' where "attempt_now env chs (redial_before env chs w k) = (Some (Ok None), w')"
    using Suc.prems [of k] by (cases "attempt_now env chs (redial_before env chs w k)") simp
  with Suc show ?case
    using reconnect_loop.simps [of env chs "delay_at k" "redial_state env chs w k"] by (simp add: redial_before_def)
qed (simp add: reconnect_with_backoff_def)

lemma relisten_all:
  "holds_replies p (replies @ later) tail \<Longrightarrow> wc_faults (pp_conn p) = [] \<Longrightarrow> length replies = length chs \<Longrightarrow>
   list_all (\<lambda>ms. first_error ms = None) replies \<Longrightarrow>
   \<exists>p'. relisten chs p = (Some (Ok True), p') \<and> holds_replies p' later tail
     \<and> wc_sent (pp_conn p') = wc_sent (pp_conn p) @ concat (map (\<lambda>ch. encode_message (Query (listen_sql ch)) []) chs)"
proof (induction chs arbitrary: p replies)
  case (Cons ch chs)
  then obtain ms rest where r: "replies = ms # rest" "first_error ms = None" "length rest = length chs"
    "list_all (\<lambda>ms. first_error ms = None) rest" by (cases replies) auto
  obtain p1 where p1: "pipeline_simple_query (listen_sql ch) p = (Some (Ok ()), p1)" "holds_replies p1 (rest @ later) tail"
    "wc_faults (pp_conn p1) = []" "wc_sent (pp_conn p1) = wc_sent (pp_conn p) @ encode_message (Query (listen_sql ch)) []"
    using simple_query_reports [of p ms "rest @ later" tail "listen_sql ch"] Cons.prems(1,2) r(1,2) by auto
  obtain p2 where "relisten chs p1 = (Some (Ok True), p2)" "holds_replies p2 later tail"
    "wc_sent (pp_conn p2) = wc_sent (pp_conn p1) @ concat (map (\<lambda>ch. encode_message (Query (listen_sql ch)) []) chs)"
    using Cons.IH [OF p1(2,3) r(3,4)] by blast
  with p1(1,4) show ?case by simp
qed simp

text \<open>C22: when the connection drops, the listener reconnects as soon as one attempt gets a connection on
  which every \<open>LISTEN\<close> succeeds, however many attempts failed before it; the event says so, the channels
  are unchanged, the new connection has been sent the \<open>LISTEN\<close> of each of them in order, and its stream is
  right after their replies. The pause before attempt \<open>k\<close> is drawn below \<open>50 * 2 ^ k\<close> ms and 30 seconds.\<close>

theorem listener_reconnects:
  assumes "fst (on_conn (conn_loop notification_step ()) (ln_pipe l)) = Some (Err e)" and "is_disconnect e"
    and "\<And>j. j < k \<Longrightarrow> fst (attempt_now env (ln_channels l) (redial_before env (ln_channels l) w j)) = Some (Ok None)"
    and "rd_dial env (redial_before env (ln_channels l) w k) = (Some (Ok c), w')"
    and "holds_replies (pipeline_new c) (replies @ later) tail" and "wc_faults c = []"
    and "length replies = length (ln_channels l)" and "list_all (\<lambda>ms. first_error ms = None) replies"
  shows "\<exists>l'. recv_event env (l, w) = Some (Some (Ok Reconnected), l', w') \<and> ln_channels l' = ln_channels l
    \<and> holds_replies (ln_pipe l') later tail
    \<and> wc_sent (pp_conn (ln_pipe l'))
      = wc_sent c @ concat (map (\<lambda>ch. encode_message (Query (listen_sql ch)) []) (ln_channels l))
    \<and> delay_at k = min (50 * 2 ^ k) 30000"
proof -
  obtain p where p: "relisten (ln_channels l) (pipeline_new c) = (Some (Ok True), p)" "holds_replies p later tail"
    "wc_sent (pp_conn p) = wc_sent c @ concat (map (\<lambda>ch. encode_message (Query (listen_sql ch)) []) (ln_channels l))"
    using relisten_all [OF assms(5) _ assms(7,8)] assms(6) by (auto simp: pipeline_new_def)
  have "attempt_now env (ln_channels l) (redial_before env (ln_channels l) w k) = (Some (Ok (Some p)), w')"
    using assms(4) p(1) by (simp add: attempt_now_def)
  then have "reconnect_with_backoff env (ln_channels l) w = Some (Some (Ok p), w')"
    using reconnect_loop_after [of k env "ln_channels l" w, OF assms(3)]
      reconnect_loop.simps [of env "ln_channels l" "delay_at k" "redial_state env (ln_channels l) w k"]
    by (simp add: redial_before_def)
  then show ?thesis
    using assms(1,2) p(2,3) delay_at_closed
    by (cases "on_conn (conn_loop notification_step ()) (ln_pipe l)") (simp add: recv_event_def)
qed

section \<open>Sample runs\<close>

definition listen_replies :: "backend_msg list list" where
  "listen_replies = [[CommandComplete (lit ''LISTEN'')], [CommandComplete (lit ''LISTEN'')], [ErrorResponse refused]]"

definition listen_conn :: wire_conn where
  "listen_conn = sample_conn (concat (map server_frame (concat (map (\<lambda>ms. ms @ [ReadyForQuery 0x49]) listen_replies))))"

lemma listen_conn_holds: "holds_replies (pipeline_new listen_conn) listen_replies []"
proof -
  have sendable: "list_all (\<lambda>m. server_sendable m \<and> (\<forall>r. m \<noteq> DataRow r)) (concat (map (\<lambda>ms. ms @ [ReadyForQuery 0x49]) listen_replies))"
    by (simp add: listen_replies_def refused_def pg_error_default_def server_sendable_def error_ok_def cstr_ok_def
        no_nul_def lit_def utf8_valid_ascii MAX_MESSAGE_SIZE_def put_error_def error_kvs_def put_kv_def)
  have "3 < length (concat (map server_frame (concat (map (\<lambda>ms. ms @ [ReadyForQuery 0x49]) listen_replies))))"
    by (simp add: listen_replies_def length_server_frame)
  from sample_conn_delivers [OF sendable this] show ?thesis
    unfolding holds_replies_def
    by (intro conjI exI [of _ "replicate 3 0x49"])
      (simp_all add: listen_conn_def pipeline_new_def listen_replies_def numeral_eq_Suc)
qed

lemma listen_conn_fields: "wc_faults listen_conn = []" "wc_sent listen_conn = []"
  by (simp_all add: listen_conn_def sample_conn_def)

theorem channels_tracked_witness:
  "distinct (ln_channels (run_ops [Listen (lit ''a''), Listen (lit ''b''), Unlisten (lit ''a'')]
       \<lparr>ln_pipe = pipeline_new listen_conn, ln_channels = []\<rparr>))
   \<and> set (ln_channels (run_ops [Listen (lit ''a''), Listen (lit ''b''), Unlisten (lit ''a'')]
       \<lparr>ln_pipe = pipeline_new listen_conn, ln_channels = []\<rparr>)) = {lit ''b'', lit ''a''}"
  using channels_tracked [of "\<lparr>ln_pipe = pipeline_new listen_conn, ln_channels = []\<rparr>" listen_replies "[]"
      "[Listen (lit ''a''), Listen (lit ''b''), Unlisten (lit ''a'')]"] listen_conn_holds listen_conn_fields
  by (simp add: listen_replies_def server_channels_def pipeline_new_def)

text \<open>The first attempt to reconnect is refused, the second succeeds.\<close>

definition sample_redial :: "nat redial" where
  "sample_redial =
     \<lparr>rd_dial = (\<lambda>w. if w = 0 then (Some (Err ConnectionClosed), 1) else (Some (Ok listen_conn), w + 1)),
      rd_draw = (\<lambda>max w. (max, w)), rd_sleep = (\<lambda>ms w. w)\<rparr>"

definition dropped_listener :: listener where
  "dropped_listener =
     \<lparr>ln_pipe = pipeline_new (listen_conn\<lparr>wc_rh := \<lparr>rh_buf = [], rh_events = [ReadError ConnectionReset]\<rparr>\<rparr>),
      ln_channels = [lit ''a'', lit ''b'']\<rparr>"

theorem listener_reconnects_witness:
  "\<exists>l'. recv_event sample_redial (dropped_listener, 0) = Some (Some (Ok Reconnected), l', 2)
    \<and> ln_channels l' = [lit ''a'', lit ''b''] \<and> holds_replies (ln_pipe l') [[ErrorResponse refused]] []"
proof -
  have drop: "fst (on_conn (conn_loop notification_step ()) (ln_pipe dropped_listener)) = Some (Err (Io ConnectionReset))"
    by (simp add: on_conn_def conn_loop_def dropped_listener_def pipeline_new_def msg_loop.simps recv_msg_def parse_message_def)
  have attempt: "attempt_now sample_redial chs 0 = (Some (Ok None), 1)" for chs
    by (simp add: attempt_now_def sample_redial_def)
  have quiet: "after_pause sample_redial d w = w" for d w
    by (simp add: after_pause_def jitter_def sample_redial_def)
  have failed: "fst (attempt_now sample_redial chs (redial_before sample_redial chs 0 j)) = Some (Ok None)" if "j < 1" for j chs
    using that attempt by (simp add: redial_before_def quiet)
  have dial: "rd_dial sample_redial (redial_before sample_redial chs 0 1) = (Some (Ok listen_conn), 2)" for chs
    by (simp add: redial_before_def quiet attempt) (simp add: sample_redial_def)
  have replies: "holds_replies (pipeline_new listen_conn) (take 2 listen_replies @ drop 2 listen_replies) []"
    using listen_conn_holds by simp
  have fine: "list_all (\<lambda>ms. first_error ms = None) (take 2 listen_replies)"
    "length (take 2 listen_replies) = length (ln_channels dropped_listener)"
    "drop 2 listen_replies = [[ErrorResponse refused]]" "ln_channels dropped_listener = [lit ''a'', lit ''b'']"
    by (simp_all add: listen_replies_def dropped_listener_def)
  obtain l' where "recv_event sample_redial (dropped_listener, 0) = Some (Some (Ok Reconnected), l', 2)"
    "ln_channels l' = ln_channels dropped_listener" "holds_replies (ln_pipe l') (drop 2 listen_replies) []"
    using listener_reconnects [OF drop _ failed dial replies listen_conn_fields(1) fine(2,1)] by auto
  then show ?thesis by (simp add: fine(3,4))
qed

text \<open>A notification that arrives during a command is lost: the command reads over it.\<close>

lemma notification_lost:
  assumes "holds_replies (ln_pipe l) ([NotificationResponse pid channel payload, CommandComplete tag] # replies) tail"
    and "wc_faults (pp_conn (ln_pipe l)) = []"
  shows "\<exists>p'. listen ch l = (Some (Ok ()), l\<lparr>ln_pipe := p',
      ln_channels := if ch \<in> set (ln_channels l) then ln_channels l else ln_channels l @ [ch]\<rparr>) \<and> holds_replies p' replies tail"
  using on_pipe_takes [OF assms, of "listen_sql ch" "\<lambda>chs. if ch \<in> set chs then chs else chs @ [ch]"]
  by (fastforce simp: listen_def)

end
