(* ===== verification/Admin.thy ===== *)
theory Admin
  imports Migrate
begin

text \<open>
  \<open>resolute/src/admin.rs\<close>: creating and dropping databases through the maintenance database. The name
  of the database comes from the connection string; the lemmas show that it stays inside its quotes.
\<close>

definition admin_connect :: "'s pg_link \<Rightarrow> rstring \<Rightarrow> 's \<Rightarrow> rstring typed \<times> 's" where
  "admin_connect link url s =
     (case parse_connection_string url of
        None \<Rightarrow> (Err (Config (lit ''invalid database URL'')), s)
      | Some (user, password, host, port, database) \<Rightarrow>
          then_run (lk_dial link (host @ 0x3A # decimal port) user password (lit ''postgres''))
            (\<lambda>_ s. (Ok database, s)) s)"

definition exists_sql :: "rstring \<Rightarrow> rstring" where
  "exists_sql d = lit ''SELECT 1 FROM pg_database WHERE datname = '' @ 0x27 # double_byte 0x27 d @ [0x27]"

definition create_sql :: "rstring \<Rightarrow> rstring" where
  "create_sql d = lit ''CREATE DATABASE '' @ 0x22 # double_byte 0x22 d @ [0x22]"

definition terminate_sql :: "rstring \<Rightarrow> rstring" where
  "terminate_sql d = lit ''SELECT pg_terminate_backend(pid) FROM pg_stat_activity WHERE datname = ''
     @ 0x27 # double_byte 0x27 d @ 0x27 # lit '' AND pid != pg_backend_pid()''"

definition drop_sql :: "rstring \<Rightarrow> rstring" where
  "drop_sql d = lit ''DROP DATABASE IF EXISTS '' @ 0x22 # double_byte 0x22 d @ [0x22]"

definition create_database :: "'s pg_link \<Rightarrow> rstring \<Rightarrow> 's \<Rightarrow> bool typed \<times> 's" where
  "create_database link url =
     then_run (admin_connect link url) (\<lambda>database.
       then_run (lk_rows link (exists_sql database)) (\<lambda>rows s.
         if rows \<noteq> [] then (Ok False, s)
         else then_run (lk_simple link (create_sql database)) (\<lambda>_ s. (Ok True, s)) s))"

definition drop_database :: "'s pg_link \<Rightarrow> rstring \<Rightarrow> bool \<Rightarrow> 's \<Rightarrow> unit typed \<times> 's" where
  "drop_database link url force =
     then_run (admin_connect link url) (\<lambda>database.
       then_run (if force then lk_simple link (terminate_sql database) else (\<lambda>s. (Ok (), s))) (\<lambda>_.
         lk_simple link (drop_sql database)))"

text \<open>The server reads back the name and what the code wrote after it, whatever the name contains.\<close>

lemma database_names_quoted:
  "quoted_read 0x27 (drop 43 (exists_sql d)) = Some (d, [])"
  "quoted_read 0x22 (drop 17 (create_sql d)) = Some (d, [])"
  "quoted_read 0x27 (drop 72 (terminate_sql d)) = Some (d, lit '' AND pid != pg_backend_pid()'')"
  "quoted_read 0x22 (drop 25 (drop_sql d)) = Some (d, [])"
  using quoted_read_double [of "[]" "0x27" d] quoted_read_double [of "[]" "0x22" d]
    quoted_read_double [of "lit '' AND pid != pg_backend_pid()''" "0x27" d]
  by (simp_all add: exists_sql_def create_sql_def terminate_sql_def drop_sql_def lit_def)

text \<open>A database that exists is left alone, and creating it again is no error.\<close>

lemma create_database_idempotent:
  assumes "admin_connect link url s = (Ok d, s')" and "lk_rows link (exists_sql d) s' = (Ok (row # rows), s'')"
  shows "create_database link url s = (Ok False, s'')"
  using assms by (simp add: create_database_def then_run_def)

end
