(* ===== verification/Async_Pool.thy ===== *)
theory Async_Pool
  imports Async_Client
begin

text \<open>
  Pools of \<open>AsyncConn\<close>s. \<open>pg-wired/src/async_pool.rs\<close>: a fixed number of slots used in turn, dead ones
  skipped and replaced by the health monitor. \<open>pg-pool/src/async_wire.rs\<close>: when a checked-in \<open>AsyncConn\<close>
  may be pooled again, and its reset. \<open>pg-wired/src/cancel.rs\<close>: the cancel request. How a connection is
  opened is a parameter. The theorems: a live connection is used when there is one, the load is spread
  evenly, the monitor replaces what is dead and nothing else, and a reset connection carries nothing of
  its last user.
\<close>

section \<open>Round robin\<close>

record conn_slots =
  ap_conns :: "async_conn list"
  ap_counter :: u64

text \<open>\<open>connect_with_tls\<close>: \<open>connect i\<close> is the outcome of the \<open>i\<close>-th handshake, the bytes the server will send.\<close>

definition async_pool_connect ::
  "(nat \<Rightarrow> (wire_error, read_event list) res) \<Rightarrow> nat \<Rightarrow> (wire_error, conn_slots) res" where
  "async_pool_connect connect n =
     (if n = 0 then Err (Protocol PoolSizeZero)
      else and_then (traverse (\<lambda>i. and_then (connect i) (\<lambda>wire. Ok (async_new wire))) [0..<n])
             (\<lambda>conns. Ok \<lparr>ap_conns = conns, ap_counter = 0\<rparr>))"

text \<open>The slot to use and the pool after; \<open>fetch_add\<close> wraps.\<close>

definition get_async :: "conn_slots \<Rightarrow> nat \<times> conn_slots" where
  "get_async p =
     (let len = length (ap_conns p);
          start = unat (ap_counter p) mod len;
          p' = p\<lparr>ap_counter := ap_counter p + 1\<rparr>
      in case find (\<lambda>k. is_alive (ap_conns p ! k)) (map (\<lambda>i. (start + i) mod len) [0..<len]) of
           Some k \<Rightarrow> (k, p')
         | None \<Rightarrow> (start mod len, p'))"

definition alive_count :: "conn_slots \<Rightarrow> nat" where
  "alive_count p = length (filter is_alive (ap_conns p))"

definition async_reconnect ::
  "(wire_error, read_event list) res \<Rightarrow> nat \<Rightarrow> conn_slots \<Rightarrow> (wire_error, unit) res \<times> conn_slots" where
  "async_reconnect connected k p =
     (case connected of
        Ok wire \<Rightarrow> (Ok (), p\<lparr>ap_conns := (ap_conns p)[k := async_new wire]\<rparr>)
      | Err e \<Rightarrow> (Err e, p)
      | Panic \<Rightarrow> (Panic, p))"

text \<open>One round of \<open>health_monitor\<close>; a reconnect that fails is only logged.\<close>

definition health_round :: "(nat \<Rightarrow> (wire_error, read_event list) res) \<Rightarrow> conn_slots \<Rightarrow> conn_slots" where
  "health_round connect p =
     fold (\<lambda>k p. if is_alive (ap_conns p ! k) then p else snd (async_reconnect (connect k) k p))
       [0..<length (ap_conns p)] p"

text \<open>An operation on the next connection, e.g. \<open>exec_query\<close>: the slot takes the state it leaves.\<close>

definition on_next ::
  "('w sys \<Rightarrow> ('e, 'a) res \<times> 'w sys) \<Rightarrow> conn_slots \<Rightarrow> 'w \<Rightarrow> ('e, 'a) res \<times> conn_slots \<times> 'w" where
  "on_next op p w =
     (case get_async p of
        (k, p) \<Rightarrow>
          (case op (ap_conns p ! k, w) of
             (r, (s, w)) \<Rightarrow> (r, p\<lparr>ap_conns := (ap_conns p)[k := s]\<rparr>, w)))"

definition pool_exec_query where
  "pool_exec_query net sql params param_oids = on_next (exec_query net sql params param_oids)"

definition pool_exec_transaction where
  "pool_exec_transaction net setup_sql query_sql params param_oids =
     on_next (exec_transaction net setup_sql query_sql params param_oids)"

definition pool_exec_query_with_formats where
  "pool_exec_query_with_formats net sql params param_oids param_formats result_formats =
     on_next (exec_query_with_formats net sql params param_oids param_formats result_formats)"

text \<open>\<open>close\<close> on every slot; errors are dropped.\<close>

fun close_all :: "'w transport \<Rightarrow> async_conn list \<Rightarrow> 'w \<Rightarrow> async_conn list \<times> 'w" where
  "close_all net [] w = ([], w)"
| "close_all net (s # ss) w =
     (case async_close net (s, w) of
        (_, (s, w)) \<Rightarrow> (case close_all net ss w of (ss, w) \<Rightarrow> (s # ss, w)))"

section \<open>Pooling an \<open>AsyncConn\<close>\<close>

definition conn_has_pending_data :: "async_conn \<Rightarrow> bool" where
  "conn_has_pending_data s \<longleftrightarrow> \<not> is_alive s \<or> is_broken s"

definition conn_reset :: "'w transport \<Rightarrow> 'w sys \<Rightarrow> bool \<times> 'w sys" where
  "conn_reset net sys =
     (case sys of (s, w) \<Rightarrow>
        if \<not> is_alive s then (False, sys)
        else
          case take_state_mutated s of (mutated, s) \<Rightarrow>
            if \<not> mutated then (True, (s, w))
            else
              case submit net (encode_message (Query (lit ''DISCARD ALL'')) []) Drain (s, w) of
                (Ok _, (s, w)) \<Rightarrow> (True, (clear_statement_cache s, w))
              | (_, sys) \<Rightarrow> (False, sys))"

section \<open>Cancelling\<close>

record cancel_token =
  ct_addr :: rstring
  ct_pid :: i32
  ct_secret :: i32

text \<open>What \<open>cancel\<close> writes on its own connection.\<close>

definition cancel_request :: "cancel_token \<Rightarrow> bytes" where
  "cancel_request t = be32 16 @ be32 80877102 @ be32 (ct_pid t) @ be32 (ct_secret t)"


section \<open>Properties\<close>

lemma get_async_alive_slot:
  assumes "find (\<lambda>k. P (xs ! k)) (map (\<lambda>i. (start + i) mod length xs) [0..<length xs]) = Some k"
  shows "\<exists>i < length xs. k = (start + i) mod length xs \<and> P (xs ! k)
    \<and> (\<forall>j < i. \<not> P (xs ! ((start + j) mod length xs)))"
proof -
  obtain i where i: "i < length xs" "k = (start + i) mod length xs" "P (xs ! k)"
      "\<forall>j < i. \<not> P (xs ! (map (\<lambda>i. (start + i) mod length xs) [0..<length xs] ! j))"
    using assms by (auto simp: find_Some_iff)
  then have "\<forall>j < i. \<not> P (xs ! ((start + j) mod length xs))"
    by (metis (no_types, lifting) diff_zero length_upt less_trans nth_map nth_upt plus_nat.add_0)
  then show ?thesis
    using i by blast
qed

lemma get_async_dead:
  assumes "find (\<lambda>k. P (xs ! k)) (map (\<lambda>i. (start + i) mod length xs) [0..<length xs]) = None"
    and "m < length xs"
  shows "\<not> P (xs ! m)"
proof -
  define i where "i = (m + (length xs - start mod length xs)) mod length xs"
  have pos: "0 < length xs" and le: "start mod length xs \<le> length xs"
    using assms(2) by (auto intro: mod_le_divisor)
  have "(start + i) mod length xs = (start mod length xs + (m + (length xs - start mod length xs))) mod length xs"
    by (simp add: i_def mod_simps)
  also have "start mod length xs + (m + (length xs - start mod length xs)) = m + length xs"
    using le by linarith
  finally have "(start + i) mod length xs = m"
    using assms(2) by simp
  moreover have "i < length xs"
    using pos by (simp add: i_def)
  ultimately show ?thesis
    using assms(1) by (fastforce simp: find_None_iff)
qed

text \<open>\<open>get_async\<close> uses a live connection whenever there is one: the first live slot from the one whose
  turn it is, in cyclic order. It changes no connection and advances the counter by one.\<close>

theorem get_async_prefers_live:
  assumes "ap_conns p \<noteq> []" and "get_async p = (k, p')"
  shows "k < length (ap_conns p) \<and> ap_conns p' = ap_conns p \<and> ap_counter p' = ap_counter p + 1
    \<and> (\<forall>s \<in> set (ap_conns p). is_alive s \<longrightarrow>
        (\<exists>i. k = (unat (ap_counter p) + i) mod length (ap_conns p) \<and> is_alive (ap_conns p ! k)
           \<and> (\<forall>j < i. \<not> is_alive (ap_conns p ! ((unat (ap_counter p) + j) mod length (ap_conns p))))))"
proof -
  let ?n = "length (ap_conns p)" and ?start = "unat (ap_counter p) mod length (ap_conns p)"
  let ?find = "find (\<lambda>k. is_alive (ap_conns p ! k)) (map (\<lambda>i. (?start + i) mod ?n) [0..<?n])"
  have pos: "0 < ?n"
    using assms(1) by simp
  show ?thesis
  proof (cases ?find)
    case None
    have "\<not> is_alive s" if "s \<in> set (ap_conns p)" for s
      using get_async_dead [OF None] that by (auto simp: in_set_conv_nth)
    then show ?thesis
      using assms(2) None pos by (auto simp: get_async_def Let_def)
  next
    case (Some m)
    obtain i where "i < ?n" "m = (?start + i) mod ?n" "is_alive (ap_conns p ! m)"
      "\<forall>j < i. \<not> is_alive (ap_conns p ! ((?start + j) mod ?n))"
      using get_async_alive_slot [OF Some] by blast
    then show ?thesis
      using assms(2) Some pos by (auto simp: get_async_def Let_def mod_simps)
  qed
qed

definition sample_slots :: conn_slots where
  "sample_slots = \<lparr>ap_conns = [async_new [], (async_new [])\<lparr>cn_alive := False\<rparr>, async_new []], ap_counter = 4\<rparr>"

lemma sample_slots_get: "fst (get_async sample_slots) = 2"
  by code_simp

theorem get_async_prefers_live_witness:
  "\<exists>p'. get_async sample_slots = (2, p') \<and> is_alive (ap_conns sample_slots ! 2) \<and> ap_counter p' = 5"
proof -
  obtain p' where g: "get_async sample_slots = (2, p')"
    using sample_slots_get by (metis prod.collapse)
  have "ap_conns sample_slots \<noteq> []" "ap_counter sample_slots = 4"
    "\<exists>s \<in> set (ap_conns sample_slots). is_alive s"
    by (simp_all add: sample_slots_def async_new_def is_alive_def)
  then show ?thesis
    using get_async_prefers_live [OF _ g] g by auto
qed

text \<open>A number of calls in a row.\<close>

fun next_slots :: "nat \<Rightarrow> conn_slots \<Rightarrow> nat list" where
  "next_slots 0 p = []"
| "next_slots (Suc m) p = (case get_async p of (k, p) \<Rightarrow> k # next_slots m p)"

lemma get_async_all_alive:
  assumes "ap_conns p \<noteq> []" and "\<forall>s \<in> set (ap_conns p). is_alive s"
  shows "get_async p = (unat (ap_counter p) mod length (ap_conns p), p\<lparr>ap_counter := ap_counter p + 1\<rparr>)"
proof -
  have "[0..<length (ap_conns p)] = 0 # [1..<length (ap_conns p)]"
    using assms(1) by (simp add: upt_conv_Cons)
  then show ?thesis
    using assms by (simp add: get_async_def Let_def)
qed

lemma next_slots_all_alive:
  assumes "ap_conns p \<noteq> []" and "\<forall>s \<in> set (ap_conns p). is_alive s"
    and "unat (ap_counter p) + m \<le> 2 ^ 64"
  shows "next_slots m p = map (\<lambda>i. (unat (ap_counter p) + i) mod length (ap_conns p)) [0..<m]"
  using assms
proof (induction m arbitrary: p)
  case (Suc m)
  show ?case
  proof (cases "m = 0")
    case True
    then show ?thesis
      using Suc.prems by (simp add: get_async_all_alive)
  next
    case False
    then have "unat (ap_counter p) + 1 < 2 ^ 64"
      using Suc.prems(3) by linarith
    then have "unat (ap_counter p + 1) = unat (ap_counter p) + 1"
      by (simp add: unat_word_ariths(1))
    then show ?thesis
      using Suc.prems Suc.IH [of "p\<lparr>ap_counter := ap_counter p + 1\<rparr>"]
      by (simp add: get_async_all_alive upt_conv_Cons map_Suc_upt [symmetric] del: upt_Suc)
  qed
qed simp


lemma mod_add_less: "i < j \<Longrightarrow> j < n \<Longrightarrow> (c + i) mod n \<noteq> (c + j) mod n" for i :: nat
  using mod_eq_dvd_iff_nat [of "c + i" "c + j" n] nat_dvd_not_less [of "j - i" n] by auto

lemma mod_add_inj: "i < n \<Longrightarrow> j < n \<Longrightarrow> (c + i) mod n = (c + j) mod n \<Longrightarrow> i = j" for i :: nat
  using mod_add_less [of i j n c] mod_add_less [of j i n c] by (metis nat_neq_iff)

text \<open>The load is spread evenly: while every connection lives and the counter does not wrap, any \<open>n\<close>
  calls in a row on a pool of \<open>n\<close> connections use each connection exactly once.\<close>

theorem get_async_balanced:
  assumes "ap_conns p \<noteq> []" and "\<forall>s \<in> set (ap_conns p). is_alive s"
    and "unat (ap_counter p) + length (ap_conns p) \<le> 2 ^ 64"
  shows "distinct (next_slots (length (ap_conns p)) p)
    \<and> set (next_slots (length (ap_conns p)) p) = {..<length (ap_conns p)}"
proof -
  let ?n = "length (ap_conns p)" and ?c = "unat (ap_counter p)"
  have slots: "next_slots ?n p = map (\<lambda>i. (?c + i) mod ?n) [0..<?n]"
    by (rule next_slots_all_alive [OF assms])
  have inj: "inj_on (\<lambda>i. (?c + i) mod ?n) {..<?n}"
  proof (rule inj_onI)
    fix i j assume "i \<in> {..<?n}" "j \<in> {..<?n}" "(?c + i) mod ?n = (?c + j) mod ?n"
    then show "i = j"
      using mod_add_inj [of i ?n j ?c] by simp
  qed
  moreover have "(\<lambda>i. (?c + i) mod ?n) ` {..<?n} = {..<?n}"
    using inj assms(1) by (intro endo_inj_surj) auto
  ultimately show ?thesis
    by (simp add: slots distinct_map atLeast0LessThan)
qed

definition live_slots :: conn_slots where
  "live_slots = \<lparr>ap_conns = [async_new [], async_new [], async_new []], ap_counter = 7\<rparr>"

theorem get_async_balanced_witness:
  "set (next_slots 3 live_slots) = {..<3} \<and> distinct (next_slots 3 live_slots)"
proof -
  have "length (ap_conns live_slots) = 3"
    by (simp add: live_slots_def)
  moreover have "ap_conns live_slots \<noteq> []" "\<forall>s \<in> set (ap_conns live_slots). is_alive s"
    "unat (ap_counter live_slots) + length (ap_conns live_slots) \<le> 2 ^ 64"
    by (simp_all add: live_slots_def async_new_def is_alive_def)
  ultimately show ?thesis
    using get_async_balanced [of live_slots] by simp
qed

text \<open>The monitor.\<close>

lemma health_fold:
  assumes "\<forall>k \<in> set ks. k < length (ap_conns p)" and "distinct ks"
  shows "ap_conns (fold (\<lambda>k p. if is_alive (ap_conns p ! k) then p
       else snd (async_reconnect (connect k) k p)) ks p)
    = map (\<lambda>k. if k \<in> set ks \<and> \<not> is_alive (ap_conns p ! k)
         then (case connect k of Ok wire \<Rightarrow> async_new wire | _ \<Rightarrow> ap_conns p ! k)
         else ap_conns p ! k) [0..<length (ap_conns p)]"
  using assms
proof (induction ks arbitrary: p)
  case Nil
  then show ?case by (simp add: map_nth)
next
  case (Cons k ks)
  define q where "q = (if is_alive (ap_conns p ! k) then p else snd (async_reconnect (connect k) k p))"
  have len: "length (ap_conns q) = length (ap_conns p)"
    by (simp add: q_def async_reconnect_def split: res.splits)
  have other: "ap_conns q ! j = ap_conns p ! j" if "j \<noteq> k" for j
    using that by (simp add: q_def async_reconnect_def split: res.splits)
  have slot: "ap_conns q ! k = (if is_alive (ap_conns p ! k) then ap_conns p ! k
      else (case connect k of Ok wire \<Rightarrow> async_new wire | _ \<Rightarrow> ap_conns p ! k))"
    using Cons.prems(1) by (simp add: q_def async_reconnect_def split: res.splits)
  have "(if x \<in> set ks \<and> \<not> is_alive (ap_conns q ! x)
       then (case connect x of Ok wire \<Rightarrow> async_new wire | _ \<Rightarrow> ap_conns q ! x) else ap_conns q ! x)
    = (if x \<in> set (k # ks) \<and> \<not> is_alive (ap_conns p ! x)
       then (case connect x of Ok wire \<Rightarrow> async_new wire | _ \<Rightarrow> ap_conns p ! x) else ap_conns p ! x)" for x
    using Cons.prems slot other [of x] by (cases "x = k") (auto split: res.splits)
  then show ?case
    using Cons.IH [of q] Cons.prems len by (simp flip: q_def)
qed

text \<open>A round of the health monitor leaves every live connection as it is and replaces every dead one
  whose reconnect succeeds by a new connection, which is alive; if all reconnects succeed, all
  connections are alive afterwards.\<close>

theorem health_round_heals:
  "ap_conns (health_round connect p)
     = map (\<lambda>(k, s). if is_alive s then s else (case connect k of Ok wire \<Rightarrow> async_new wire | _ \<Rightarrow> s))
         (enumerate 0 (ap_conns p))
   \<and> ((\<forall>k < length (ap_conns p). \<exists>wire. connect k = Ok wire)
       \<longrightarrow> alive_count (health_round connect p) = length (ap_conns p))"
proof -
  have conns: "ap_conns (health_round connect p)
     = map (\<lambda>(k, s). if is_alive s then s else (case connect k of Ok wire \<Rightarrow> async_new wire | _ \<Rightarrow> s))
         (enumerate 0 (ap_conns p))"
    unfolding health_round_def
    by (subst health_fold) (auto intro!: nth_equalityI simp: nth_enumerate_eq split: res.splits)
  moreover have "alive_count (health_round connect p) = length (ap_conns p)"
    if "\<forall>k < length (ap_conns p). \<exists>wire. connect k = Ok wire"
  proof -
    have "is_alive s" if mem: "s \<in> set (ap_conns (health_round connect p))" for s
    proof -
      obtain k t where "(k, t) \<in> set (enumerate 0 (ap_conns p))"
        and s: "s = (if is_alive t then t else (case connect k of Ok wire \<Rightarrow> async_new wire | _ \<Rightarrow> t))"
        using mem unfolding conns set_map by (elim imageE) (simp split: prod.splits)
      then have "k < length (ap_conns p)"
        by (simp add: in_set_enumerate_eq)
      then show ?thesis
        using \<open>\<forall>k < length (ap_conns p). \<exists>wire. connect k = Ok wire\<close>
        by (auto simp: s async_new_def is_alive_def split: res.splits if_splits)
    qed
    then have "filter is_alive (ap_conns (health_round connect p)) = ap_conns (health_round connect p)"
      by (simp add: filter_id_conv)
    then show ?thesis
      by (simp add: alive_count_def conns)
  qed
  ultimately show ?thesis by blast
qed

theorem health_round_heals_witness:
  "alive_count (health_round (\<lambda>k. Ok []) sample_slots) = 3 \<and> alive_count sample_slots = 2"
proof -
  have "length (ap_conns sample_slots) = 3" "alive_count sample_slots = 2"
    by (simp_all add: sample_slots_def alive_count_def async_new_def is_alive_def)
  then show ?thesis
    using health_round_heals [of "\<lambda>k. Ok []" sample_slots] by simp
qed


text \<open>The reset of a returned connection.\<close>

text \<open>A connection that passes its reset carries nothing over to the next user. It was alive; if its
  last user had left no session state it is unchanged and the server was not asked; otherwise exactly one
  \<open>DISCARD ALL\<close> was submitted, with the mark already cleared, and the statement cache is empty.\<close>

theorem conn_reset_clean:
  assumes "conn_reset net (s, w) = (True, (s', w'))"
  shows "is_alive s
    \<and> (if is_state_mutated s
       then \<exists>s1 resp. submit net (encode_message (Query (lit ''DISCARD ALL'')) []) Drain
               (s\<lparr>cn_session := (cn_session s)\<lparr>ss_mutated := False\<rparr>\<rparr>, w) = (Ok resp, (s1, w'))
             \<and> s' = s1\<lparr>cn_cache := []\<rparr>
       else s' = s \<and> w' = w)"
proof -
  have alive: "is_alive s"
    using assms by (auto simp: conn_reset_def split: if_splits)
  show ?thesis
  proof (cases "is_state_mutated s")
    case False
    then have "s\<lparr>cn_session := (cn_session s)\<lparr>ss_mutated := False\<rparr>\<rparr> = s"
      by (cases s; cases "cn_session s") (simp add: is_state_mutated_def)
    then show ?thesis
      using assms alive False by (simp add: conn_reset_def take_state_mutated_def is_state_mutated_def)
  next
    case True
    then show ?thesis
      using assms alive
      by (auto simp: conn_reset_def take_state_mutated_def is_state_mutated_def clear_statement_cache_def
        split: res.splits prod.splits)
  qed
qed

definition used_conn :: async_conn where
  "used_conn = (async_new [])\<lparr>cn_session := (cn_session (async_new []))\<lparr>ss_mutated := True\<rparr>,
     cn_cache := [(lit ''SELECT 1'', lit ''s0'', 0)], cn_counter := 1\<rparr>"

text \<open>A server that says yes to everything and notes what it was sent.\<close>

definition agreeing :: "bytes transport" where
  "agreeing items sys = (map (\<lambda>_. Ok Done) items, (fst sys, snd sys @ concat (map fst items)))"

theorem conn_reset_clean_witness:
  "\<exists>s' w'. conn_reset agreeing (used_conn, []) = (True, (s', w')) \<and> cn_cache s' = []
    \<and> w' = encode_message (Query (lit ''DISCARD ALL'')) [] \<and> is_state_mutated used_conn"
proof -
  define s' where "s' = used_conn\<lparr>cn_session := (cn_session used_conn)\<lparr>ss_mutated := False\<rparr>, cn_cache := []\<rparr>"
  have r: "conn_reset agreeing (used_conn, []) = (True, (s', encode_message (Query (lit ''DISCARD ALL'')) []))"
    by (simp add: conn_reset_def agreeing_def used_conn_def async_new_def is_alive_def take_state_mutated_def
      submit_def clear_statement_cache_def s'_def)
  moreover have "is_state_mutated used_conn"
    by (simp add: is_state_mutated_def used_conn_def)
  ultimately show ?thesis
    using conn_reset_clean [OF r] by auto
qed

lemma cancel_request_fields:
  "length (cancel_request t) = 16 \<and> from_be32 (take 4 (cancel_request t)) = 16
    \<and> from_be32 (take 4 (drop 4 (cancel_request t))) = 80877102
    \<and> from_be32 (take 4 (drop 8 (cancel_request t))) = ct_pid t
    \<and> from_be32 (drop 12 (cancel_request t)) = ct_secret t"
  by (simp add: cancel_request_def)

end
