(* ===== verification/Pooled.thy ===== *)
theory Pooled
  imports Executor Async_Pool
begin

text \<open>
  The typed clients of the pools: \<open>resolute/src/pooled.rs\<close> (exclusive checkout) and
  \<open>resolute/src/shared_pool.rs\<close> (a shared connection). Both run the statements of theory \<open>Client\<close> on the
  connection they hold, without its retry, its metrics and its error context. The theorems: whatever an
  operation with session effects does, the connection is reset when it returns to the pool; what the pool
  does not notice; and that a statement the server has lost stays lost for a pooled client.
\<close>

section \<open>Checkout\<close>

text \<open>\<open>ExclusivePool::get\<close> on the answer of the pool of theory \<open>Pool\<close>.\<close>

definition exclusive_get :: "(pool_error, 'a) res \<Rightarrow> metrics \<Rightarrow> 'a typed \<times> metrics" where
  "exclusive_get r m =
     (let m = record_pool_checkout m in
      case r of
        Ok guard \<Rightarrow> (Ok guard, m)
      | Err e \<Rightarrow> (Err (PoolFailed e), record_pool_timeout m)
      | Panic \<Rightarrow> (Panic, m))"

section \<open>The pooled client\<close>

definition marked :: "'w sys \<Rightarrow> 'w sys" where "marked sys = (mark_state_mutated (fst sys), snd sys)"

definition pooled_query :: "'w transport \<Rightarrow> rstring \<Rightarrow> sql_param list \<Rightarrow> 'w sys \<Rightarrow> row list typed \<times> 'w sys" where
  "pooled_query net sql ps sys = query_inner_on net sql ps sys"

definition pooled_execute :: "'w transport \<Rightarrow> rstring \<Rightarrow> sql_param list \<Rightarrow> 'w sys \<Rightarrow> nat typed \<times> 'w sys" where
  "pooled_execute net sql ps sys = execute_inner_on net sql ps sys"

definition pooled_simple_query :: "'w transport \<Rightarrow> rstring \<Rightarrow> 'w sys \<Rightarrow> unit typed \<times> 'w sys" where
  "pooled_simple_query net sql sys = simple_query_on_conn net sql (marked sys)"

definition pooled_copy_in :: "'w transport \<Rightarrow> rstring \<Rightarrow> bytes \<Rightarrow> 'w sys \<Rightarrow> nat typed \<times> 'w sys" where
  "pooled_copy_in net copy_sql data sys =
     (case copy_in net copy_sql data (marked sys) of (r, sys') \<Rightarrow> (in_sql copy_sql (wired r), sys'))"

definition pooled_copy_out :: "'w transport \<Rightarrow> rstring \<Rightarrow> 'w sys \<Rightarrow> bytes typed \<times> 'w sys" where
  "pooled_copy_out net copy_sql sys =
     (case copy_out net copy_sql (marked sys) of (r, sys') \<Rightarrow> (in_sql copy_sql (wired r), sys'))"

text \<open>\<open>rows[0]\<close> of an empty answer panics.\<close>

definition first_row_bool :: "row list \<Rightarrow> bool typed" where
  "first_row_bool rows = (case rows of [] \<Rightarrow> Panic | row # _ \<Rightarrow> row_get (decode_bool, decode_text_bool) row 0)"

definition pooled_advisory_lock :: "'w transport \<Rightarrow> i64 \<Rightarrow> 'w sys \<Rightarrow> unit typed \<times> 'w sys" where
  "pooled_advisory_lock net key =
     then_run (\<lambda>sys. pooled_execute net (lit ''SELECT pg_advisory_lock($1)'') [int8_param key] (marked sys))
       (\<lambda>_ sys. (Ok (), sys))"

definition pooled_try_advisory_lock :: "'w transport \<Rightarrow> i64 \<Rightarrow> 'w sys \<Rightarrow> bool typed \<times> 'w sys" where
  "pooled_try_advisory_lock net key =
     then_run (\<lambda>sys. pooled_query net (lit ''SELECT pg_try_advisory_lock($1)'') [int8_param key] (marked sys))
       (\<lambda>rows sys. (first_row_bool rows, sys))"

definition pooled_advisory_unlock :: "'w transport \<Rightarrow> i64 \<Rightarrow> 'w sys \<Rightarrow> bool typed \<times> 'w sys" where
  "pooled_advisory_unlock net key =
     then_run (pooled_query net (lit ''SELECT pg_advisory_unlock($1)'') [int8_param key])
       (\<lambda>rows sys. (first_row_bool rows, sys))"

definition pooled_advisory_xact_lock :: "'w transport \<Rightarrow> i64 \<Rightarrow> 'w sys \<Rightarrow> unit typed \<times> 'w sys" where
  "pooled_advisory_xact_lock net key =
     then_run (pooled_execute net (lit ''SELECT pg_advisory_xact_lock($1)'') [int8_param key])
       (\<lambda>_ sys. (Ok (), sys))"

definition pooled_try_advisory_xact_lock :: "'w transport \<Rightarrow> i64 \<Rightarrow> 'w sys \<Rightarrow> bool typed \<times> 'w sys" where
  "pooled_try_advisory_xact_lock net key =
     then_run (pooled_query net (lit ''SELECT pg_try_advisory_xact_lock($1)'') [int8_param key])
       (\<lambda>rows sys. (first_row_bool rows, sys))"

section \<open>Pooled transactions\<close>

text \<open>The guard is its \<open>done\<close> flag, as in theory \<open>Client\<close>.\<close>

definition pooled_begin :: "'w transport \<Rightarrow> 'w sys \<Rightarrow> bool typed \<times> 'w sys" where
  "pooled_begin net = then_run (pooled_simple_query net (lit ''BEGIN'')) (\<lambda>_ sys. (Ok False, sys))"

definition pooled_begin_with :: "'w transport \<Rightarrow> isolation_level \<Rightarrow> 'w sys \<Rightarrow> bool typed \<times> 'w sys" where
  "pooled_begin_with net level =
     then_run (pooled_simple_query net (lit ''BEGIN ISOLATION LEVEL '' @ as_sql level)) (\<lambda>_ sys. (Ok False, sys))"

definition pooled_txn_drop :: "bool \<Rightarrow> 'w sys \<Rightarrow> 'w sys" where
  "pooled_txn_drop finished sys =
     (case sys of (s, w) \<Rightarrow>
        if \<not> finished \<and> is_alive s then
          case enqueue_rollback s of
            (True, s') \<Rightarrow> (s', w)
          | (False, s') \<Rightarrow> (mark_broken s', w)
        else sys)"

definition pooled_commit :: "'w transport \<Rightarrow> 'w sys \<Rightarrow> unit typed \<times> 'w sys" where
  "pooled_commit net sys =
     (case pooled_simple_query net (lit ''COMMIT'') sys of (r, sys') \<Rightarrow> (r, pooled_txn_drop True sys'))"

definition pooled_rollback :: "'w transport \<Rightarrow> 'w sys \<Rightarrow> unit typed \<times> 'w sys" where
  "pooled_rollback net sys =
     (case pooled_simple_query net (lit ''ROLLBACK'') sys of (r, sys') \<Rightarrow> (r, pooled_txn_drop True sys'))"

definition pooled_query_named ::
  "'w transport \<Rightarrow> unicode \<Rightarrow> rstring \<Rightarrow> (rstring \<times> sql_param) list \<Rightarrow> 'w sys \<Rightarrow> row list typed \<times> 'w sys" where
  "pooled_query_named net u = named_call u (pooled_query net)"

definition pooled_execute_named ::
  "'w transport \<Rightarrow> unicode \<Rightarrow> rstring \<Rightarrow> (rstring \<times> sql_param) list \<Rightarrow> 'w sys \<Rightarrow> nat typed \<times> 'w sys" where
  "pooled_execute_named net u = named_call u (pooled_execute net)"

text \<open>\<open>Executor::atomic\<close> for the pooled client and, with a counter of savepoints, its transaction.\<close>

definition pooled_atomic :: "'w transport \<Rightarrow> ('w sys \<Rightarrow> 'a typed \<times> 'w sys) \<Rightarrow> 'w sys \<Rightarrow> 'a typed \<times> 'w sys" where
  "pooled_atomic net = bracket (pooled_simple_query net) (lit ''BEGIN'') (lit ''COMMIT'') (lit ''ROLLBACK'')"

definition pooled_txn_atomic ::
  "'w transport \<Rightarrow> (u64 \<times> 'w sys \<Rightarrow> 'a typed \<times> u64 \<times> 'w sys) \<Rightarrow> u64 \<times> 'w sys \<Rightarrow> 'a typed \<times> u64 \<times> 'w sys" where
  "pooled_txn_atomic net f p =
     (let sp = savepoint_name (fst p);
          run = (\<lambda>sql (k, sys). case pooled_simple_query net sql sys of (r, sys') \<Rightarrow> (r, k, sys'))
      in bracket run (lit ''SAVEPOINT '' @ sp) (lit ''RELEASE SAVEPOINT '' @ sp)
           (lit ''ROLLBACK TO SAVEPOINT '' @ sp) f (fst p + 1, snd p))"

section \<open>The shared pool\<close>

definition shared_exec_query where
  "shared_exec_query net sql ps oids p w =
     (case pool_exec_query net sql ps oids p w of (r, p, w) \<Rightarrow> (in_sql sql (wired r), p, w))"

definition shared_exec_transaction where
  "shared_exec_transaction net setup_sql query_sql ps oids p w =
     (case pool_exec_transaction net setup_sql query_sql ps oids p w of
        (r, p, w) \<Rightarrow> (in_sql query_sql (wired r), p, w))"

definition shared_query :: "'w transport \<Rightarrow> rstring \<Rightarrow> sql_param list \<Rightarrow> 'w sys \<Rightarrow> row list typed \<times> 'w sys" where
  "shared_query net sql ps sys = query_inner_on net sql ps sys"

definition shared_execute :: "'w transport \<Rightarrow> rstring \<Rightarrow> sql_param list \<Rightarrow> 'w sys \<Rightarrow> nat typed \<times> 'w sys" where
  "shared_execute net sql ps sys = execute_inner_on net sql ps sys"

definition shared_simple_query :: "'w transport \<Rightarrow> rstring \<Rightarrow> 'w sys \<Rightarrow> unit typed \<times> 'w sys" where
  "shared_simple_query net sql sys = simple_query_on_conn net sql sys"

section \<open>Session state and the pool\<close>

text \<open>The operations with session effects, results forgotten.\<close>

datatype session_op =
    SimpleSql rstring
  | CopyInOp rstring bytes
  | CopyOutOp rstring
  | LockOp i64
  | TryLockOp i64
  | BeginOp
  | BeginWithOp isolation_level
  | CommitOp
  | RollbackOp

fun session_op_run :: "'w transport \<Rightarrow> session_op \<Rightarrow> 'w sys \<Rightarrow> 'w sys" where
  "session_op_run net (SimpleSql sql) sys = snd (pooled_simple_query net sql sys)"
| "session_op_run net (CopyInOp sql d) sys = snd (pooled_copy_in net sql d sys)"
| "session_op_run net (CopyOutOp sql) sys = snd (pooled_copy_out net sql sys)"
| "session_op_run net (LockOp k) sys = snd (pooled_advisory_lock net k sys)"
| "session_op_run net (TryLockOp k) sys = snd (pooled_try_advisory_lock net k sys)"
| "session_op_run net BeginOp sys = snd (pooled_begin net sys)"
| "session_op_run net (BeginWithOp level) sys = snd (pooled_begin_with net level sys)"
| "session_op_run net CommitOp sys = snd (pooled_commit net sys)"
| "session_op_run net RollbackOp sys = snd (pooled_rollback net sys)"

text \<open>What the connection's tasks promise: they never clear the mark, which only the reset does.\<close>

locale marking_transport =
  fixes net :: "'w transport"
  assumes net_keeps: "is_state_mutated (fst sys) \<Longrightarrow> is_state_mutated (fst (snd (net items sys)))"
begin

lemma submit_keeps: "submit net m c sys = (r, s', w') \<Longrightarrow> is_state_mutated (fst sys) \<Longrightarrow> is_state_mutated s'"
  using net_keeps [of sys "[(m, c)]"] by (auto simp: submit_def split: prod.splits list.splits)

lemma lookup_keeps: "is_state_mutated (fst sys) \<Longrightarrow> is_state_mutated (fst (snd (sys_lookup sql sys)))"
  by (simp add: sys_lookup_def lookup_or_alloc_def is_state_mutated_def split: option.splits)

lemma publish_keeps: "is_state_mutated (fst sys) \<Longrightarrow> is_state_mutated (fst (sys_publish sql name sys))"
  by (simp add: sys_publish_def cache_statement_def evict_oldest_def try_send_def enqueue_def is_state_mutated_def Let_def
    split: option.splits prod.splits)

lemma run_statement_keeps:
  assumes "run_statement net d sql ps sys = (r, s', w')" and "is_state_mutated (fst sys)"
  shows "is_state_mutated s'"
proof -
  obtain stmt new sys1 where 1: "sys_lookup sql sys = ((stmt, new), sys1)" by (metis prod.exhaust)
  obtain r2 s2 w2 where 2: "submit_statement net d sql ps stmt new sys1 = (r2, s2, w2)" by (metis prod.exhaust)
  have "is_state_mutated (fst sys1)" using lookup_keeps [OF assms(2), of sql] 1 by simp
  from submit_keeps [OF 2 [unfolded submit_statement_def] this] have "is_state_mutated (fst (s2, w2))" by simp
  with 1 2 assms(1) publish_keeps [of "(s2, w2)" sql stmt] show ?thesis
    by (auto simp: run_statement_def cached_run_def split: if_splits)
qed

lemma marked_mutated: "is_state_mutated (fst (marked sys))"
  by (simp add: marked_def mark_state_mutated_def is_state_mutated_def)

lemma simple_keeps: "is_state_mutated (fst (snd (pooled_simple_query net sql sys)))"
  using submit_keeps [OF _ marked_mutated]
  by (auto simp: pooled_simple_query_def simple_query_on_conn_def simp del: encode_message.simps split: prod.splits)

lemma statement_keeps:
  assumes "is_state_mutated (fst sys)"
  shows "is_state_mutated (fst (snd (pooled_query net sql ps sys)))" "is_state_mutated (fst (snd (pooled_execute net sql ps sys)))"
  using run_statement_keeps [OF _ assms]
  by (auto simp: pooled_query_def pooled_execute_def query_inner_on_def execute_inner_on_def split: prod.splits)

lemma then_run_snd: "(\<And>a s. snd (h a s) = s) \<Longrightarrow> snd (then_run f h s) = snd (f s)"
  by (simp add: then_run_def split: prod.splits res.splits)

lemma session_op_marks: "is_state_mutated (fst (session_op_run net op sys))"
proof (cases op)
  case (CopyInOp sql d)
  then show ?thesis
    using submit_keeps [OF _ marked_mutated] by (auto simp: pooled_copy_in_def copy_in_def split: prod.splits)
next
  case (CopyOutOp sql)
  then show ?thesis
    using submit_keeps [OF _ marked_mutated]
    by (auto simp: pooled_copy_out_def copy_out_def simp del: encode_message.simps split: prod.splits)
next
  case CommitOp
  then show ?thesis using simple_keeps [of "lit ''COMMIT''" sys]
    by (cases "pooled_simple_query net (lit ''COMMIT'') sys") (auto simp: pooled_commit_def pooled_txn_drop_def)
next
  case RollbackOp
  then show ?thesis using simple_keeps [of "lit ''ROLLBACK''" sys]
    by (cases "pooled_simple_query net (lit ''ROLLBACK'') sys") (auto simp: pooled_rollback_def pooled_txn_drop_def)
qed (simp_all add: simple_keeps statement_keeps marked_mutated then_run_snd pooled_advisory_lock_def
    pooled_try_advisory_lock_def pooled_begin_def pooled_begin_with_def)

end

lemma session_net_conn: "session_net db items (s, sv) = (rs, s', sv') \<Longrightarrow> s' = s"
proof (induction items arbitrary: sv rs sv')
  case (Cons item items)
  obtain m c where item: "item = (m, c)" by fastforce
  show ?case using Cons.prems by (auto simp: item split: option.splits prod.splits dest: Cons.IH)
qed simp

interpretation session_marks: marking_transport "session_net db" for db :: "'d database"
  by unfold_locales (metis prod.collapse session_net_conn)

lemma submit_simple_session:
  assumes "no_nul sql" and "length sql < 2 ^ 20"
  shows "submit (session_net db) (encode_message (Query sql) []) Drain (s, sv, se) = (Ok Done, (s, sv, snd (run_sql db sql [] se)))"
  using rd_all_encode [OF query_sendable [OF assms]]
  by (auto simp: submit_def split: prod.splits sum.splits)


definition sample_pooled :: "nat server sys" where
  "sample_pooled = (async_new [], Map.empty, \<lparr>se_db = 0, se_block = None\<rparr>)"

definition counting_db :: "nat database" where
  "counting_db = \<lparr>da_exec = (\<lambda>sql ps d. Inr (([], lit ''OK''), if sql = lit ''DISCARD ALL'' then 0 else d + 1)),
     da_deferred = (\<lambda>d. None)\<rparr>"


text \<open>The locale of sessions holds for the pooled client too, so \<open>atomic\<close> on it is all or nothing.\<close>

interpretation pooled_session: sql_session "pooled_simple_query (session_net db)" "\<lambda>sys. snd (snd sys)" "\<lambda>_. 0" db
  for db :: "'d database"
proof unfold_locales
  fix sql :: rstring and sys :: "'d server sys"
  assume ok: "no_nul sql" "length sql < 2 ^ 20"
  obtain s sv se where sys: "sys = (s, sv, se)" by (metis prod.collapse)
  show "fst (pooled_simple_query (session_net db) sql sys) = Ok ()"
    "snd (snd (snd (pooled_simple_query (session_net db) sql sys))) = snd (run_sql db sql [] (snd (snd sys)))"
    by (simp_all add: submit_simple_session [OF ok] sys pooled_simple_query_def simple_query_on_conn_def marked_def wired_def del: encode_message.simps)
qed simp

lemma pooled_atomic_all_or_nothing:
  assumes "implements (\<lambda>sys. snd (snd sys)) (\<lambda>_. 0) n f g" and "se_block (snd (snd sys)) = None" and "n < 2 ^ 64"
    and "\<And>v d. g (se_db (snd (snd sys))) = (Ok v, d) \<Longrightarrow> da_deferred db d = None"
    and "pooled_atomic (session_net db) f sys = (r, sys')"
  shows "(r, se_db (snd (snd sys'))) = atomically g (se_db (snd (snd sys)))"
  using pooled_session.block_atomic(1) [OF assms(1,2) _ assms(4)] assms(3,5)
  by (simp add: pooled_atomic_def del: split_paired_All)

section \<open>What the pool does not notice\<close>

text \<open>A statement through the extended protocol leaves no mark, whatever it does to the session: the next user
  gets that session.\<close>

lemma pooled_execute_unnoticed:
  assumes "\<not> is_state_mutated s" and "is_alive s" and "execute_inner_on net sql ps (s0, w0) = (r, s, w)"
  shows "pooled_execute net sql ps (s0, w0) = (r, s, w) \<and> conn_reset net (s, w) = (True, (s, w))"
proof -
  have "s\<lparr>cn_session := (cn_session s)\<lparr>ss_mutated := False\<rparr>\<rparr> = s"
    using assms(1) by (cases s; cases "cn_session s") (simp add: is_state_mutated_def)
  then show ?thesis
    using assms by (simp add: pooled_execute_def conn_reset_def take_state_mutated_def is_state_mutated_def)
qed

text \<open>\<open>DISCARD ALL\<close> is refused inside a transaction block, and the collector of the reset drops the error: a
  client that is returned inside a block hands its transaction to the next user.\<close>

lemma open_block_survives_reset:
  assumes "is_alive s" and "is_state_mutated s" and "se_block se = Some b" and "\<not> tx_aborted b"
    and "da_exec db (lit ''DISCARD ALL'') [] (tx_db b) = Inl e"
  shows "\<exists>s'. conn_reset (session_net db) (s, sv, se) = (True, (s', sv, abort_block se)) \<and> se_block (abort_block se) \<noteq> None"
proof -
  have "no_nul (lit ''DISCARD ALL'')" "length (lit ''DISCARD ALL'') < 2 ^ 20" by (simp_all add: lit_def no_nul_def)
  note discard = submit_simple_session [OF this, of db _ sv se]
  have "command_of (lit ''DISCARD ALL'') = Ordinary (lit ''DISCARD ALL'')"
    by (simp add: command_of_def strip_prefix_def starts_with_def lit_def)
  then have "run_sql db (lit ''DISCARD ALL'') [] se = (Inl e, abort_block se)"
    using assms(3-5) by (simp add: run_sql_def in_block_def)
  with discard assms show ?thesis
    by (simp add: conn_reset_def take_state_mutated_def is_state_mutated_def abort_block_def del: encode_message.simps)
qed

text \<open>A pooled query does not forget a statement that the server has lost: it fails again the same way.\<close>

lemma pooled_query_keeps_lost_statement:
  assumes "cached s sql = Some name" and "submit_statement net True sql ps name False (s, w) = (Err e, s', w')"
    and "cached s' sql = Some name"
  shows "pooled_query net sql ps (s, w) = (Err (WireError e), s', w')"
    and "fst (run_statement net True sql ps (s', w')) = fst (submit_statement net True sql ps name False (s', w'))"
  using assms
  by (simp_all add: pooled_query_def query_inner_on_def run_statement_def cached_run_def sys_lookup_def lookup_or_alloc_def
    wired_def split: prod.splits)

end
