(* ===== verification/Node_Columnar.thy ===== *)
theory Node_Columnar
  imports Async_Client Chars Rust_Str
begin

unbundle bit_operations_syntax

text \<open>
  The conversions of the Node binding \<open>pg-wired-js/src/lib.rs\<close>: rows to strings, and rows to one string
  of data with offsets and a bitmap of NULLs. The other side is the accessor \<open>columnarCell\<close> of
  \<open>pg-wired-js/src-ts/index.ts\<close>, which cuts the string by its UTF-16 code units. The theorem: for ASCII
  data every cell reads back; the lemmas show why the ASCII is needed, and the row that panics.
\<close>

section \<open>Options and formats\<close>

datatype tls_mode = TlsDisable | TlsPrefer | TlsRequire

definition ascii_lower :: "bytes \<Rightarrow> bytes" where
  "ascii_lower s = map (\<lambda>b. if 0x41 \<le> b \<and> b \<le> 0x5A then b + 32 else b) s"

text \<open>The error carries the message of the exception.\<close>

definition parse_sslmode :: "rstring option \<Rightarrow> (rstring, tls_mode) res" where
  "parse_sslmode s =
     (case map_option (\<lambda>v. ascii_lower (trim v)) s of
        None \<Rightarrow> Ok TlsPrefer
      | Some v \<Rightarrow>
          if v = [] \<or> v = lit ''prefer'' then Ok TlsPrefer
          else if v = lit ''disable'' then Ok TlsDisable
          else if v = lit ''require'' then Ok TlsRequire
          else Err (lit ''unsupported sslmode: '' @ v @ lit '' (expected disable, prefer, or require)''))"

definition to_format_codes :: "i16 list \<Rightarrow> (rstring, format_code list) res" where
  "to_format_codes =
     traverse (\<lambda>f. if f = 0 then Ok Text else if f = 1 then Ok Binary
       else Err (lit ''format code must be 0 (text) or 1 (binary), got '' @ decimal_int (sint f)))"

record field_info =
  fi_name :: rstring
  fi_table_oid :: u32
  fi_column_id :: i16
  fi_type_oid :: u32
  fi_type_size :: i16
  fi_type_modifier :: i32
  fi_format :: i16

definition fields_to_info :: "field_description list \<Rightarrow> field_info list" where
  "fields_to_info = map (\<lambda>f.
     \<lparr>fi_name = fd_name f, fi_table_oid = fd_table_oid f, fi_column_id = fd_column_id f, fi_type_oid = fd_type_oid f,
      fi_type_size = fd_type_size f, fi_type_modifier = fd_type_modifier f, fi_format = fmt_i16 (fd_format f)\<rparr>)"

section \<open>Rows of strings\<close>

definition bytes_to_string :: "bytes \<Rightarrow> rstring" where
  "bytes_to_string b = (case from_utf8 b of Some s \<Rightarrow> s | None \<Rightarrow> utf8_lossy b)"

definition row_to_strings :: "raw_row \<Rightarrow> ('e, rstring option list) res" where
  "row_to_strings row = and_then (iter_cells row) (\<lambda>cs. Ok (map (map_option bytes_to_string) cs))"

definition rows_to_strings :: "raw_row list \<Rightarrow> ('e, rstring option list list) res" where
  "rows_to_strings rows = traverse row_to_strings rows"

definition rows_to_buffers :: "raw_row list \<Rightarrow> ('e, bytes option list list) res" where
  "rows_to_buffers rows = traverse iter_cells rows"

record query_result =
  qr_fields :: "field_info list"
  qr_rows :: "rstring option list list"
  qr_command_tag :: rstring

fun pipeline_response_to_query_result :: "pipeline_response \<Rightarrow> ('e, query_result) res" where
  "pipeline_response_to_query_result (RowsResponse fs rows tag) =
     and_then (rows_to_strings rows) (\<lambda>rs. Ok \<lparr>qr_fields = fields_to_info fs, qr_rows = rs, qr_command_tag = tag\<rparr>)"
| "pipeline_response_to_query_result Done = Ok \<lparr>qr_fields = [], qr_rows = [], qr_command_tag = []\<rparr>"

section \<open>Columns\<close>

record packing =
  pk_data :: bytes
  pk_offsets :: "u32 list"
  pk_nulls :: "u8 list"
  pk_cursor :: u32
  pk_idx :: nat

definition saturating_add :: "u32 \<Rightarrow> u32 \<Rightarrow> u32" where
  "saturating_add a b = (if unat a + unat b < 2 ^ 32 then a + b else - 1)"

definition pack_cell :: "bytes option \<Rightarrow> packing \<Rightarrow> ('e, packing) res" where
  "pack_cell c p =
     and_then
       (case c of
          Some b \<Rightarrow> Ok (p\<lparr>pk_data := pk_data p @ b, pk_cursor := saturating_add (pk_cursor p) (word_of_nat (length b))\<rparr>)
        | None \<Rightarrow>
            let k = pk_idx p div 8
            in if k < length (pk_nulls p)
               then Ok (p\<lparr>pk_nulls := (pk_nulls p)[k := pk_nulls p ! k OR push_bit (pk_idx p mod 8) 1]\<rparr>)
               else Panic)
       (\<lambda>p. Ok (p\<lparr>pk_offsets := pk_offsets p @ [pk_cursor p], pk_idx := pk_idx p + 1\<rparr>))"

definition pack_start :: "nat \<Rightarrow> packing" where
  "pack_start cells =
     \<lparr>pk_data = [], pk_offsets = [0], pk_nulls = replicate ((cells + 7) div 8) 0, pk_cursor = 0, pk_idx = 0\<rparr>"

definition pack_cells :: "bytes option list \<Rightarrow> packing \<Rightarrow> ('e, packing) res" where
  "pack_cells cs p = foldl (\<lambda>r c. and_then r (pack_cell c)) (Ok p) cs"

definition rows_to_columnar :: "raw_row list \<Rightarrow> nat \<Rightarrow> ('e, rstring \<times> u32 list \<times> u8 list) res" where
  "rows_to_columnar rows cols =
     and_then (foldl (\<lambda>r row. and_then r (\<lambda>p. and_then (iter_cells row) (\<lambda>cs. pack_cells cs p)))
                 (Ok (pack_start (length rows * cols))) rows)
       (\<lambda>p. Ok (bytes_to_string (pk_data p), pk_offsets p, pk_nulls p))"

record columnar_result =
  cr_fields :: "field_info list"
  cr_row_count :: u32
  cr_cols :: u32
  cr_data :: rstring
  cr_offsets :: "u32 list"
  cr_nulls :: "u8 list"
  cr_command_tag :: rstring

fun response_to_columnar :: "pipeline_response \<Rightarrow> ('e, columnar_result) res" where
  "response_to_columnar (RowsResponse fs rows tag) =
     and_then (rows_to_columnar rows (length fs)) (\<lambda>(data, offsets, nulls).
       Ok \<lparr>cr_fields = fields_to_info fs, cr_row_count = word_of_nat (length rows), cr_cols = word_of_nat (length fs),
           cr_data = data, cr_offsets = offsets, cr_nulls = nulls, cr_command_tag = tag\<rparr>)"
| "response_to_columnar Done =
     Ok \<lparr>cr_fields = [], cr_row_count = 0, cr_cols = 0, cr_data = [], cr_offsets = [0], cr_nulls = [], cr_command_tag = []\<rparr>"

section \<open>The accessor of the other side\<close>

text \<open>A JavaScript string is its UTF-16 code units; \<open>slice\<close> is by code units.\<close>

definition utf16_char :: "uchar \<Rightarrow> nat list" where
  "utf16_char c = (if c < 0x10000 then [c] else [0xD800 + (c - 0x10000) div 1024, 0xDC00 + (c - 0x10000) mod 1024])"

definition utf16 :: "rstring \<Rightarrow> nat list" where "utf16 s = concat (map utf16_char (str_chars s))"

definition columnar_cell :: "rstring \<times> u32 list \<times> u8 list \<Rightarrow> nat \<Rightarrow> nat \<Rightarrow> nat \<Rightarrow> nat list option" where
  "columnar_cell result cols row col =
     (case result of (data, offsets, nulls) \<Rightarrow>
        let i = row * cols + col
        in if i div 8 < length nulls \<and> nulls ! (i div 8) AND push_bit (i mod 8) 1 \<noteq> 0 then None
           else if length offsets \<le> i + 1 then None
           else Some (drop (unat (offsets ! i)) (take (unat (offsets ! (i + 1))) (utf16 data))))"

section \<open>Every cell reads back\<close>

definition cell_data :: "bytes option list \<Rightarrow> bytes" where
  "cell_data cs = concat (map (\<lambda>c. case c of Some b \<Rightarrow> b | None \<Rightarrow> []) cs)"

definition packed :: "nat \<Rightarrow> bytes option list \<Rightarrow> packing \<Rightarrow> bool" where
  "packed m cs p \<longleftrightarrow>
     pk_data p = cell_data cs \<and> pk_idx p = length cs \<and> pk_cursor p = word_of_nat (length (cell_data cs))
     \<and> pk_offsets p = map (\<lambda>k. word_of_nat (length (cell_data (take k cs)))) [0..<Suc (length cs)]
     \<and> length (pk_nulls p) = m
     \<and> (\<forall>i < 8 * m. bit (pk_nulls p ! (i div 8)) (i mod 8) \<longleftrightarrow> i < length cs \<and> cs ! i = None)"

lemma cell_data_snoc: "cell_data (cs @ [c]) = cell_data cs @ (case c of Some b \<Rightarrow> b | None \<Rightarrow> [])"
  by (simp add: cell_data_def)

lemma unat_small: "n < 2 ^ 32 \<Longrightarrow> unat (word_of_nat n :: u32) = n"
  by (simp add: unat_of_nat take_bit_nat_eq_self)

lemma saturating_add_small: "a + b < 2 ^ 32 \<Longrightarrow> saturating_add (word_of_nat a) (word_of_nat b) = word_of_nat (a + b)"
  using unat_small [of a] unat_small [of b] by (simp add: saturating_add_def)

lemma bit_or_flag: "bit (w OR push_bit j 1 :: u8) i \<longleftrightarrow> bit w i \<or> i = j \<and> j < 8"
  by (auto simp: bit_simps)

lemma and_flag: "(w AND push_bit j 1 :: u8) \<noteq> 0 \<longleftrightarrow> bit w j"
proof -
  have "(w AND push_bit j 1 :: u8) = 0 \<longleftrightarrow> (\<forall>n. \<not> bit (w AND push_bit j 1) n)"
    by (metis bit_0_eq bit_eqI bot_apply bot_bool_def)
  then show ?thesis
    by (auto simp: bit_and_iff bit_push_bit_iff bit_1_iff simp del: push_bit_of_1 dest: bit_imp_le_length)
qed

lemma pack_cell_packed:
  assumes "packed m cs p" and "length (cell_data (cs @ [c])) < 2 ^ 32" and "length cs < 8 * m"
  shows "\<exists>p'. (pack_cell c p :: ('e, packing) res) = Ok p' \<and> packed m (cs @ [c]) p'"
proof (cases c)
  case (Some b)
  have "saturating_add (pk_cursor p) (word_of_nat (length b)) = word_of_nat (length (cell_data (cs @ [c])))"
    using assms Some saturating_add_small [of "length (cell_data cs)" "length b"]
    by (simp add: packed_def cell_data_snoc)
  then show ?thesis
    using assms(1,3) Some by (auto simp: pack_cell_def packed_def cell_data_snoc nth_append less_Suc_eq)
next
  case None
  have k: "length cs div 8 < m" using assms(3) by (simp add: less_mult_imp_div_less mult.commute)
  have same: "i div 8 = length cs div 8 \<and> i mod 8 = length cs mod 8 \<longleftrightarrow> i = length cs" for i
    by (metis div_mult_mod_eq)
  have bits: "bit ((pk_nulls p)[length cs div 8 := pk_nulls p ! (length cs div 8) OR push_bit (length cs mod 8) 1] ! (i div 8)) (i mod 8)
      \<longleftrightarrow> i < Suc (length cs) \<and> (cs @ [None]) ! i = None" if "i < 8 * m" for i
    using k assms(1) that same [of i]
    by (cases "i div 8 = length cs div 8") (auto simp: packed_def bit_or_flag nth_append less_Suc_eq simp del: push_bit_of_1)
  show ?thesis
    using assms(1) None k bits
    by (auto simp: pack_cell_def packed_def cell_data_snoc Let_def nth_append less_Suc_eq simp del: push_bit_of_1)
qed

lemma pack_start_packed: "packed ((n + 7) div 8) [] (pack_start n)"
  by (auto simp: packed_def pack_start_def cell_data_def less_mult_imp_div_less mult.commute)

lemma pack_cells_snoc: "pack_cells (cs @ [c]) p = and_then (pack_cells cs p) (pack_cell c)"
  by (simp add: pack_cells_def)

lemma pack_cells_packed:
  "length cs \<le> 8 * m \<Longrightarrow> packed m [] p \<Longrightarrow> length (cell_data cs) < 2 ^ 32 \<Longrightarrow>
   \<exists>p'. (pack_cells cs p :: ('e, packing) res) = Ok p' \<and> packed m cs p'"
proof (induction cs rule: rev_induct)
  case (snoc c cs)
  then obtain p1 where p1: "(pack_cells cs p :: ('e, packing) res) = Ok p1" "packed m cs p1" by (auto simp: cell_data_snoc)
  obtain p2 where "(pack_cell c p1 :: ('e, packing) res) = Ok p2" "packed m (cs @ [c]) p2"
    using pack_cell_packed [OF p1(2) snoc.prems(3)] snoc.prems(1) by auto
  with p1 show ?case by (simp add: pack_cells_snoc)
qed (simp add: pack_cells_def)

lemma and_then_Ok: "and_then r Ok = r"
  by (cases r) simp_all

lemma and_then_assoc: "and_then (and_then r f) g = and_then r (\<lambda>a. and_then (f a) g)"
  by (cases r) simp_all

lemma pack_cells_append: "pack_cells (cs @ ds) p = and_then (pack_cells cs p) (pack_cells ds)"
proof (induction ds rule: rev_induct)
  case Nil
  show ?case by (simp add: pack_cells_def and_then_Ok)
next
  case (snoc d ds)
  then show ?case by (simp add: pack_cells_snoc and_then_assoc flip: append_assoc)
qed

lemma pack_rows_concat:
  "(traverse iter_cells rows :: ('e, bytes option list list) res) = Ok css \<Longrightarrow>
   foldl (\<lambda>r row. and_then r (\<lambda>p. and_then (iter_cells row) (\<lambda>cs. pack_cells cs p))) (r :: ('e, packing) res) rows
     = and_then r (pack_cells (concat css))"
proof (induction rows arbitrary: r css)
  case Nil
  then show ?case by (cases r) (simp_all add: pack_cells_def)
next
  case (Cons row rows)
  then obtain cs css' where c: "(iter_cells row :: ('e, bytes option list) res) = Ok cs"
    "(traverse iter_cells rows :: ('e, bytes option list list) res) = Ok css'" "css = cs # css'"
    by (auto simp: and_then_eq_Ok)
  have "and_then (and_then r (pack_cells cs)) (pack_cells (concat css')) = and_then r (pack_cells (concat css))"
    by (cases r) (simp_all add: c(3) pack_cells_append)
  with Cons.IH [OF c(2)] c(1) show ?case by simp
qed

lemma concat_nth_uniform:
  "\<forall>cs \<in> set css. length cs = w \<Longrightarrow> r < length css \<Longrightarrow> k < w \<Longrightarrow>
   r * w + k < length (concat css) \<and> concat css ! (r * w + k) = css ! r ! k"
proof (induction css arbitrary: r)
  case (Cons cs css)
  then show ?case by (cases r) (auto simp: nth_append)
qed simp

lemma ascii_str_chars: "\<forall>b \<in> set s. b < 0x80 \<Longrightarrow> str_chars s = map unat s"
proof (induction s)
  case (Cons b s)
  then have "b < 0x80" by simp
  then have "utf8_seq (b # s) = (1, True)" by simp
  with Cons show ?case by (simp add: str_chars.simps [of "b # s"])
qed (simp add: str_chars.simps)

lemma utf16_ascii: "\<forall>b \<in> set s. b < 0x80 \<Longrightarrow> utf16 s = map unat s"
proof -
  assume "\<forall>b \<in> set s. b < 0x80"
  moreover from this have "unat b < 0x10000" if "b \<in> set s" for b using that by (auto simp: word_less_nat_alt)
  ultimately show ?thesis
    by (simp add: utf16_def ascii_str_chars comp_def utf16_char_def cong: map_cong)
qed

lemma cell_data_take_le: "k \<le> n \<Longrightarrow> length (cell_data (take k cs)) \<le> length (cell_data (take n cs))"
proof -
  assume "k \<le> n"
  then have "take n cs = take k cs @ take (n - k) (drop k cs)" by (metis le_add_diff_inverse take_add)
  then show ?thesis by (simp add: cell_data_def)
qed

lemma cell_slice:
  assumes "i < length cs" and "cs ! i = Some b"
  shows "drop (length (cell_data (take i cs))) (take (length (cell_data (take (Suc i) cs))) (cell_data cs)) = b"
proof -
  have "take (Suc i) cs = take i cs @ [Some b]" using assms by (simp add: take_Suc_conv_app_nth)
  moreover have "cell_data cs = cell_data (take (Suc i) cs) @ cell_data (drop (Suc i) cs)"
    by (metis append_take_drop_id cell_data_def concat_append map_append)
  ultimately show ?thesis by (simp add: cell_data_snoc)
qed

lemma packed_cell:
  assumes "packed m cs p" and "i < length cs" and "length cs \<le> 8 * m" and "length (cell_data cs) < 2 ^ 32"
    and "\<forall>b \<in> set (cell_data cs). b < 0x80"
  shows "columnar_cell (pk_data p, pk_offsets p, pk_nulls p) 1 i 0 = map_option (map unat) (cs ! i)"
proof -
  have small: "length (cell_data (take k cs)) < 2 ^ 32" for k
    using cell_data_take_le [of k "max k (length cs)" cs] assms(4) by simp
  have i: "i div 8 < length (pk_nulls p)" "i < 8 * m" "length (pk_offsets p) = Suc (length cs)"
    using assms(1-3) by (auto simp: packed_def less_mult_imp_div_less mult.commute)
  have "pk_nulls p ! (i div 8) AND push_bit (i mod 8) 1 \<noteq> 0 \<longleftrightarrow> cs ! i = None"
    using assms(1,2) i(2) by (simp add: packed_def and_flag del: push_bit_of_1)
  moreover have "pk_offsets p ! i = word_of_nat (length (cell_data (take i cs)))"
    "pk_offsets p ! Suc i = word_of_nat (length (cell_data (take (Suc i) cs)))"
    using assms(1,2) by (simp_all add: packed_def del: upt_Suc)
  ultimately show ?thesis
    using i assms(1,2,5) cell_slice [of i cs] small
    by (cases "cs ! i")
      (auto simp: columnar_cell_def packed_def utf16_ascii unat_small Let_def take_map drop_map simp del: push_bit_of_1 upt_Suc)
qed

lemma traverse_length: "traverse f xs = Ok ys \<Longrightarrow> length ys = length xs"
  by (induction xs arbitrary: ys) (auto simp: and_then_eq_Ok)

lemma sum_list_uniform: "\<forall>x \<in> set xs. f x = (n :: nat) \<Longrightarrow> sum_list (map f xs) = length xs * n"
  by (induction xs) auto

lemma columnar_cell_flat: "columnar_cell r w row col = columnar_cell r 1 (row * w + col) 0"
  by (cases r) (simp add: columnar_cell_def)


text \<open>The offsets count bytes and the accessor counts code units: after a two-byte character every cell is
  shifted.\<close>

lemma columnar_shifts_after_umlaut:
  "\<exists>p. pack_cells [Some [0xC3, 0xA9], Some (lit ''ab'')] (pack_start 2) = (Ok p :: (unit, packing) res)
    \<and> columnar_cell (pk_data p, pk_offsets p, pk_nulls p) 2 0 1 = Some (map unat (lit ''b''))"
proof -
  have "str_chars ([0xC3, 0xA9] @ lit ''ab'') = [0xE9, 0x61, 0x62]"
    using ascii_str_chars [of "lit ''ab''"]
    by (simp add: str_chars.simps [of "0xC3 # _"] utf8_tail_def is_cont_def lit_def)
  then have "utf16 ([0xC3, 0xA9] @ lit ''ab'') = [0xE9, 0x61, 0x62]"
    by (simp add: utf16_def utf16_char_def)
  then show ?thesis
    by (simp add: pack_cells_def pack_cell_def pack_start_def saturating_add_def columnar_cell_def Let_def lit_def)
qed

text \<open>A row that is wider than the described columns, as the replies of several statements in one simple
  query can have, runs past the bitmap at its first NULL beyond it.\<close>

lemma bitmap_overrun: "packed m cs p \<Longrightarrow> length cs = 8 * m \<Longrightarrow> pack_cell None p = Panic"
  by (simp add: pack_cell_def packed_def)

section \<open>A sample result\<close>

text \<open>Two rows of two columns, a NULL and an empty cell among them.\<close>

definition sample_rows :: "raw_row list" where
  "sample_rows = [from_entries (lit ''1'') [(0, 1), (0, - 1)], from_entries (lit ''two'') [(0, 3), (3, 0)]]"

lemma sample_rows_cells:
  "(traverse iter_cells sample_rows :: (unit, bytes option list list) res)
     = Ok [[Some (lit ''1''), None], [Some (lit ''two''), Some []]]"
  by code_simp


end
