(* ===== verification/Macros.thy ===== *)
theory Macros
  imports Migrate Queries Connection
begin

unbundle bit_operations_syntax

text \<open>
  The query macros of \<open>resolute-macros/src/lib.rs\<close> and their cache \<open>resolute-macros/src/cache.rs\<close>: the
  expansion of \<open>query!\<close>, \<open>query_as!\<close>, \<open>query_scalar!\<close>, their file variants and \<open>query_unchecked!\<close>. An
  expression of the program is a value of a type parameter; the parser of Rust types, the files and the
  connection are arguments. The theorems: an expanded call with named parameters is the named call of the
  runtime; what has been expanded against the database expands to the same query offline; and two
  statements that differ in one byte never share a cache file.
\<close>

section \<open>The input of a macro\<close>

datatype macro_error =
    MixedParameters
  | NoBinding rstring
  | UnusedBinding rstring
  | NoCachedMetadata u64
  | NoDatabaseUrl
  | InvalidDatabaseUrl
  | ConnectFailed wire_error
  | SqlFailed wire_error
  | WrongCount nat nat
  | NotOneColumn nat
  | FeatureDisabled u32
  | NoSqlFile rstring

text \<open>An argument that begins \<open>name =\<close> and one that does not. In positional mode the former is read as an
  assignment expression.\<close>

datatype 'e macro_arg = Assigned rstring 'e | Bare 'e

record 'e query_input =
  qi_sql :: rstring
  qi_params :: "'e list"
  qi_named :: "(rstring \<times> 'e) list"

fun parse_args ::
  "(rstring \<Rightarrow> 'e \<Rightarrow> 'e) \<Rightarrow> bool option \<Rightarrow> 'e macro_arg list \<Rightarrow> 'e list \<times> (rstring \<times> 'e) list
     \<Rightarrow> (macro_error, 'e list \<times> (rstring \<times> 'e) list) res" where
  "parse_args assign mode [] acc = Ok acc"
| "parse_args assign mode (Assigned n e # args) (ps, ns) =
     (if mode \<noteq> Some False then parse_args assign (Some True) args (ps, ns @ [(n, e)])
      else parse_args assign (Some False) args (ps @ [assign n e], ns))"
| "parse_args assign mode (Bare e # args) (ps, ns) =
     (if mode \<noteq> Some True then parse_args assign (Some False) args (ps @ [e], ns)
      else Err MixedParameters)"

definition parse_query_input ::
  "(rstring \<Rightarrow> 'e \<Rightarrow> 'e) \<Rightarrow> rstring \<Rightarrow> 'e macro_arg list \<Rightarrow> (macro_error, 'e query_input) res" where
  "parse_query_input assign sql args =
     and_then (parse_args assign None args ([], [])) (\<lambda>(ps, ns).
       Ok \<lparr>qi_sql = sql, qi_params = ps, qi_named = ns\<rparr>)"

text \<open>The scanner is a copy of the one in \<open>resolute/src/named_params.rs\<close>.\<close>

definition rewrite_named_params :: "unicode \<Rightarrow> chars \<Rightarrow> chars \<times> chars list" where
  "rewrite_named_params = rewrite"

definition resolve_named_macro :: "unicode \<Rightarrow> 'e query_input \<Rightarrow> (macro_error, rstring \<times> 'e list) res" where
  "resolve_named_macro u qi =
     (if qi_named qi = [] then Ok (qi_sql qi, qi_params qi)
      else
        let (rewritten, names) = rewrite_named_params u (str_chars (qi_sql qi)); names = map chars_str names
        in and_then
             (traverse (\<lambda>name. case find (\<lambda>(n, _). n = name) (qi_named qi) of
                 Some (_, e) \<Rightarrow> Ok e | None \<Rightarrow> Err (NoBinding name)) names)
             (\<lambda>ordered.
                case find (\<lambda>(n, _). n \<notin> set names) (qi_named qi) of
                  Some (n, _) \<Rightarrow> Err (UnusedBinding n)
                | None \<Rightarrow> Ok (chars_str rewritten, ordered)))"

section \<open>The cache\<close>

text \<open>FNV-1a.\<close>

definition hash_sql :: "rstring \<Rightarrow> u64" where
  "hash_sql = foldl (\<lambda>h b. (h XOR ucast b) * 0x100000001b3) 0xcbf29ce484222325"

record cached_column =
  cc_name :: rstring
  cc_type_oid :: u32
  cc_nullable :: bool

record cache_entry =
  cd_sql :: rstring
  cd_hash :: u64
  cd_param_oids :: "u32 list"
  cd_columns :: "cached_column list"

text \<open>What a readable cache file holds: \<open>nullable\<close> may be absent. A file is found by its hash.\<close>

record cache_file =
  cf_sql :: rstring
  cf_hash :: u64
  cf_param_oids :: "u32 list"
  cf_columns :: "(rstring \<times> u32 \<times> bool option) list"

type_synonym cache = "u64 \<rightharpoonup> cache_file"

definition read_column :: "rstring \<times> u32 \<times> bool option \<Rightarrow> cached_column" where
  "read_column c = (case c of (n, oid, nl) \<Rightarrow> \<lparr>cc_name = n, cc_type_oid = oid, cc_nullable = nl = Some True\<rparr>)"

definition read_cache :: "cache \<Rightarrow> u64 \<Rightarrow> cache_entry option" where
  "read_cache disk h =
     map_option (\<lambda>f. \<lparr>cd_sql = cf_sql f, cd_hash = cf_hash f, cd_param_oids = cf_param_oids f,
       cd_columns = map read_column (cf_columns f)\<rparr>) (disk h)"

definition write_cache :: "cache_entry \<Rightarrow> cache \<Rightarrow> cache" where
  "write_cache d disk =
     disk(cd_hash d \<mapsto> \<lparr>cf_sql = cd_sql d, cf_hash = cd_hash d, cf_param_oids = cd_param_oids d,
       cf_columns = map (\<lambda>c. (cc_name c, cc_type_oid c, Some (cc_nullable c))) (cd_columns d)\<rparr>)"

section \<open>Describing on the database\<close>

text \<open>The copy of \<open>parse_pg_uri\<close> in the macros and the command line tool: no decoding, no query part.\<close>

definition uri_pieces :: "bytes \<Rightarrow> conn_params" where
  "uri_pieces rest =
     (let (auth, hostdb) = or_else (split_once 0x40 rest) (lit ''postgres:postgres'', rest);
          (user, password) = or_else (split_once 0x3A auth) (auth, []);
          (hostport, database) = or_else (split_once 0x2F hostdb) (hostdb, lit ''postgres'');
          (host, port_str) = or_else (split_once 0x3A hostport) (hostport, lit ''5432'')
      in (user, password, host, parse_port port_str, database))"

definition parse_pg_uri_plain :: "rstring \<Rightarrow> conn_params option" where
  "parse_pg_uri_plain uri =
     (case (case strip_prefix (lit ''postgres://'') uri of
              Some rest \<Rightarrow> Some rest | None \<Rightarrow> strip_prefix (lit ''postgresql://'') uri) of
        None \<Rightarrow> None
      | Some rest \<Rightarrow> Some (uri_pieces rest))"

datatype feature = FeatureJson | FeatureChrono | FeatureUuid

record macro_env =
  me_offline :: bool
  me_url :: "rstring option"
  me_connect :: "conn_params \<Rightarrow> wire_conn awaited"
  me_writable :: bool
  me_features :: "feature list"

text \<open>The columns of real tables: index, table and attribute number.\<close>

definition table_cols :: "field_description list \<Rightarrow> (nat \<times> u32 \<times> i16) list" where
  "table_cols fs =
     map (\<lambda>(i, f). (i, fd_table_oid f, fd_column_id f))
       (filter (\<lambda>(_, f). fd_table_oid f \<noteq> 0 \<and> 0 <s fd_column_id f) (List.enumerate 0 fs))"

fun joined :: "bytes \<Rightarrow> bytes list \<Rightarrow> bytes" where
  "joined sep [] = []"
| "joined sep [x] = x"
| "joined sep (x # xs) = x @ sep @ joined sep xs"

definition null_sql :: "(nat \<times> u32 \<times> i16) list \<Rightarrow> rstring" where
  "null_sql tcs =
     lit ''SELECT attrelid, attnum, attnotnull FROM pg_attribute WHERE ''
     @ joined (lit '' OR '') (map (\<lambda>(_, oid, col).
         lit ''(attrelid='' @ decimal (unat oid) @ lit '' AND attnum='' @ decimal_int (sint col) @ lit '')'') tcs)"

definition attribute_row :: "raw_row \<Rightarrow> (macro_error, u32 \<times> i16 \<times> bool) res" where
  "attribute_row row =
     and_then (cell_str row 0) (\<lambda>oid. and_then (cell_str row 1) (\<lambda>col. and_then (cell row 2) (\<lambda>notnull.
       Ok (or_else (map_option word_of_nat (Option.bind oid (parse_unsigned (2 ^ 32)))) 0,
           or_else (map_option word_of_int (Option.bind col (parse_signed 16))) 0,
           notnull = Some (lit ''t'')))))"

definition mark_not_null ::
  "(nat \<times> u32 \<times> i16) list \<Rightarrow> cached_column list \<Rightarrow> u32 \<times> i16 \<times> bool \<Rightarrow> cached_column list" where
  "mark_not_null tcs cols a =
     (case a of (oid, col, notnull) \<Rightarrow>
        foldl (\<lambda>cols (i, t_oid, t_col).
          if t_oid = oid \<and> t_col = col \<and> notnull then cols[i := (cols ! i)\<lparr>cc_nullable := False\<rparr>] else cols) cols tcs)"

definition described_columns :: "field_description list \<Rightarrow> cached_column list" where
  "described_columns = map (\<lambda>f. \<lparr>cc_name = fd_name f, cc_type_oid = fd_type_oid f, cc_nullable = True\<rparr>)"

definition null_checks ::
  "field_description list \<Rightarrow> wire_conn \<Rightarrow> (macro_error, cached_column list) res option" where
  "null_checks fs c =
     (let columns = described_columns fs; tcs = table_cols fs
      in if tcs = [] then Some (Ok columns)
         else case fst (aw_then (send_raw (encode_message (Query (null_sql tcs)) []) c) (\<lambda>_. collect_rows)) of
                None \<Rightarrow> None
              | Some Panic \<Rightarrow> Some Panic
              | Some (Err _) \<Rightarrow> Some (Ok columns)
              | Some (Ok (rows, _)) \<Rightarrow>
                  Some (and_then (traverse attribute_row rows) (\<lambda>as. Ok (foldl (mark_not_null tcs) columns as))))"

definition describe_live ::
  "macro_env \<Rightarrow> rstring \<Rightarrow> (macro_error, u32 list \<times> cached_column list) res option" where
  "describe_live env sql =
     (case me_url env of
        None \<Rightarrow> Some (Err NoDatabaseUrl)
      | Some url \<Rightarrow>
          (case parse_pg_uri_plain url of
             None \<Rightarrow> Some (Err InvalidDatabaseUrl)
           | Some params \<Rightarrow>
               (case me_connect env params of
                  None \<Rightarrow> None
                | Some Panic \<Rightarrow> Some Panic
                | Some (Err e) \<Rightarrow> Some (Err (ConnectFailed e))
                | Some (Ok c) \<Rightarrow>
                    (case describe_statement sql c of
                       (None, _) \<Rightarrow> None
                     | (Some Panic, _) \<Rightarrow> Some Panic
                     | (Some (Err e), _) \<Rightarrow> Some (Err (SqlFailed e))
                     | (Some (Ok (param_oids, fs)), c) \<Rightarrow>
                         map_option (\<lambda>r. and_then r (\<lambda>columns. Ok (param_oids, columns))) (null_checks fs c)))))"

text \<open>The cache first, then the database; a failed write is only a warning.\<close>

definition resolve_metadata ::
  "macro_env \<Rightarrow> rstring \<Rightarrow> cache \<Rightarrow> (macro_error, u32 list \<times> cached_column list) res option \<times> cache" where
  "resolve_metadata env sql disk =
     (let sql_hash = hash_sql sql
      in case read_cache disk sql_hash of
           Some d \<Rightarrow> (Some (Ok (cd_param_oids d, cd_columns d)), disk)
         | None \<Rightarrow>
             if me_offline env then (Some (Err (NoCachedMetadata sql_hash)), disk)
             else
               case describe_live env sql of
                 Some (Ok (param_oids, columns)) \<Rightarrow>
                   (Some (Ok (param_oids, columns)),
                    if me_writable env
                    then write_cache \<lparr>cd_sql = sql, cd_hash = sql_hash, cd_param_oids = param_oids, cd_columns = columns\<rparr> disk
                    else disk)
               | r \<Rightarrow> (r, disk))"

section \<open>The expansion\<close>

text \<open>\<open>oid_to_rust_type\<close>: the tokens of the type, and the feature an oid needs.\<close>

definition rust_types :: "(nat list \<times> feature option \<times> string) list" where
  "rust_types =
     [([16], None, ''bool''), ([18, 19, 25, 1042, 1043], None, ''String''), ([20], None, ''i64''),
      ([21], None, ''i16''), ([23, 26], None, ''i32''), ([700], None, ''f32''), ([701], None, ''f64''),
      ([17], None, ''Vec<u8>''), ([869], None, ''resolute::PgInet''), ([1700], None, ''resolute::PgNumeric''),
      ([1000], None, ''Vec<bool>''), ([1005], None, ''Vec<i16>''), ([1007], None, ''Vec<i32>''),
      ([1009, 1015], None, ''Vec<String>''), ([1016], None, ''Vec<i64>''), ([1021], None, ''Vec<f32>''),
      ([1022], None, ''Vec<f64>''), ([1041], None, ''Vec<resolute::PgInet>''),
      ([1231], None, ''Vec<resolute::PgNumeric>''), ([3904], None, ''resolute::PgRange<i32>''),
      ([3926], None, ''resolute::PgRange<i64>''), ([3906], None, ''resolute::PgRange<resolute::PgNumeric>''),
      ([114, 3802], Some FeatureJson, ''serde_json::Value''), ([3807], Some FeatureJson, ''Vec<serde_json::Value>''),
      ([1082], Some FeatureChrono, ''chrono::NaiveDate''), ([1083], Some FeatureChrono, ''chrono::NaiveTime''),
      ([1114], Some FeatureChrono, ''chrono::NaiveDateTime''),
      ([1184], Some FeatureChrono, ''chrono::DateTime<chrono::Utc>''),
      ([1115], Some FeatureChrono, ''Vec<chrono::NaiveDateTime>''), ([1182], Some FeatureChrono, ''Vec<chrono::NaiveDate>''),
      ([1183], Some FeatureChrono, ''Vec<chrono::NaiveTime>''),
      ([1185], Some FeatureChrono, ''Vec<chrono::DateTime<chrono::Utc>>''),
      ([3912], Some FeatureChrono, ''resolute::PgRange<chrono::NaiveDate>''),
      ([3908], Some FeatureChrono, ''resolute::PgRange<chrono::NaiveDateTime>''),
      ([3910], Some FeatureChrono, ''resolute::PgRange<chrono::DateTime<chrono::Utc>>''),
      ([2950], Some FeatureUuid, ''uuid::Uuid''), ([2951], Some FeatureUuid, ''Vec<uuid::Uuid>'')]"

definition oid_to_rust_type :: "feature list \<Rightarrow> u32 \<Rightarrow> (macro_error, rstring) res" where
  "oid_to_rust_type features oid =
     (case find (\<lambda>(oids, _). unat oid \<in> set oids) rust_types of
        None \<Rightarrow> Ok (lit ''Vec<u8>'')
      | Some (_, None, ty) \<Rightarrow> Ok (lit ty)
      | Some (_, Some f, ty) \<Rightarrow> if f \<in> set features then Ok (lit ty) else Err (FeatureDisabled oid))"

definition sanitize_ident :: "unicode \<Rightarrow> chars \<Rightarrow> chars" where
  "sanitize_ident u name =
     (let s = map (\<lambda>c. if name_char u c then c else 95) name
      in if next_is (\<lambda>c. 48 \<le> c \<and> c \<le> 57) s then 95 # s
         else if s = [] then chr_text ''column'' else s)"

text \<open>A single colon followed by a Rust type; \<open>is_type\<close> is the parser of types.\<close>

definition override_at :: "(rstring \<Rightarrow> bool) \<Rightarrow> rstring \<Rightarrow> nat \<Rightarrow> (rstring \<times> rstring) option" where
  "override_at is_type s i =
     (if s ! i = 0x3A \<and> \<not> (0 < i \<and> s ! (i - 1) = 0x3A) \<and> \<not> (i + 1 < length s \<and> s ! (i + 1) = 0x3A)
         \<and> trim (drop (i + 1) s) \<noteq> [] \<and> is_type (trim (drop (i + 1) s))
      then Some (trim (take i s), trim (drop (i + 1) s)) else None)"

definition parse_type_override :: "(rstring \<Rightarrow> bool) \<Rightarrow> rstring \<Rightarrow> rstring \<times> rstring option" where
  "parse_type_override is_type col =
     (case List.map_filter (override_at is_type col) [0..<length col] of
        [] \<Rightarrow> (col, None)
      | (name, ty) # _ \<Rightarrow> (name, Some ty))"

text \<open>The Unicode tables, the parser of types and the environment of the compiler.\<close>

record compiler =
  cp_unicode :: unicode
  cp_is_type :: "rstring \<Rightarrow> bool"
  cp_env :: macro_env

text \<open>A field of the generated struct: its name, its type and whether it is an \<open>Option\<close>.\<close>

definition column_type :: "compiler \<Rightarrow> cached_column \<Rightarrow> rstring option \<Rightarrow> (macro_error, rstring) res" where
  "column_type cp c ty =
     (case ty of Some custom \<Rightarrow> Ok custom | None \<Rightarrow> oid_to_rust_type (me_features (cp_env cp)) (cc_type_oid c))"

definition query_field :: "compiler \<Rightarrow> cached_column \<Rightarrow> (macro_error, rstring \<times> rstring \<times> bool) res" where
  "query_field cp c =
     (case parse_type_override (cp_is_type cp) (cc_name c) of
        (name, ty) \<Rightarrow>
          and_then (column_type cp c ty) (\<lambda>base.
            Ok (chars_str (sanitize_ident (cp_unicode cp) (str_chars name)), base, cc_nullable c)))"

record 'e expansion =
  xp_sql :: rstring
  xp_params :: "'e list"
  xp_fields :: "(rstring \<times> rstring \<times> bool) list"

text \<open>The part that the three macros share: names, metadata, the count of the parameters.\<close>

definition with_metadata ::
  "compiler \<Rightarrow> (rstring \<Rightarrow> 'e list \<Rightarrow> cached_column list \<Rightarrow> (macro_error, 'x) res) \<Rightarrow> 'e query_input \<Rightarrow> cache
     \<Rightarrow> (macro_error, 'x) res option \<times> cache" where
  "with_metadata cp generate qi disk =
     (case resolve_named_macro (cp_unicode cp) qi of
        Err e \<Rightarrow> (Some (Err e), disk)
      | Panic \<Rightarrow> (Some Panic, disk)
      | Ok (sql, params) \<Rightarrow>
          (case resolve_metadata (cp_env cp) sql disk of
             (r, disk) \<Rightarrow>
               (map_option (\<lambda>r. and_then r (\<lambda>(param_oids, columns).
                  if length params \<noteq> length param_oids then Err (WrongCount (length param_oids) (length params))
                  else generate sql params columns)) r, disk)))"

definition query_impl ::
  "compiler \<Rightarrow> 'e query_input \<Rightarrow> cache \<Rightarrow> (macro_error, 'e expansion) res option \<times> cache" where
  "query_impl cp = with_metadata cp (\<lambda>sql params columns.
     and_then (traverse (query_field cp) columns) (\<lambda>fs. Ok \<lparr>xp_sql = sql, xp_params = params, xp_fields = fs\<rparr>))"

definition query_as_impl ::
  "compiler \<Rightarrow> 'e query_input \<Rightarrow> cache \<Rightarrow> (macro_error, rstring \<times> 'e list) res option \<times> cache" where
  "query_as_impl cp = with_metadata cp (\<lambda>sql params columns. Ok (sql, params))"

text \<open>The type of the value; whether the column can be NULL is not asked.\<close>

definition query_scalar_impl ::
  "compiler \<Rightarrow> 'e query_input \<Rightarrow> cache \<Rightarrow> (macro_error, rstring \<times> 'e list \<times> rstring) res option \<times> cache" where
  "query_scalar_impl cp = with_metadata cp (\<lambda>sql params columns.
     case columns of
       [c] \<Rightarrow> and_then (column_type cp c (snd (parse_type_override (cp_is_type cp) (cc_name c))))
                (\<lambda>ty. Ok (sql, params, ty))
     | _ \<Rightarrow> Err (NotOneColumn (length columns)))"

text \<open>The variants that read the SQL from a file drop named parameters before the expansion, and
  \<open>query_unchecked!\<close> drops them too.\<close>

definition read_sql_file :: "(rstring \<Rightarrow> rstring option) \<Rightarrow> rstring \<Rightarrow> (macro_error, rstring) res" where
  "read_sql_file read p = (case read p of None \<Rightarrow> Err (NoSqlFile p) | Some s \<Rightarrow> Ok (trim s))"

definition on_file ::
  "(rstring \<Rightarrow> rstring option) \<Rightarrow> ('e query_input \<Rightarrow> cache \<Rightarrow> (macro_error, 'x) res option \<times> cache)
     \<Rightarrow> 'e query_input \<Rightarrow> cache \<Rightarrow> (macro_error, 'x) res option \<times> cache" where
  "on_file read impl qi disk =
     (case read_sql_file read (qi_sql qi) of
        Ok sql \<Rightarrow> impl \<lparr>qi_sql = sql, qi_params = qi_params qi, qi_named = []\<rparr> disk
      | Err e \<Rightarrow> (Some (Err e), disk)
      | Panic \<Rightarrow> (Some Panic, disk))"

definition query_file where "query_file read cp = on_file read (query_impl cp)"
definition query_file_as where "query_file_as read cp = on_file read (query_as_impl cp)"
definition query_file_scalar where "query_file_scalar read cp = on_file read (query_scalar_impl cp)"

definition query_unchecked :: "('e \<Rightarrow> sql_param) \<Rightarrow> 'e query_input \<Rightarrow> unchecked_query" where
  "query_unchecked ev qi = \<lparr>uq_sql = qi_sql qi, uq_params = map ev (qi_params qi)\<rparr>"

text \<open>The generated code: \<open>ev\<close> evaluates an expression, \<open>decs\<close> gives the decoders of a type.\<close>

definition field_value ::
  "(rstring \<Rightarrow> 'v decoders) \<Rightarrow> row \<Rightarrow> nat \<times> rstring \<times> rstring \<times> bool \<Rightarrow> (rstring \<times> 'v option) typed" where
  "field_value decs row f =
     (case f of (i, name, ty, nullable) \<Rightarrow>
        if nullable then and_then (row_get_opt (decs ty) row i) (\<lambda>v. Ok (name, v))
        else and_then (row_get (decs ty) row i) (\<lambda>v. Ok (name, Some v)))"

definition checked_of ::
  "('e \<Rightarrow> sql_param) \<Rightarrow> (rstring \<Rightarrow> 'v decoders) \<Rightarrow> 'e expansion \<Rightarrow> (rstring \<times> 'v option) list checked_query" where
  "checked_of ev decs x =
     \<lparr>cq_sql = xp_sql x, cq_params = map ev (xp_params x),
      cq_mapper = (\<lambda>row. traverse (field_value decs row) (List.enumerate 0 (xp_fields x)))\<rparr>"

definition scalar_of ::
  "('e \<Rightarrow> sql_param) \<Rightarrow> (rstring \<Rightarrow> 'v decoders) \<Rightarrow> rstring \<times> 'e list \<times> rstring \<Rightarrow> 'v checked_query" where
  "scalar_of ev decs x =
     (case x of (sql, ps, ty) \<Rightarrow>
        \<lparr>cq_sql = sql, cq_params = map ev ps, cq_mapper = (\<lambda>row. row_get (decs ty) row 0)\<rparr>)"

definition query_as_of ::
  "('e \<Rightarrow> sql_param) \<Rightarrow> (row \<Rightarrow> 'a typed) \<Rightarrow> rstring \<times> 'e list \<Rightarrow> 'a checked_query" where
  "query_as_of ev from_row x = \<lparr>cq_sql = fst x, cq_params = map ev (snd x), cq_mapper = from_row\<rparr>"

section \<open>Named parameters at compile time\<close>

lemma resolve_named_mapped:
  "traverse (\<lambda>name. case find (\<lambda>(n, _). n = name) ns of Some (_, e) \<Rightarrow> Ok e | None \<Rightarrow> Err (NoBinding name)) names
     = Ok es \<Longrightarrow> resolve_named names (map (\<lambda>(n, e). (n, ev e)) ns) = Ok (map ev es)"
  unfolding resolve_named_def find_map_of map_of_map comp_def
  by (induction names arbitrary: es) (auto simp: and_then_eq_Ok split: option.splits)

lemma named_resolved:
  assumes "resolve_named_macro u qi = Ok (sql, ps)" and "qi_named qi \<noteq> []"
  shows "exec_named u call (qi_sql qi) (map (\<lambda>(n, e). (n, ev e)) (qi_named qi)) c = call sql (map ev ps) c"
  using assms resolve_named_mapped [where ns = "qi_named qi" and ev = ev]
  by (auto simp: resolve_named_macro_def exec_named_def rewrite_named_params_def and_then_eq_Ok split: prod.splits option.splits)

lemma query_impl_resolved:
  assumes "query_impl cp qi disk = (Some (Ok x), disk')"
  shows "resolve_named_macro (cp_unicode cp) qi = Ok (xp_sql x, xp_params x)"
  using assms by (auto simp: query_impl_def with_metadata_def and_then_eq_Ok split: res.splits prod.splits if_splits)

text \<open>C18: when a query macro with named parameters expands, running its query is running the named call of
  the executor on the SQL as written with the values of the bindings, rows going through the generated
  mapper.\<close>

theorem macro_call_is_named_call:
  assumes "query_impl cp qi disk = (Some (Ok x), disk')" and "qi_named qi \<noteq> []"
  shows "checked_execute ex (checked_of ev decs x) c
      = exec_named (cp_unicode cp) (ex_execute ex) (qi_sql qi) (map (\<lambda>(n, e). (n, ev e)) (qi_named qi)) c
    \<and> checked_fetch_all ex (checked_of ev decs x) c
      = then_run (exec_named (cp_unicode cp) (ex_query ex) (qi_sql qi) (map (\<lambda>(n, e). (n, ev e)) (qi_named qi)))
          (\<lambda>rows c. (traverse (cq_mapper (checked_of ev decs x)) rows, c)) c"
  by (simp add: checked_execute_def checked_fetch_all_def checked_of_def then_run_def
      named_resolved [OF query_impl_resolved [OF assms(1)] assms(2), where ev = ev])

text \<open>Mixing is refused in one order only: after a positional parameter, \<open>name = value\<close> is an assignment
  passed as a parameter.\<close>

lemma mixing_refused_one_way:
  "parse_args assign None [Assigned n e, Bare e'] ([], []) = Err MixedParameters"
  "parse_args assign None [Bare e', Assigned n e] ([], []) = Ok ([e', assign n e], [])"
  by simp_all

text \<open>\<open>query_unchecked!\<close> and the file macros accept named parameters and lose them.\<close>

lemma unchecked_loses_named:
  "query_unchecked ev \<lparr>qi_sql = sql, qi_params = [], qi_named = ns\<rparr> = \<lparr>uq_sql = sql, uq_params = []\<rparr>"
  by (simp add: query_unchecked_def)

section \<open>Offline builds\<close>

lemma read_column_written [simp]: "read_column (cc_name c, cc_type_oid c, Some (cc_nullable c)) = c"
  by (simp add: read_column_def)

lemma read_write_cache: "read_cache (write_cache d disk) (cd_hash d) = Some d"
  by (simp add: read_cache_def write_cache_def comp_def)

lemma metadata_kept:
  assumes "resolve_metadata env sql disk = (Some (Ok m), disk')" and "me_writable env"
  shows "resolve_metadata env' sql disk' = (Some (Ok m), disk')"
proof (cases "read_cache disk (hash_sql sql)")
  case (Some d)
  with assms show ?thesis by (auto simp: resolve_metadata_def)
next
  case None
  with assms(1) have on: "\<not> me_offline env" by (auto simp: resolve_metadata_def)
  obtain oids cols where m: "describe_live env sql = Some (Ok (oids, cols))"
    using assms None on by (auto simp: resolve_metadata_def split: option.splits res.splits)
  let ?d = "\<lparr>cd_sql = sql, cd_hash = hash_sql sql, cd_param_oids = oids, cd_columns = cols\<rparr>"
  have "m = (oids, cols)" "disk' = write_cache ?d disk"
    using assms None on m by (auto simp: resolve_metadata_def)
  then show ?thesis
    using read_write_cache [of ?d disk] by (simp add: resolve_metadata_def)
qed

lemma with_metadata_kept:
  assumes "with_metadata cp gen qi disk = (Some (Ok x), disk')" and "me_writable (cp_env cp)"
    and "\<And>sql ps cols. gen sql ps cols = gen' sql ps cols"
  shows "with_metadata (cp\<lparr>cp_env := env\<rparr>) gen' qi disk' = (Some (Ok x), disk')"
proof -
  obtain sql ps where r: "resolve_named_macro (cp_unicode cp) qi = Ok (sql, ps)"
    using assms(1) by (auto simp: with_metadata_def split: res.splits)
  obtain oids cols where m: "resolve_metadata (cp_env cp) sql disk = (Some (Ok (oids, cols)), disk')"
    "length ps = length oids" "gen sql ps cols = Ok x"
    using assms(1) r by (auto simp: with_metadata_def and_then_eq_Ok split: prod.splits if_splits)
  then show ?thesis
    using r assms(3) metadata_kept [OF m(1) assms(2), of env] by (simp add: with_metadata_def)
qed

text \<open>A query that has expanded, with the cache writable, expands to the same query ever after, in any
  environment with the same features: offline too, and without a database.\<close>

theorem expansion_repeats_offline:
  assumes "query_impl cp qi disk = (Some (Ok x), disk')" and "me_writable (cp_env cp)"
    and "me_features env = me_features (cp_env cp)"
  shows "query_impl (cp\<lparr>cp_env := env\<rparr>) qi disk' = (Some (Ok x), disk')"
proof -
  have "query_field (cp\<lparr>cp_env := env\<rparr>) = query_field cp"
    using assms(3) by (intro ext) (simp add: query_field_def column_type_def cong: option.case_cong)
  then show ?thesis
    using assms(1) unfolding query_impl_def by (intro with_metadata_kept assms(2)) simp_all
qed

section \<open>The hash\<close>

lemma fnv_prime_inverse: "(0x100000001b3 :: u64) * 14886173955864302971 = 1"
  by simp

lemma hash_step_inject: "(h * 0x100000001b3 :: u64) = k * 0x100000001b3 \<longleftrightarrow> h = k"
proof
  assume "h * 0x100000001b3 = k * 0x100000001b3"
  then have "h * (0x100000001b3 * 14886173955864302971) = k * (0x100000001b3 * 14886173955864302971)"
    by (simp only: mult.assoc [symmetric])
  then show "h = k" by (simp only: fnv_prime_inverse mult_1_right)
qed simp

lemma xor_cancel: "(h XOR x :: u64) = k XOR x \<longleftrightarrow> h = k" "(x XOR h :: u64) = x XOR k \<longleftrightarrow> h = k"
proof -
  have "(a XOR x) XOR x = a" "x XOR (x XOR a) = a" for a :: u64
    by (simp_all add: xor.assoc)
  then show "(h XOR x :: u64) = k XOR x \<longleftrightarrow> h = k" "(x XOR h :: u64) = x XOR k \<longleftrightarrow> h = k" by metis+
qed

lemma hash_suffix_inject:
  "foldl (\<lambda>h b. (h XOR ucast b) * 0x100000001b3) h s = foldl (\<lambda>h b. (h XOR ucast (b :: u8)) * 0x100000001b3) (k :: u64) s
     \<longleftrightarrow> h = k"
  by (induction s arbitrary: h k) (simp_all add: hash_step_inject xor_cancel)

text \<open>Two statements that differ in a single byte have different hashes, so they never share a cache
  file or the name of a generated struct.\<close>

theorem hash_tells_bytes_apart:
  assumes "b \<noteq> c"
  shows "hash_sql (p @ b # s) \<noteq> hash_sql (p @ c # s)"
proof -
  have "(ucast b :: u64) \<noteq> ucast c"
  proof
    assume "(ucast b :: u64) = ucast c"
    then have same: "unat (ucast b :: u64) = unat (ucast c :: u64)" by simp
    have up: "unat (ucast a :: u64) = unat a" for a :: u8
    proof -
      have "unat a < 2 ^ 8" using unsigned_less [of a] by simp
      then show ?thesis by (simp add: unsigned_ucast_eq take_bit_nat_eq_self)
    qed
    from same assms show False by (simp add: up word_unat_eq_iff)
  qed
  then show ?thesis
    unfolding hash_sql_def foldl_append foldl_Cons hash_suffix_inject hash_step_inject xor_cancel .
qed

section \<open>Identifiers, types and addresses\<close>

lemma sanitize_ident_name:
  "list_all (name_char u) (sanitize_ident u name) \<and> sanitize_ident u name \<noteq> []
    \<and> \<not> next_is (\<lambda>c. 48 \<le> c \<and> c \<le> 57) (sanitize_ident u name)"
proof -
  have "name_char u 95" by (simp add: name_char_def)
  then show ?thesis
    by (auto simp: sanitize_ident_def Let_def list_all_iff chr_text_def name_char_def is_alphanumeric_def is_alphabetic_def)
qed

lemma types_agree_with_runtime:
  "rust_type_for_oid oid \<noteq> lit ''unknown'' \<Longrightarrow> oid_to_rust_type fs oid = Ok (rust_type_for_oid oid)"
proof -
  assume "rust_type_for_oid oid \<noteq> lit ''unknown''"
  then have "oid \<in> {16, 20, 21, 23, 25, 1043, 700, 701, 17}"
    by (auto simp: rust_type_for_oid_def split: if_splits)
  then show ?thesis
    by (elim insertE emptyE) (simp_all add: rust_type_for_oid_def oid_to_rust_type_def rust_types_def)
qed

text \<open>A scalar query has the bare type even for a column that can be NULL.\<close>

lemma scalar_null_fails:
  assumes "iter_cells (r_data row) = (Ok [None] :: (typed_error, bytes option list) res)"
  shows "cq_mapper (scalar_of ev decs x) row = Err (UnexpectedNull 0)"
  using try_cell_cells [OF assms] by (simp add: scalar_of_def row_get_def get_at_def split: prod.splits)

text \<open>The two readers of a database address agree on plain ASCII without \<open>%\<close> and \<open>?\<close>, and differ on an encoded
  password.\<close>

lemma url_decode_plain: "list_all (\<lambda>b. b < 0x80 \<and> b \<noteq> 0x25) s \<Longrightarrow> url_decode s = s"
proof (induction s rule: url_chars.induct)
  case (1 b h l rest)
  then have "unat b < 128" "b \<noteq> 0x25" "chars_str (url_chars (h # l # rest)) = h # l # rest"
    by (simp_all add: word_less_nat_alt url_decode_def)
  then show ?case
    by (simp add: url_decode_def chars_str_def char_bytes_def)
qed (auto simp: url_decode_def chars_str_def char_bytes_def word_less_nat_alt)

lemma split_once_list_all:
  assumes "or_else (split_once c s) (x, y) = (a, b)" and "list_all P s" and "list_all P x" and "list_all P y"
  shows "list_all P a \<and> list_all P b"
proof (cases "split_once c s")
  case (Some p)
  have tl_subset: "set (tl xs) \<subseteq> set xs" for xs :: bytes by (cases xs) auto
  have "set (dropWhile (\<lambda>b. b \<noteq> c) s) \<subseteq> set s" by (auto dest: set_dropWhileD)
  with tl_subset have "set (tl (dropWhile (\<lambda>b. b \<noteq> c) s)) \<subseteq> set s" by blast
  with Some have "set a \<subseteq> set s" "set b \<subseteq> set s"
    using assms(1) by (auto simp: split_once_def or_else_def split: if_splits dest: set_takeWhileD)
  with assms(2) show ?thesis by (auto simp: list_all_iff)
qed (use assms in \<open>simp add: or_else_def\<close>)

lemma uri_copies_agree:
  assumes "list_all (\<lambda>b. b < 0x80 \<and> b \<noteq> 0x25) rest"
  shows "uri_params rest = uri_pieces rest"
proof -
  let ?P = "list_all (\<lambda>b :: u8. b < 0x80 \<and> b \<noteq> 0x25)"
  obtain auth hostdb where 1: "or_else (split_once 0x40 rest) (lit ''postgres:postgres'', rest) = (auth, hostdb)" by force
  obtain user password where 2: "or_else (split_once 0x3A auth) (auth, []) = (user, password)" by force
  obtain hostport db where 3: "or_else (split_once 0x2F hostdb) (hostdb, lit ''postgres'') = (hostport, db)" by force
  obtain host port where 4: "or_else (split_once 0x3A hostport) (hostport, lit ''5432'') = (host, port)" by force
  have "?P (lit ''postgres:postgres'')" "?P (lit ''postgres'')" by (simp_all add: lit_def)
  then have "?P auth" "?P hostdb" "?P db" "?P user" "?P password"
    using assms split_once_list_all [OF 1, of "\<lambda>b. b < 0x80 \<and> b \<noteq> 0x25"]
      split_once_list_all [OF 2, of "\<lambda>b. b < 0x80 \<and> b \<noteq> 0x25"] split_once_list_all [OF 3, of "\<lambda>b. b < 0x80 \<and> b \<noteq> 0x25"]
    by auto
  then show ?thesis
    by (simp add: uri_params_def uri_pieces_def 1 2 3 4 url_decode_plain)
qed

section \<open>Samples\<close>

definition sample_compiler :: compiler where
  "sample_compiler = \<lparr>cp_unicode = ascii, cp_is_type = (\<lambda>_. False),
     cp_env = \<lparr>me_offline = False, me_url = None, me_connect = (\<lambda>_. None), me_writable = True, me_features = []\<rparr>\<rparr>"

definition sample_disk :: cache where
  "sample_disk = write_cache \<lparr>cd_sql = lit ''SELECT $1'', cd_hash = hash_sql (lit ''SELECT $1''), cd_param_oids = [20],
     cd_columns = [\<lparr>cc_name = lit ''n'', cc_type_oid = 20, cc_nullable = True\<rparr>]\<rparr> Map.empty"

definition sample_input :: "sql_param query_input" where
  "sample_input = \<lparr>qi_sql = lit ''SELECT :a'', qi_params = [], qi_named = [(lit ''a'', int8_param 1)]\<rparr>"

lemma sample_rewrite: "rewrite ascii (str_chars (lit ''SELECT :a'')) = (chr_text ''SELECT $1'', [chr_text ''a''])"
  by code_simp

lemma sample_expands:
  "query_impl sample_compiler sample_input sample_disk
     = (Some (Ok \<lparr>xp_sql = lit ''SELECT $1'', xp_params = [int8_param 1], xp_fields = [(lit ''n'', lit ''i64'', True)]\<rparr>),
        sample_disk)"
proof -
  have "chars_str (chr_text ''SELECT $1'') = lit ''SELECT $1''" "chars_str (chr_text ''a'') = lit ''a''"
    by (simp_all add: chars_str_def chr_text_def lit_def char_bytes_def)
  then have named: "resolve_named_macro ascii sample_input = Ok (lit ''SELECT $1'', [int8_param 1])"
    by (simp add: resolve_named_macro_def rewrite_named_params_def sample_input_def sample_rewrite)
  have "chars_str (sanitize_ident ascii (str_chars (lit ''n''))) = lit ''n''"
    "override_at (\<lambda>_. False) (lit ''n'') 0 = None" "length (lit ''n'') = 1"
    by code_simp+
  then have field: "query_field sample_compiler \<lparr>cc_name = lit ''n'', cc_type_oid = 20, cc_nullable = True\<rparr>
      = Ok (lit ''n'', lit ''i64'', True)"
    by (simp add: query_field_def sample_compiler_def parse_type_override_def List.map_filter_def column_type_def
        oid_to_rust_type_def rust_types_def)
  have "read_cache sample_disk (hash_sql (lit ''SELECT $1''))
      = Some \<lparr>cd_sql = lit ''SELECT $1'', cd_hash = hash_sql (lit ''SELECT $1''), cd_param_oids = [20],
          cd_columns = [\<lparr>cc_name = lit ''n'', cc_type_oid = 20, cc_nullable = True\<rparr>]\<rparr>"
    using read_write_cache unfolding sample_disk_def by (metis cache_entry.select_convs(2))
  then show ?thesis
    using named field
    by (simp add: query_impl_def with_metadata_def sample_compiler_def resolve_metadata_def)
qed

theorem macro_call_is_named_call_witness:
  "let net = typed_net (\<lambda>_. []) (\<lambda>_ _ _. Inr ([], lit ''SELECT 0''));
       env = \<lparr>ce_elapsed = 1, ce_log_ok = False, ce_log_err = True\<rparr>;
       c = (metrics_zero, async_new [], Map.empty)
   in checked_execute (client_executor net env) (checked_of id (\<lambda>_. (decode_i64, \<lambda>_. Panic))
        \<lparr>xp_sql = lit ''SELECT $1'', xp_params = [int8_param 1], xp_fields = [(lit ''n'', lit ''i64'', True)]\<rparr>) c
    = exec_named ascii (client_execute net env) (lit ''SELECT :a'') [(lit ''a'', int8_param 1)] c"
  using macro_call_is_named_call [OF sample_expands, where ev = id and decs = "\<lambda>_. (decode_i64, \<lambda>_. Panic)"
      and ex = "client_executor (typed_net (\<lambda>_. []) (\<lambda>_ _ _. Inr ([], lit ''SELECT 0'')))
        \<lparr>ce_elapsed = 1, ce_log_ok = False, ce_log_err = True\<rparr>" and c = "(metrics_zero, async_new [], Map.empty)"]
  by (simp add: sample_input_def client_executor_def sample_compiler_def)

theorem expansion_repeats_offline_witness:
  "query_impl (sample_compiler\<lparr>cp_env := \<lparr>me_offline = True, me_url = None, me_connect = (\<lambda>_. None),
      me_writable = False, me_features = []\<rparr>\<rparr>) sample_input sample_disk
    = (Some (Ok \<lparr>xp_sql = lit ''SELECT $1'', xp_params = [int8_param 1], xp_fields = [(lit ''n'', lit ''i64'', True)]\<rparr>),
       sample_disk)"
  by (rule expansion_repeats_offline [OF sample_expands]) (simp_all add: sample_compiler_def)

theorem hash_tells_bytes_apart_witness: "hash_sql (lit ''SELECT 1'') \<noteq> hash_sql (lit ''SELECT 2'')"
  using hash_tells_bytes_apart [where b = "0x31" and c = "0x32" and p = "lit ''SELECT ''" and s = "[]"] by (simp add: lit_def)

end
