(* ===== verification/Cli.thy ===== *)
theory Cli
  imports Macros "HOL-Library.List_Lexorder"
begin

text \<open>
  \<open>resolute-cli/src/main.rs\<close>: the commands \<open>prepare\<close> and \<open>check\<close>, the scan for query macros, and the search
  for the cache directory, which \<open>resolute-macros/src/cache.rs\<close> repeats. The file system, the parser of Rust
  files and the connection are arguments; \<open>describe\<close> stands for \<open>describe_statement\<close> of theory \<open>Connection\<close>.
  The theorems: a prepared query expands offline with the description the server gave; a check right after
  a preparation finds nothing stale; and the tool writes where the macros read. The lemmas after them show
  what the prepared cache loses.
\<close>

section \<open>Directories\<close>

text \<open>A path: whether it is absolute, and its components. \<open>pop\<close> fails on a path without components.\<close>

type_synonym fs_path = "bool \<times> bytes list"

record tree =
  tr_is_file :: "fs_path \<Rightarrow> bool"
  tr_is_dir :: "fs_path \<Rightarrow> bool"
  tr_exists :: "fs_path \<Rightarrow> bool"
  tr_read :: "fs_path \<Rightarrow> rstring option"

definition path_join :: "fs_path \<Rightarrow> bytes \<Rightarrow> fs_path" where
  "path_join p n = (fst p, snd p @ [n])"

text \<open>The loops that try a directory and then its parent.\<close>

function walk_up :: "(fs_path \<Rightarrow> fs_path option) \<Rightarrow> fs_path \<Rightarrow> fs_path option" where
  "walk_up found (root, dirs) =
     (case found (root, dirs) of
        Some p \<Rightarrow> Some p
      | None \<Rightarrow> if dirs = [] then None else walk_up found (root, butlast dirs))"
  by pat_completeness auto
termination
  by (relation "measure (\<lambda>(_, _, dirs). length dirs)") auto

declare walk_up.simps [simp del]

definition CACHE_DIR_NAME :: bytes where "CACHE_DIR_NAME = lit ''.resolute''"

definition existing_cache :: "tree \<Rightarrow> fs_path \<Rightarrow> fs_path option" where
  "existing_cache t dir =
     (let candidate = path_join dir CACHE_DIR_NAME in if tr_is_dir t candidate then Some candidate else None)"

fun contains :: "bytes \<Rightarrow> bytes \<Rightarrow> bool" where
  "contains pat [] = (pat = [])"
| "contains pat (b # s) = (starts_with pat (b # s) \<or> contains pat s)"

definition workspace_at :: "tree \<Rightarrow> fs_path \<Rightarrow> fs_path option" where
  "workspace_at t dir =
     (let cargo_toml = path_join dir (lit ''Cargo.toml'')
      in if tr_exists t cargo_toml then
           (case tr_read t cargo_toml of
              Some contents \<Rightarrow> if contains (lit ''[workspace]'') contents then Some dir else None
            | None \<Rightarrow> None)
         else None)"

definition or_parent :: "tree \<Rightarrow> fs_path \<Rightarrow> fs_path" where
  "or_parent t start =
     (if tr_is_file t start then (if snd start = [] then (False, [lit ''.'']) else (fst start, butlast (snd start)))
      else start)"

definition find_workspace_root :: "tree \<Rightarrow> fs_path \<Rightarrow> fs_path option" where
  "find_workspace_root t start =
     walk_up (workspace_at t) (if tr_is_file t start then (fst start, butlast (snd start)) else start)"

definition resolve_cache_dir :: "tree \<Rightarrow> fs_path \<Rightarrow> fs_path" where
  "resolve_cache_dir t start =
     (let search_origin = or_parent t start
      in case walk_up (existing_cache t) search_origin of
           Some candidate \<Rightarrow> candidate
         | None \<Rightarrow>
             (case find_workspace_root t search_origin of
                Some root \<Rightarrow> path_join root CACHE_DIR_NAME
              | None \<Rightarrow> path_join search_origin CACHE_DIR_NAME))"

text \<open>The search of the macros, from the directory of the manifest.\<close>

definition cache_dir :: "tree \<Rightarrow> fs_path \<Rightarrow> fs_path" where
  "cache_dir t manifest_dir =
     (case walk_up (existing_cache t) manifest_dir of
        Some candidate \<Rightarrow> candidate
      | None \<Rightarrow>
          (case walk_up (workspace_at t) manifest_dir of
             Some root \<Rightarrow> path_join root CACHE_DIR_NAME
           | None \<Rightarrow> (False, [CACHE_DIR_NAME])))"

definition crate_at :: "tree \<Rightarrow> fs_path \<Rightarrow> fs_path option" where
  "crate_at t dir = (if tr_exists t (path_join dir (lit ''Cargo.toml'')) then Some dir else None)"

definition find_crate_root :: "tree \<Rightarrow> fs_path \<Rightarrow> fs_path" where
  "find_crate_root t start = or_else (walk_up (crate_at t) (or_parent t start)) start"

section \<open>Scanning\<close>

text \<open>A macro invocation as the parser gives it: the last segment of its path, the literal it begins with,
  the literal after a type and a comma, and the invocations in its arguments read as expressions.\<close>

datatype macro_call = MacroCall "rstring option" "rstring option" "rstring option" "macro_call list"

definition macro_sql :: "(rstring \<Rightarrow> rstring option) \<Rightarrow> rstring \<Rightarrow> rstring option \<Rightarrow> rstring option \<Rightarrow> rstring option" where
  "macro_sql read_query_file name first second =
     (if name = lit ''query'' \<or> name = lit ''query_scalar'' then first
      else if name = lit ''query_as'' then second
      else if name = lit ''query_file'' \<or> name = lit ''query_file_scalar'' then Option.bind first read_query_file
      else if name = lit ''query_file_as'' then Option.bind second read_query_file
      else None)"

fun visit_macro :: "(rstring \<Rightarrow> rstring option) \<Rightarrow> macro_call \<Rightarrow> rstring list" where
  "visit_macro rd (MacroCall None first second inner) = []"
| "visit_macro rd (MacroCall (Some name) first second inner) =
     (case macro_sql rd name first second of Some sql \<Rightarrow> [sql] | None \<Rightarrow> []) @ concat (map (visit_macro rd) inner)"

definition path_append :: "fs_path \<Rightarrow> bytes \<Rightarrow> fs_path" where
  "path_append p rel =
     (let dirs = filter (\<lambda>c. c \<noteq> []) (split_on 0x2F rel)
      in if starts_with (lit ''/'') rel then (True, dirs) else (fst p, snd p @ dirs))"

definition read_query_file :: "tree \<Rightarrow> fs_path \<Rightarrow> rstring \<Rightarrow> rstring option" where
  "read_query_file t crate_root rel_path = map_option trim (tr_read t (path_append crate_root rel_path))"

definition scan_file :: "tree \<Rightarrow> (rstring \<Rightarrow> macro_call list option) \<Rightarrow> fs_path \<Rightarrow> rstring list" where
  "scan_file t parse p =
     (case Option.bind (tr_read t p) parse of
        None \<Rightarrow> []
      | Some macros \<Rightarrow> concat (map (visit_macro (read_query_file t (find_crate_root t p))) macros))"

datatype cli_error = CliInvalidUrl | CliIo | CliConnect wire_error

text \<open>What a directory holds; \<open>None\<close> when it cannot be read.\<close>

datatype node = FileNode | DirNode "entry list option"
  and entry = Entry bytes node

definition rust_file :: "bytes \<Rightarrow> bool" where
  "rust_file n = (case rsplit_once 0x2E n of Some (stem, ext) \<Rightarrow> stem \<noteq> [] \<and> ext = lit ''rs'' | None \<Rightarrow> False)"

definition skipped_dir :: "bytes \<Rightarrow> bool" where
  "skipped_dir n = (let name = or_else (from_utf8 n) [] in name = lit ''target'' \<or> starts_with (lit ''.'') name)"

lemma traverse_cong [fundef_cong]:
  "xs = ys \<Longrightarrow> (\<And>x. x \<in> set ys \<Longrightarrow> f x = g x) \<Longrightarrow> traverse f xs = traverse g ys"
  by (induction xs arbitrary: ys) auto

fun scan_node :: "(fs_path \<Rightarrow> rstring list) \<Rightarrow> fs_path \<Rightarrow> entry \<Rightarrow> (cli_error, rstring list) res" where
  "scan_node scan dir (Entry n FileNode) = Ok (if rust_file n then scan (path_join dir n) else [])"
| "scan_node scan dir (Entry n (DirNode None)) = (if skipped_dir n then Ok [] else Err CliIo)"
| "scan_node scan dir (Entry n (DirNode (Some es))) =
     (if skipped_dir n then Ok []
      else and_then (traverse (scan_node scan (path_join dir n)) es) (\<lambda>qs. Ok (concat qs)))"

fun scan_dir :: "(fs_path \<Rightarrow> rstring list) \<Rightarrow> fs_path \<Rightarrow> node \<Rightarrow> (cli_error, rstring list) res" where
  "scan_dir scan dir FileNode = Ok []"
| "scan_dir scan dir (DirNode None) = Err CliIo"
| "scan_dir scan dir (DirNode (Some es)) = and_then (traverse (scan_node scan dir) es) (\<lambda>qs. Ok (concat qs))"

definition scan_source_files :: "(fs_path \<Rightarrow> rstring list) \<Rightarrow> fs_path \<Rightarrow> node \<Rightarrow> (cli_error, rstring list) res" where
  "scan_source_files scan dir root = and_then (scan_dir scan dir root) (\<lambda>qs. Ok (remdups_adj (sort qs)))"

section \<open>Preparing and checking\<close>

type_synonym 's describe = "rstring \<Rightarrow> 's \<Rightarrow> (oid list \<times> field_description list) awaited \<times> 's"

text \<open>The entry of the tool has no \<open>nullable\<close>.\<close>

definition cli_columns :: "field_description list \<Rightarrow> (rstring \<times> u32) list" where
  "cli_columns = map (\<lambda>f. (fd_name f, fd_type_oid f))"

definition cli_entry :: "rstring \<Rightarrow> oid list \<Rightarrow> field_description list \<Rightarrow> cache_file" where
  "cli_entry sql param_oids fs =
     \<lparr>cf_sql = sql, cf_hash = hash_sql sql, cf_param_oids = param_oids,
      cf_columns = map (\<lambda>(n, oid). (n, oid, None)) (cli_columns fs)\<rparr>"

fun prepare_loop ::
  "'s describe \<Rightarrow> (u64 \<Rightarrow> bool) \<Rightarrow> rstring list \<Rightarrow> 's \<Rightarrow> cache \<Rightarrow> nat \<times> nat
     \<Rightarrow> (cli_error, nat \<times> nat) res option \<times> cache" where
  "prepare_loop describe writable [] c disk counts = (Some (Ok counts), disk)"
| "prepare_loop describe writable (sql # queries) c disk (written, failed) =
     (case describe sql c of
        (None, _) \<Rightarrow> (None, disk)
      | (Some Panic, _) \<Rightarrow> (Some Panic, disk)
      | (Some (Ok (param_oids, fs)), c) \<Rightarrow>
          if writable (hash_sql sql)
          then prepare_loop describe writable queries c (disk(hash_sql sql \<mapsto> cli_entry sql param_oids fs))
                 (written + 1, failed)
          else (Some (Err CliIo), disk)
      | (Some (Err e), c) \<Rightarrow> prepare_loop describe writable queries c disk (written, failed + 1))"

text \<open>The exit code, or the error that \<open>main\<close> returns. Nothing is connected when there are no queries.\<close>

definition prepare ::
  "'s describe \<Rightarrow> (conn_params \<Rightarrow> (wire_error, 's) res option) \<Rightarrow> (u64 \<Rightarrow> bool) \<Rightarrow> bool \<Rightarrow> rstring
     \<Rightarrow> (cli_error, rstring list) res \<Rightarrow> cache \<Rightarrow> (cli_error, nat) res option \<times> cache" where
  "prepare describe connect writable dir_made database_url scanned disk =
     (case parse_pg_uri_plain database_url of
        None \<Rightarrow> (Some (Err CliInvalidUrl), disk)
      | Some params \<Rightarrow>
          (case scanned of
             Err e \<Rightarrow> (Some (Err e), disk)
           | Panic \<Rightarrow> (Some Panic, disk)
           | Ok queries \<Rightarrow>
               if queries = [] then (Some (Ok 0), disk)
               else case connect params of
                      None \<Rightarrow> (None, disk)
                    | Some Panic \<Rightarrow> (Some Panic, disk)
                    | Some (Err e) \<Rightarrow> (Some (Err (CliConnect e)), disk)
                    | Some (Ok c) \<Rightarrow>
                        if \<not> dir_made then (Some (Err CliIo), disk)
                        else case prepare_loop describe writable queries c disk (0, 0) of
                               (r, disk) \<Rightarrow>
                                 (map_option (\<lambda>r. and_then r (\<lambda>(_, failed). Ok (if failed > 0 then 1 else 0))) r, disk)))"

definition columns_match :: "(rstring \<times> u32) list \<Rightarrow> (rstring \<times> u32) list \<Rightarrow> bool" where
  "columns_match a b \<longleftrightarrow> length a = length b \<and> list_all (\<lambda>(x, y). fst x = fst y \<and> snd x = snd y) (zip a b)"

text \<open>The files of the cache in the order of the directory; \<open>None\<close> is one that cannot be read.\<close>

fun check_loop ::
  "'s describe \<Rightarrow> cache_file option list \<Rightarrow> 's \<Rightarrow> nat \<times> nat \<Rightarrow> (cli_error, nat \<times> nat) res option" where
  "check_loop describe [] c counts = Some (Ok counts)"
| "check_loop describe (None # files) c counts = Some (Err CliIo)"
| "check_loop describe (Some f # files) c (good, stale) =
     (case describe (cf_sql f) c of
        (None, _) \<Rightarrow> None
      | (Some Panic, _) \<Rightarrow> Some Panic
      | (Some (Ok (param_oids, fs)), c) \<Rightarrow>
          if param_oids \<noteq> cf_param_oids f
             \<or> \<not> columns_match (cli_columns fs) (map (\<lambda>(n, oid, _). (n, oid)) (cf_columns f))
          then check_loop describe files c (good, stale + 1)
          else check_loop describe files c (good + 1, stale)
      | (Some (Err e), c) \<Rightarrow> check_loop describe files c (good, stale + 1))"

definition check ::
  "'s describe \<Rightarrow> (conn_params \<Rightarrow> (wire_error, 's) res option) \<Rightarrow> rstring \<Rightarrow> cache_file option list option
     \<Rightarrow> (cli_error, nat) res option" where
  "check describe connect database_url files =
     (case parse_pg_uri_plain database_url of
        None \<Rightarrow> Some (Err CliInvalidUrl)
      | Some params \<Rightarrow>
          (case files of
             None \<Rightarrow> Some (Ok 0)
           | Some files \<Rightarrow>
               (case connect params of
                  None \<Rightarrow> None
                | Some Panic \<Rightarrow> Some Panic
                | Some (Err e) \<Rightarrow> Some (Err (CliConnect e))
                | Some (Ok c) \<Rightarrow>
                    map_option (\<lambda>r. and_then r (\<lambda>(_, stale). Ok (if stale > 0 then 1 else 0)))
                      (check_loop describe files c (0, 0)))))"

definition database_name :: "rstring \<Rightarrow> (cli_error, rstring) res" where
  "database_name url = (case parse_pg_uri_plain url of None \<Rightarrow> Err CliInvalidUrl | Some (_, _, _, _, db) \<Rightarrow> Ok db)"

section \<open>The tool writes where the macros read\<close>

lemma walk_up_append:
  "\<forall>j. 0 < j \<and> j \<le> length es \<longrightarrow> found (root, ds @ take j es) = None \<Longrightarrow>
   walk_up found (root, ds @ es) = walk_up found (root, ds)"
proof (induction es rule: rev_induct)
  case (snoc e es)
  have "found (root, ds @ es @ [e]) = None" using snoc.prems [rule_format, of "Suc (length es)"] by simp
  moreover have "found (root, ds @ take j es) = None" if "0 < j \<and> j \<le> length es" for j
    using snoc.prems [rule_format, of j] that by simp
  ultimately show ?case
    using snoc.IH walk_up.simps [of found root "ds @ es @ [e]"] by (simp add: butlast_append)
qed simp

lemma walk_up_found:
  assumes "k \<le> length ds" and "found (root, take k ds) = Some p"
    and "\<forall>j. k < j \<and> j \<le> length ds \<longrightarrow> found (root, take j ds) = None"
  shows "walk_up found (root, ds) = Some p"
proof -
  have "found (root, take k ds @ take j (drop k ds)) = None" if "0 < j \<and> j \<le> length (drop k ds)" for j
    using assms(1,3) that by (metis add_less_cancel_left add.right_neutral le_diff_conv2 length_drop take_add add.commute)
  then have "walk_up found (root, take k ds @ drop k ds) = walk_up found (root, take k ds)"
    by (intro walk_up_append) blast
  with assms(2) show ?thesis by (simp add: walk_up.simps [of found root "take k ds"])
qed

lemma walk_up_SomeD:
  "walk_up found (root, ds) = Some p \<Longrightarrow>
   \<exists>k \<le> length ds. found (root, take k ds) = Some p \<and> (\<forall>j. k < j \<and> j \<le> length ds \<longrightarrow> found (root, take j ds) = None)"
proof (induction ds rule: rev_induct)
  case Nil
  then show ?case by (simp add: walk_up.simps split: option.splits)
next
  case (snoc d ds)
  show ?case
  proof (cases "found (root, ds @ [d])")
    case (Some q)
    with snoc.prems show ?thesis by (intro exI [of _ "Suc (length ds)"]) (auto simp: walk_up.simps [of found root "ds @ [d]"])
  next
    case None
    with snoc obtain k where "k \<le> length ds" "found (root, take k ds) = Some p"
      "\<forall>j. k < j \<and> j \<le> length ds \<longrightarrow> found (root, take j ds) = None"
      by (auto simp: walk_up.simps [of found root "ds @ [d]"])
    with None show ?thesis by (intro exI [of _ k]) (auto simp: le_Suc_eq)
  qed
qed

lemma walk_up_NoneD: "walk_up found (root, ds) = None \<Longrightarrow> j \<le> length ds \<Longrightarrow> found (root, take j ds) = None"
proof (induction ds rule: rev_induct)
  case (snoc d ds)
  then show ?case by (auto simp: walk_up.simps [of found root "ds @ [d]"] le_Suc_eq split: option.splits)
qed (simp add: walk_up.simps split: option.splits)

text \<open>Where the tool puts the cache: in a directory at or above the start, with no cache in between.\<close>

lemma resolve_cache_dir_above:
  assumes "\<not> tr_is_file t (root, ds)"
  shows "\<exists>k \<le> length ds. resolve_cache_dir t (root, ds) = path_join (root, take k ds) CACHE_DIR_NAME
    \<and> (\<forall>j. k < j \<and> j \<le> length ds \<longrightarrow> existing_cache t (root, take j ds) = None)"
proof (cases "walk_up (existing_cache t) (root, ds)")
  case (Some p)
  from walk_up_SomeD [OF this] obtain k where "k \<le> length ds" "existing_cache t (root, take k ds) = Some p"
    "\<forall>j. k < j \<and> j \<le> length ds \<longrightarrow> existing_cache t (root, take j ds) = None" by blast
  with Some assms show ?thesis
    by (intro exI [of _ k]) (simp add: resolve_cache_dir_def or_parent_def existing_cache_def Let_def split: if_splits)
next
  case None
  note free = walk_up_NoneD [OF None]
  show ?thesis
  proof (cases "walk_up (workspace_at t) (root, ds)")
    case (Some p)
    from walk_up_SomeD [OF this] obtain k where "k \<le> length ds" "workspace_at t (root, take k ds) = Some p" by blast
    then have "k \<le> length ds" "p = (root, take k ds)"
      by (auto simp: workspace_at_def Let_def split: if_splits option.splits)
    with Some None free assms show ?thesis
      by (intro exI [of _ k]) (simp add: resolve_cache_dir_def or_parent_def find_workspace_root_def Let_def)
  next
    case no_root: None
    with None assms show ?thesis
      by (intro exI [of _ "length ds"]) (auto simp: resolve_cache_dir_def or_parent_def find_workspace_root_def Let_def)
  qed
qed

text \<open>C31: once the tool has created its cache directory for a source directory, the macros of every crate at or
  below it use that directory, unless a crate in between has a cache of its own.\<close>

theorem tool_writes_where_macros_read:
  assumes "\<not> tr_is_file t (root, ds)"
    and "t' = t\<lparr>tr_is_dir := (\<lambda>p. p = resolve_cache_dir t (root, ds) \<or> tr_is_dir t p)\<rparr>"
    and "\<forall>j. 0 < j \<and> j \<le> length sub \<longrightarrow> \<not> tr_is_dir t' (path_join (root, ds @ take j sub) CACHE_DIR_NAME)"
  shows "cache_dir t' (root, ds @ sub) = resolve_cache_dir t (root, ds)"
proof -
  obtain k where k: "k \<le> length ds" "resolve_cache_dir t (root, ds) = path_join (root, take k ds) CACHE_DIR_NAME"
    "\<forall>j. k < j \<and> j \<le> length ds \<longrightarrow> existing_cache t (root, take j ds) = None"
    using resolve_cache_dir_above [OF assms(1)] by blast
  have same: "take j ds = take k ds \<longleftrightarrow> j = k" if "j \<le> length ds" for j
    using that k(1) by (metis length_take min.absorb2)
  have "walk_up (existing_cache t') (root, ds @ sub) = walk_up (existing_cache t') (root, ds)"
    using assms(3) by (intro walk_up_append) (simp add: existing_cache_def)
  also have "\<dots> = Some (path_join (root, take k ds) CACHE_DIR_NAME)"
  proof (rule walk_up_found [OF k(1)])
    show "existing_cache t' (root, take k ds) = Some (path_join (root, take k ds) CACHE_DIR_NAME)"
      by (simp add: existing_cache_def assms(2) k(2))
    show "\<forall>j. k < j \<and> j \<le> length ds \<longrightarrow> existing_cache t' (root, take j ds) = None"
      using k(2,3) same by (auto simp: existing_cache_def assms(2) path_join_def Let_def split: if_splits)
  qed
  finally show ?thesis by (simp add: cache_dir_def k(2))
qed

text \<open>A relative start is not climbed beyond the working directory: with the default \<open>.\<close> the tool never sees the
  cache or the workspace above it.\<close>

lemma relative_start_never_climbs:
  "walk_up found (False, [lit ''.'']) =
    (case found (False, [lit ''.'']) of Some p \<Rightarrow> Some p | None \<Rightarrow> found (False, []))"
  by (simp add: walk_up.simps [of found False "[lit ''.'']"] walk_up.simps [of found False "[]"] split: option.splits)

section \<open>Prepared queries\<close>

text \<open>One query of a run that ends without an error, on a connection that answers as \<open>d\<close>.\<close>

lemma prepare_loop_Cons:
  assumes "\<forall>sql s. fst (describe sql s) = Some (d sql)"
    and "prepare_loop describe writable (q # queries) c disk (w, f) = (Some (Ok counts), disk')"
  shows "\<exists>c1. (\<exists>oids fs. d q = Ok (oids, fs)
        \<and> prepare_loop describe writable queries c1 (disk(hash_sql q \<mapsto> cli_entry q oids fs)) (w + 1, f) = (Some (Ok counts), disk'))
    \<or> (\<exists>e. d q = Err e \<and> prepare_loop describe writable queries c1 disk (w, f + 1) = (Some (Ok counts), disk'))"
proof -
  obtain r c1 where dr: "describe q c = (r, c1)" by force
  then have "r = Some (d q)" using assms(1) by (metis fst_conv)
  with dr assms(2) show ?thesis by (intro exI [of _ c1]) (auto split: res.splits if_splits)
qed

lemma prepare_loop_untouched:
  assumes "\<forall>sql s. fst (describe sql s) = Some (d sql)"
  shows "prepare_loop describe writable queries c disk (w, f) = (Some (Ok counts), disk') \<Longrightarrow> h \<notin> hash_sql ` set queries \<Longrightarrow>
    disk' h = disk h"
proof (induction queries arbitrary: c disk w f)
  case (Cons q queries)
  from prepare_loop_Cons [OF assms Cons.prems(1)] Cons.prems(2) show ?case
    by (auto dest: Cons.IH)
qed simp

lemma prepare_loop_counts:
  assumes "\<forall>sql s. fst (describe sql s) = Some (d sql)"
  shows "prepare_loop describe writable queries c disk (w, f) = (Some (Ok (w', f')), disk') \<Longrightarrow> f \<le> f'"
proof (induction queries arbitrary: c disk w f)
  case (Cons q queries)
  from prepare_loop_Cons [OF assms Cons.prems] show ?case by (auto dest: Cons.IH)
qed simp

lemma prepare_loop_writes:
  assumes answers: "\<forall>sql s. fst (describe sql s) = Some (d sql)"
  shows "prepare_loop describe writable queries c disk (w, f) = (Some (Ok (w', f)), disk') \<Longrightarrow> inj_on hash_sql (set queries) \<Longrightarrow>
    sql \<in> set queries \<Longrightarrow>
    \<exists>param_oids fs. d sql = Ok (param_oids, fs) \<and> disk' (hash_sql sql) = Some (cli_entry sql param_oids fs)"
proof (induction queries arbitrary: c disk w)
  case (Cons q queries)
  obtain c1 oids fs where ok: "d q = Ok (oids, fs)"
    and rest: "prepare_loop describe writable queries c1 (disk(hash_sql q \<mapsto> cli_entry q oids fs)) (w + 1, f)
      = (Some (Ok (w', f)), disk')"
    using prepare_loop_Cons [OF answers Cons.prems(1)] prepare_loop_counts [OF answers] by fastforce
  show ?case
  proof (cases "sql \<in> set queries")
    case True
    with Cons.IH [OF rest] Cons.prems(2) show ?thesis by simp
  next
    case False
    then have "sql = q" "hash_sql q \<notin> hash_sql ` set queries"
      using Cons.prems(2,3) by (auto simp: inj_on_def)
    with ok prepare_loop_untouched [OF answers rest] show ?thesis by simp
  qed
qed simp

lemma prepare_succeeds:
  assumes "prepare describe connect writable dir_made url (Ok queries) disk = (Some (Ok 0), disk')" and "queries \<noteq> []"
  shows "\<exists>c w. prepare_loop describe writable queries c disk (0, 0) = (Some (Ok (w, 0)), disk')"
proof -
  obtain params where "parse_pg_uri_plain url = Some params"
    using assms by (auto simp: prepare_def split: option.splits)
  moreover from this obtain c where "connect params = Some (Ok c)" "dir_made"
    using assms by (auto simp: prepare_def split: option.splits res.splits if_splits)
  moreover obtain r d where "prepare_loop describe writable queries c disk (0, 0) = (r, d)" by force
  ultimately show ?thesis
    using assms by (auto simp: prepare_def and_then_eq_Ok split: if_splits)
qed

definition prepared_columns :: "field_description list \<Rightarrow> cached_column list" where
  "prepared_columns = map (\<lambda>f. \<lparr>cc_name = fd_name f, cc_type_oid = fd_type_oid f, cc_nullable = False\<rparr>)"

text \<open>C30: when the preparation of the scanned queries ends with exit code 0 and no two of them have the same hash,
  every one of them was described by the server, and a macro with that SQL gets exactly the parameter types,
  names and types of the description in any environment, offline too; and every column as not nullable.\<close>

theorem prepared_serves_offline:
  assumes "prepare describe connect writable dir_made url (Ok queries) disk = (Some (Ok 0), disk')"
    and "\<forall>sql s. fst (describe sql s) = Some (d sql)"
    and "inj_on hash_sql (set queries)" and "sql \<in> set queries"
  shows "\<exists>param_oids fs. d sql = Ok (param_oids, fs)
    \<and> resolve_metadata env sql disk' = (Some (Ok (param_oids, prepared_columns fs)), disk')"
proof -
  have "queries \<noteq> []" using assms(4) by auto
  then obtain c w where "prepare_loop describe writable queries c disk (0, 0) = (Some (Ok (w, 0)), disk')"
    using prepare_succeeds [OF assms(1)] by blast
  from prepare_loop_writes [OF assms(2) this assms(3,4)] show ?thesis
    by (auto simp: resolve_metadata_def read_cache_def cli_entry_def cli_columns_def read_column_def prepared_columns_def
        comp_def)
qed

lemma columns_match_iff: "columns_match a b \<longleftrightarrow> a = b"
  by (auto simp: columns_match_def list_all_length list_eq_iff_nth_eq prod_eq_iff)

lemma check_loop_clean:
  assumes "\<forall>sql s. fst (describe sql s) = Some (d sql)"
  shows "\<forall>f \<in> set files. \<exists>sql oids fs. d sql = Ok (oids, fs) \<and> f = Some (cli_entry sql oids fs) \<Longrightarrow>
    check_loop describe files c (good, stale) = Some (Ok (good + length files, stale))"
proof (induction files arbitrary: c good)
  case (Cons f files)
  then obtain sql oids fs where f: "d sql = Ok (oids, fs)" "f = Some (cli_entry sql oids fs)" by auto
  obtain r c1 where dr: "describe sql c = (r, c1)" by force
  then have "r = Some (Ok (oids, fs))" using assms f by (metis fst_conv)
  moreover have "map (\<lambda>(n, oid, _). (n, oid)) (cf_columns (cli_entry sql oids fs)) = cli_columns fs"
    by (simp add: cli_entry_def cli_columns_def comp_def)
  ultimately show ?case
    using Cons f dr by (simp add: columns_match_iff cli_entry_def)
qed simp

lemma prepare_loop_entries:
  assumes answers: "\<forall>sql s. fst (describe sql s) = Some (d sql)"
  shows "prepare_loop describe writable queries c disk (w, f) = (Some (Ok (w', f')), disk') \<Longrightarrow>
    g \<in> Map.ran disk' \<Longrightarrow> g \<in> Map.ran disk \<or> (\<exists>sql oids fs. d sql = Ok (oids, fs) \<and> g = cli_entry sql oids fs)"
proof (induction queries arbitrary: c disk w f)
  case (Cons q queries)
  from prepare_loop_Cons [OF answers Cons.prems(1)] show ?case
  proof (elim exE disjE conjE)
    fix c1 oids fs
    assume ok: "d q = Ok (oids, fs)"
      and rest: "prepare_loop describe writable queries c1 (disk(hash_sql q \<mapsto> cli_entry q oids fs)) (w + 1, f)
        = (Some (Ok (w', f')), disk')"
    from Cons.IH [OF rest Cons.prems(2)] ok show ?thesis
      by (auto simp: Map.ran_def split: if_splits)
  qed (use Cons in blast)
qed simp

text \<open>A check of what a preparation has written, against a server whose descriptions have not changed, exits with
  code 0.\<close>

theorem checked_after_prepare:
  assumes "prepare describe connect writable dir_made url (Ok queries) Map.empty = (Some (Ok code), disk')"
    and "\<forall>sql s. fst (describe sql s) = Some (d sql)" and "\<forall>sql s. fst (describe' sql s) = Some (d sql)"
    and "set files \<subseteq> Some ` Map.ran disk'" and "\<forall>params. \<exists>c. connect' params = Some (Ok c)"
  shows "check describe' connect' url (Some files) = Some (Ok 0)"
proof -
  obtain params where p: "parse_pg_uri_plain url = Some params"
    using assms(1) by (auto simp: prepare_def split: option.splits)
  obtain c' where c': "connect' params = Some (Ok c')" using assms(5) by blast
  have "\<exists>sql oids fs. d sql = Ok (oids, fs) \<and> f = Some (cli_entry sql oids fs)" if f: "f \<in> set files" for f
  proof -
    obtain g where g: "f = Some g" "g \<in> Map.ran disk'" using f assms(4) by blast
    then have "disk' \<noteq> Map.empty" by auto
    then obtain c w n where "prepare_loop describe writable queries c Map.empty (0, 0) = (Some (Ok (w, n)), disk')"
      using assms(1) p by (auto simp: prepare_def and_then_eq_Ok split: option.splits res.splits if_splits prod.splits)
    from prepare_loop_entries [OF assms(2) this g(2)] g(1) show ?thesis by auto
  qed
  then have "check_loop describe' files c' (0, 0) = Some (Ok (0 + length files, 0))"
    by (intro check_loop_clean [OF assms(3)]) blast
  with p c' show ?thesis by (simp add: check_def)
qed

section \<open>What the prepared cache loses\<close>

text \<open>The tool writes no \<open>nullable\<close>, which the macros read as false: a query built from a prepared cache fails on
  the first NULL, where the same query built against the database reads it.\<close>

lemma prepared_null_fails:
  assumes "iter_cells (r_data row) = (Ok cs :: (typed_error, bytes option list) res)" and "i < length cs" and "cs ! i = None"
  shows "field_value decs row (i, n, ty, False) = Err (UnexpectedNull i)"
    and "field_value decs row (i, n, ty, True) = Ok (n, None)"
  using try_cell_cells [OF assms(1)] assms(2,3)
  by (simp_all add: field_value_def row_get_def row_get_opt_def get_at_def)

text \<open>The tool caches the SQL as written, the macros look for the rewritten one: an offline build never finds a
  query with named parameters.\<close>

lemma named_query_not_prepared:
  assumes "\<forall>sql s. fst (describe sql s) = Some (d sql)"
    and "prepare_loop describe writable queries c Map.empty (0, 0) = (Some (Ok counts), disk')"
    and "resolve_named_macro (cp_unicode cp) qi = Ok (sql, ps)" and "hash_sql sql \<notin> hash_sql ` set queries"
    and "me_offline (cp_env cp)"
  shows "query_impl cp qi disk' = (Some (Err (NoCachedMetadata (hash_sql sql))), disk')"
  using prepare_loop_untouched [OF assms(1,2,4)] assms(3,5)
  by (simp add: query_impl_def with_metadata_def resolve_metadata_def read_cache_def)

section \<open>Samples\<close>

definition answering :: "unit describe" where "answering sql s = (Some (Ok ([20], sample_cols)), s)"

definition dialling :: "conn_params \<Rightarrow> (wire_error, unit) res option" where "dialling params = Some (Ok ())"

definition prepared_disk :: cache where
  "prepared_disk = [hash_sql (lit ''SELECT 1'') \<mapsto> cli_entry (lit ''SELECT 1'') [20] sample_cols]"

lemma sample_prepare:
  "prepare answering dialling (\<lambda>_. True) True (lit ''postgres://localhost'') (Ok [lit ''SELECT 1'']) Map.empty
     = (Some (Ok 0), prepared_disk)"
proof -
  have "parse_pg_uri_plain (lit ''postgres://localhost'') = Some (uri_pieces (lit ''localhost''))"
    by (simp add: parse_pg_uri_plain_def strip_prefix_def starts_with_def lit_def)
  then show ?thesis by (simp add: prepare_def dialling_def answering_def prepared_disk_def)
qed

theorem prepared_serves_offline_witness:
  "\<exists>param_oids fs. (Ok ([20], sample_cols) :: (wire_error, oid list \<times> field_description list) res) = Ok (param_oids, fs)
    \<and> resolve_metadata \<lparr>me_offline = True, me_url = None, me_connect = (\<lambda>_. None), me_writable = False, me_features = []\<rparr>
         (lit ''SELECT 1'') prepared_disk = (Some (Ok (param_oids, prepared_columns fs)), prepared_disk)"
  by (rule prepared_serves_offline [OF sample_prepare, where d = "\<lambda>_. Ok ([20], sample_cols)"])
    (simp_all add: answering_def)

theorem checked_after_prepare_witness:
  "check answering dialling (lit ''postgres://localhost'')
     (Some [Some (cli_entry (lit ''SELECT 1'') [20] sample_cols)]) = Some (Ok 0)"
  by (rule checked_after_prepare [OF sample_prepare, where d = "\<lambda>_. Ok ([20], sample_cols)"])
    (simp_all add: answering_def dialling_def prepared_disk_def)

definition bare_tree :: tree where
  "bare_tree = \<lparr>tr_is_file = (\<lambda>_. False), tr_is_dir = (\<lambda>_. False), tr_exists = (\<lambda>_. False), tr_read = (\<lambda>_. None)\<rparr>"

theorem tool_writes_where_macros_read_witness:
  "cache_dir (bare_tree\<lparr>tr_is_dir := (\<lambda>p. p = (True, [lit ''ws'', lit ''.resolute'']))\<rparr>) (True, [lit ''ws'', lit ''crate''])
     = (True, [lit ''ws'', lit ''.resolute''])"
proof -
  have dir: "resolve_cache_dir bare_tree (True, [lit ''ws'']) = (True, [lit ''ws'', lit ''.resolute''])"
    by (simp add: resolve_cache_dir_def or_parent_def find_workspace_root_def walk_up.simps [of _ True "_ # _"]
        walk_up.simps [of _ True "[]"] existing_cache_def workspace_at_def bare_tree_def path_join_def CACHE_DIR_NAME_def)
  show ?thesis
    using tool_writes_where_macros_read [where t = bare_tree and root = True and ds = "[lit ''ws'']" and sub = "[lit ''crate'']"
        and t' = "bare_tree\<lparr>tr_is_dir := (\<lambda>p. p = (True, [lit ''ws'', lit ''.resolute'']))\<rparr>"]
    unfolding dir by (simp add: bare_tree_def path_join_def le_Suc_eq)
qed

end
