(* ===== verification/Node_Pipeline.thy ===== *)
theory Node_Pipeline
  imports Node_Columnar Client
begin

text \<open>
  The classes of the Node binding \<open>pg-wired-js/src/lib.rs\<close>: \<open>Connection\<close>, \<open>Pipeline\<close>, \<open>RowStream\<close> and
  \<open>Notifications\<close>, over the connection of \<open>Async_Client\<close>. The tasks that \<open>Pipeline::execute\<close> spawns are
  interleaved by a schedule: a list of task numbers, each occurrence letting that task do its next step
  (name and encode, submit, publish). The theorem: on a server with typed statements, under every schedule
  that lets the tasks finish, the results come in the order of the pushes and are those of the queries run
  alone, or the first error. The lemmas at the end show what an error loses.
\<close>

section \<open>Requests\<close>

record queued_query =
  qq_sql :: rstring
  qq_params :: "bytes option list"
  qq_oids :: "oid list"
  qq_param_formats :: "format_code list"
  qq_result_formats :: "format_code list"

definition request_messages :: "queued_query \<Rightarrow> bytes \<Rightarrow> bool \<Rightarrow> frontend_msg list" where
  "request_messages q stmt needs_parse =
     (let n = length (qq_params q);
          pf = (if qq_param_formats q = [] then take n (replicate (max n 1) Text) else qq_param_formats q);
          rf = (if qq_result_formats q = [] then [Text] else qq_result_formats q)
      in (if needs_parse then [Parse stmt (qq_sql q) (qq_oids q)] else [])
         @ [Bind [] stmt pf (qq_params q) rf, Describe 0x50 [], Execute [] 0, Sync])"

text \<open>The bytes, and what to publish after a successful submit.\<close>

definition encode_query_with_formats ::
  "queued_query \<Rightarrow> async_conn \<Rightarrow> (bytes \<times> (rstring \<times> bytes) option) \<times> async_conn" where
  "encode_query_with_formats q s =
     (case lookup_or_alloc (qq_sql q) s of
        ((stmt, needs_parse), s) \<Rightarrow>
          ((encode_messages (request_messages q stmt needs_parse) [],
            if needs_parse then Some (qq_sql q, stmt) else None), s))"

definition text_query :: "rstring \<Rightarrow> bytes option list \<Rightarrow> oid list \<Rightarrow> queued_query" where
  "text_query sql params oids =
     \<lparr>qq_sql = sql, qq_params = params, qq_oids = oids, qq_param_formats = [], qq_result_formats = []\<rparr>"

definition publish_pending :: "(rstring \<times> bytes) option \<Rightarrow> 'w sys \<Rightarrow> 'w sys" where
  "publish_pending pending sys =
     (case pending of None \<Rightarrow> sys | Some (sql, name) \<Rightarrow> sys_publish sql name sys)"

text \<open>Encode, submit, publish; \<open>convert\<close> makes the result.\<close>

definition exec_as ::
  "(pipeline_response \<Rightarrow> (wire_error, 'a) res) \<Rightarrow> 'w transport \<Rightarrow> queued_query \<Rightarrow> 'w sys \<Rightarrow> (wire_error, 'a) res \<times> 'w sys" where
  "exec_as convert net q sys =
     (case encode_query_with_formats q (fst sys) of
        ((buf, pending), s) \<Rightarrow>
          (case submit net buf Rows (s, snd sys) of
             (Ok resp, sys) \<Rightarrow> (convert resp, publish_pending pending sys)
           | (Err e, sys) \<Rightarrow> (Err e, sys)
           | (Panic, sys) \<Rightarrow> (Panic, sys)))"

record raw_query_result =
  rq_fields :: "field_info list"
  rq_rows :: "bytes option list list"
  rq_command_tag :: rstring

fun raw_result :: "pipeline_response \<Rightarrow> ('e, raw_query_result) res" where
  "raw_result (RowsResponse fs rows tag) =
     and_then (rows_to_buffers rows) (\<lambda>rs. Ok \<lparr>rq_fields = fields_to_info fs, rq_rows = rs, rq_command_tag = tag\<rparr>)"
| "raw_result Done = Ok \<lparr>rq_fields = [], rq_rows = [], rq_command_tag = []\<rparr>"

definition exec_query_full ::
  "'w transport \<Rightarrow> rstring \<Rightarrow> bytes option list \<Rightarrow> oid list \<Rightarrow> 'w sys \<Rightarrow> (wire_error, query_result) res \<times> 'w sys" where
  "exec_query_full net sql params oids = exec_as pipeline_response_to_query_result net (text_query sql params oids)"

definition exec_query_raw :: "'w transport \<Rightarrow> queued_query \<Rightarrow> 'w sys \<Rightarrow> (wire_error, raw_query_result) res \<times> 'w sys" where
  "exec_query_raw = exec_as raw_result"

definition exec_simple_as ::
  "(pipeline_response \<Rightarrow> (wire_error, 'a) res) \<Rightarrow> 'w transport \<Rightarrow> rstring \<Rightarrow> 'w sys \<Rightarrow> (wire_error, 'a) res \<times> 'w sys" where
  "exec_simple_as convert net sql sys =
     (case submit net (encode_message (Query sql) []) Rows sys of (r, sys) \<Rightarrow> (and_then r convert, sys))"

definition exec_simple_full :: "'w transport \<Rightarrow> rstring \<Rightarrow> 'w sys \<Rightarrow> (wire_error, query_result) res \<times> 'w sys" where
  "exec_simple_full = exec_simple_as pipeline_response_to_query_result"

section \<open>Connections\<close>

datatype js_error = InvalidArg rstring | Wire wire_error | JoinFailed

text \<open>A connection with the set of SQL texts that have been parsed on it.\<close>

type_synonym 'w node_conn = "rstring set \<times> 'w sys"

definition warming ::
  "rstring \<Rightarrow> ('w sys \<Rightarrow> (wire_error, 'a) res \<times> 'w sys) \<Rightarrow> 'w node_conn \<Rightarrow> (js_error, 'a) res \<times> 'w node_conn" where
  "warming sql run c =
     (case run (snd c) of (r, sys) \<Rightarrow> (map_err Wire r, (if is_ok r then insert sql (fst c) else fst c, sys)))"

definition connection_query ::
  "'w transport \<Rightarrow> rstring \<Rightarrow> bytes option list \<Rightarrow> oid list \<Rightarrow> 'w node_conn \<Rightarrow> (js_error, query_result) res \<times> 'w node_conn" where
  "connection_query net sql params oids = warming sql (exec_query_full net sql params oids)"

definition with_formats ::
  "i16 list \<Rightarrow> i16 list \<Rightarrow> (format_code list \<Rightarrow> format_code list \<Rightarrow> 'c \<Rightarrow> (js_error, 'a) res \<times> 'c) \<Rightarrow> 'c \<Rightarrow> (js_error, 'a) res \<times> 'c" where
  "with_formats pf rf run c =
     (case map_err InvalidArg (to_format_codes pf) of
        Err e \<Rightarrow> (Err e, c)
      | Panic \<Rightarrow> (Panic, c)
      | Ok pf \<Rightarrow>
          (case map_err InvalidArg (to_format_codes rf) of
             Err e \<Rightarrow> (Err e, c)
           | Panic \<Rightarrow> (Panic, c)
           | Ok rf \<Rightarrow> run pf rf c))"

definition connection_query_raw ::
  "'w transport \<Rightarrow> rstring \<Rightarrow> bytes option list \<Rightarrow> oid list \<Rightarrow> i16 list \<Rightarrow> i16 list \<Rightarrow> 'w node_conn
     \<Rightarrow> (js_error, raw_query_result) res \<times> 'w node_conn" where
  "connection_query_raw net sql params oids pf rf =
     with_formats pf rf (\<lambda>pf rf. warming sql (exec_query_raw net
       \<lparr>qq_sql = sql, qq_params = params, qq_oids = oids, qq_param_formats = pf, qq_result_formats = rf\<rparr>))"

text \<open>The columnar result is built after the SQL has been marked warm.\<close>

definition connection_query_columnar ::
  "'w transport \<Rightarrow> rstring \<Rightarrow> bytes option list \<Rightarrow> oid list \<Rightarrow> 'w node_conn \<Rightarrow> (js_error, columnar_result) res \<times> 'w node_conn" where
  "connection_query_columnar net sql params oids c =
     (case warming sql (exec_as Ok net (text_query sql params oids)) c of
        (r, c) \<Rightarrow> (and_then r response_to_columnar, c))"

definition connection_simple_query ::
  "'w transport \<Rightarrow> rstring \<Rightarrow> 'w node_conn \<Rightarrow> (js_error, query_result) res \<times> 'w node_conn" where
  "connection_simple_query net sql c =
     (case exec_simple_full net sql (snd c) of (r, sys) \<Rightarrow> (map_err Wire r, (fst c, sys)))"

definition simple_query_columnar ::
  "'w transport \<Rightarrow> rstring \<Rightarrow> 'w node_conn \<Rightarrow> (js_error, columnar_result) res \<times> 'w node_conn" where
  "simple_query_columnar net sql c =
     (case exec_simple_as response_to_columnar net sql (snd c) of (r, sys) \<Rightarrow> (map_err Wire r, (fst c, sys)))"

section \<open>Row streams and notifications\<close>

text \<open>The receiver: what has been sent on it so far, and whether the sender is gone; \<open>None\<close> once it is dropped.
  Each call receives at least one row or waits, which is the outer \<open>None\<close>.\<close>

type_synonym row_rx = "((wire_error, raw_row) res list \<times> bool) option"

definition js_query_stream ::
  "'w transport \<Rightarrow> rstring \<Rightarrow> bytes option list \<Rightarrow> oid list \<Rightarrow> 'w node_conn
     \<Rightarrow> (js_error, field_info list \<times> row_rx) res \<times> 'w node_conn" where
  "js_query_stream net sql params oids c =
     (case encode_query_with_formats (text_query sql params oids) (fst (snd c)) of
        ((buf, pending), s) \<Rightarrow>
          (case submit_stream net buf (s, snd (snd c)) of
             (Ok (fs, rows), sys) \<Rightarrow>
               (Ok (fields_to_info fs, Some (rows, True)), (fst c, publish_pending pending sys))
           | (Err e, sys) \<Rightarrow> (Err (Wire e), (fst c, sys))
           | (Panic, sys) \<Rightarrow> (Panic, (fst c, sys))))"

fun stream_next_row :: "row_rx \<Rightarrow> (js_error, rstring option list option) res option \<times> row_rx" where
  "stream_next_row None = (Some (Ok None), None)"
| "stream_next_row (Some (Ok d # rows, gone)) =
     (Some (and_then (row_to_strings d) (\<lambda>cells. Ok (Some cells))), Some (rows, gone))"
| "stream_next_row (Some (Err e # rows, gone)) = (Some (Err (Wire e)), None)"
| "stream_next_row (Some (Panic # rows, gone)) = (Some Panic, Some (rows, gone))"
| "stream_next_row (Some ([], gone)) = (if gone then (Some (Ok None), None) else (None, Some ([], gone)))"

text \<open>The loop after the first row of a batch.\<close>

fun drain_buffered ::
  "nat \<Rightarrow> rstring option list list \<Rightarrow> (wire_error, raw_row) res list \<Rightarrow> bool
     \<Rightarrow> (js_error, rstring option list list) res \<times> row_rx" where
  "drain_buffered 0 out rows gone = (Ok out, Some (rows, gone))"
| "drain_buffered (Suc k) out (Ok d # rows) gone =
     (case row_to_strings d of
        Ok cells \<Rightarrow> drain_buffered k (out @ [cells]) rows gone
      | Err e \<Rightarrow> (Err e, Some (rows, gone))
      | Panic \<Rightarrow> (Panic, Some (rows, gone)))"
| "drain_buffered (Suc k) out (Err e # rows) gone = (Err (Wire e), None)"
| "drain_buffered (Suc k) out (Panic # rows) gone = (Panic, Some (rows, gone))"
| "drain_buffered (Suc k) out [] gone = (Ok out, if gone then None else Some ([], gone))"

fun next_batch :: "u32 \<Rightarrow> row_rx \<Rightarrow> (js_error, rstring option list list) res option \<times> row_rx" where
  "next_batch limit None = (Some (Ok []), None)"
| "next_batch limit (Some (Ok d # rows, gone)) =
     (case row_to_strings d of
        Ok cells \<Rightarrow>
          (case drain_buffered (max (unat limit) 1 - 1) [cells] rows gone of (r, rx) \<Rightarrow> (Some r, rx))
      | Err e \<Rightarrow> (Some (Err e), Some (rows, gone))
      | Panic \<Rightarrow> (Some Panic, Some (rows, gone)))"
| "next_batch limit (Some (Err e # rows, gone)) = (Some (Err (Wire e)), None)"
| "next_batch limit (Some (Panic # rows, gone)) = (Some Panic, Some (rows, gone))"
| "next_batch limit (Some ([], gone)) = (if gone then (Some (Ok []), None) else (None, Some ([], gone)))"

definition stream_close :: "row_rx \<Rightarrow> row_rx" where "stream_close rx = None"

type_synonym notice_rx = "(backend_msg list \<times> bool) option"

fun next_notice :: "backend_msg list \<Rightarrow> bool \<Rightarrow> (i32 \<times> rstring \<times> rstring) option option \<times> notice_rx" where
  "next_notice (NotificationResponse pid channel payload # ms) gone = (Some (Some (pid, channel, payload)), Some (ms, gone))"
| "next_notice (_ # ms) gone = next_notice ms gone"
| "next_notice [] gone = (if gone then (Some None, None) else (None, Some ([], gone)))"

definition notifications_next :: "notice_rx \<Rightarrow> (i32 \<times> rstring \<times> rstring) option option \<times> notice_rx" where
  "notifications_next rx = (case rx of None \<Rightarrow> (Some None, None) | Some (ms, gone) \<Rightarrow> next_notice ms gone)"

section \<open>Pipelines\<close>

definition push ::
  "rstring \<Rightarrow> bytes option list \<Rightarrow> oid list \<Rightarrow> i16 list \<Rightarrow> i16 list \<Rightarrow> queued_query list
     \<Rightarrow> (js_error, unit) res \<times> queued_query list" where
  "push sql params oids pf rf = with_formats pf rf (\<lambda>pf rf qs. (Ok (), qs @
     [\<lparr>qq_sql = sql, qq_params = params, qq_oids = oids, qq_param_formats = pf, qq_result_formats = rf\<rparr>]))"

definition queue_len :: "queued_query list \<Rightarrow> u32" where "queue_len qs = word_of_nat (length qs)"
definition queue_is_empty :: "queued_query list \<Rightarrow> bool" where "queue_is_empty qs = (queue_len qs = 0)"
definition queue_clear :: "queued_query list \<Rightarrow> queued_query list" where "queue_clear qs = []"

text \<open>The first occurrence of each cold SQL is serial, the rest parallel.\<close>

type_synonym numbered = "(nat \<times> queued_query) list"

fun partition_cold :: "rstring set \<Rightarrow> rstring set \<Rightarrow> numbered \<Rightarrow> numbered \<times> numbered" where
  "partition_cold warm seen_cold [] = ([], [])"
| "partition_cold warm seen_cold ((i, q) # qs) =
     (if qq_sql q \<in> warm then
        let (serial, parallel) = partition_cold warm seen_cold qs in (serial, (i, q) # parallel)
      else if qq_sql q \<notin> seen_cold then
        let (serial, parallel) = partition_cold warm (insert (qq_sql q) seen_cold) qs in ((i, q) # serial, parallel)
      else
        let (serial, parallel) = partition_cold warm seen_cold qs in (serial, (i, q) # parallel))"

type_synonym result_slots = "raw_query_result option list"

fun run_serial ::
  "'w transport \<Rightarrow> numbered \<Rightarrow> result_slots \<Rightarrow> 'w node_conn \<Rightarrow> (js_error, result_slots) res \<times> 'w node_conn" where
  "run_serial net [] cells c = (Ok cells, c)"
| "run_serial net ((i, q) # serial) cells c =
     (case warming (qq_sql q) (exec_query_raw net q) c of
        (Ok r, c) \<Rightarrow> run_serial net serial (cells[i := Some r]) c
      | (Err e, c) \<Rightarrow> (Err e, c)
      | (Panic, c) \<Rightarrow> (Panic, c))"

text \<open>A spawned task, between its steps.\<close>

datatype task =
    Spawned
  | Encoded bytes "(rstring \<times> bytes) option"
  | Answered response "(rstring \<times> bytes) option"
  | Finished "(wire_error, raw_query_result) res"

fun task_step :: "'w transport \<Rightarrow> queued_query \<Rightarrow> task \<Rightarrow> 'w sys \<Rightarrow> task \<times> 'w sys" where
  "task_step net q Spawned sys =
     (case encode_query_with_formats q (fst sys) of ((buf, pending), s) \<Rightarrow> (Encoded buf pending, (s, snd sys)))"
| "task_step net q (Encoded buf pending) sys =
     (case submit net buf Rows sys of (r, sys) \<Rightarrow> (Answered r pending, sys))"
| "task_step net q (Answered (Ok resp) pending) sys = (Finished (raw_result resp), publish_pending pending sys)"
| "task_step net q (Answered (Err e) pending) sys = (Finished (Err e), sys)"
| "task_step net q (Answered Panic pending) sys = (Finished Panic, sys)"
| "task_step net q (Finished r) sys = (Finished r, sys)"

fun run_tasks ::
  "'w transport \<Rightarrow> queued_query list \<Rightarrow> nat list \<Rightarrow> task list \<Rightarrow> 'w sys \<Rightarrow> task list \<times> 'w sys" where
  "run_tasks net qs [] tasks sys = (tasks, sys)"
| "run_tasks net qs (k # schedule) tasks sys =
     (if k < length tasks
      then case task_step net (qs ! k) (tasks ! k) sys of
             (t, sys) \<Rightarrow> run_tasks net qs schedule (tasks[k := t]) sys
      else run_tasks net qs schedule tasks sys)"

text \<open>The handles, in order; a task that panicked is a join error, one that never finishes is waited for.\<close>

fun await_tasks :: "(nat \<times> task) list \<Rightarrow> result_slots \<Rightarrow> (js_error, result_slots) res option" where
  "await_tasks [] cells = Some (Ok cells)"
| "await_tasks ((i, Finished (Ok r)) # handles) cells = await_tasks handles (cells[i := Some r])"
| "await_tasks ((i, Finished (Err e)) # handles) cells = Some (Err (Wire e))"
| "await_tasks ((i, Finished Panic) # handles) cells = Some (Err JoinFailed)"
| "await_tasks ((i, _) # handles) cells = None"

fun unfill :: "result_slots \<Rightarrow> ('e, raw_query_result list) res" where
  "unfill [] = Ok []"
| "unfill (None # cells) = Panic"
| "unfill (Some r # cells) = and_then (unfill cells) (\<lambda>rs. Ok (r # rs))"

definition pipeline_execute ::
  "'w transport \<Rightarrow> nat list \<Rightarrow> queued_query list \<Rightarrow> 'w node_conn
     \<Rightarrow> (js_error, raw_query_result list) res option \<times> queued_query list \<times> 'w node_conn" where
  "pipeline_execute net schedule qs c =
     (let (serial, parallel) = partition_cold (fst c) {} (List.enumerate 0 qs)
      in case run_serial net serial (replicate (length qs) None) c of
           (Err e, c) \<Rightarrow> (Some (Err e), [], c)
         | (Panic, c) \<Rightarrow> (Some Panic, [], c)
         | (Ok cells, (warm, sys)) \<Rightarrow>
             (case run_tasks net (map snd parallel) schedule (replicate (length parallel) Spawned) sys of
                (tasks, sys) \<Rightarrow>
                  (map_option (\<lambda>r. and_then r unfill) (await_tasks (zip (map fst parallel) tasks) cells),
                   [], (warm, sys))))"

section \<open>What the server answers\<close>

definition reply ::
  "(rstring \<Rightarrow> field_description list) \<Rightarrow> sql_exec \<Rightarrow> queued_query \<Rightarrow> response" where
  "reply cols exec q =
     (case exec (qq_sql q) (qq_oids q) (qq_params q) of
        Inl e \<Rightarrow> Err (Pg e)
      | Inr (rows, tag) \<Rightarrow> Ok (RowsResponse (cols (qq_sql q)) rows tag))"

definition outcome ::
  "(rstring \<Rightarrow> field_description list) \<Rightarrow> sql_exec \<Rightarrow> queued_query \<Rightarrow> (wire_error, raw_query_result) res" where
  "outcome cols exec q = and_then (reply cols exec q) raw_result"

definition request_fits :: "queued_query \<Rightarrow> bool" where
  "request_fits q \<longleftrightarrow>
     no_nul (qq_sql q) \<and> length (qq_oids q) < 2 ^ 16 \<and> length (qq_params q) < 2 ^ 16
     \<and> length (qq_param_formats q) < 2 ^ 16 \<and> length (qq_result_formats q) < 2 ^ 16
     \<and> 100 + length (qq_sql q) + 4 * length (qq_oids q) + 2 * length (qq_params q) + 2 * length (qq_param_formats q)
         + 2 * length (qq_result_formats q) + sum_list (map param_size (qq_params q)) < 2 ^ 31"

lemma request_sendable:
  assumes "request_fits q"
  shows "\<forall>m \<in> set (request_messages q (stmt_name k) np). sendable False m \<and> fits m"
  using assms stmt_name_fits [of k]
  by (auto simp: request_messages_def request_fits_def Let_def fits_def put_cstr_def length_concat_params
      length_concat_const [where f = be32 and k = 4] length_concat_const [where f = put_fmt and k = 2] no_nul_def
      length_formats simp del: map_map)

lemma response_error: "response_of Rows (ParseComplete # BindComplete # RowDescription fs # [ErrorResponse e]) = Err (Pg e)"
  "response_of Rows (BindComplete # RowDescription fs # [ErrorResponse e]) = Err (Pg e)"
  by (simp_all add: or_first_error_def)

lemma submit_request:
  assumes "request_fits q" and "cols (qq_sql q) \<noteq> []"
    and "if np then sv (stmt_name k) = None else sv (stmt_name k) = Some (qq_sql q, qq_oids q)"
  shows "submit (typed_net cols exec) (encode_messages (request_messages q (stmt_name k) np) []) Rows (s, sv)
    = (reply cols exec q, (s, if np then sv(stmt_name k \<mapsto> (qq_sql q, qq_oids q)) else sv))"
proof -
  have "stmt_name k \<noteq> []" using stmt_name_fits by blast
  then show ?thesis
    using assms(2,3) rd_all_encode [OF request_sendable [OF assms(1), of k np]]
    by (cases np; cases "exec (qq_sql q) (qq_oids q) (qq_params q)")
      (auto simp: submit_def request_messages_def Let_def reply_def reply_collected response_error
        simp del: response_of.simps encode_messages.simps split: prod.splits)
qed

section \<open>One task among others\<close>

text \<open>What every task relies on: a cached name stands for its SQL, names come from the counter, and the names
  that tasks have reserved for a \<open>Parse\<close> are unused on the server.\<close>

definition world_ok :: "(rstring \<Rightarrow> oid list) \<Rightarrow> async_conn \<Rightarrow> prepared \<Rightarrow> rstring set \<Rightarrow> bool" where
  "world_ok ty s sv reserved \<longleftrightarrow>
     (\<forall>sql n. cached s sql = Some n \<longrightarrow> (\<exists>k. n = stmt_name k) \<and> sv n = Some (sql, ty sql))
     \<and> (\<forall>n. sv n \<noteq> None \<longrightarrow> allocated s n) \<and> (\<forall>n \<in> reserved. allocated s n \<and> sv n = None)"

fun reserves :: "task \<Rightarrow> rstring set" where
  "reserves (Encoded buf (Some (_, n))) = {n}"
| "reserves _ = {}"

fun unfinished :: "task \<Rightarrow> nat" where "unfinished (Finished r) = 0" | "unfinished _ = 1"
fun unnamed :: "task \<Rightarrow> nat" where "unnamed Spawned = 1" | "unnamed _ = 0"
fun stage :: "task \<Rightarrow> nat" where
  "stage Spawned = 0" | "stage (Encoded _ _) = 1" | "stage (Answered _ _) = 2" | "stage (Finished _) = 3"

text \<open>What a task knows; it only needs that statements on the server stay.\<close>

fun task_ok ::
  "(rstring \<Rightarrow> field_description list) \<Rightarrow> sql_exec \<Rightarrow> prepared \<Rightarrow> queued_query \<Rightarrow> task \<Rightarrow> bool" where
  "task_ok cols exec sv q Spawned = True"
| "task_ok cols exec sv q (Encoded buf None) =
     (\<exists>k. buf = encode_messages (request_messages q (stmt_name k) False) []
        \<and> sv (stmt_name k) = Some (qq_sql q, qq_oids q))"
| "task_ok cols exec sv q (Encoded buf (Some (sql, n))) =
     (\<exists>k. n = stmt_name k \<and> sql = qq_sql q \<and> buf = encode_messages (request_messages q (stmt_name k) True) [])"
| "task_ok cols exec sv q (Answered r None) = (r = reply cols exec q)"
| "task_ok cols exec sv q (Answered r (Some (sql, n))) =
     (r = reply cols exec q \<and> sql = qq_sql q \<and> (\<exists>k. n = stmt_name k) \<and> sv n = Some (qq_sql q, qq_oids q))"
| "task_ok cols exec sv q (Finished r) = (r = outcome cols exec q)"

definition request_ok :: "(rstring \<Rightarrow> field_description list) \<Rightarrow> (rstring \<Rightarrow> oid list) \<Rightarrow> queued_query \<Rightarrow> bool" where
  "request_ok cols ty q \<longleftrightarrow> request_fits q \<and> cols (qq_sql q) \<noteq> [] \<and> qq_oids q = ty (qq_sql q)"

lemma task_ok_stays:
  assumes "\<And>n v. sv n = Some v \<Longrightarrow> sv' n = Some v"
  shows "task_ok cols exec sv q t \<Longrightarrow> task_ok cols exec sv' q t"
  using assms by (induction cols exec sv q t rule: task_ok.induct) auto

lemma publish_room:
  assumes "length (cn_cache s) < STMT_CACHE_CAP"
  shows "cached (cache_statement sql (stmt_name k) s) x
      = (if x = sql \<and> cached s sql = None then Some (stmt_name k) else cached s x)"
    and "cn_counter (cache_statement sql (stmt_name k) s) = cn_counter s"
    and "length (cn_cache (cache_statement sql (stmt_name k) s)) \<le> length (cn_cache s) + 1"
  using assms
  by (auto simp: cache_statement_def from_utf8_def cached_def Let_def)

lemma step_spawned:
  assumes "world_ok ty s sv R" and "request_ok cols ty q" and "unat (cn_counter s) + 1 < 2 ^ 64"
  shows "\<exists>t' s'. task_step (typed_net cols exec) q Spawned (s, sv) = (t', (s', sv))
    \<and> world_ok ty s' sv (R \<union> reserves t') \<and> R \<inter> reserves t' = {} \<and> task_ok cols exec sv q t' \<and> stage t' = 1
    \<and> cn_cache s' = cn_cache s \<and> unat (cn_counter s') \<le> unat (cn_counter s) + 1"
proof (cases "cached s (qq_sql q)")
  case (Some n)
  then obtain k where "n = stmt_name k" "sv n = Some (qq_sql q, ty (qq_sql q))"
    using assms(1) by (force simp: world_ok_def)
  with Some assms show ?thesis
    by (auto simp: encode_query_with_formats_def lookup_or_alloc_def request_ok_def)
next
  case None
  let ?n = "stmt_name (cn_counter s)"
  let ?s = "s\<lparr>cn_counter := cn_counter s + 1\<rparr>"
  have next_counter: "unat (cn_counter s + 1) = unat (cn_counter s) + 1"
    using assms(3) by (simp add: unat_word_ariths)
  then have up: "k < cn_counter s + 1 \<longleftrightarrow> k \<le> cn_counter s" for k
    by (simp add: word_less_nat_alt word_le_nat_alt less_Suc_eq_le)
  have fresh: "\<not> allocated s ?n" by (auto simp: allocated_def)
  have mono: "allocated s n \<Longrightarrow> allocated ?s n" and own: "allocated ?s ?n" for n
    by (auto simp: allocated_def up intro: less_imp_le)
  have "sv ?n = None" "?n \<notin> R" using fresh assms(1) unfolding world_ok_def by blast+
  moreover have "cached ?s x = cached s x" for x by (simp add: cached_def)
  ultimately have "world_ok ty ?s sv (R \<union> {?n})"
    using assms(1) mono own by (auto simp: world_ok_def)
  with None \<open>?n \<notin> R\<close> next_counter show ?thesis
    by (auto simp: encode_query_with_formats_def lookup_or_alloc_def)
qed

lemma step_encoded:
  assumes "world_ok ty s sv (R \<union> reserves (Encoded buf p))" and "R \<inter> reserves (Encoded buf p) = {}"
    and "request_ok cols ty q" and "task_ok cols exec sv q (Encoded buf p)"
  shows "\<exists>sv'. task_step (typed_net cols exec) q (Encoded buf p) (s, sv) = (Answered (reply cols exec q) p, (s, sv'))
    \<and> world_ok ty s sv' R \<and> task_ok cols exec sv' q (Answered (reply cols exec q) p)
    \<and> (\<forall>n v. sv n = Some v \<longrightarrow> sv' n = Some v)"
proof (cases p)
  case None
  then obtain k where k: "buf = encode_messages (request_messages q (stmt_name k) False) []"
    "sv (stmt_name k) = Some (qq_sql q, qq_oids q)"
    using assms(4) by auto
  have "submit (typed_net cols exec) buf Rows (s, sv) = (reply cols exec q, (s, sv))"
    using submit_request [of q cols False sv k exec s] assms(3) k by (simp add: request_ok_def)
  with None assms(1) show ?thesis by simp
next
  case (Some x)
  then obtain sql n where x: "p = Some (sql, n)" by (cases x) auto
  then obtain k where k: "n = stmt_name k" "sql = qq_sql q" "buf = encode_messages (request_messages q (stmt_name k) True) []"
    using assms(4) by auto
  have n: "sv n = None" "allocated s n" "n \<notin> R" using assms(1,2) x by (auto simp: world_ok_def)
  let ?sv = "sv(n \<mapsto> (qq_sql q, qq_oids q))"
  have "submit (typed_net cols exec) buf Rows (s, sv) = (reply cols exec q, (s, ?sv))"
    using submit_request [of q cols True sv k exec s] assms(3) k n by (simp add: request_ok_def)
  moreover have "world_ok ty s ?sv R"
    using assms(1) n by (fastforce simp: world_ok_def)
  ultimately show ?thesis using x k n by (intro exI [of _ ?sv]) auto
qed

lemma step_answered:
  assumes "world_ok ty s sv R" and "task_ok cols exec sv q (Answered r p)" and "request_ok cols ty q"
    and "length (cn_cache s) < STMT_CACHE_CAP"
  shows "\<exists>s'. task_step (typed_net cols exec) q (Answered r p) (s, sv) = (Finished (outcome cols exec q), (s', sv))
    \<and> world_ok ty s' sv R \<and> cn_counter s' = cn_counter s \<and> length (cn_cache s') \<le> length (cn_cache s) + 1"
proof -
  have r: "r = reply cols exec q" using assms(2) by (cases p) auto
  show ?thesis
  proof (cases "r")
    case (Ok resp)
    show ?thesis
    proof (cases p)
      case (Some x)
      then obtain sql n where x: "p = Some (sql, n)" by (cases x) auto
      then obtain k where k: "sql = qq_sql q" "n = stmt_name k" "sv (stmt_name k) = Some (qq_sql q, ty (qq_sql q))"
        using assms(2,3) by (auto simp: request_ok_def)
      let ?s = "cache_statement (qq_sql q) (stmt_name k) s"
      note room = publish_room [OF assms(4), of "qq_sql q" k]
      have "world_ok ty ?s sv R"
        using assms(1) k(3) room by (auto simp: world_ok_def allocated_def split: if_splits)
      with Ok x k room show ?thesis
        using r by (auto simp: publish_pending_def sys_publish_def outcome_def)
    qed (use Ok r assms(1) in \<open>auto simp: publish_pending_def outcome_def\<close>)
  qed (use r assms(1) in \<open>auto simp: outcome_def\<close>)
qed

text \<open>One step keeps what the task knows and what the others rely on.\<close>

lemma task_step_ok:
  assumes "world_ok ty s sv (R \<union> reserves t)" and "R \<inter> reserves t = {}" and "task_ok cols exec sv q t"
    and "request_ok cols ty q" and "length (cn_cache s) + unfinished t \<le> STMT_CACHE_CAP"
    and "unat (cn_counter s) + unnamed t < 2 ^ 64"
  shows "\<exists>t' s' sv'. task_step (typed_net cols exec) q t (s, sv) = (t', (s', sv'))
    \<and> world_ok ty s' sv' (R \<union> reserves t') \<and> R \<inter> reserves t' = {} \<and> task_ok cols exec sv' q t'
    \<and> (\<forall>n v. sv n = Some v \<longrightarrow> sv' n = Some v)
    \<and> length (cn_cache s') + unfinished t' \<le> length (cn_cache s) + unfinished t
    \<and> unat (cn_counter s') + unnamed t' \<le> unat (cn_counter s) + unnamed t \<and> stage t' = min 3 (stage t + 1)"
proof (cases t)
  case Spawned
  then obtain t' s' where "task_step (typed_net cols exec) q t (s, sv) = (t', (s', sv))"
    "world_ok ty s' sv (R \<union> reserves t')" "R \<inter> reserves t' = {}" "task_ok cols exec sv q t'" "stage t' = 1"
    "cn_cache s' = cn_cache s" "unat (cn_counter s') \<le> unat (cn_counter s) + 1"
    using step_spawned [of ty s sv R cols q exec] assms by auto
  moreover from \<open>stage t' = 1\<close> have "unfinished t' = 1" "unnamed t' = 0" by (cases t'; simp)+
  ultimately show ?thesis using Spawned by auto
next
  case (Encoded buf p)
  with step_encoded [of ty s sv R buf p cols q exec] assms show ?thesis by auto
next
  case (Answered r p)
  with assms have "world_ok ty s sv R" "length (cn_cache s) < STMT_CACHE_CAP" by auto
  with step_answered [of ty s sv R cols exec q r p] Answered assms(3,4) show ?thesis by auto
next
  case (Finished r)
  with assms show ?thesis by auto
qed

section \<open>All tasks\<close>

definition tasks_ok ::
  "(rstring \<Rightarrow> field_description list) \<Rightarrow> sql_exec \<Rightarrow> (rstring \<Rightarrow> oid list) \<Rightarrow> queued_query list \<Rightarrow> task list
     \<Rightarrow> nat \<Rightarrow> async_conn \<Rightarrow> prepared \<Rightarrow> bool" where
  "tasks_ok cols exec ty qs ts extra s sv \<longleftrightarrow>
     length ts = length qs \<and> (\<forall>i < length ts. task_ok cols exec sv (qs ! i) (ts ! i))
     \<and> (\<forall>i < length ts. \<forall>j < length ts. i \<noteq> j \<longrightarrow> reserves (ts ! i) \<inter> reserves (ts ! j) = {})
     \<and> world_ok ty s sv (\<Union>i < length ts. reserves (ts ! i))
     \<and> length (cn_cache s) + sum_list (map unfinished ts) + extra \<le> STMT_CACHE_CAP
     \<and> unat (cn_counter s) + sum_list (map unnamed ts) + extra < 2 ^ 64"

lemma sum_list_at: "k < length xs \<Longrightarrow> sum_list (map f (xs[k := x])) + f (xs ! k) = sum_list (map f xs) + (f x :: nat)"
proof -
  assume k: "k < length xs"
  have "f (xs ! k) \<le> sum_list (map f xs)" using k elem_le_sum_list [of k "map f xs"] by simp
  then show ?thesis using k by (simp add: map_update sum_list_update)
qed

lemma sum_list_at_le: "k < length xs \<Longrightarrow> (f (xs ! k) :: nat) \<le> sum_list (map f xs)"
  using elem_le_sum_list [of k "map f xs"] by simp

lemma tasks_step:
  assumes ok: "tasks_ok cols exec ty qs ts n s sv" and req: "\<forall>q \<in> set qs. request_ok cols ty q" and k: "k < length ts"
  shows "\<exists>t' s' sv'. task_step (typed_net cols exec) (qs ! k) (ts ! k) (s, sv) = (t', (s', sv'))
    \<and> tasks_ok cols exec ty qs (ts[k := t']) n s' sv' \<and> stage t' = min 3 (stage (ts ! k) + 1)"
proof -
  let ?R = "\<Union>i \<in> {..<length ts} - {k}. reserves (ts ! i)"
  have all: "(\<Union>i < length ts. reserves (ts ! i)) = ?R \<union> reserves (ts ! k)" using k by auto
  have "reserves (ts ! i) \<inter> reserves (ts ! k) = {}" if "i < length ts" "i \<noteq> k" for i
    using ok k that unfolding tasks_ok_def by blast
  then have own: "?R \<inter> reserves (ts ! k) = {}" by blast
  have room: "length (cn_cache s) + unfinished (ts ! k) \<le> STMT_CACHE_CAP" "unat (cn_counter s) + unnamed (ts ! k) < 2 ^ 64"
    using ok sum_list_at_le [OF k, of unfinished] sum_list_at_le [OF k, of unnamed] by (auto simp: tasks_ok_def)
  obtain t' s' sv' where step: "task_step (typed_net cols exec) (qs ! k) (ts ! k) (s, sv) = (t', (s', sv'))"
    and world: "world_ok ty s' sv' (?R \<union> reserves t')" and apart: "?R \<inter> reserves t' = {}"
    and mine: "task_ok cols exec sv' (qs ! k) t'" and stays: "\<forall>n v. sv n = Some v \<longrightarrow> sv' n = Some v"
    and cache: "length (cn_cache s') + unfinished t' \<le> length (cn_cache s) + unfinished (ts ! k)"
    and counter: "unat (cn_counter s') + unnamed t' \<le> unat (cn_counter s) + unnamed (ts ! k)"
    and stage: "stage t' = min 3 (stage (ts ! k) + 1)"
    using task_step_ok [of ty s sv ?R "ts ! k" cols exec "qs ! k"] ok req k own all room
    by (auto simp: tasks_ok_def)
  have "(\<Union>i < length ts. reserves (ts[k := t'] ! i)) = ?R \<union> reserves t'"
    using k by (auto simp: nth_list_update split: if_splits)
  moreover have "task_ok cols exec sv' (qs ! i) (ts[k := t'] ! i)" if "i < length ts" for i
    using that ok mine task_ok_stays [of sv sv' cols exec "qs ! i" "ts ! i"] stays
    by (cases "i = k") (auto simp: tasks_ok_def)
  moreover have "reserves (ts[k := t'] ! i) \<inter> reserves (ts[k := t'] ! j) = {}"
    if "i < length ts" "j < length ts" "i \<noteq> j" for i j
    using that ok apart k by (auto simp: tasks_ok_def nth_list_update)
  moreover have "length (cn_cache s') + sum_list (map unfinished (ts[k := t'])) + n \<le> STMT_CACHE_CAP"
    "unat (cn_counter s') + sum_list (map unnamed (ts[k := t'])) + n < 2 ^ 64"
    using ok cache counter sum_list_at [OF k, of unfinished t'] sum_list_at [OF k, of unnamed t']
    by (auto simp: tasks_ok_def)
  ultimately have "tasks_ok cols exec ty qs (ts[k := t']) n s' sv'"
    using ok world by (auto simp: tasks_ok_def)
  with step stage show ?thesis by blast
qed

lemma run_tasks_ok:
  "tasks_ok cols exec ty qs ts n s sv \<Longrightarrow> \<forall>q \<in> set qs. request_ok cols ty q \<Longrightarrow>
   \<exists>ts' s' sv'. run_tasks (typed_net cols exec) qs schedule ts (s, sv) = (ts', (s', sv'))
     \<and> tasks_ok cols exec ty qs ts' n s' sv'
     \<and> (\<forall>i < length ts. min 3 (stage (ts ! i) + count_list schedule i) \<le> stage (ts' ! i))"
proof (induction schedule arbitrary: ts s sv)
  case Nil
  then show ?case by auto
next
  case (Cons k schedule)
  show ?case
  proof (cases "k < length ts")
    case True
    obtain t1 s1 sv1 where step: "task_step (typed_net cols exec) (qs ! k) (ts ! k) (s, sv) = (t1, (s1, sv1))"
      "tasks_ok cols exec ty qs (ts[k := t1]) n s1 sv1" "stage t1 = min 3 (stage (ts ! k) + 1)"
      using tasks_step [OF Cons.prems True] by blast
    obtain ts' s' sv' where run: "run_tasks (typed_net cols exec) qs schedule (ts[k := t1]) (s1, sv1) = (ts', (s', sv'))"
      "tasks_ok cols exec ty qs ts' n s' sv'"
      "\<forall>i < length (ts[k := t1]). min 3 (stage (ts[k := t1] ! i) + count_list schedule i) \<le> stage (ts' ! i)"
      using Cons.IH [OF step(2) Cons.prems(2)] by blast
    have "min 3 (stage (ts ! i) + count_list (k # schedule) i) \<le> stage (ts' ! i)" if "i < length ts" for i
      using run(3) [rule_format, of i] that step(3) by (cases "i = k") auto
    with True step(1) run(1,2) show ?thesis by auto
  next
    case False
    obtain ts' s' sv' where "run_tasks (typed_net cols exec) qs schedule ts (s, sv) = (ts', (s', sv'))"
      "tasks_ok cols exec ty qs ts' n s' sv'"
      "\<forall>i < length ts. min 3 (stage (ts ! i) + count_list schedule i) \<le> stage (ts' ! i)"
      using Cons.IH [OF Cons.prems] by blast
    with False show ?thesis by auto
  qed
qed

section \<open>The two phases\<close>

definition room :: "(rstring \<Rightarrow> oid list) \<Rightarrow> nat \<Rightarrow> async_conn \<Rightarrow> prepared \<Rightarrow> bool" where
  "room ty n s sv \<longleftrightarrow> world_ok ty s sv {} \<and> length (cn_cache s) + n \<le> STMT_CACHE_CAP \<and> unat (cn_counter s) + n < 2 ^ 64"

lemma tasks_ok_spawned:
  "room ty (length qs + n) s sv \<Longrightarrow> tasks_ok cols exec ty qs (replicate (length qs) Spawned) n s sv"
  by (simp add: room_def tasks_ok_def sum_list_replicate)

lemma tasks_finished:
  assumes "tasks_ok cols exec ty qs ts n s sv" and "\<forall>i < length ts. 3 \<le> stage (ts ! i)"
  shows "ts = map (\<lambda>q. Finished (outcome cols exec q)) qs" and "room ty n s sv"
proof -
  have fin: "ts ! i = Finished (outcome cols exec (qs ! i))" if "i < length ts" for i
    using that assms by (cases "ts ! i") (auto simp: tasks_ok_def)
  with assms(1) show ts: "ts = map (\<lambda>q. Finished (outcome cols exec q)) qs"
    by (intro nth_equalityI) (auto simp: tasks_ok_def)
  show "room ty n s sv"
    using assms(1) fin unfolding ts by (auto simp: tasks_ok_def room_def)
qed

lemma exec_query_raw_steps:
  assumes "run_tasks net [q] [0, 0, 0] [Spawned] sys = ([Finished r], sys')"
  shows "exec_query_raw net q sys = (r, sys')"
  using assms
  by (auto simp: exec_query_raw_def exec_as_def split: prod.splits res.splits)

lemma exec_query_raw_outcome:
  assumes "room ty (Suc n) s sv" and "request_ok cols ty q"
  shows "\<exists>s' sv'. exec_query_raw (typed_net cols exec) q (s, sv) = (outcome cols exec q, (s', sv')) \<and> room ty n s' sv'"
proof -
  have "tasks_ok cols exec ty [q] [Spawned] n s sv"
    using tasks_ok_spawned [of ty "[q]" n s sv cols exec] assms(1) by simp
  from run_tasks_ok [OF this, of "[0, 0, 0]"] assms(2) obtain ts' s' sv' where
    run: "run_tasks (typed_net cols exec) [q] [0, 0, 0] [Spawned] (s, sv) = (ts', (s', sv'))"
    "tasks_ok cols exec ty [q] ts' n s' sv'" "3 \<le> stage (ts' ! 0)"
    by (auto simp: numeral_3_eq_3)
  have "\<forall>i < length ts'. 3 \<le> stage (ts' ! i)" using run(2,3) by (auto simp: tasks_ok_def)
  from tasks_finished [OF run(2) this] have "ts' = [Finished (outcome cols exec q)]" "room ty n s' sv'" by simp_all
  with exec_query_raw_steps run(1) show ?thesis by blast
qed

definition filled :: "(queued_query \<Rightarrow> (wire_error, raw_query_result) res) \<Rightarrow> numbered \<Rightarrow> result_slots \<Rightarrow> result_slots" where
  "filled f xs cells = foldl (\<lambda>cs (i, q). cs[i := (case f q of Ok r \<Rightarrow> Some r | _ \<Rightarrow> None)]) cells xs"

lemma run_serial_outcomes:
  assumes "\<forall>(i, q) \<in> set serial. request_ok cols ty q \<and> outcome cols exec q \<noteq> Panic"
  shows "room ty (length serial + n) s sv \<Longrightarrow>
    \<exists>c'. run_serial (typed_net cols exec) serial cells (warm, (s, sv))
        = (and_then (map_err Wire (traverse (outcome cols exec) (map snd serial)))
             (\<lambda>_. Ok (filled (outcome cols exec) serial cells)), c')
      \<and> (is_ok (traverse (outcome cols exec) (map snd serial)) \<longrightarrow> (\<exists>warm' s' sv'. c' = (warm', (s', sv')) \<and> room ty n s' sv'))"
  using assms
proof (induction serial arbitrary: s sv cells warm)
  case Nil
  then show ?case by (auto simp: filled_def)
next
  case (Cons x serial)
  obtain i q where x: "x = (i, q)" by (cases x)
  obtain s1 sv1 where run: "exec_query_raw (typed_net cols exec) q (s, sv) = (outcome cols exec q, (s1, sv1))"
    "room ty (length serial + n) s1 sv1"
    using exec_query_raw_outcome [of ty "length serial + n" s sv cols q exec] Cons.prems x by auto
  show ?case
  proof (cases "outcome cols exec q")
    case (Ok r)
    obtain c' where c': "run_serial (typed_net cols exec) serial (cells[i := Some r]) (insert (qq_sql q) warm, (s1, sv1))
        = (and_then (map_err Wire (traverse (outcome cols exec) (map snd serial)))
             (\<lambda>_. Ok (filled (outcome cols exec) serial (cells[i := Some r]))), c')"
      "is_ok (traverse (outcome cols exec) (map snd serial)) \<longrightarrow> (\<exists>warm' s' sv'. c' = (warm', (s', sv')) \<and> room ty n s' sv')"
      using Cons.IH [OF run(2), of "cells[i := Some r]" "insert (qq_sql q) warm"] Cons.prems(2) by auto
    moreover obtain w a b where "c' = (w, (a, b))" by (metis surj_pair)
    ultimately show ?thesis using Ok run(1) x
      by (cases "traverse (outcome cols exec) (map snd serial)") (auto simp: warming_def filled_def)
  next
    case (Err e)
    with run(1) x show ?thesis by (auto simp: warming_def)
  next
    case Panic
    with Cons.prems(2) x show ?thesis by auto
  qed
qed

lemma await_finished:
  "\<forall>(i, q) \<in> set xs. f q \<noteq> Panic \<Longrightarrow>
   await_tasks (zip (map fst xs) (map (\<lambda>q. Finished (f q)) (map snd xs))) cells
     = Some (and_then (map_err Wire (traverse f (map snd xs))) (\<lambda>_. Ok (filled f xs cells)))"
proof (induction xs arbitrary: cells)
  case (Cons x xs)
  obtain i q where "x = (i, q)" by (cases x)
  with Cons show ?case
    by (cases "f q"; cases "traverse f (map snd xs)") (auto simp: filled_def)
qed (simp add: filled_def)

lemma partition_cold_mset:
  "mset (fst (partition_cold warm seen xs)) + mset (snd (partition_cold warm seen xs)) = mset xs"
  by (induction warm seen xs rule: partition_cold.induct) (simp_all add: Let_def case_prod_beta)

text \<open>A parallel query has a warm SQL, or one whose first occurrence is serial.\<close>

lemma partition_cold_warm:
  "(i, q) \<in> set (snd (partition_cold warm seen xs)) \<Longrightarrow>
   qq_sql q \<in> warm \<union> seen \<union> (\<lambda>x. qq_sql (snd x)) ` set (fst (partition_cold warm seen xs))"
  by (induction warm seen xs rule: partition_cold.induct) (auto simp: Let_def case_prod_beta split: if_splits)

lemma img_fst: "(a, b) \<in> A \<Longrightarrow> a \<in> fst ` A"
  by force

lemma length_filled: "length (filled f xs cells) = length cells"
  by (induction xs arbitrary: cells) (auto simp: filled_def)

lemma filled_nth:
  "\<forall>(j, q) \<in> set xs. q = qs ! j \<Longrightarrow> i < length cells \<Longrightarrow>
   filled f xs cells ! i = (if i \<in> fst ` set xs then (case f (qs ! i) of Ok r \<Rightarrow> Some r | _ \<Rightarrow> None) else cells ! i)"
  by (induction xs arbitrary: cells) (auto simp: filled_def nth_list_update dest: img_fst)

lemma unfill_outcomes:
  "traverse f qs = Ok rs \<Longrightarrow> unfill (map (\<lambda>q. case f q of Ok r \<Rightarrow> Some r | _ \<Rightarrow> None) qs) = Ok rs"
  by (induction qs arbitrary: rs) (auto simp: and_then_eq_Ok)

definition cold_first :: "rstring set \<Rightarrow> queued_query list \<Rightarrow> queued_query list" where
  "cold_first warm qs =
     (case partition_cold warm {} (List.enumerate 0 qs) of (serial, parallel) \<Rightarrow> map snd (serial @ parallel))"

lemma filled_all:
  assumes "set xs = set (List.enumerate 0 qs)" and "traverse f qs = Ok rs"
  shows "unfill (filled f xs (replicate (length qs) None)) = Ok rs"
proof -
  have own: "\<forall>(j, q) \<in> set xs. q = qs ! j"
    unfolding assms(1) by (auto simp: in_set_enumerate_eq)
  have "fst ` set xs = set (map fst (List.enumerate 0 qs))" unfolding assms(1) by (rule set_map [symmetric])
  also have "\<dots> = {..<length qs}" unfolding map_fst_enumerate by auto
  finally have idx: "fst ` set xs = {..<length qs}" .
  have "filled f xs (replicate (length qs) None) = map (\<lambda>q. case f q of Ok r \<Rightarrow> Some r | _ \<Rightarrow> None) qs"
  proof (rule nth_equalityI)
    show len: "length (filled f xs (replicate (length qs) None)) = length (map (\<lambda>q. case f q of Ok r \<Rightarrow> Some r | _ \<Rightarrow> None) qs)"
      using length_filled [of f xs] by simp
    fix i
    assume "i < length (filled f xs (replicate (length qs) None))"
    with len have "i < length qs" by simp
    with filled_nth [OF own, of i "replicate (length qs) None" f] idx
    show "filled f xs (replicate (length qs) None) ! i = map (\<lambda>q. case f q of Ok r \<Rightarrow> Some r | _ \<Rightarrow> None) qs ! i"
      by simp
  qed
  with unfill_outcomes [OF assms(2)] show ?thesis by simp
qed

lemma traverse_append: "traverse f (xs @ ys) = and_then (traverse f xs) (\<lambda>as. and_then (traverse f ys) (\<lambda>bs. Ok (as @ bs)))"
  by (induction xs) (auto simp: and_then_assoc and_then_Ok)

lemma traverse_ok_mset:
  assumes "mset xs = mset ys" and "is_ok (traverse f xs)"
  shows "is_ok (traverse f ys)"
proof -
  obtain rs where "traverse f xs = Ok rs" using assms(2) by (cases "traverse f xs") auto
  then have "\<forall>x \<in> set xs. \<exists>r. f x = Ok r" by (auto simp: traverse_eq_Ok list_all2_conv_all_nth in_set_conv_nth)
  moreover have "set xs = set ys" using assms(1) by (metis set_mset_mset)
  ultimately obtain g where "\<forall>x \<in> set ys. f x = Ok (g x)" by metis
  from traverse_map_Ok [OF this] show ?thesis by simp
qed

lemma run_parallel_outcomes:
  assumes "room ty (length parallel) s sv"
    and each: "\<forall>(i, q) \<in> set parallel. request_ok cols ty q \<and> outcome cols exec q \<noteq> Panic"
    and "\<forall>k < length parallel. 3 \<le> count_list schedule k"
  shows "\<exists>ts sys. run_tasks (typed_net cols exec) (map snd parallel) schedule (replicate (length parallel) Spawned) (s, sv) = (ts, sys)
    \<and> await_tasks (zip (map fst parallel) ts) cells
      = Some (and_then (map_err Wire (traverse (outcome cols exec) (map snd parallel)))
          (\<lambda>_. Ok (filled (outcome cols exec) parallel cells)))"
proof -
  have start: "tasks_ok cols exec ty (map snd parallel) (replicate (length parallel) Spawned) 0 s sv"
    using tasks_ok_spawned [of ty "map snd parallel" 0 s sv cols exec] assms(1) by simp
  have reqs: "\<forall>q \<in> set (map snd parallel). request_ok cols ty q" using each by fastforce
  obtain ts s2 sv2 where run: "run_tasks (typed_net cols exec) (map snd parallel) schedule (replicate (length parallel) Spawned) (s, sv)
      = (ts, (s2, sv2))" "tasks_ok cols exec ty (map snd parallel) ts 0 s2 sv2"
    "\<forall>i < length parallel. min 3 (count_list schedule i) \<le> stage (ts ! i)"
    using run_tasks_ok [OF start reqs, of schedule] by auto
  have "\<forall>i < length ts. 3 \<le> stage (ts ! i)"
    using run(2,3) assms(3) by (fastforce simp: tasks_ok_def)
  from tasks_finished(1) [OF run(2) this]
  have ts: "ts = map (\<lambda>q. Finished (outcome cols exec q)) (map snd parallel)" .
  have "\<forall>(i, q) \<in> set parallel. outcome cols exec q \<noteq> Panic" using each by auto
  from await_finished [OF this] run(1) show ?thesis unfolding ts by blast
qed

lemma execute_order:
  assumes part: "partition_cold warm {} (List.enumerate 0 qs) = (serial, parallel)"
  shows "set (serial @ parallel) = set (List.enumerate 0 qs)" and "mset (map snd (serial @ parallel)) = mset qs"
    and "length serial + length parallel = length qs"
proof -
  have ms: "mset serial + mset parallel = mset (List.enumerate 0 qs)"
    using partition_cold_mset [of warm "{}" "List.enumerate 0 qs"] part by simp
  then show "set (serial @ parallel) = set (List.enumerate 0 qs)" by (metis mset_append set_mset_mset)
  show "length serial + length parallel = length qs"
    using ms by (metis size_mset size_union length_enumerate)
  have "mset (map snd (serial @ parallel)) = image_mset snd (mset (List.enumerate 0 qs))" by (simp flip: ms)
  also have "\<dots> = mset (map snd (List.enumerate 0 qs))" by (rule mset_map [symmetric])
  finally show "mset (map snd (serial @ parallel)) = mset qs" by (simp only: map_snd_enumerate)
qed


text \<open>Two calls of one SQL on a fresh connection: the first parses, the second reuses.\<close>

definition sample_batch :: "queued_query list" where
  "sample_batch = replicate 2 (text_query (lit ''SELECT 1'') [] [])"

lemma sample_outcome:
  "outcome (\<lambda>_. sample_cols) (\<lambda>q oids ps. Inr ([raw_row_empty], lit ''SELECT 1'')) (text_query (lit ''SELECT 1'') [] [])
     = Ok \<lparr>rq_fields = fields_to_info sample_cols, rq_rows = [[]], rq_command_tag = lit ''SELECT 1''\<rparr>"
proof -
  have "(rows_to_buffers [raw_row_empty] :: (wire_error, bytes option list list) res) = Ok [[]]" by code_simp
  then show ?thesis by (simp add: outcome_def reply_def)
qed


text \<open>A batch of rows that meets an error drops the rows it has already taken from the channel.\<close>

lemma batch_error_loses_rows:
  "row_to_strings d = (Ok cells :: (js_error, rstring option list) res) \<Longrightarrow> 1 < limit \<Longrightarrow>
   next_batch limit (Some ([Ok d, Err e], gone)) = (Some (Err (Wire e)), None)"
proof -
  assume d: "row_to_strings d = (Ok cells :: (js_error, rstring option list) res)" and "1 < limit"
  then have "1 < unat limit" by (simp add: word_less_nat_alt)
  then have "max (unat limit) (Suc 0) = unat limit" "unat limit - Suc 0 = Suc (unat limit - 2)" by simp_all
  with d show ?thesis by simp
qed

end
