(* ===== verification/Derive_Codec.thy ===== *)
theory Derive_Codec
  imports Codec Chars
begin

text \<open>
  The derive macros for types, \<open>resolute-derive/src\<close>: \<open>PgEnum\<close> (\<open>pg_enum.rs\<close>), \<open>PgComposite\<close>
  (\<open>pg_composite.rs\<close>) and \<open>PgDomain\<close> (\<open>pg_domain.rs\<close>). A macro takes a parsed item to an error or to the
  functions of the generated impls. A value of an enum is the name of its variant, a value of a composite the
  list of its fields; the impls of the field types are a parameter. The theorems: the names that the rename
  rules give; a derived enum reads back exactly what it writes; a derived composite of field types that meet
  the contract \<open>codec\<close> meets it too, and so nests and goes into arrays.
\<close>

section \<open>Items and attributes\<close>

text \<open>A type as the macros look at it: the last segment of a path with its arguments, or another type.\<close>

datatype rust_type = PathType rstring "type_arg list option" | OtherType rstring
  and type_arg = TypeArg rust_type | OtherArg rstring

text \<open>\<open>key\<close>, \<open>key = "text"\<close>, \<open>key = 1\<close>, or \<open>key =\<close> another expression.\<close>

datatype meta_value = NoValue | StrValue rstring | IntValue nat | ExprValue

type_synonym metas = "(rstring \<times> meta_value) list"
type_synonym attrs = "(rstring \<times> metas) list"

record variant =
  v_ident :: rstring
  v_attrs :: attrs
  v_fields :: nat
  v_discriminant :: "int option"

datatype item_data =
    NamedStruct "(attrs \<times> rstring \<times> rust_type) list"
  | TupleStruct "rust_type list"
  | UnitStruct
  | EnumItem "variant list"
  | UnionItem

record derive_input =
  di_ident :: string
  di_attrs :: attrs
  di_data :: item_data

datatype derive_error =
    NotAnEnum
  | VariantHasFields rstring
  | NoDiscriminant rstring
  | NotAStruct
  | NotNamedFields
  | NotOneField
  | BadAttribute
  | SkipCombined
  | FlattenCombined
  | JsonWithTryFrom

text \<open>The helpers of the attributes. A value of the wrong kind, or none, is an error of the parser.\<close>

fun lit_str :: "meta_value \<Rightarrow> (derive_error, rstring) res" where
  "lit_str (StrValue s) = Ok s"
| "lit_str _ = Err BadAttribute"

fun lit_u32 :: "meta_value \<Rightarrow> (derive_error, u32) res" where
  "lit_u32 (IntValue n) = (if n < 2 ^ 32 then Ok (word_of_nat n) else Err BadAttribute)"
| "lit_u32 _ = Err BadAttribute"

fun oid_metas :: "metas \<Rightarrow> u32 \<times> u32 \<Rightarrow> (derive_error, u32 \<times> u32) res" where
  "oid_metas [] oids = Ok oids"
| "oid_metas ((key, value) # metas) oids =
     (if key = lit ''oid'' then and_then (lit_u32 value) (\<lambda>n. oid_metas metas (n, snd oids))
      else if key = lit ''array_oid'' then and_then (lit_u32 value) (\<lambda>n. oid_metas metas (fst oids, n))
      else oid_metas metas oids)"

fun custom_oids :: "attrs \<Rightarrow> u32 \<times> u32 \<Rightarrow> (derive_error, u32 \<times> u32) res" where
  "custom_oids [] oids = Ok oids"
| "custom_oids ((path, metas) # attrs) oids =
     (if path \<noteq> lit ''pg_type'' then custom_oids attrs oids
      else and_then (oid_metas metas oids) (custom_oids attrs))"

definition get_custom_oids :: "attrs \<Rightarrow> (derive_error, u32 \<times> u32) res" where
  "get_custom_oids attrs = custom_oids attrs (0, 0)"

text \<open>The last value of a key in one attribute, and in the first attribute that has it.\<close>

fun str_meta :: "rstring \<Rightarrow> metas \<Rightarrow> rstring option \<Rightarrow> (derive_error, rstring option) res" where
  "str_meta k [] found = Ok found"
| "str_meta k ((key, value) # metas) found =
     (if key = k then and_then (lit_str value) (\<lambda>s. str_meta k metas (Some s)) else str_meta k metas found)"

fun first_str :: "rstring \<Rightarrow> attrs \<Rightarrow> (derive_error, rstring option) res" where
  "first_str k [] = Ok None"
| "first_str k ((path, metas) # attrs) =
     (if path \<noteq> lit ''pg_type'' then first_str k attrs
      else and_then (str_meta k metas None) (\<lambda>found. if found \<noteq> None then Ok found else first_str k attrs))"

definition get_container_rename_all :: "attrs \<Rightarrow> (derive_error, rstring) res" where
  "get_container_rename_all attrs =
     and_then (first_str (lit ''rename_all'') attrs)
       (\<lambda>rule. Ok (case rule of Some rule \<Rightarrow> rule | None \<Rightarrow> lit ''snake_case''))"

datatype repr = ReprI16 | ReprI32 | ReprI64

fun repr_name :: "rstring \<Rightarrow> repr option" where
  "repr_name s =
     (if s = lit ''i16'' then Some ReprI16 else if s = lit ''i32'' then Some ReprI32
      else if s = lit ''i64'' then Some ReprI64 else None)"

text \<open>A key with a value is left unread here, which the parser of the attribute reports.\<close>

fun repr_metas :: "metas \<Rightarrow> repr option \<Rightarrow> (derive_error, repr option) res" where
  "repr_metas [] found = Ok found"
| "repr_metas ((key, value) # metas) found =
     (if value \<noteq> NoValue then Err BadAttribute
      else repr_metas metas (case repr_name key of Some r \<Rightarrow> Some r | None \<Rightarrow> found))"

fun get_repr_int :: "attrs \<Rightarrow> (derive_error, repr option) res" where
  "get_repr_int [] = Ok None"
| "get_repr_int ((path, metas) # attrs) =
     (if path \<noteq> lit ''repr'' then get_repr_int attrs
      else and_then (repr_metas metas None) (\<lambda>found. if found \<noteq> None then Ok found else get_repr_int attrs))"

fun extract_option_inner :: "rust_type \<Rightarrow> rust_type option" where
  "extract_option_inner (PathType name (Some (TypeArg ty # args))) = (if name = lit ''Option'' then Some ty else None)"
| "extract_option_inner _ = None"

section \<open>Rename rules\<close>

text \<open>Case of characters: fixed on ASCII, the tables of Unicode are a parameter, and so is what
  \<open>str::to_lowercase\<close> does with a text that has a capital sigma.\<close>

record casing =
  ca_upper :: "uchar \<Rightarrow> bool"
  ca_lower :: "uchar \<Rightarrow> bool"
  ca_to_lower :: "uchar \<Rightarrow> chars"
  ca_to_upper :: "uchar \<Rightarrow> chars"
  ca_sigma :: "chars \<Rightarrow> chars"

definition is_uppercase :: "casing \<Rightarrow> uchar \<Rightarrow> bool" where
  "is_uppercase u c = (if c < 128 then 65 \<le> c \<and> c \<le> 90 else ca_upper u c)"

definition is_lowercase :: "casing \<Rightarrow> uchar \<Rightarrow> bool" where
  "is_lowercase u c = (if c < 128 then 97 \<le> c \<and> c \<le> 122 else ca_lower u c)"

definition char_lower :: "casing \<Rightarrow> uchar \<Rightarrow> chars" where
  "char_lower u c = (if c < 128 then [if 65 \<le> c \<and> c \<le> 90 then c + 32 else c] else ca_to_lower u c)"

definition char_upper :: "casing \<Rightarrow> uchar \<Rightarrow> chars" where
  "char_upper u c = (if c < 128 then [if 97 \<le> c \<and> c \<le> 122 then c - 32 else c] else ca_to_upper u c)"

definition to_lowercase :: "casing \<Rightarrow> chars \<Rightarrow> chars" where
  "to_lowercase u s = (if 0x3A3 \<in> set s then ca_sigma u s else concat (map (char_lower u) s))"

definition to_uppercase :: "casing \<Rightarrow> chars \<Rightarrow> chars" where
  "to_uppercase u s = concat (map (char_upper u) s)"

text \<open>The loop of \<open>to_snake_case\<close> with the character before: 95 is the underscore.\<close>

fun snake_loop :: "casing \<Rightarrow> uchar option \<Rightarrow> chars \<Rightarrow> chars" where
  "snake_loop u prev [] = []"
| "snake_loop u prev (c # cs) =
     (if is_uppercase u c
      then (case prev of
              None \<Rightarrow> []
            | Some p \<Rightarrow>
                if is_lowercase u p \<or> is_uppercase u p \<and> (case cs of d # _ \<Rightarrow> is_lowercase u d | [] \<Rightarrow> False)
                then [95] else [])
           @ char_lower u c
      else [c])
     @ snake_loop u (Some c) cs"

definition to_snake_case :: "casing \<Rightarrow> chars \<Rightarrow> chars" where
  "to_snake_case u s = snake_loop u None s"

fun camel_loop :: "casing \<Rightarrow> bool \<Rightarrow> bool \<Rightarrow> chars \<Rightarrow> chars" where
  "camel_loop u first capitalize [] = []"
| "camel_loop u first capitalize (c # cs) =
     (if c = 95 then camel_loop u False True cs
      else if capitalize then char_upper u c @ camel_loop u False False cs
      else if first then char_lower u c @ camel_loop u False False cs
      else c # camel_loop u False False cs)"

definition apply_rename_rule :: "casing \<Rightarrow> chars \<Rightarrow> rstring \<Rightarrow> chars" where
  "apply_rename_rule u name rule =
     (if rule = lit ''snake_case'' then to_snake_case u name
      else if rule = lit ''lowercase'' then to_lowercase u name
      else if rule = lit ''UPPERCASE'' then to_uppercase u name
      else if rule = lit ''SCREAMING_SNAKE_CASE'' then to_uppercase u (to_snake_case u name)
      else if rule = lit ''camelCase'' then camel_loop u True False (to_snake_case u name)
      else if rule = lit ''PascalCase'' then name
      else if rule = lit ''kebab-case'' then map (\<lambda>c. if c = 95 then 45 else c) (to_snake_case u name)
      else to_snake_case u name)"

definition get_variant_label :: "casing \<Rightarrow> rstring \<Rightarrow> variant \<Rightarrow> (derive_error, rstring) res" where
  "get_variant_label u rename_all v =
     and_then (first_str (lit ''rename'') (v_attrs v))
       (\<lambda>label. Ok (case label of
          Some label \<Rightarrow> label
        | None \<Rightarrow> chars_str (apply_rename_rule u (str_chars (v_ident v)) rename_all)))"

section \<open>Enums\<close>

text \<open>The generated impls of a type with values \<open>'v\<close>.\<close>

record 'v impls =
  im_type_oid :: type_oid
  im_encode :: "'v encoder"
  im_decode :: "'v decoder"
  im_decode_text :: "rstring \<Rightarrow> 'v typed"
  im_oid :: u32
  im_array_oid :: u32

text \<open>The arms: the name of each variant with its label or discriminant. \<open>match\<close> takes the first arm that
  fits; that of \<open>encode\<close> has one for every variant.\<close>

definition label_of :: "(rstring \<times> 'k) list \<Rightarrow> rstring \<Rightarrow> 'k \<Rightarrow> 'k" where
  "label_of arms v other = (case map_of arms v of Some k \<Rightarrow> k | None \<Rightarrow> other)"

definition variant_for :: "(rstring \<times> 'k) list \<Rightarrow> 'k \<Rightarrow> decode_reason \<Rightarrow> rstring typed" where
  "variant_for arms k unknown =
     (case find (\<lambda>arm. snd arm = k) arms of Some arm \<Rightarrow> Ok (fst arm) | None \<Rightarrow> Err (Decode 0 unknown))"

definition derive_string_enum :: "casing \<Rightarrow> derive_input \<Rightarrow> variant list \<Rightarrow> (derive_error, rstring impls) res" where
  "derive_string_enum u input variants =
     and_then (get_container_rename_all (di_attrs input)) (\<lambda>rename_all.
     and_then (get_custom_oids (di_attrs input)) (\<lambda>(oid, array_oid).
     and_then (traverse (\<lambda>v. and_then (get_variant_label u rename_all v) (\<lambda>label. Ok (v_ident v, label))) variants) (\<lambda>arms.
       let decode_text = (\<lambda>s. variant_for arms s (BadText (di_ident input) s))
       in Ok \<lparr>im_type_oid = OidUnspecified,
              im_encode = (\<lambda>v buf. buf @ label_of arms v []),
              im_decode = (\<lambda>buf. case from_utf8 buf of None \<Rightarrow> Err (Decode 0 InvalidUtf8) | Some s \<Rightarrow> decode_text s),
              im_decode_text = decode_text,
              im_oid = oid, im_array_oid = array_oid\<rparr>)))"

fun repr_oids :: "repr \<Rightarrow> u32 \<times> u32 \<times> nat" where
  "repr_oids ReprI16 = (21, 1005, 2)"
| "repr_oids ReprI32 = (23, 1007, 4)"
| "repr_oids ReprI64 = (20, 1016, 8)"

text \<open>The integer type of the enum: its identifier, \<open>as\<close>, the codec and the parser.\<close>

fun repr_type_oid :: "repr \<Rightarrow> type_oid" where
  "repr_type_oid ReprI16 = OidInt2"
| "repr_type_oid ReprI32 = OidInt4"
| "repr_type_oid ReprI64 = OidInt8"

fun as_repr :: "repr \<Rightarrow> int \<Rightarrow> int" where
  "as_repr ReprI16 d = sint (word_of_int d :: i16)"
| "as_repr ReprI32 d = sint (word_of_int d :: i32)"
| "as_repr ReprI64 d = sint (word_of_int d :: i64)"

fun encode_repr :: "repr \<Rightarrow> int encoder" where
  "encode_repr ReprI16 n buf = encode_i16 (word_of_int n) buf"
| "encode_repr ReprI32 n buf = encode_i32 (word_of_int n) buf"
| "encode_repr ReprI64 n buf = encode_i64 (word_of_int n) buf"

fun decode_repr :: "repr \<Rightarrow> int decoder" where
  "decode_repr ReprI16 buf = and_then (decode_i16 buf) (\<lambda>w. Ok (sint w))"
| "decode_repr ReprI32 buf = and_then (decode_i32 buf) (\<lambda>w. Ok (sint w))"
| "decode_repr ReprI64 buf = and_then (decode_i64 buf) (\<lambda>w. Ok (sint w))"

definition repr_bits :: "repr \<Rightarrow> nat" where "repr_bits r = 8 * snd (snd (repr_oids r))"

definition derive_int_enum :: "derive_input \<Rightarrow> variant list \<Rightarrow> repr \<Rightarrow> (derive_error, rstring impls) res" where
  "derive_int_enum input variants r =
     (case repr_oids r of (default_oid, default_array_oid, byte_len) \<Rightarrow>
      and_then (get_custom_oids (di_attrs input)) (\<lambda>(custom_oid, custom_array_oid).
      and_then (traverse (\<lambda>v. case v_discriminant v of
          None \<Rightarrow> Err (NoDiscriminant (v_ident v))
        | Some d \<Rightarrow> Ok (v_ident v, as_repr r d)) variants) (\<lambda>arms.
        Ok \<lparr>im_type_oid = repr_type_oid r,
            im_encode = (\<lambda>v buf. encode_repr r (label_of arms v 0) buf),
            im_decode = (\<lambda>buf.
              if length buf < byte_len then Err (Decode 0 (WrongLength (di_ident input) byte_len (length buf)))
              else and_then (decode_repr r buf) (\<lambda>n. variant_for arms n (BadValue (di_ident input)))),
            im_decode_text = (\<lambda>s.
              case parse_signed (repr_bits r) s of
                None \<Rightarrow> Err (Decode 0 (BadText (di_ident input) s))
              | Some n \<Rightarrow> variant_for arms n (BadValue (di_ident input))),
            im_oid = (if custom_oid \<noteq> 0 then custom_oid else default_oid),
            im_array_oid = (if custom_array_oid \<noteq> 0 then custom_array_oid else default_array_oid)\<rparr>)))"

definition derive_pg_enum :: "casing \<Rightarrow> derive_input \<Rightarrow> (derive_error, rstring impls) res" where
  "derive_pg_enum u input =
     (case di_data input of
        EnumItem variants \<Rightarrow>
          (case find (\<lambda>v. v_fields v \<noteq> 0) variants of
             Some v \<Rightarrow> Err (VariantHasFields (v_ident v))
           | None \<Rightarrow>
               and_then (get_repr_int (di_attrs input)) (\<lambda>repr.
                 case repr of
                   Some r \<Rightarrow> derive_int_enum input variants r
                 | None \<Rightarrow> derive_string_enum u input variants))
      | _ \<Rightarrow> Err NotAnEnum)"

section \<open>Composites and domains\<close>

text \<open>The value of a field: of an \<open>Option\<close> as the macro sees it, or of another type.\<close>

datatype 'v member = Plain 'v | Optional "'v option"

text \<open>One field of \<open>encode\<close>. The last case has no Rust program: the types of value and field agree.\<close>

fun encode_member :: "(rust_type \<Rightarrow> 'v impls) \<Rightarrow> rust_type \<times> 'v member \<Rightarrow> bytes \<Rightarrow> bytes" where
  "encode_member traits (ty, m) buf =
     (case (extract_option_inner ty, m) of
        (Some inner, Optional (Some v)) \<Rightarrow> encode_param (im_encode (traits inner)) v (buf @ be32 (im_oid (traits inner)))
      | (Some inner, Optional None) \<Rightarrow> buf @ be32 (im_oid (traits inner)) @ be32 (- 1)
      | (None, Plain v) \<Rightarrow> encode_param (im_encode (traits ty)) v (buf @ be32 (im_oid (traits ty)))
      | _ \<Rightarrow> buf)"

definition encode_composite :: "(rust_type \<Rightarrow> 'v impls) \<Rightarrow> rust_type list \<Rightarrow> 'v member list encoder" where
  "encode_composite traits tys ms buf =
     fold (encode_member traits) (zip tys ms) (buf @ be32 (word_of_nat (length tys)))"

text \<open>The fields of \<open>decode\<close>; the OID of a field is read and not looked at. The data of a field is read as
  \<open>length_prefixed\<close> reads it, a negative length included, with the number of the field in its error.\<close>

fun decode_members ::
  "(rust_type \<Rightarrow> 'v impls) \<Rightarrow> nat \<Rightarrow> rust_type list \<Rightarrow> bytes \<Rightarrow> nat \<Rightarrow> 'v member list typed" where
  "decode_members traits i [] buf offset = Ok []"
| "decode_members traits i (ty # tys) buf offset =
     (if offset + 8 > length buf then Err (Decode i (Truncated ''field header''))
      else
        and_then (be32_at buf (offset + 4)) (\<lambda>field_len.
        let data = map_err (\<lambda>_. Decode i (Truncated ''field data'')) (length_prefixed buf (offset + 8) field_len)
        in case extract_option_inner ty of
             Some inner \<Rightarrow>
               if field_len = - 1
               then and_then (decode_members traits (Suc i) tys buf (offset + 8)) (\<lambda>ms. Ok (Optional None # ms))
               else
                 and_then data (\<lambda>(d, offset).
                 and_then (im_decode (traits inner) d) (\<lambda>v.
                 and_then (decode_members traits (Suc i) tys buf offset) (\<lambda>ms. Ok (Optional (Some v) # ms))))
           | None \<Rightarrow>
               if field_len = - 1 then Err (UnexpectedNull i)
               else
                 and_then data (\<lambda>(d, offset).
                 and_then (im_decode (traits ty) d) (\<lambda>v.
                 and_then (decode_members traits (Suc i) tys buf offset) (\<lambda>ms. Ok (Plain v # ms))))))"

definition decode_composite :: "(rust_type \<Rightarrow> 'v impls) \<Rightarrow> rust_type list \<Rightarrow> 'v member list decoder" where
  "decode_composite traits tys buf =
     (if length buf < 4 then Err (Decode 0 (Truncated ''composite header''))
      else decode_members traits 0 tys buf 4)"

definition derive_pg_composite ::
  "(rust_type \<Rightarrow> 'v impls) \<Rightarrow> derive_input \<Rightarrow> (derive_error, 'v member list impls) res" where
  "derive_pg_composite traits input =
     and_then (get_custom_oids (di_attrs input)) (\<lambda>(oid, array_oid).
       case di_data input of
         NamedStruct members \<Rightarrow>
           (let tys = map (\<lambda>(_, _, ty). ty) members
            in Ok \<lparr>im_type_oid = OidUnspecified,
                   im_encode = encode_composite traits tys,
                   im_decode = decode_composite traits tys,
                   im_decode_text = (\<lambda>_. Err (Decode 0 (NotRepresentable (di_ident input)))),
                   im_oid = oid, im_array_oid = array_oid\<rparr>)
       | TupleStruct _ \<Rightarrow> Err NotNamedFields
       | UnitStruct \<Rightarrow> Err NotNamedFields
       | _ \<Rightarrow> Err NotAStruct)"

text \<open>A domain is its one field.\<close>

definition derive_pg_domain :: "(rust_type \<Rightarrow> 'v impls) \<Rightarrow> derive_input \<Rightarrow> (derive_error, 'v impls) res" where
  "derive_pg_domain traits input =
     and_then (get_custom_oids (di_attrs input)) (\<lambda>(oid, array_oid).
       case di_data input of
         TupleStruct [inner] \<Rightarrow>
           Ok \<lparr>im_type_oid = OidUnspecified,
               im_encode = im_encode (traits inner),
               im_decode = im_decode (traits inner),
               im_decode_text = im_decode_text (traits inner),
               im_oid = oid,
               im_array_oid = (if array_oid \<noteq> 0 then array_oid else im_array_oid (traits inner))\<rparr>
       | TupleStruct _ \<Rightarrow> Err NotOneField
       | NamedStruct _ \<Rightarrow> Err NotOneField
       | UnitStruct \<Rightarrow> Err NotOneField
       | _ \<Rightarrow> Err NotAStruct)"

section \<open>The names of variants\<close>

text \<open>A word of a name in Pascal case: a capital and small letters.\<close>

definition capital :: "uchar \<Rightarrow> bool" where "capital c \<longleftrightarrow> 65 \<le> c \<and> c \<le> 90"
definition small :: "uchar \<Rightarrow> bool" where "small c \<longleftrightarrow> 97 \<le> c \<and> c \<le> 122"

fun word :: "chars \<Rightarrow> bool" where
  "word (c # cs) = (capital c \<and> cs \<noteq> [] \<and> list_all small cs)"
| "word [] = False"

definition lower :: "chars \<Rightarrow> chars" where "lower = map (\<lambda>c. if capital c then c + 32 else c)"
definition upper :: "chars \<Rightarrow> chars" where "upper = map (\<lambda>c. if small c then c - 32 else c)"

fun join :: "chars \<Rightarrow> chars list \<Rightarrow> chars" where
  "join sep [] = []"
| "join sep (w # ws) = w @ concat (map (\<lambda>w. sep @ w) ws)"

lemma letter_case [simp]:
  "capital c \<Longrightarrow> is_uppercase u c" "small c \<Longrightarrow> is_lowercase u c" "small c \<Longrightarrow> \<not> is_uppercase u c"
  "capital c \<Longrightarrow> char_lower u c = [c + 32]" "small c \<Longrightarrow> char_lower u c = [c]"
  "small c \<Longrightarrow> char_upper u c = [c - 32]" "capital c \<Longrightarrow> small (c + 32)" "small c \<Longrightarrow> \<not> capital c"
  "capital c \<Longrightarrow> \<not> small c" "capital c \<Longrightarrow> char_upper u c = [c]"
  by (auto simp: capital_def small_def is_uppercase_def is_lowercase_def char_lower_def char_upper_def)

lemma snake_small:
  "list_all small cs \<Longrightarrow> cs \<noteq> [] \<Longrightarrow> snake_loop u p (cs @ rest) = cs @ snake_loop u (Some (last cs)) rest"
  by (induction cs arbitrary: p) (auto split: if_splits)

lemma snake_word:
  "word w \<Longrightarrow> snake_loop u None (w @ rest) = lower w @ snake_loop u (Some (last w)) rest"
  "word w \<Longrightarrow> small p \<Longrightarrow> snake_loop u (Some p) (w @ rest) = 95 # lower w @ snake_loop u (Some (last w)) rest"
proof -
  have l: "map (\<lambda>c. if capital c then c + 32 else c) cs = cs" if "list_all small cs" for cs
    using that by (induction cs) auto
  show "word w \<Longrightarrow> snake_loop u None (w @ rest) = lower w @ snake_loop u (Some (last w)) rest"
    "word w \<Longrightarrow> small p \<Longrightarrow> snake_loop u (Some p) (w @ rest) = 95 # lower w @ snake_loop u (Some (last w)) rest"
    by (cases w rule: word.cases; simp add: lower_def snake_small l)+
qed

lemma word_last: "word w \<Longrightarrow> small (last w)"
  by (cases w rule: word.cases) (auto simp: list_all_iff)

lemma snake_words: "list_all word ws \<Longrightarrow> small p \<Longrightarrow>
    snake_loop u (Some p) (concat ws) = concat (map (\<lambda>w. 95 # lower w) ws)"
  by (induction ws arbitrary: p) (auto simp: snake_word word_last)

lemma snake_case_words: "list_all word ws \<Longrightarrow> to_snake_case u (concat ws) = join [95] (map lower ws)"
  by (cases ws) (auto simp: to_snake_case_def snake_word snake_words word_last comp_def)

lemma lower_word: "word w \<Longrightarrow> list_all small (lower w) \<and> lower w \<noteq> []"
  by (cases w rule: word.cases) (auto simp: lower_def list_all_iff)

lemma small_not_underscore [simp]: "\<not> small 95" by (simp add: small_def)

lemma camel_small: "list_all small cs \<Longrightarrow> camel_loop u False False (cs @ rest) = cs @ camel_loop u False False rest"
  by (induction cs) auto

lemma camel_first: "list_all small cs \<Longrightarrow> cs \<noteq> [] \<Longrightarrow> camel_loop u True False (cs @ rest) = cs @ camel_loop u False False rest"
  by (cases cs) (auto simp: camel_small)

lemma camel_word: "word w \<Longrightarrow> camel_loop u False False (95 # lower w @ rest) = w @ camel_loop u False False rest"
proof (cases w rule: word.cases)
  case (1 c cs)
  moreover assume "word w"
  moreover from calculation have "map (\<lambda>c. if capital c then c + 32 else c) cs = cs" "c + 32 \<noteq> 95"
    by (auto intro!: map_idI simp: list_all_iff) (simp add: capital_def)
  ultimately show ?thesis by (auto simp: lower_def camel_small)
qed simp

lemma camel_words: "list_all word ws \<Longrightarrow> camel_loop u False False (concat (map (\<lambda>w. 95 # lower w) ws)) = concat ws"
  by (induction ws) (use camel_word in auto)

lemma word_letters: "word w \<Longrightarrow> c \<in> set w \<Longrightarrow> capital c \<or> small c"
  by (cases w rule: word.cases) (auto simp: list_all_iff)

lemma concat_single: "\<forall>x \<in> set xs. f x = [g x] \<Longrightarrow> concat (map f xs) = map g xs"
  by (induction xs) auto

lemma recase_word:
  assumes "word w"
  shows "concat (map (char_lower u) w) = lower w" and "concat (map (char_upper u) w) = upper w"
    and "concat (map (char_upper u) (lower w)) = upper w" and "map (\<lambda>c. if c = 95 then 45 else c) (lower w) = lower w"
proof -
  show "concat (map (char_lower u) w) = lower w" "concat (map (char_upper u) w) = upper w"
    unfolding lower_def upper_def by (rule concat_single; use assms word_letters in fastforce)+
  have "concat (map (char_upper u) (lower w)) = map (\<lambda>c. c - 32) (lower w)"
    using lower_word [OF assms] by (intro concat_single) (auto simp: list_all_iff)
  also have "\<dots> = upper w"
    using word_letters [OF assms] by (auto simp: lower_def upper_def)
  finally show "concat (map (char_upper u) (lower w)) = upper w" .
  show "map (\<lambda>c. if c = 95 then 45 else c) (lower w) = lower w"
    using lower_word [OF assms] small_not_underscore by (intro map_idI) (auto simp: list_all_iff)
qed

lemma recase_joined:
  assumes "list_all word ws"
  shows "to_uppercase u (join [95] (map lower ws)) = join [95] (map upper ws)"
    and "map (\<lambda>c. if c = 95 then 45 else c) (join [95] (map lower ws)) = join [45] (map lower ws)"
proof -
  have u95: "char_upper u 95 = [95]" by (simp add: char_upper_def)
  have "to_uppercase u (concat (map (\<lambda>w. 95 # lower w) ws)) = concat (map (\<lambda>w. 95 # upper w) ws)"
    "map (\<lambda>c. if c = 95 then 45 else c) (concat (map (\<lambda>w. 95 # lower w) ws)) = concat (map (\<lambda>w. 45 # lower w) ws)"
    if "list_all word ws" for ws
    using that by (induction ws) (simp_all add: to_uppercase_def recase_word u95)
  with assms show "to_uppercase u (join [95] (map lower ws)) = join [95] (map upper ws)"
    "map (\<lambda>c. if c = 95 then 45 else c) (join [95] (map lower ws)) = join [45] (map lower ws)"
    by (cases ws; simp add: to_uppercase_def recase_word comp_def)+
qed

lemma recase_words:
  assumes "list_all word ws"
  shows "to_lowercase u (concat ws) = concat (map lower ws)" and "to_uppercase u (concat ws) = concat (map upper ws)"
proof -
  have "0x3A3 \<notin> set (concat ws)"
    using assms word_letters by (fastforce simp: list_all_iff capital_def small_def)
  moreover have "concat (map (char_lower u) (concat ws)) = concat (map lower ws)"
    "concat (map (char_upper u) (concat ws)) = concat (map upper ws)"
    using assms by (induction ws) (simp_all add: recase_word)
  ultimately show "to_lowercase u (concat ws) = concat (map lower ws)" "to_uppercase u (concat ws) = concat (map upper ws)"
    by (simp_all add: to_lowercase_def to_uppercase_def)
qed

text \<open>For a variant whose name is a sequence of capitalised words, each rule gives what its name shows: the words
  in small letters joined by underscores or hyphens, the same in capitals, the first word small and the others
  as they are, or the name itself.\<close>

theorem rename_rules_words:
  assumes "list_all word ws" and "ws \<noteq> []"
  shows "apply_rename_rule u (concat ws) (lit ''snake_case'') = join [95] (map lower ws)
    \<and> apply_rename_rule u (concat ws) (lit ''kebab-case'') = join [45] (map lower ws)
    \<and> apply_rename_rule u (concat ws) (lit ''SCREAMING_SNAKE_CASE'') = join [95] (map upper ws)
    \<and> apply_rename_rule u (concat ws) (lit ''camelCase'') = lower (hd ws) @ concat (tl ws)
    \<and> apply_rename_rule u (concat ws) (lit ''PascalCase'') = concat ws
    \<and> apply_rename_rule u (concat ws) (lit ''lowercase'') = concat (map lower ws)
    \<and> apply_rename_rule u (concat ws) (lit ''UPPERCASE'') = concat (map upper ws)"
proof -
  obtain w rest where ws: "ws = w # rest" using assms(2) by (cases ws) auto
  have "camel_loop u True False (to_snake_case u (concat ws)) = lower (hd ws) @ concat (tl ws)"
    unfolding snake_case_words [OF assms(1)]
    using assms(1) lower_word [of w] by (simp add: ws camel_first camel_words comp_def)
  then show ?thesis
    using recase_joined [OF assms(1)] recase_words [OF assms(1)] snake_case_words [OF assms(1)]
    by (simp add: apply_rename_rule_def lit_def)
qed

definition ascii_case :: casing where
  "ascii_case = \<lparr>ca_upper = (\<lambda>_. False), ca_lower = (\<lambda>_. False), ca_to_lower = (\<lambda>c. [c]), ca_to_upper = (\<lambda>c. [c]), ca_sigma = id\<rparr>"

theorem rename_rules_words_witness:
  "apply_rename_rule ascii_case (chr_text ''VeryHappy'') (lit ''kebab-case'') = chr_text ''very-happy''"
proof -
  have "list_all word [chr_text ''Very'', chr_text ''Happy'']" by code_simp
  from rename_rules_words [OF this, of ascii_case]
  have "apply_rename_rule ascii_case (concat [chr_text ''Very'', chr_text ''Happy'']) (lit ''kebab-case'')
      = join [45] (map lower [chr_text ''Very'', chr_text ''Happy''])" by simp
  moreover have "concat [chr_text ''Very'', chr_text ''Happy''] = chr_text ''VeryHappy''"
    "join [45] (map lower [chr_text ''Very'', chr_text ''Happy'']) = chr_text ''very-happy''" by code_simp+
  ultimately show ?thesis by simp
qed

section \<open>Enums read back\<close>

text \<open>What the arms need: for an integer enum the rule of the language, distinct discriminants in the range of the
  type; for a string enum distinct labels, which are UTF-8 as every text of the program.\<close>

definition readable :: "casing \<Rightarrow> derive_input \<Rightarrow> variant list \<Rightarrow> bool" where
  "readable u input variants =
     (distinct (map v_ident variants) \<and>
      (case get_repr_int (di_attrs input) of
         Ok (Some r) \<Rightarrow>
           distinct (map v_discriminant variants) \<and>
           list_all (\<lambda>v. case v_discriminant v of
               None \<Rightarrow> True
             | Some d \<Rightarrow> - (2 ^ (repr_bits r - 1)) \<le> d \<and> d < 2 ^ (repr_bits r - 1)) variants
       | Ok None \<Rightarrow>
           (case get_container_rename_all (di_attrs input) of
              Ok rule \<Rightarrow> distinct (map (get_variant_label u rule) variants)
                \<and> list_all (\<lambda>v. case get_variant_label u rule v of Ok label \<Rightarrow> utf8_valid label | _ \<Rightarrow> True) variants
            | _ \<Rightarrow> False)
       | _ \<Rightarrow> False))"

lemma variant_for_iff:
  "distinct (map snd arms) \<Longrightarrow> variant_for arms k e = Ok v \<longleftrightarrow> (v, k) \<in> set arms"
proof (induction arms)
  case (Cons arm arms)
  then show ?case by (cases arm) (auto simp: variant_for_def image_iff)
qed (simp add: variant_for_def)

lemma label_of_arm: "distinct (map fst arms) \<Longrightarrow> (v, k) \<in> set arms \<Longrightarrow> label_of arms v other = k"
  by (simp add: label_of_def)

text \<open>The arms that \<open>traverse\<close> collects from the variants.\<close>

lemma arms_of:
  assumes arms: "traverse (\<lambda>v. and_then (key v) (\<lambda>k. Ok (v_ident v, k))) variants = Ok arms"
    and "distinct (map v_ident variants)" and "distinct (map key variants)"
  shows "map fst arms = map v_ident variants" and "map (\<lambda>arm. Ok (snd arm)) arms = map key variants"
    and "distinct (map fst arms)" and "distinct (map snd arms)" and "v_ident ` set variants = fst ` set arms"
proof -
  have "list_all2 (\<lambda>v arm. fst arm = v_ident v \<and> key v = Ok (snd arm)) variants arms"
    using arms unfolding traverse_eq_Ok by (rule list_all2_mono) (auto simp: outcome_simps)
  then have len: "length variants = length arms"
    and nth: "i < length arms \<Longrightarrow> fst (arms ! i) = v_ident (variants ! i) \<and> key (variants ! i) = Ok (snd (arms ! i))" for i
    by (auto simp: list_all2_conv_all_nth)
  show fst: "map fst arms = map v_ident variants" and snd: "map (\<lambda>arm. Ok (snd arm)) arms = map key variants"
    by (rule nth_equalityI; simp add: len nth)+
  show "distinct (map fst arms)" using fst assms(2) by simp
  show "v_ident ` set variants = fst ` set arms" using fst by (metis list.set_map)
  have "map Ok (map snd arms) = map key variants" using snd by (simp add: comp_def)
  then show "distinct (map snd arms)" using assms(3) by (metis distinct_map)
qed

lemma repr_bounds: "repr_bits ReprI16 = 16" "repr_bits ReprI32 = 32" "repr_bits ReprI64 = 64"
  by (simp_all add: repr_bits_def)

lemma sint_of_int_bounded:
  "- (2 ^ (LENGTH('a :: len) - 1)) \<le> d \<Longrightarrow> d < 2 ^ (LENGTH('a) - 1) \<Longrightarrow> sint (word_of_int d :: 'a word) = d"
  by (simp add: signed_of_int signed_take_bit_int_eq_self)

lemma sint_eq_bounded:
  "- (2 ^ (LENGTH('a :: len) - 1)) \<le> d \<Longrightarrow> d < 2 ^ (LENGTH('a) - 1) \<Longrightarrow> sint (w :: 'a word) = d \<longleftrightarrow> w = word_of_int d"
  using sint_of_int_bounded by auto

lemma as_repr_in_range: "- (2 ^ (repr_bits r - 1)) \<le> d \<Longrightarrow> d < 2 ^ (repr_bits r - 1) \<Longrightarrow> as_repr r d = d"
  by (cases r) (simp_all add: repr_bounds sint_of_int_bounded)

lemma decode_repr_iff:
  "- (2 ^ (repr_bits r - 1)) \<le> d \<Longrightarrow> d < 2 ^ (repr_bits r - 1) \<Longrightarrow> decode_repr r buf = Ok d \<longleftrightarrow> buf = encode_repr r d []"
  by (cases r) (auto simp: repr_bounds outcome_simps decode_i16_iff decode_i32_iff decode_i64_iff sint_eq_bounded)

lemma length_encode_repr: "length (encode_repr r d []) = snd (snd (repr_oids r))"
  by (cases r) (simp_all add: encode_i16_def encode_i32_def encode_i64_def)

lemma encode_repr_appends: "encode_repr r d buf = buf @ encode_repr r d []"
  by (cases r) (simp_all add: encode_i16_def encode_i32_def encode_i64_def)

lemma int_enum_reads_back:
  assumes derived: "derive_int_enum input variants r = Ok im"
    and names: "distinct (map v_ident variants)" and distinct: "distinct (map v_discriminant variants)"
    and range: "list_all (\<lambda>v. case v_discriminant v of
        None \<Rightarrow> True | Some d \<Rightarrow> - (2 ^ (repr_bits r - 1)) \<le> d \<and> d < 2 ^ (repr_bits r - 1)) variants"
  shows "im_decode im buf = Ok v \<longleftrightarrow> v \<in> v_ident ` set variants \<and> buf = im_encode im v []"
    and "im_encode im w pre = pre @ im_encode im w []"
proof -
  define key :: "variant \<Rightarrow> (derive_error, int) res" where "key = (\<lambda>v. case v_discriminant v of
      None \<Rightarrow> Err (NoDiscriminant (v_ident v)) | Some d \<Rightarrow> Ok (as_repr r d))"
  have "(\<lambda>v. case v_discriminant v of None \<Rightarrow> Err (NoDiscriminant (v_ident v)) | Some d \<Rightarrow> Ok (v_ident v, as_repr r d))
      = (\<lambda>v. and_then (key v) (\<lambda>k. Ok (v_ident v, k)))"
    by (auto simp: key_def split: option.splits)
  moreover obtain o1 o2 n where oids: "repr_oids r = (o1, o2, n)" by (metis prod_cases3)
  ultimately obtain arms where arms: "traverse (\<lambda>v. and_then (key v) (\<lambda>k. Ok (v_ident v, k))) variants = Ok arms"
    and enc: "im_encode im = (\<lambda>v buf. encode_repr r (label_of arms v 0) buf)"
    and dec: "im_decode im = (\<lambda>buf. if length buf < n
        then Err (Decode 0 (WrongLength (di_ident input) n (length buf)))
        else and_then (decode_repr r buf) (\<lambda>n. variant_for arms n (BadValue (di_ident input))))"
    using derived by (auto simp: derive_int_enum_def oids outcome_simps split: prod.splits)
  have key_Ok: "key v = Ok k \<Longrightarrow> v \<in> set variants
      \<Longrightarrow> v_discriminant v = Some k \<and> - (2 ^ (repr_bits r - 1)) \<le> k \<and> k < 2 ^ (repr_bits r - 1)" for v k
    using range as_repr_in_range [of r] by (auto simp: key_def list_all_iff split: option.splits)
  have "inj_on key (set variants)"
  proof (rule inj_onI)
    fix v w assume vw: "v \<in> set variants" "w \<in> set variants" "key v = key w"
    from arms vw(1) obtain k where "key v = Ok k"
      by (fastforce simp: traverse_eq_Ok list_all2_conv_all_nth in_set_conv_nth outcome_simps)
    with vw key_Ok have "v_discriminant v = v_discriminant w" by metis
    with distinct vw show "v = w" by (auto simp: distinct_map dest: inj_onD)
  qed
  then have "distinct (map key variants)" using distinct by (auto simp: distinct_map)
  note arms_of = arms_of [OF arms names this]
  have bounded: "- (2 ^ (repr_bits r - 1)) \<le> k \<and> k < 2 ^ (repr_bits r - 1)" if "(x, k) \<in> set arms" for x k
  proof -
    have "Ok k \<in> (\<lambda>arm. Ok (snd arm)) ` set arms" using that by force
    then obtain w where "w \<in> set variants" "key w = Ok k" using arms_of(2) by (metis imageE list.set_map)
    then show ?thesis using key_Ok by blast
  qed
  show "im_encode im w pre = pre @ im_encode im w []" by (simp add: enc encode_repr_appends [of r _ pre])
  show "im_decode im buf = Ok v \<longleftrightarrow> v \<in> v_ident ` set variants \<and> buf = im_encode im v []"
  proof
    assume "im_decode im buf = Ok v"
    then obtain n where n: "decode_repr r buf = Ok n" "(v, n) \<in> set arms"
      using arms_of(4) by (auto simp: dec outcome_simps variant_for_iff split: if_splits)
    with bounded decode_repr_iff have "buf = encode_repr r n []" by blast
    moreover have "v \<in> v_ident ` set variants" using n(2) arms_of(5) by force
    ultimately show "v \<in> v_ident ` set variants \<and> buf = im_encode im v []"
      using n(2) label_of_arm [OF arms_of(3)] by (simp add: enc)
  next
    assume v: "v \<in> v_ident ` set variants \<and> buf = im_encode im v []"
    then obtain k where k: "(v, k) \<in> set arms" using arms_of(5) by auto
    have "decode_repr r (encode_repr r k []) = Ok k" using bounded [OF k] decode_repr_iff by blast
    then show "im_decode im buf = Ok v"
      using k v label_of_arm [OF arms_of(3) k] arms_of(4)
      by (simp add: dec enc length_encode_repr oids variant_for_iff)
  qed
qed

lemma string_enum_reads_back:
  assumes derived: "derive_string_enum u input variants = Ok im"
    and names: "distinct (map v_ident variants)" and rule: "get_container_rename_all (di_attrs input) = Ok rename"
    and distinct: "distinct (map (get_variant_label u rename) variants)"
    and utf8: "list_all (\<lambda>v. case get_variant_label u rename v of Ok label \<Rightarrow> utf8_valid label | _ \<Rightarrow> True) variants"
  shows "im_decode im buf = Ok v \<longleftrightarrow> v \<in> v_ident ` set variants \<and> buf = im_encode im v []"
    and "im_encode im w pre = pre @ im_encode im w []"
proof -
  from derived rule obtain arms where
    arms: "traverse (\<lambda>v. and_then (get_variant_label u rename v) (\<lambda>label. Ok (v_ident v, label))) variants = Ok arms"
    and enc: "im_encode im = (\<lambda>v buf. buf @ label_of arms v [])"
    and dec: "im_decode im = (\<lambda>buf. case from_utf8 buf of None \<Rightarrow> Err (Decode 0 InvalidUtf8)
        | Some s \<Rightarrow> variant_for arms s (BadText (di_ident input) s))"
    by (auto simp: derive_string_enum_def outcome_simps Let_def split: prod.splits)
  note arms_of = arms_of [OF arms names distinct]
  have valid: "utf8_valid k" if "(x, k) \<in> set arms" for x k
  proof -
    have "Ok k \<in> (\<lambda>arm. Ok (snd arm)) ` set arms" using that by force
    then obtain w where "w \<in> set variants" "get_variant_label u rename w = Ok k"
      using arms_of(2) by (metis imageE list.set_map)
    then show ?thesis using utf8 by (auto simp: list_all_iff split: res.splits)
  qed
  show "im_encode im w pre = pre @ im_encode im w []" by (simp add: enc)
  show "im_decode im buf = Ok v \<longleftrightarrow> v \<in> v_ident ` set variants \<and> buf = im_encode im v []"
  proof
    assume "im_decode im buf = Ok v"
    then have n: "(v, buf) \<in> set arms"
      using arms_of(4) by (auto simp: dec from_utf8_def variant_for_iff split: if_splits)
    moreover have "v \<in> v_ident ` set variants" using n arms_of(5) by force
    ultimately show "v \<in> v_ident ` set variants \<and> buf = im_encode im v []"
      using label_of_arm [OF arms_of(3)] by (simp add: enc)
  next
    assume v: "v \<in> v_ident ` set variants \<and> buf = im_encode im v []"
    then obtain k where k: "(v, k) \<in> set arms" using arms_of(5) by auto
    then show "im_decode im buf = Ok v"
      using v valid [OF k] label_of_arm [OF arms_of(3) k] arms_of(4)
      by (simp add: dec enc from_utf8_def variant_for_iff)
  qed
qed


section \<open>Composites read back\<close>

text \<open>The bytes of a field, where the impl of its type appends.\<close>

definition member_bytes :: "(rust_type \<Rightarrow> 'v impls) \<Rightarrow> rust_type \<Rightarrow> 'v member \<Rightarrow> bytes" where
  "member_bytes traits ty m =
     (case (extract_option_inner ty, m) of
        (Some inner, Optional (Some v)) \<Rightarrow> be32 (im_oid (traits inner)) @ put_cell (im_encode (traits inner) v [])
      | (Some inner, Optional None) \<Rightarrow> be32 (im_oid (traits inner)) @ be32 (- 1)
      | (None, Plain v) \<Rightarrow> be32 (im_oid (traits ty)) @ put_cell (im_encode (traits ty) v [])
      | _ \<Rightarrow> [])"

text \<open>The types whose impls a field uses, the values it takes, and the contract of those impls.\<close>

definition member_type :: "rust_type \<Rightarrow> rust_type" where
  "member_type ty = (case extract_option_inner ty of Some inner \<Rightarrow> inner | None \<Rightarrow> ty)"

fun member_fits :: "(rust_type \<Rightarrow> 'v \<Rightarrow> bool) \<Rightarrow> rust_type \<Rightarrow> 'v member \<Rightarrow> bool" where
  "member_fits good ty (Plain v) = (extract_option_inner ty = None \<and> good ty v)"
| "member_fits good ty (Optional v) =
     (case extract_option_inner ty of
        Some inner \<Rightarrow> (case v of Some v \<Rightarrow> good inner v | None \<Rightarrow> True)
      | None \<Rightarrow> False)"

definition impl_codec :: "'v impls \<Rightarrow> ('v \<Rightarrow> bool) \<Rightarrow> bool" where
  "impl_codec im good = codec (im_encode im) (im_decode im) good"

lemma impl_codecD:
  assumes "impl_codec im good"
  shows "encode_param (im_encode im) v buf = buf @ put_cell (im_encode im v [])"
    and "good v \<Longrightarrow> im_decode im (im_encode im v []) = Ok v" and "good v \<Longrightarrow> length (im_encode im v []) < 2 ^ 31"
  using codec.encode_param_eq [OF assms [unfolded impl_codec_def]] codec.decodes [OF assms [unfolded impl_codec_def]]
    codec.short [OF assms [unfolded impl_codec_def]] by simp_all

lemma encode_member_eq:
  assumes "impl_codec (traits (member_type ty)) g"
  shows "encode_member traits (ty, m) buf = buf @ member_bytes traits ty m"
  using impl_codecD(1) [OF assms]
  by (cases "extract_option_inner ty"; cases m) (auto simp: member_bytes_def member_type_def split: option.splits)

lemma encode_members_eq:
  assumes "\<forall>ty \<in> set tys. impl_codec (traits (member_type ty)) (good (member_type ty))"
  shows "fold (encode_member traits) (zip tys ms) buf = buf @ concat (map2 (member_bytes traits) tys ms)"
  using assms
proof (induction tys arbitrary: ms buf)
  case (Cons ty tys)
  have "encode_member traits (ty, m) buf = buf @ member_bytes traits ty m" for m buf
    by (rule encode_member_eq [where g = "good (member_type ty)"]) (use Cons.prems in simp)
  with Cons show ?case by (cases ms) (simp_all del: encode_member.simps)
qed simp

lemma decode_members_encoded:
  assumes "list_all2 (member_fits good) tys ms"
    and "\<forall>ty \<in> set tys. impl_codec (traits (member_type ty)) (good (member_type ty))"
    and "length (pre @ concat (map2 (member_bytes traits) tys ms)) < usize_limit"
  shows "decode_members traits i tys (pre @ concat (map2 (member_bytes traits) tys ms)) (length pre) = Ok ms"
  using assms
proof (induction arbitrary: pre i rule: list_all2_induct)
  case (Cons ty tys m ms)
  let ?post = "concat (map2 (member_bytes traits) tys ms)"
  let ?buf = "pre @ member_bytes traits ty m @ ?post"
  have rest: "decode_members traits (Suc i) tys ?buf (length pre + length (member_bytes traits ty m)) = Ok ms"
    using Cons.IH [of "pre @ member_bytes traits ty m" "Suc i"] Cons.prems by simp
  have limit: "length ?buf < usize_limit" using Cons.prems by simp
  have codec: "impl_codec (traits (member_type ty)) (good (member_type ty))" using Cons.prems by simp
  have cell: "decode_members traits i (ty # tys) ?buf (length pre) = Ok (m # ms)"
    if m: "member_bytes traits ty m = be32 oid @ put_cell (im_encode (traits (member_type ty)) v [])"
      and v: "good (member_type ty) v"
      and mv: "m = (if extract_option_inner ty = None then Plain v else Optional (Some v))" for v oid
  proof -
    let ?d = "im_encode (traits (member_type ty)) v []"
    have buf: "?buf = (pre @ be32 oid) @ put_cell ?d @ ?post" using m by simp
    have short: "length ?d < 2 ^ 31" using impl_codecD(3) [OF codec v] .
    have "length ((pre @ be32 oid) @ put_cell ?d @ ?post) < usize_limit" using limit buf by metis
    from read_put_cell [OF short this]
    have len: "be32_at ?buf (length pre + 4) = (Ok (word_of_nat (length ?d)) :: i32 typed)"
      and data: "length_prefixed ?buf (length pre + 8) (word_of_nat (length ?d)) = Ok (?d, length pre + 8 + length ?d)"
      unfolding buf by (simp_all add: add.assoc)
    have eq: "length pre + 8 + length ?d = length pre + length (member_bytes traits ty m)" using m by simp
    have "decode_members traits (Suc i) tys ?buf (length pre + 8 + length ?d) = Ok ms" by (simp only: eq rest)
    moreover have "length pre + 8 \<le> length ?buf" using m by simp
    ultimately have "decode_members traits i (ty # tys) ?buf (length pre)
        = Ok ((if extract_option_inner ty = None then Plain v else Optional (Some v)) # ms)"
      using len data impl_codecD(2) [OF codec v] length_not_null [OF short]
      by (cases "extract_option_inner ty") (simp_all add: member_type_def)
    then show ?thesis using mv by simp
  qed
  show ?case
  proof (cases m)
    case (Plain v)
    with Cons.hyps(1) have "extract_option_inner ty = None" "good ty v" by auto
    with Plain cell [of "im_oid (traits ty)" v] show ?thesis by (simp add: member_bytes_def member_type_def)
  next
    case (Optional x)
    with Cons.hyps(1) obtain inner where inner: "extract_option_inner ty = Some inner"
      by (auto split: option.splits)
    show ?thesis
    proof (cases x)
      case (Some v)
      with Optional inner Cons.hyps(1) cell [of "im_oid (traits inner)" v] show ?thesis
        by (simp add: member_bytes_def member_type_def)
    next
      case None
      then have m: "member_bytes traits ty m = be32 (im_oid (traits inner)) @ be32 (- 1)"
        using Optional inner by (simp add: member_bytes_def)
      have "be32_at ((pre @ be32 (im_oid (traits inner))) @ be32 (- 1) @ ?post) (length pre + 4) = (Ok (- 1) :: i32 typed)"
        by (rule be32_at_append) simp
      then show ?thesis
        using rest Optional None inner m by (simp add: member_type_def)
    qed
  qed
qed simp

lemma composite_codec:
  assumes "\<forall>ty \<in> set tys. impl_codec (traits (member_type ty)) (good (member_type ty))"
  shows "codec (encode_composite traits tys) (decode_composite traits tys)
    (\<lambda>ms. list_all2 (member_fits good) tys ms \<and> length (encode_composite traits tys ms []) < 2 ^ 31)"
proof
  have eq: "encode_composite traits tys ms buf
      = buf @ be32 (word_of_nat (length tys)) @ concat (map2 (member_bytes traits) tys ms)" for ms buf
    using encode_members_eq [OF assms] by (simp add: encode_composite_def)
  show "encode_composite traits tys v buf = buf @ encode_composite traits tys v []" for v buf
    by (simp add: eq)
  show "decode_composite traits tys (encode_composite traits tys v []) = Ok v"
    if "list_all2 (member_fits good) tys v \<and> length (encode_composite traits tys v []) < 2 ^ 31" for v
    using decode_members_encoded [of good tys v traits "be32 (word_of_nat (length tys))" 0] assms that
    by (simp add: decode_composite_def eq)
qed simp

text \<open>C19: a derived composite whose field types meet the contract of a value type meets it too: whatever it
  encodes, NULLs of optional fields included, decodes to the same fields, alone and as the elements of an array,
  and it is itself a field type of other composites.\<close>

theorem composite_reads_back:
  assumes "derive_pg_composite traits input = Ok im" and "di_data input = NamedStruct fs"
    and "\<forall>(_, _, ty) \<in> set fs. impl_codec (traits (member_type ty)) (good (member_type ty))"
    and "list_all (\<lambda>ms. list_all2 (\<lambda>(_, _, ty) m. member_fits good ty m) fs ms
        \<and> length (im_encode im ms []) < 2 ^ 31) mss"
    and "length mss < 2 ^ 31" and "length (encode_array oid (im_encode im) mss []) < usize_limit"
  shows "list_all (\<lambda>ms. im_decode im (im_encode im ms []) = Ok ms) mss
    \<and> decode_array_elements (im_decode im) (encode_array oid (im_encode im) mss []) = Ok mss
    \<and> impl_codec im (\<lambda>ms. list_all2 (\<lambda>(_, _, ty) m. member_fits good ty m) fs ms \<and> length (im_encode im ms []) < 2 ^ 31)"
proof -
  let ?tys = "map (\<lambda>(_, _, ty). ty) fs"
  have im: "im_encode im = encode_composite traits ?tys" "im_decode im = decode_composite traits ?tys"
    using assms(1,2) by (auto simp: derive_pg_composite_def outcome_simps Let_def split: prod.splits)
  have fits: "list_all2 (\<lambda>(_, _, ty) m. member_fits good ty m) fs ms = list_all2 (member_fits good) ?tys ms" for ms
    by (simp add: list_all2_map1 case_prod_unfold)
  have codec: "codec (im_encode im) (im_decode im)
      (\<lambda>ms. list_all2 (\<lambda>(_, _, ty) m. member_fits good ty m) fs ms \<and> length (im_encode im ms []) < 2 ^ 31)"
    unfolding fits im using assms(3) by (intro composite_codec) auto
  then show ?thesis
    using codec.decodes [OF codec] codec.array_roundtrip [OF codec assms(4-6)] assms(4)
    by (simp add: impl_codec_def list_all_iff)
qed

section \<open>Samples\<close>

definition sample_variant :: "string \<Rightarrow> attrs \<Rightarrow> variant" where
  "sample_variant name attrs = \<lparr>v_ident = lit name, v_attrs = attrs, v_fields = 0, v_discriminant = None\<rparr>"

lemma sample_variant_simps [simp]:
  "v_ident (sample_variant name attrs) = lit name" "v_fields (sample_variant name attrs) = 0"
  by (simp_all add: sample_variant_def)

definition mood :: derive_input where
  "mood = \<lparr>di_ident = ''Mood'', di_attrs = [],
     di_data = EnumItem [sample_variant ''Happy'' [],
       sample_variant ''SoSo'' [(lit ''pg_type'', [(lit ''rename'', StrValue (lit ''so-so''))])]]\<rparr>"


text \<open>Every type a text: a street and an optional note.\<close>

definition texts :: "rust_type \<Rightarrow> rstring impls" where
  "texts ty = \<lparr>im_type_oid = OidText, im_encode = encode_str, im_decode = decode_string, im_decode_text = Ok,
     im_oid = 25, im_array_oid = 1009\<rparr>"

definition address :: derive_input where
  "address = \<lparr>di_ident = ''Address'', di_attrs = [],
     di_data = NamedStruct [([], lit ''street'', PathType (lit ''String'') None),
       ([], lit ''notes'', PathType (lit ''Option'') (Some [TypeArg (PathType (lit ''String'') None)]))]\<rparr>"

theorem composite_reads_back_witness:
  "\<exists>im. derive_pg_composite texts address = Ok im
    \<and> im_decode im (im_encode im [Plain (lit ''Elm''), Optional None] []) = Ok [Plain (lit ''Elm''), Optional None]"
proof -
  let ?fs = "[([], lit ''street'', PathType (lit ''String'') None),
       ([], lit ''notes'', PathType (lit ''Option'') (Some [TypeArg (PathType (lit ''String'') None)]))]"
  let ?ms = "[Plain (lit ''Elm''), Optional None]" and ?good = "\<lambda>ty s. utf8_valid s \<and> length s < 2 ^ 31"
  obtain im where im: "derive_pg_composite texts address = Ok im"
    and enc: "im_encode im = encode_composite texts (map (\<lambda>(_, _, ty). ty) ?fs)"
    by (simp add: derive_pg_composite_def address_def get_custom_oids_def Let_def)
  have impls: "impl_codec (texts ty) (?good ty)" for ty
    using text_codec.codec_axioms by (simp add: impl_codec_def texts_def)
  have bytes: "im_encode im ?ms [] = be32 2 @ (be32 25 @ put_cell (lit ''Elm'')) @ (be32 25 @ be32 (- 1))"
    by (simp add: enc encode_composite_def texts_def text_codec.encode_param_eq) (simp add: encode_str_def)
  have "encode_array 0 (im_encode im) [?ms] [] = encode_array_header [] False 0 1
      @ put_cell (be32 2 @ (be32 25 @ put_cell (lit ''Elm'')) @ (be32 25 @ be32 (- 1)))"
    using codec.encode_param_eq [OF composite_codec, of "map (\<lambda>(_, _, ty). ty) ?fs" texts ?good ?ms "encode_array_header [] False 0 1"] impls bytes
    by (simp add: encode_array_def enc)
  then have "length (encode_array 0 (im_encode im) [?ms] []) < usize_limit"
    by (simp add: encode_array_header_def lit_def)
  moreover have "list_all (\<lambda>ms. list_all2 (\<lambda>(_, _, ty) m. member_fits ?good ty m) ?fs ms
      \<and> length (im_encode im ms []) < 2 ^ 31) [?ms]"
    using bytes by (simp add: lit_def utf8_valid_ascii)
  ultimately have "im_decode im (im_encode im ?ms []) = Ok ?ms"
    using composite_reads_back [OF im, of ?fs ?good "[?ms]" 0] impls by (simp add: address_def)
  with im show ?thesis by blast
qed

section \<open>What goes wrong\<close>

text \<open>Two variants can get one label; the second then reads back as the first.\<close>

lemma labels_collide:
  "get_variant_label ascii_case (lit ''snake_case'') (sample_variant ''HTTPServer'' [])
     = get_variant_label ascii_case (lit ''snake_case'') (sample_variant ''HttpServer'' [])"
  by code_simp

lemma collision_misread: "variant_for ((v, label) # arms) label e = Ok v"
  by (simp add: variant_for_def)

text \<open>A rule that is misspelt or unknown is taken as \<open>snake_case\<close>.\<close>

lemma unknown_rule_accepted: "apply_rename_rule u name (lit ''SCREAMING-KEBAB-CASE'') = apply_rename_rule u name (lit ''snake_case'')"
  by (simp add: apply_rename_rule_def lit_def)

text \<open>A derived enum in a composite is announced with OID 0, which no column of a record has.\<close>

lemma enum_member_oid_zero:
  assumes "derive_pg_enum u input = Ok im" and "get_repr_int (di_attrs input) = Ok None" and "get_custom_oids (di_attrs input) = Ok (0, 0)"
  shows "im_oid im = 0"
  using assms by (auto simp: derive_pg_enum_def derive_string_enum_def outcome_simps Let_def split: item_data.splits option.splits)

text \<open>A negative length other than -1 panics, as in an array.\<close>

lemma composite_negative_length_panics:
  assumes "extract_option_inner ty = None"
  shows "decode_composite traits [ty] (be32 1 @ be32 25 @ be32 (- 2)) = Panic"
proof -
  have "be32_at ((be32 1 @ be32 25) @ be32 (- 2) @ []) 8 = (Ok (- 2) :: i32 typed)" by (rule be32_at_append) simp
  moreover have "usize_of_i32 (- 2) = usize_limit - 2" by (simp add: usize_of_i32_def)
  ultimately show ?thesis using assms by (simp add: decode_composite_def length_prefixed_def)
qed

end
