(* ===== verification/Tls.thy ===== *)
theory Tls
  imports Connection Async_Pool Node_Columnar
begin

text \<open>
  Opening a connection: the negotiation of \<open>pg-wired/src/tls.rs\<close>, \<open>connect_inner\<close> of
  \<open>pg-wired/src/connection.rs\<close> with and without the \<open>tls\<close> feature, and \<open>cancel\<close> of \<open>pg-wired/src/cancel.rs\<close>.
  Sockets and \<open>rustls\<close> are parameters: what a dialled socket delivers, which writes fail, what the handshake
  gives. The theorem: with \<open>Require\<close> nothing but the request for TLS ever leaves the socket in the clear.
\<close>

section \<open>Negotiation\<close>

text \<open>An open socket: what its reads deliver and which of its writes fail.\<close>

record tcp =
  tc_events :: "read_event list"
  tc_faults :: "bool list"

text \<open>\<open>rustls\<close> and \<open>TlsConfig\<close>: the checks of the configuration in the order of the code, each with what it
  fails on, and the handshake, which consumes what the server sends in the clear and gives the events of the
  encrypted stream with the certificate of the server.\<close>

record tls_library =
  tl_roots_ok :: bool
  tl_versions_ok :: bool
  tl_key_ok :: bool
  tl_client_auth_ok :: bool
  tl_name_ok :: "rstring \<Rightarrow> bool"
  tl_handshake :: "rstring \<Rightarrow> tcp \<Rightarrow> (bytes option \<times> tcp) awaited"

record tls_config =
  tg_root_certs :: "bytes list"
  tg_client_cert :: "(bytes list \<times> bytes) option"

definition tls_client ::
  "tls_library \<Rightarrow> tls_config \<Rightarrow> rstring \<Rightarrow> (wire_error, unit) res" where
  "tls_client lib cfg hostname =
     (if tg_root_certs cfg \<noteq> [] \<and> \<not> tl_roots_ok lib then Err (Protocol (TlsSetup ''root certificate''))
      else if \<not> tl_versions_ok lib then Err (Protocol (TlsSetup ''protocol versions''))
      else if tg_client_cert cfg \<noteq> None \<and> \<not> tl_key_ok lib then Err (Protocol (TlsSetup ''client private key''))
      else if tg_client_cert cfg \<noteq> None \<and> \<not> tl_client_auth_ok lib then Err (Protocol (TlsSetup ''client auth''))
      else if \<not> tl_name_ok lib hostname then Err (Protocol (TlsSetup ''hostname''))
      else Ok ())"

definition ssl_request :: bytes where "ssl_request = be32 8 @ be32 80877103"

text \<open>Steps that may wait or fail, with what each sends in the clear.\<close>

fun spoken_then :: "'a awaited \<times> bytes \<Rightarrow> ('a \<Rightarrow> 'b awaited \<times> bytes) \<Rightarrow> 'b awaited \<times> bytes" where
  "spoken_then (Some (Ok a), out) f = (case f a of (r, more_out) \<Rightarrow> (r, out @ more_out))"
| "spoken_then (Some (Err e), out) f = (Some (Err e), out)"
| "spoken_then (Some Panic, out) f = (Some Panic, out)"
| "spoken_then (None, out) f = (None, out)"

text \<open>\<open>write_all\<close> and \<open>read_exact\<close> of one byte.\<close>

definition tcp_write :: "bytes \<Rightarrow> tcp \<Rightarrow> tcp awaited \<times> bytes" where
  "tcp_write buf s =
     (case tc_faults s of
        True # fs \<Rightarrow> (Some (Err (Io OtherIo)), [])
      | False # fs \<Rightarrow> (Some (Ok (s\<lparr>tc_faults := fs\<rparr>)), buf)
      | [] \<Rightarrow> (Some (Ok s), buf))"

fun read_byte :: "read_event list \<Rightarrow> (u8 \<times> read_event list) awaited" where
  "read_byte [] = None"
| "read_byte (ReadError k # evs) = Some (Err (Io k))"
| "read_byte (Read [] # evs) = Some (Err (Io UnexpectedEof))"
| "read_byte (Read (b # bs) # evs) = Some (Ok (b, if bs = [] then evs else Read bs # evs))"

definition after_answer ::
  "tls_library \<Rightarrow> tls_config \<Rightarrow> tls_mode \<Rightarrow> rstring \<Rightarrow> u8 \<Rightarrow> tcp \<Rightarrow> (tls_stream \<times> tcp) awaited \<times> bytes" where
  "after_answer lib cfg mode hostname b s =
     (if b = 0x53 then
        spoken_then (Some (tls_client lib cfg hostname), []) (\<lambda>_.
        spoken_then (tl_handshake lib hostname s, []) (\<lambda>(cert, s). (Some (Ok (TlsStream cert, s)), [])))
      else if b = 0x4E then
        (if mode = TlsRequire then (Some (Err (Protocol TlsRefused)), [])
         else (Some (Ok (tls_stream.Plain, s)), []))
      else (Some (Err (Protocol (SslResponse b))), []))"

definition negotiate_tls_with_config ::
  "tls_library \<Rightarrow> tls_config \<Rightarrow> tls_mode \<Rightarrow> rstring \<Rightarrow> tcp \<Rightarrow> (tls_stream \<times> tcp) awaited \<times> bytes" where
  "negotiate_tls_with_config lib cfg mode hostname s =
     (if mode = TlsDisable then (Some (Ok (tls_stream.Plain, s)), [])
      else
        spoken_then (tcp_write ssl_request s) (\<lambda>s.
        spoken_then (read_byte (tc_events s), []) (\<lambda>(b, evs).
        after_answer lib cfg mode hostname b (s\<lparr>tc_events := evs\<rparr>))))"

section \<open>Connecting\<close>

text \<open>The sockets that an address gives. \<open>set_nodelay\<close> is part of the dial; the keepalive's result is ignored.
  The connection, when the startup began, and what went out before it.\<close>

type_synonym dialler = "rstring \<Rightarrow> tcp awaited"

definition connect_inner ::
  "startup_deps \<Rightarrow> (tls_library \<times> tls_config) option \<Rightarrow> tls_mode \<Rightarrow> dialler \<Rightarrow> rstring \<Rightarrow> rstring \<Rightarrow> rstring \<Rightarrow> rstring
     \<Rightarrow> (rstring \<times> rstring) list \<Rightarrow> (unit awaited \<times> wire_conn) awaited \<times> bytes" where
  "connect_inner dp tls mode dial addr user password database startup_params =
     spoken_then (dial addr, []) (\<lambda>s.
     spoken_then
       (case tls of
          Some (lib, cfg) \<Rightarrow> negotiate_tls_with_config lib cfg mode (parse_hostname addr) s
        | None \<Rightarrow> (Some (if mode = TlsRequire then Err (Protocol TlsNotBuilt) else Ok (tls_stream.Plain, s)), []))
       (\<lambda>(stream, s).
          (Some (Ok (finish_startup dp (tc_events s) (tc_faults s) stream user password database startup_params)), [])))"

text \<open>The default of \<open>TlsMode\<close>, for the constructors that take none.\<close>

definition wire_connect where
  "wire_connect dp tls dial addr user password database =
     connect_inner dp tls TlsPrefer dial addr user password database []"

text \<open>All that has gone out in the clear.\<close>

definition in_the_clear :: "(unit awaited \<times> wire_conn) awaited \<times> bytes \<Rightarrow> bytes" where
  "in_the_clear x =
     snd x @ (case fst x of
        Some (Ok (_, c)) \<Rightarrow> if wc_tls c = tls_stream.Plain then wc_sent c else []
      | _ \<Rightarrow> [])"

definition tcp_shutdown :: "tcp \<Rightarrow> unit awaited \<times> bytes" where
  "tcp_shutdown s = (Some (case tc_faults s of True # _ \<Rightarrow> Err (Io OtherIo) | _ \<Rightarrow> Ok ()), [])"

section \<open>Cancelling\<close>

text \<open>\<open>cancel\<close>, under a timer, with what it sent. \<open>None\<close> is a dial that has not ended when the
  timer fires, and a write or shutdown that fails is a fault.\<close>

definition cancel :: "dialler \<Rightarrow> cancel_token \<Rightarrow> (wire_error, unit) res \<times> bytes" where
  "cancel dial t =
     (case spoken_then (dial (ct_addr t), []) (\<lambda>s.
           spoken_then (tcp_write (cancel_request t) s) (\<lambda>s. tcp_shutdown s)) of
        (None, out) \<Rightarrow> (Err (Protocol CancelTimedOut), out)
      | (Some r, out) \<Rightarrow> (r, out))"

section \<open>What goes out in the clear\<close>

lemma spoken_out: "(\<And>a. snd (f a) = []) \<Longrightarrow> snd (spoken_then p f) = snd p"
  by (cases "(p, f)" rule: spoken_then.cases) (auto split: prod.splits dest: arg_cong [where f = snd])

lemma spoken_Ok: "spoken_then p f = (Some (Ok b), out) \<Longrightarrow> \<exists>a o1 o2. p = (Some (Ok a), o1) \<and> f a = (Some (Ok b), o2)"
  by (cases "(p, f)" rule: spoken_then.cases) (auto split: prod.splits)

lemma after_answer_out: "snd (after_answer lib cfg mode hostname b s) = []"
  by (simp add: after_answer_def spoken_out case_prod_unfold)

lemma negotiate_out: "snd (negotiate_tls_with_config lib cfg mode hostname s) \<in> {[], ssl_request}"
  "snd (negotiate_tls_with_config lib cfg TlsDisable hostname s) = []"
proof -
  have "snd (tcp_write ssl_request s) \<in> {[], ssl_request}"
    by (simp add: tcp_write_def split: list.splits bool.splits)
  then show "snd (negotiate_tls_with_config lib cfg mode hostname s) \<in> {[], ssl_request}"
    by (simp add: negotiate_tls_with_config_def spoken_out after_answer_out case_prod_unfold)
  show "snd (negotiate_tls_with_config lib cfg TlsDisable hostname s) = []"
    by (simp add: negotiate_tls_with_config_def)
qed

lemma negotiated_plain:
  assumes "negotiate_tls_with_config lib cfg mode hostname s = (Some (Ok (tls_stream.Plain, s')), out)" and "mode \<noteq> TlsDisable"
  shows "mode \<noteq> TlsRequire \<and> (\<exists>evs. read_byte (tc_events s) = Some (Ok (0x4E, evs)))"
proof -
  from assms obtain s1 o1 b evs o2 where w: "tcp_write ssl_request s = (Some (Ok s1), o1)"
    and r: "read_byte (tc_events s1) = Some (Ok (b, evs))"
    and a: "after_answer lib cfg mode hostname b (s1\<lparr>tc_events := evs\<rparr>) = (Some (Ok (tls_stream.Plain, s')), o2)"
    by (auto simp: negotiate_tls_with_config_def dest!: spoken_Ok)
  have "tc_events s1 = tc_events s" using w by (auto simp: tcp_write_def split: list.splits bool.splits)
  moreover have "b = 0x4E \<and> mode \<noteq> TlsRequire"
    using a by (auto simp: after_answer_def split: if_splits dest!: spoken_Ok)
  ultimately show ?thesis using r by auto
qed

text \<open>No step of the startup changes the kind of the stream.\<close>

lemma aw_then_tls:
  assumes "wc_tls (snd p) = t" and "\<And>a c. wc_tls c = t \<Longrightarrow> wc_tls (snd (f a c)) = t"
  shows "wc_tls (snd (aw_then p f)) = t"
  using assms by (cases "(p, f)" rule: aw_then.cases) auto

lemma send_raw_tls: "wc_tls (snd (send_raw buf c)) = wc_tls c"
  by (simp add: send_raw_def split: list.splits bool.splits)

lemma conn_loop_tls: "wc_tls (snd (conn_loop step st c)) = wc_tls c"
  by (simp add: conn_loop_def split: prod.splits)

lemma auth_sasl_tls: "wc_tls (snd (auth_sasl dp password mechanisms c)) = wc_tls c"
  unfolding auth_sasl_def Let_def case_prod_unfold
  apply (rule aw_then_tls, simp)
  apply (rule aw_then_tls, simp add: send_raw_tls)
  apply (rule aw_then_tls, simp add: conn_loop_tls)
  apply (split sum.split, intro conjI allI impI, simp)
  apply (rule aw_then_tls, simp)
  apply (rule aw_then_tls, simp add: send_raw_tls)
  apply (rule aw_then_tls, simp add: conn_loop_tls)
  apply (simp split: sum.split)
  done

lemma auth_step_tls: "wc_tls (snd (auth_step dp user password m c)) = wc_tls c"
  unfolding auth_step_def
  by (cases m) (simp_all add: auth_sasl_tls aw_then_tls send_raw_tls)

lemma auth_loop_tls: "wc_tls (snd (auth_loop dp user password c)) = wc_tls c"
proof (induction dp user password c rule: auth_loop.induct)
  case (1 dp user password c)
  obtain r rh where recv: "recv_msg (wc_rh c) = (r, rh)" by force
  show ?case
  proof (cases "\<exists>m. r = Some (Ok m)")
    case False
    then show ?thesis by (subst auth_loop.simps) (auto simp: recv split: option.splits res.splits)
  next
    case True
    then obtain m where m: "r = Some (Ok m)" ..
    obtain a c' where step: "auth_step dp user password m (c\<lparr>wc_rh := rh\<rparr>) = (a, c')" by force
    with auth_step_tls [of dp user password m "c\<lparr>wc_rh := rh\<rparr>"] have same: "wc_tls c' = wc_tls c" by simp
    show ?thesis
    proof (cases "a = Some (Ok False)")
      case True
      with "1.IH" [OF recv [symmetric] m refl step [symmetric]] have "wc_tls (snd (auth_loop dp user password c')) = wc_tls c'"
        by blast
      with same True show ?thesis by (subst auth_loop.simps) (simp add: recv m step)
    next
      case False
      with same show ?thesis
        by (subst auth_loop.simps) (auto simp: recv m step split: option.splits res.splits bool.splits)
    qed
  qed
qed

lemma finish_startup_tls: "wc_tls (snd (finish_startup dp events faults tls user password database params)) = tls"
  unfolding finish_startup_def Let_def by (rule aw_then_tls) (simp_all add: send_raw_tls auth_loop_tls)

lemma connect_out:
  "snd (connect_inner dp tls mode dial addr user password database params) =
     (case dial addr of
        Some (Ok s) \<Rightarrow> (case tls of Some (lib, cfg) \<Rightarrow> snd (negotiate_tls_with_config lib cfg mode (parse_hostname addr) s) | None \<Rightarrow> [])
      | _ \<Rightarrow> [])"
  by (auto simp: connect_inner_def spoken_out case_prod_unfold split: option.splits res.splits)

lemma connected:
  assumes "connect_inner dp tls mode dial addr user password database params = (Some (Ok (r, c)), out)"
  shows "\<exists>s s' o2. dial addr = Some (Ok s) \<and> (case tls of
          Some (lib, cfg) \<Rightarrow> negotiate_tls_with_config lib cfg mode (parse_hostname addr) s = (Some (Ok (wc_tls c, s')), o2)
        | None \<Rightarrow> mode \<noteq> TlsRequire)"
proof -
  from assms obtain s stream s' o2 where s: "dial addr = Some (Ok s)"
    and n: "(case tls of Some (lib, cfg) \<Rightarrow> negotiate_tls_with_config lib cfg mode (parse_hostname addr) s
        | None \<Rightarrow> (Some (if mode = TlsRequire then Err (Protocol TlsNotBuilt) else Ok (tls_stream.Plain, s)), []))
      = (Some (Ok (stream, s')), o2)"
    and f: "finish_startup dp (tc_events s') (tc_faults s') stream user password database params = (r, c)"
    unfolding connect_inner_def by (fastforce dest!: spoken_Ok)
  have "stream = wc_tls c" using finish_startup_tls f by (metis snd_conv)
  with s n show ?thesis by (cases tls) (auto split: if_splits)
qed

text \<open>C36: with \<open>Require\<close> no byte beyond the eight of the request for TLS leaves the socket in the clear, whatever the
  server answers and whether or not TLS is built in: the startup message, the user and the password travel
  encrypted or not at all. With \<open>Disable\<close> the request for TLS is not sent, and a connection that comes up on a
  plain stream with \<open>Prefer\<close> has been refused TLS by the server or was built without it.\<close>

theorem tls_mode_kept:
  "in_the_clear (connect_inner dp tls TlsRequire dial addr user password database params) \<in> {[], ssl_request}
    \<and> snd (connect_inner dp tls TlsDisable dial addr user password database params) = []
    \<and> (connect_inner dp tls TlsPrefer dial addr user password database params = (Some (Ok (r, c)), out)
        \<longrightarrow> wc_tls c = tls_stream.Plain
        \<longrightarrow> tls = None \<or> (\<exists>s evs. dial addr = Some (Ok s) \<and> read_byte (tc_events s) = Some (Ok (0x4E, evs))))"
proof (intro conjI impI)
  have out: "snd (connect_inner dp tls mode dial addr user password database params) \<in> {[], ssl_request}"
    "snd (connect_inner dp tls TlsDisable dial addr user password database params) = []" for mode
    using negotiate_out by (auto simp: connect_out split: option.splits res.splits)
  show "snd (connect_inner dp tls TlsDisable dial addr user password database params) = []" by (rule out)
  let ?x = "connect_inner dp tls TlsRequire dial addr user password database params"
  show "in_the_clear ?x \<in> {[], ssl_request}"
  proof (cases "\<exists>r c. fst ?x = Some (Ok (r, c)) \<and> wc_tls c = tls_stream.Plain")
    case True
    then obtain r c where c: "?x = (Some (Ok (r, c)), snd ?x)" "wc_tls c = tls_stream.Plain" by (metis prod.collapse)
    from connected [OF c(1)] c(2) negotiated_plain [of _ _ TlsRequire] have False by (fastforce split: option.splits)
    then show ?thesis ..
  next
    case False
    then have "in_the_clear ?x = snd ?x"
      by (auto simp: in_the_clear_def split: option.splits res.splits prod.splits)
    with out(1) show ?thesis by simp
  qed
  show "tls = None \<or> (\<exists>s evs. dial addr = Some (Ok s) \<and> read_byte (tc_events s) = Some (Ok (0x4E, evs)))"
    if c: "connect_inner dp tls TlsPrefer dial addr user password database params = (Some (Ok (r, c)), out)"
    and "wc_tls c = tls_stream.Plain"
    using connected [OF c] that(2) negotiated_plain by (fastforce split: option.splits)
qed

definition sample_library :: tls_library where
  "sample_library = \<lparr>tl_roots_ok = True, tl_versions_ok = True, tl_key_ok = True, tl_client_auth_ok = True,
     tl_name_ok = (\<lambda>_. True), tl_handshake = (\<lambda>_ s. Some (Ok (None, s)))\<rparr>"

text \<open>A server that refuses TLS.\<close>

definition refusing :: dialler where
  "refusing addr = Some (Ok \<lparr>tc_events = [Read (lit ''N'')], tc_faults = []\<rparr>)"

definition no_roots :: tls_config where "no_roots = \<lparr>tg_root_certs = [], tg_client_cert = None\<rparr>"

theorem tls_mode_kept_witness:
  "\<exists>r c. connect_inner sample_deps (Some (sample_library, no_roots)) TlsPrefer refusing (lit ''db:5432'') (lit ''u'') (lit ''p'') (lit ''d'') []
      = (Some (Ok (r, c)), ssl_request) \<and> wc_tls c = tls_stream.Plain
    \<and> (\<exists>s evs. refusing (lit ''db:5432'') = Some (Ok s) \<and> read_byte (tc_events s) = Some (Ok (0x4E, evs)))"
proof -
  let ?start = "finish_startup sample_deps [] [] tls_stream.Plain (lit ''u'') (lit ''p'') (lit ''d'') []"
  have "connect_inner sample_deps (Some (sample_library, no_roots)) TlsPrefer refusing (lit ''db:5432'') (lit ''u'') (lit ''p'') (lit ''d'') []
      = (Some (Ok (fst ?start, snd ?start)), ssl_request)"
    by (simp add: connect_inner_def refusing_def negotiate_tls_with_config_def tcp_write_def after_answer_def lit_def)
  moreover have "wc_tls (snd ?start) = tls_stream.Plain" by (rule finish_startup_tls)
  ultimately show ?thesis
    using tls_mode_kept [of sample_deps "Some (sample_library, no_roots)" refusing "lit ''db:5432''" "lit ''u''" "lit ''p''" "lit ''d''" "[]"
        "fst ?start" "snd ?start" ssl_request] by blast
qed

text \<open>Without TLS built in, \<open>Prefer\<close> and \<open>Disable\<close> connect in the clear and \<open>Require\<close> dials and then fails.\<close>

lemma require_without_tls:
  "dial addr = Some (Ok s) \<Longrightarrow>
   connect_inner dp None TlsRequire dial addr user password database params = (Some (Err (Protocol TlsNotBuilt)), [])"
  by (simp add: connect_inner_def)

text \<open>A cancel request goes out in the clear, whatever the mode of the connection it belongs to.\<close>

lemma cancel_in_the_clear:
  "dial (ct_addr t) = Some (Ok \<lparr>tc_events = evs, tc_faults = []\<rparr>) \<Longrightarrow> cancel dial t = (Ok (), cancel_request t)"
  by (simp add: cancel_def tcp_write_def tcp_shutdown_def)

end
