(* ===== verification/Test_Db.thy ===== *)
theory Test_Db
  imports Admin
begin

text \<open>
  \<open>resolute/src/test_db.rs\<close>: temporary databases for tests, over the connection of \<open>Migrate\<close>. The clock and
  the environment are arguments. The lemmas: creating and then dropping runs exactly one statement each on the
  same name; the URL for the migrations is not percent-encoded; a failed migration leaves the database behind.
\<close>

record test_db =
  td_addr :: rstring
  td_user :: rstring
  td_password :: rstring
  td_database :: rstring

definition env_or :: "(string \<Rightarrow> rstring option) \<Rightarrow> string \<Rightarrow> string \<Rightarrow> rstring" where
  "env_or env var fallback = (case env var of Some v \<Rightarrow> v | None \<Rightarrow> lit fallback)"

definition test_addr where "test_addr env = env_or env ''RESOLUTE_TEST_ADDR'' ''127.0.0.1:54322''"
definition test_user where "test_user env = env_or env ''RESOLUTE_TEST_USER'' ''postgres''"
definition test_password where "test_password env = env_or env ''RESOLUTE_TEST_PASSWORD'' ''postgres''"
definition test_database where "test_database env = env_or env ''RESOLUTE_TEST_DB'' ''postgrest_test''"

definition test_url :: "rstring \<Rightarrow> rstring \<Rightarrow> rstring \<Rightarrow> rstring \<Rightarrow> rstring" where
  "test_url user password addr database =
     lit ''postgres://'' @ user @ [0x3A] @ password @ [0x40] @ addr @ [0x2F] @ database"

definition test_database_url :: "(string \<Rightarrow> rstring option) \<Rightarrow> rstring" where
  "test_database_url env = test_url (test_user env) (test_password env) (test_addr env) (test_database env)"

definition test_db_create :: "'s pg_link \<Rightarrow> nat \<Rightarrow> rstring \<Rightarrow> rstring \<Rightarrow> rstring \<Rightarrow> 's \<Rightarrow> test_db typed \<times> 's" where
  "test_db_create link nanos addr user password =
     (let database = lit ''resolute_test_'' @ decimal nanos
      in then_run (lk_dial link addr user password (lit ''postgres'')) (\<lambda>_.
         then_run (lk_simple link (create_sql database)) (\<lambda>_ s.
           (Ok \<lparr>td_addr = addr, td_user = user, td_password = password, td_database = database\<rparr>, s))))"

definition create_with_migrations ::
  "files \<Rightarrow> 's pg_link \<Rightarrow> nat \<Rightarrow> rstring \<Rightarrow> rstring \<Rightarrow> rstring \<Rightarrow> rstring \<Rightarrow> 's \<Rightarrow> test_db typed \<times> 's" where
  "create_with_migrations fs link nanos addr user password dir =
     then_run (test_db_create link nanos addr user password) (\<lambda>db.
     then_run (migrate_run fs link (test_url (td_user db) (td_password db) (td_addr db) (td_database db)) dir)
       (\<lambda>_ s. (Ok db, s)))"

definition test_db_client :: "'s pg_link \<Rightarrow> test_db \<Rightarrow> 's \<Rightarrow> unit typed \<times> 's" where
  "test_db_client link db = lk_dial link (td_addr db) (td_user db) (td_password db) (td_database db)"

text \<open>The outcome of the termination is dropped, a panic apart.\<close>

definition drop_db :: "'s pg_link \<Rightarrow> test_db \<Rightarrow> 's \<Rightarrow> unit typed \<times> 's" where
  "drop_db link db =
     then_run (lk_dial link (td_addr db) (td_user db) (td_password db) (lit ''postgres'')) (\<lambda>_ s.
       case lk_simple link (terminate_sql (td_database db)) s of
         (Panic, s) \<Rightarrow> (Panic, s)
       | (_, s) \<Rightarrow> lk_simple link (drop_sql (td_database db)) s)"

text \<open>On a link whose state is the list of statements run, a database that is created and dropped leaves its
  creation, the termination of its sessions and its drop, all with the name it was given.\<close>

definition recording :: "rstring list pg_link" where
  "recording = \<lparr>lk_simple = (\<lambda>sql log. (Ok (), log @ [sql])), lk_rows = (\<lambda>sql log. (Ok [], log @ [sql])),
     lk_dial = (\<lambda>_ _ _ _ log. (Ok (), log))\<rparr>"

lemma create_and_drop:
  "then_run (test_db_create recording nanos addr user password) (drop_db recording) log
     = (Ok (), let d = lit ''resolute_test_'' @ decimal nanos in log @ [create_sql d, terminate_sql d, drop_sql d])"
  by (simp add: test_db_create_def drop_db_def recording_def then_run_def Let_def)

text \<open>The URL is put together from the raw password: with a percent sign it is read back as another one.\<close>

lemma test_url_not_encoded:
  "parse_connection_string (test_url (lit ''u'') (lit ''a%41'') (lit ''db:x'') (lit ''t''))
     = Some (lit ''u'', lit ''aA'', lit ''db'', 5432, lit ''t'')"
  by (simp add: parse_connection_string_def parse_pg_uri_def uri_params_def test_url_def lit_def strip_prefix_def starts_with_def
      split_once_def or_else_def parse_port_def parse_unsigned_def url_decode_def chars_str_def char_bytes_def is_digit_def hex_nibble_def)

text \<open>When the migrations fail there is no handle left to drop the database with, and nothing drops it.\<close>

lemma failed_migration_leaves_database:
  assumes "test_db_create link nanos addr user password s = (Ok db, s1)"
    and "migrate_run fs link (test_url (td_user db) (td_password db) (td_addr db) (td_database db)) dir s1 = (Err e, s2)"
  shows "create_with_migrations fs link nanos addr user password dir s = (Err e, s2)"
  using assms by (simp add: create_with_migrations_def then_run_def)

end
