(* ===== verification/Spec2Isabelle.thy ===== *)
theory Spec2Isabelle
  imports Pool Codec_Numeric Wire_Pipeline Recovery Migrate Queries Listener Admin Pooled Node_Columnar Cli Node_Pipeline
    Derive_Row Tls Test_Db
begin

text \<open>
  A verification development of resolute, a PostgreSQL client in Rust.

  The program. The workspace has a wire-protocol driver (\<open>pg-wired\<close>), a connection pool (\<open>pg-pool\<close>), a typed
  client on top of both (\<open>resolute\<close>), the macros that check queries when a program is compiled
  (\<open>resolute-macros\<close>) and derive codecs (\<open>resolute-derive\<close>), a command line tool (\<open>resolute-cli\<close>) and a Node
  binding (\<open>pg-wired-js\<close>). The bytes of a socket become messages in \<open>pg-wired\<close>; a connection is either
  owned by one task (\<open>WireConn\<close>, \<open>PgPipeline\<close>) or shared by many through a writer and a reader task
  (\<open>AsyncConn\<close>); the pool hands connections out; the typed client turns values into parameters and cells into
  values, keeps prepared statements, and is what transactions, migrations, listeners and the binding are
  written against. The development follows these layers from the bytes up. Each theory models one file or a
  few, in the order of the code, and closes with the properties of what it models.

  How the code is modelled. Everything is a function or a step relation of HOL that computes.
  \<^item> A Rust \<open>Result\<close> that may also panic is \<open>res\<close> of \<open>Prelude\<close>: \<open>Ok\<close>, \<open>Err\<close> or \<open>Panic\<close>. Every index, slice and
    addition of the source that can panic does so in the model. An operation that may have to wait for the
    other side is an optional \<open>res\<close>, \<open>None\<close> while it waits.
  \<^item> Integers with a width are words; \<open>usize\<close> is \<open>nat\<close> with its limit written where it matters. A Rust string is
    its list of bytes, and the list of its scalar values where the code collects \<open>chars()\<close>.
  \<^item> State is passed explicitly: the connection, the pool, the metrics and the world behind them. Where tasks
    interleave (\<open>Async_Conn\<close>, \<open>Pool\<close>, the spawned tasks of \<open>Node_Pipeline\<close>) a step is the code between two
    points where others may run, and theorems quantify over all orders of the steps.
  \<^item> Time, randomness, the environment, the file system and third-party crates (SHA-2 and HMAC, base64, \<open>chrono\<close>,
    \<open>serde_json\<close>, \<open>rustls\<close>, \<open>syn\<close>, the Unicode tables) are arguments; what is relied on is a hypothesis of the
    theorem that needs it, and its witness gives a function that meets it.
  \<^item> The PostgreSQL server is never assumed of the code: it appears as the other side in specifications - an encoder
    of server messages, a reader of client messages, a session with prepared statements, transaction blocks and
    savepoints - and theorems say what the code does against it.

  The theories.
  \<^item> \<open>Prelude\<close>, \<open>Utf8\<close>, \<open>Rust_Std\<close>, \<open>Rust_Str\<close>, \<open>Chars\<close>: outcomes, bytes and the parts of the standard library that
    are used. Shared lemmas, two collections (\<open>outcome_simps\<close>, \<open>bytes_simps\<close>).
  \<^item> \<open>Wire_Types\<close>, \<open>Frontend\<close>, \<open>Backend\<close> (\<open>pg-wired/src/protocol\<close>): messages, encoder, parser. The encoder is read
    back by a reader of the grammar; the parser inverts a server's encoder, never panics, and its rows are well
    formed. \<open>Stream\<close> (\<open>recv_msg\<close>, \<open>read_msg\<close>): reading does not depend on how the bytes are cut; the locale
    \<open>message_loop\<close> is what every loop over messages relies on, interpreted on \<open>recv_msg\<close>.
  \<^item> \<open>Scram\<close>, \<open>Cert_Hash\<close>, \<open>Connection\<close>, \<open>Tls\<close> (\<open>scram.rs\<close>, \<open>cert_hash.rs\<close>, \<open>connection.rs\<close>, \<open>tls.rs\<close>, \<open>cancel.rs\<close>):
    opening a connection, authentication, channel binding, and the replies of a connection with one owner.
    \<open>Wire_Pipeline\<close> (\<open>pipeline.rs\<close>): the pipelined client on it, \<open>Listener\<close> (\<open>listener.rs\<close>): notifications.
  \<^item> \<open>Async_Reply\<close>, \<open>Async_Conn\<close>, \<open>Async_Client\<close>, \<open>Async_Pool\<close> (\<open>async_conn.rs\<close>, \<open>async_pool.rs\<close>,
    \<open>pg-pool/src/async_wire.rs\<close>): collectors of replies, the tasks and their interleavings, the statement
    cache (locale \<open>statement_cache\<close>) and the operations of callers, slots and the monitor. The transport \<open>net\<close> that \<open>Async_Client\<close>
    and everything above it takes as an argument is what \<open>Async_Conn\<close> shows the tasks to provide.
  \<^item> \<open>Pool\<close> (\<open>pg-pool/src/pool.rs\<close>): the pool as labelled steps of any number of tasks; accounting, exclusiveness,
    capacity and fairness are invariants of the reachable states.
  \<^item> \<open>Typed\<close>, \<open>Codec\<close>, \<open>Codec_Text\<close>, \<open>Codec_Numeric\<close>, \<open>Row\<close> (\<open>error.rs\<close>, \<open>oid.rs\<close>, \<open>encode.rs\<close>, \<open>decode.rs\<close>, \<open>range.rs\<close>,
    \<open>newtypes.rs\<close>, \<open>row.rs\<close>): values and cells. The contract of a value type is the locale \<open>codec\<close>; arrays and
    ranges are lifted in it, the scalar codecs interpret it, and derived composites are shown to meet it.
  \<^item> \<open>Metrics\<close>, \<open>Named_Params\<close>, \<open>Client\<close>, \<open>Executor\<close>, \<open>Queries\<close>, \<open>Pooled\<close>, \<open>Recovery\<close>, \<open>Conn_String\<close> (\<open>resolute/src\<close>): the
    typed client, the executor trait with \<open>atomic\<close> and savepoints over a transactional server (locale
    \<open>sql_session\<close>, interpreted on the client and on the pooled client), builders and checked queries, the clients
    of the pools, retries and reconnection, connection strings.
  \<^item> \<open>Civil_Date\<close>, \<open>Migrate\<close>, \<open>Admin\<close>, \<open>Test_Db\<close>: migrations as a refinement of an all-or-nothing reference, the dates
    of their files, creating and dropping databases.
  \<^item> \<open>Macros\<close>, \<open>Cli\<close>, \<open>Derive_Codec\<close>, \<open>Derive_Row\<close>: what the macros expand to, as functions from a parsed input to the
    behaviour of the generated code; the cache of query descriptions and the tool that fills it.
  \<^item> \<open>Node_Columnar\<close>, \<open>Node_Pipeline\<close> (\<open>pg-wired-js/src/lib.rs\<close>): the conversions, connections and pipelines of the binding.

  Bounds. Loops are structural or have a measure. Two kinds may not end: the reconnection of a listener and what
  waits for it are partial functions, and their theorem is that they do end once an attempt succeeds; the retry
  loop ends by its counter. Nothing uses fuel; a schedule of spawned tasks is a finite list and the theorem asks
  that each task occurs often enough in it. Hypotheses on sizes (\<open>2 ^ 31\<close> for a cell, \<open>usize_limit\<close>
  for a buffer) are those of the length fields and the address space.

  Where the code falls short of its documentation or of what it means to do, a lemma after the properties, in a
  section named for it, evaluates the case: for example a pipeline whose refused statement stays cached, an offline
  cache that loses which columns may be NULL, a \<open>default\<close> field that hides a NULL inside a composite, a negative
  length that panics.

  Not modelled. Sockets below a read or a write of bytes, TLS itself, timers (their expiry is an action or an
  argument) and \<open>query_timeout\<close>, whose dropped future leaves a request half way; tracing; the memory
  layout of buffers; \<open>Display\<close> and \<open>Debug\<close>; the text of the errors of the Node binding, which is built by
  \<open>serde_json\<close>; printing and argument parsing of the command line tool; re-exports, build scripts, examples,
  benchmarks and tests; the TypeScript facade, apart from the accessor that reads packed columns.
\<close>

end
